(* ===== verification/Prelude.thy ===== *)
theory Prelude
  imports Main "HOL-Library.AList"
begin

section \<open>Prelude: results, state with exceptions, ordered dictionaries\<close>

text \<open>
  What the component theories share.  A Python function that may raise is a function into
  \<open>'e + 'a\<close> (\<open>Inl\<close> is the exception); a method that also changes the host's state
  is a function of type \<open>('s, 'e, 'a) sx\<close>, which hands the state on whether it returns or
  raises, as Python does (what was written before a raise stays written).  A Python
  \<open>dict\<close> is an association list with the insertion order Python keeps; assignment is
  \<open>AList.update\<close>, which replaces in place and appends a new key.

  The collections: \<open>result_simps\<close> for the error sum, \<open>dict_simps\<close> for dictionaries.
\<close>

named_theorems result_simps
named_theorems dict_simps

subsection \<open>Results: a value or an exception\<close>

definition bind_result :: "'e + 'a \<Rightarrow> ('a \<Rightarrow> 'e + 'b) \<Rightarrow> 'e + 'b" where
  "bind_result m f = (case m of Inl e \<Rightarrow> Inl e | Inr x \<Rightarrow> f x)"

lemma bind_result_simps [simp, result_simps]:
  "bind_result (Inl e) f = Inl e"
  "bind_result (Inr x) f = f x"
  by (simp_all add: bind_result_def)

lemma bind_result_Inr_iff [result_simps]:
  "bind_result m f = Inr y \<longleftrightarrow> (\<exists>x. m = Inr x \<and> f x = Inr y)"
  by (cases m) auto

lemma bind_result_assoc:
  "bind_result (bind_result m f) g = bind_result m (\<lambda>x. bind_result (f x) g)"
  by (cases m) auto

lemma bind_result_cong [fundef_cong]:
  assumes "m = n" and "\<And>x. n = Inr x \<Longrightarrow> f x = g x"
  shows "bind_result m f = bind_result n g"
  using assms by (cases m) auto

definition is_ok :: "'e + 'a \<Rightarrow> bool" where
  "is_ok m = (case m of Inl _ \<Rightarrow> False | Inr _ \<Rightarrow> True)"

lemma is_ok_simps [simp, result_simps]: "\<not> is_ok (Inl e)" "is_ok (Inr x)"
  by (simp_all add: is_ok_def)

text \<open>A left fold that stops at the first exception, as a \<open>for\<close> loop does.\<close>

primrec fold_result :: "('a \<Rightarrow> 'x \<Rightarrow> 'e + 'a) \<Rightarrow> 'a \<Rightarrow> 'x list \<Rightarrow> 'e + 'a" where
  "fold_result f a [] = Inr a"
| "fold_result f a (x # xs) = bind_result (f a x) (\<lambda>b. fold_result f b xs)"

lemma fold_result_append:
  "fold_result f a (xs @ ys) = bind_result (fold_result f a xs) (\<lambda>b. fold_result f b ys)"
  by (induction xs arbitrary: a) (simp_all add: bind_result_assoc)

lemma fold_result_snoc:
  "fold_result f a (xs @ [x]) = bind_result (fold_result f a xs) (\<lambda>b. f b x)"
proof -
  have "bind_result (f b x) Inr = f b x" for b by (cases "f b x") auto
  then show ?thesis by (simp add: fold_result_append)
qed

text \<open>An invariant kept by every step that returns holds of what the fold returns.\<close>

lemma fold_result_invariant:
  assumes "fold_result f a xs = Inr b" and "P a"
    and "\<And>c x d. x \<in> set xs \<Longrightarrow> P c \<Longrightarrow> f c x = Inr d \<Longrightarrow> P d"
  shows "P b"
  using assms
proof (induction xs arbitrary: a)
  case (Cons x xs)
  then show ?case by (auto simp: bind_result_Inr_iff)
qed simp

text \<open>\<open>map\<close> of a fallible function: the first exception wins.\<close>

primrec map_result :: "('x \<Rightarrow> 'e + 'y) \<Rightarrow> 'x list \<Rightarrow> 'e + 'y list" where
  "map_result f [] = Inr []"
| "map_result f (x # xs) =
     bind_result (f x) (\<lambda>y. bind_result (map_result f xs) (\<lambda>ys. Inr (y # ys)))"

lemma map_result_map_Inr:
  "(\<And>x. x \<in> set xs \<Longrightarrow> f (g x) = Inr (h x)) \<Longrightarrow> map_result f (map g xs) = Inr (map h xs)"
  by (induction xs) auto

subsection \<open>State with exceptions\<close>

type_synonym ('s, 'e, 'a) sx = "'s \<Rightarrow> ('e + 'a) \<times> 's"

definition ret :: "'a \<Rightarrow> ('s, 'e, 'a) sx" where
  "ret x = (\<lambda>s. (Inr x, s))"

definition raise :: "'e \<Rightarrow> ('s, 'e, 'a) sx" where
  "raise e = (\<lambda>s. (Inl e, s))"

definition bind :: "('s, 'e, 'a) sx \<Rightarrow> ('a \<Rightarrow> ('s, 'e, 'b) sx) \<Rightarrow> ('s, 'e, 'b) sx" where
  "bind m f = (\<lambda>s. case m s of (Inl e, t) \<Rightarrow> (Inl e, t) | (Inr x, t) \<Rightarrow> f x t)"

text \<open>\<open>try m except e: h e\<close>.\<close>

definition catch :: "('s, 'e, 'a) sx \<Rightarrow> ('e \<Rightarrow> ('s, 'e, 'a) sx) \<Rightarrow> ('s, 'e, 'a) sx" where
  "catch m h = (\<lambda>s. case m s of (Inl e, t) \<Rightarrow> h e t | (Inr x, t) \<Rightarrow> (Inr x, t))"

definition lift :: "'e + 'a \<Rightarrow> ('s, 'e, 'a) sx" where
  "lift r = (\<lambda>s. (r, s))"

definition gets :: "('s \<Rightarrow> 'a) \<Rightarrow> ('s, 'e, 'a) sx" where
  "gets f = (\<lambda>s. (Inr (f s), s))"

definition modify :: "('s \<Rightarrow> 's) \<Rightarrow> ('s, 'e, unit) sx" where
  "modify f = (\<lambda>s. (Inr (), f s))"

definition andthen :: "('s, 'e, 'a) sx \<Rightarrow> ('s, 'e, 'b) sx \<Rightarrow> ('s, 'e, 'b) sx" where
  "andthen m n = bind m (\<lambda>_. n)"

named_theorems sx_simps

lemma sx_apply [sx_simps]:
  "ret x s = (Inr x, s)"
  "raise e s = (Inl e, s)"
  "lift r s = (r, s)"
  "gets f s = (Inr (f s), s)"
  "modify g s = (Inr (), g s)"
  by (simp_all add: ret_def raise_def lift_def gets_def modify_def)

lemma bind_apply:
  "bind m f s = (case m s of (Inl e, t) \<Rightarrow> (Inl e, t) | (Inr x, t) \<Rightarrow> f x t)"
  by (simp add: bind_def)

lemma bind_Inr [sx_simps]: "m s = (Inr x, t) \<Longrightarrow> bind m f s = f x t"
  and bind_Inl [sx_simps]: "m s = (Inl e, t) \<Longrightarrow> bind m f s = (Inl e, t)"
  and andthen_Inr [sx_simps]: "m s = (Inr x, t) \<Longrightarrow> andthen m n s = n t"
  and andthen_Inl [sx_simps]: "m s = (Inl e, t) \<Longrightarrow> andthen m n s = (Inl e, t)"
  and catch_Inr [sx_simps]: "m s = (Inr x, t) \<Longrightarrow> catch m h s = (Inr x, t)"
  and catch_Inl [sx_simps]: "m s = (Inl e, t) \<Longrightarrow> catch m h s = h e t"
  by (simp_all add: bind_def andthen_def catch_def)

lemma bind_eq_Inr_iff:
  "bind m f s = (Inr y, u) \<longleftrightarrow> (\<exists>x t. m s = (Inr x, t) \<and> f x t = (Inr y, u))"
  by (auto simp: bind_def split: prod.splits sum.splits)

lemma andthen_eq_Inr_iff:
  "andthen m n s = (Inr y, u) \<longleftrightarrow> (\<exists>x t. m s = (Inr x, t) \<and> n t = (Inr y, u))"
  by (auto simp: andthen_def bind_eq_Inr_iff)

text \<open>
  Hoare-style rules: \<open>keeps P m\<close> says that \<open>m\<close> preserves \<open>P\<close> whether it returns
  or raises, which is what an invariant of the host has to survive.
\<close>

definition keeps :: "('s \<Rightarrow> bool) \<Rightarrow> ('s, 'e, 'a) sx \<Rightarrow> bool" where
  "keeps P m \<longleftrightarrow> (\<forall>s. P s \<longrightarrow> P (snd (m s)))"

named_theorems keeps_intros

lemma keepsI: "(\<And>s. P s \<Longrightarrow> P (snd (m s))) \<Longrightarrow> keeps P m"
  by (simp add: keeps_def)

lemma keepsD: "keeps P m \<Longrightarrow> P s \<Longrightarrow> P (snd (m s))"
  by (simp add: keeps_def)

lemma keeps_pure [keeps_intros]:
  "keeps P (ret x)" "keeps P (raise e)" "keeps P (lift r)" "keeps P (gets f)"
  by (simp_all add: keeps_def sx_apply)

lemma keeps_modify: "(\<And>s. P s \<Longrightarrow> P (f s)) \<Longrightarrow> keeps P (modify f)"
  by (simp add: keeps_def sx_apply)

lemma keeps_bind [keeps_intros]:
  "keeps P m \<Longrightarrow> (\<And>x. keeps P (f x)) \<Longrightarrow> keeps P (bind m f)"
  unfolding keeps_def bind_def by (auto split: prod.splits sum.splits)

lemma keeps_andthen [keeps_intros]: "keeps P m \<Longrightarrow> keeps P n \<Longrightarrow> keeps P (andthen m n)"
  unfolding andthen_def by (intro keeps_bind) auto

lemma keeps_catch [keeps_intros]:
  "keeps P m \<Longrightarrow> (\<And>e. keeps P (h e)) \<Longrightarrow> keeps P (catch m h)"
  unfolding keeps_def catch_def by (auto split: prod.splits sum.splits)

lemma keeps_if [keeps_intros]:
  "(b \<Longrightarrow> keeps P m) \<Longrightarrow> (\<not> b \<Longrightarrow> keeps P n) \<Longrightarrow> keeps P (if b then m else n)"
  by simp

lemma keeps_case_option [keeps_intros]:
  "(x = None \<Longrightarrow> keeps P m) \<Longrightarrow> (\<And>y. x = Some y \<Longrightarrow> keeps P (f y)) \<Longrightarrow>
   keeps P (case x of None \<Rightarrow> m | Some y \<Rightarrow> f y)"
  by (cases x) auto

lemma keeps_Let [keeps_intros]: "keeps P (f x) \<Longrightarrow> keeps P (let y = x in f y)"
  by simp

text \<open>
  \<open>triple P m Q E\<close>: from a state with \<open>P\<close>, if \<open>m\<close> returns \<open>x\<close> then \<open>Q x\<close> holds of
  the state after, and if it raises \<open>e\<close> then \<open>E e\<close> does.
\<close>

definition triple ::
  "('s \<Rightarrow> bool) \<Rightarrow> ('s, 'e, 'a) sx \<Rightarrow> ('a \<Rightarrow> 's \<Rightarrow> bool) \<Rightarrow> ('e \<Rightarrow> 's \<Rightarrow> bool) \<Rightarrow> bool" where
  "triple P m Q E \<longleftrightarrow> (\<forall>s. P s \<longrightarrow> (case m s of (Inr x, t) \<Rightarrow> Q x t | (Inl e, t) \<Rightarrow> E e t))"

lemma tripleD:
  "triple P m Q E \<Longrightarrow> P s \<Longrightarrow> m s = (Inr x, t) \<Longrightarrow> Q x t"
  "triple P m Q E \<Longrightarrow> P s \<Longrightarrow> m s = (Inl e, t) \<Longrightarrow> E e t"
  by (auto simp: triple_def)

lemma tripleI:
  "(\<And>s x t. P s \<Longrightarrow> m s = (Inr x, t) \<Longrightarrow> Q x t) \<Longrightarrow> (\<And>s e t. P s \<Longrightarrow> m s = (Inl e, t) \<Longrightarrow> E e t) \<Longrightarrow> triple P m Q E"
  by (auto simp: triple_def split: prod.splits sum.splits)

lemma triple_weaken:
  "triple P' m Q' E' \<Longrightarrow> (\<And>s. P s \<Longrightarrow> P' s) \<Longrightarrow> (\<And>x s. Q' x s \<Longrightarrow> Q x s) \<Longrightarrow> (\<And>e s. E' e s \<Longrightarrow> E e s) \<Longrightarrow> triple P m Q E"
  by (fastforce simp: triple_def split: prod.splits sum.splits)

lemma triple_keeps: "keeps P m \<Longrightarrow> triple P m (\<lambda>_. P) (\<lambda>_. P)"
  by (force simp: triple_def keeps_def split: prod.splits sum.splits)

lemma triple_ret: "(\<And>s. P s \<Longrightarrow> Q x s) \<Longrightarrow> triple P (ret x) Q E"
  by (simp add: triple_def sx_apply)

lemma triple_raise: "(\<And>s. P s \<Longrightarrow> E e s) \<Longrightarrow> triple P (raise e) Q E"
  by (simp add: triple_def sx_apply)

lemma triple_lift: "(\<And>s x. P s \<Longrightarrow> r = Inr x \<Longrightarrow> Q x s) \<Longrightarrow> (\<And>s e. P s \<Longrightarrow> r = Inl e \<Longrightarrow> E e s) \<Longrightarrow> triple P (lift r) Q E"
  by (auto simp: triple_def sx_apply split: sum.splits)

lemma triple_modify: "(\<And>s. P s \<Longrightarrow> Q () (f s)) \<Longrightarrow> triple P (modify f) Q E"
  by (simp add: triple_def sx_apply)

lemma triple_gets: "(\<And>s. P s \<Longrightarrow> Q (f s) s) \<Longrightarrow> triple P (gets f) Q E"
  by (simp add: triple_def sx_apply)

lemma triple_bind: "triple P m Q E \<Longrightarrow> (\<And>x. triple (Q x) (f x) Q' E) \<Longrightarrow> triple P (bind m f) Q' E"
  by (fastforce simp: triple_def bind_def split: prod.splits sum.splits)

lemma triple_andthen: "triple P m (\<lambda>_. Q) E \<Longrightarrow> triple Q n Q' E \<Longrightarrow> triple P (andthen m n) Q' E"
  unfolding andthen_def by (rule triple_bind)

lemma triple_catch: "triple P m Q E' \<Longrightarrow> (\<And>e. triple (E' e) (h e) Q E) \<Longrightarrow> triple P (catch m h) Q E"
  by (fastforce simp: triple_def catch_def split: prod.splits sum.splits)

lemma triple_pre: "(\<And>s. P s \<Longrightarrow> c) \<Longrightarrow> (c \<Longrightarrow> triple P m Q E) \<Longrightarrow> triple P m Q E"
  by (auto simp: triple_def)

subsection \<open>Dictionaries in insertion order\<close>

type_synonym ('k, 'v) dict = "('k \<times> 'v) list"

definition dict_merge :: "('k, 'v) dict \<Rightarrow> ('k, 'v) dict \<Rightarrow> ('k, 'v) dict" where
  "dict_merge a b = foldl (\<lambda>d (k, v). AList.update k v d) a b"

definition dict_setdefault :: "'k \<Rightarrow> 'v \<Rightarrow> ('k, 'v) dict \<Rightarrow> ('k, 'v) dict" where
  "dict_setdefault k v d = (if map_of d k = None then AList.update k v d else d)"

lemma map_of_update [simp, dict_simps]:
  "map_of (AList.update k v d) k' = (if k' = k then Some v else map_of d k')"
  by (simp add: update_conv')

lemma map_of_dict_merge [simp, dict_simps]:
  "map_of (dict_merge a b) k = (case map_of (rev b) k of None \<Rightarrow> map_of a k | Some v \<Rightarrow> Some v)"
proof (induction b arbitrary: a)
  case (Cons p b)
  obtain k' v where p: "p = (k', v)" by (cases p)
  have "map_of (dict_merge a (p # b)) k = map_of (dict_merge (AList.update k' v a) b) k"
    by (simp add: dict_merge_def p)
  also have "\<dots> = (case map_of (rev b) k of None \<Rightarrow> map_of (AList.update k' v a) k | Some v \<Rightarrow> Some v)"
    by (rule Cons.IH)
  finally show ?case by (auto simp: p map_add_def split: option.splits)
qed (simp add: dict_merge_def)

lemma map_of_dict_setdefault [simp, dict_simps]:
  "map_of (dict_setdefault k v d) k' =
     (if k' = k then Some (case map_of d k of None \<Rightarrow> v | Some w \<Rightarrow> w) else map_of d k')"
  by (auto simp: dict_setdefault_def split: option.splits)

lemma map_of_delete [simp, dict_simps]:
  "map_of (AList.delete k d) k' = (if k' = k then None else map_of d k')"
  by (simp add: delete_conv')

text \<open>Python's \<open>dict.fromkeys\<close>: each key once, where it first appears.\<close>

definition once :: "'a list \<Rightarrow> 'a list" where
  "once xs = rev (remdups (rev xs))"

lemma set_once [simp]: "set (once xs) = set xs"
  by (simp add: once_def)

lemma distinct_once [simp]: "distinct (once xs)"
  by (simp add: once_def)

subsection \<open>Lists\<close>

text \<open>Python's \<open>next(iterator, None)\<close> over a filtered list is \<open>List.find\<close>.\<close>

lemma find_Some_in_set: "List.find P xs = Some x \<Longrightarrow> x \<in> set xs \<and> P x"
  by (induction xs) (auto split: if_splits)

lemma find_None_iff_ex: "List.find P xs = None \<longleftrightarrow> (\<forall>x\<in>set xs. \<not> P x)"
  by (induction xs) auto

lemma sorted_wrt_snoc:
  "sorted_wrt P (xs @ [x]) \<longleftrightarrow> sorted_wrt P xs \<and> (\<forall>y\<in>set xs. P y x)"
  by (simp add: sorted_wrt_append)

end
