(* ===== verification/PyValues.thy ===== *)
theory PyValues
  imports Complex_Main Prelude
begin

section \<open>Python values: numbers, JSON, equality, truth, exceptions\<close>

text \<open>
  The payload of a Track event is \<open>Mapping[str, Any]\<close>: whatever JSON a worker, a client
  or an older engine put there.  The development keeps it at that generality, as the datatype
  \<open>pyval\<close>, with the parts of the language the sources apply to such a value: \<open>==\<close>
  (\<open>py_eq\<close>, numbers across \<open>bool\<close>, \<open>int\<close> and \<open>float\<close>, dictionaries whatever their
  order), truth (\<open>py_truthy\<close>), hashability (a list or a dict as a set member or a key is a
  \<open>TypeError\<close>), \<open>dict.get\<close> (\<open>py_get\<close>), and \<open>str\<close> of an \<open>int\<close>
  (\<open>show_int\<close>).  \<open>POther\<close> stands for a Python object that is not JSON (a \<open>set\<close>, say)
  that an in-process worker may return as a payload.

  A \<open>float\<close> is a finite double, exactly, or one of the three others; \<open>round_double\<close> is
  IEEE rounding to nearest, ties to even, at 53 bits (negative zero is not told from zero).
  Characters of a \<open>string\<close> are the code points below 256.

  JSON text is represented by the value it renders (\<open>json.loads\<close> after \<open>json.dumps\<close>
  gives it back), with its length in bytes, \<open>json_len\<close>; how long CPython's shortest
  rendering of a \<open>float\<close> is, is a parameter.
\<close>

subsection \<open>Floating point\<close>

datatype pyfloat = Fin rat | PosInf | NegInf | NaN

function bits :: "int \<Rightarrow> int" where
  "bits n = (if n \<le> 0 then 0 else 1 + bits (n div 2))"
  by pat_completeness auto
termination
  by (relation "measure nat") auto

declare bits.simps [simp del]

text \<open>\<open>rpow2 e\<close> is two to the integer power \<open>e\<close>.\<close>

definition rpow2 :: "int \<Rightarrow> rat" where
  "rpow2 e = (if 0 \<le> e then 2 ^ nat e else inverse (2 ^ nat (- e)))"

definition half_even :: "rat \<Rightarrow> int" where
  "half_even q =
     (let f = floor q; r = q - of_int f
      in if r < 1 / 2 then f else if 1 / 2 < r then f + 1 else if even f then f else f + 1)"

text \<open>The exponent of the last of 53 significant bits of a positive rational, at least -1074.\<close>

definition ulp_exp :: "rat \<Rightarrow> int" where
  "ulp_exp q =
     (let (n, d) = quotient_of q;
          e = bits n - bits d - 53;
          e' = (if 2 ^ 53 \<le> q / rpow2 e then e + 1 else e)
      in max e' (- 1074))"

definition round_double :: "rat \<Rightarrow> pyfloat" where
  "round_double q =
     (if q = 0 then Fin 0
      else let a = \<bar>q\<bar>; e = ulp_exp a; r = of_int (half_even (a / rpow2 e)) * rpow2 e
           in if rpow2 1024 \<le> r then (if 0 < q then PosInf else NegInf)
              else Fin (if 0 < q then r else - r))"

fun fadd :: "pyfloat \<Rightarrow> pyfloat \<Rightarrow> pyfloat" where
  "fadd (Fin a) (Fin b) = round_double (a + b)"
| "fadd NaN _ = NaN"
| "fadd _ NaN = NaN"
| "fadd PosInf NegInf = NaN"
| "fadd NegInf PosInf = NaN"
| "fadd PosInf _ = PosInf"
| "fadd _ PosInf = PosInf"
| "fadd NegInf _ = NegInf"
| "fadd _ NegInf = NegInf"

text \<open>\<open>a >= b\<close> of two floats; every comparison with a NaN is false.\<close>

fun fge :: "pyfloat \<Rightarrow> pyfloat \<Rightarrow> bool" where
  "fge (Fin a) (Fin b) = (b \<le> a)"
| "fge NaN _ = False"
| "fge _ NaN = False"
| "fge PosInf _ = True"
| "fge _ PosInf = False"
| "fge _ NegInf = True"
| "fge NegInf _ = False"

fun feq :: "pyfloat \<Rightarrow> pyfloat \<Rightarrow> bool" where
  "feq (Fin a) (Fin b) = (a = b)"
| "feq PosInf PosInf = True"
| "feq NegInf NegInf = True"
| "feq _ _ = False"

definition is_finite :: "pyfloat \<Rightarrow> bool" where
  "is_finite f = (case f of Fin _ \<Rightarrow> True | _ \<Rightarrow> False)"

subsection \<open>Values\<close>

datatype pyval =
    PNone
  | PBool bool
  | PInt int
  | PFloat pyfloat
  | PStr string
  | PList "pyval list"
  | PDict "(string \<times> pyval) list"
  | POther string

type_synonym payload = "(string, pyval) dict"

text \<open>\<open>payload.get(key)\<close> and \<open>payload.get(key, default)\<close>.\<close>

definition py_get_default :: "payload \<Rightarrow> string \<Rightarrow> pyval \<Rightarrow> pyval" where
  "py_get_default d k x = (case map_of d k of None \<Rightarrow> x | Some v \<Rightarrow> v)"

definition py_get :: "payload \<Rightarrow> string \<Rightarrow> pyval" where
  "py_get d k = py_get_default d k PNone"

lemmas py_get_simps [simp, dict_simps] = py_get_def py_get_default_def

text \<open>A number, exactly: Python compares \<open>bool\<close>, \<open>int\<close> and \<open>float\<close> by value.\<close>

fun num_of :: "pyval \<Rightarrow> pyfloat option" where
  "num_of (PBool b) = Some (Fin (if b then 1 else 0))"
| "num_of (PInt n) = Some (Fin (of_int n))"
| "num_of (PFloat f) = Some f"
| "num_of _ = None"

definition num_eq :: "pyfloat \<Rightarrow> pyval \<Rightarrow> bool" where
  "num_eq x v = (case num_of v of None \<Rightarrow> False | Some y \<Rightarrow> feq x y)"

fun py_eq :: "pyval \<Rightarrow> pyval \<Rightarrow> bool"
  and py_eq_list :: "pyval list \<Rightarrow> pyval list \<Rightarrow> bool"
  and py_eq_dict :: "(string \<times> pyval) list \<Rightarrow> (string \<times> pyval) list \<Rightarrow> bool"
where
  "py_eq PNone b = (b = PNone)"
| "py_eq (PBool x) b = num_eq (Fin (if x then 1 else 0)) b"
| "py_eq (PInt n) b = num_eq (Fin (of_int n)) b"
| "py_eq (PFloat f) b = num_eq f b"
| "py_eq (PStr s) b = (b = PStr s)"
| "py_eq (PList xs) b = (case b of PList ys \<Rightarrow> py_eq_list xs ys | _ \<Rightarrow> False)"
| "py_eq (PDict d) b =
     (case b of PDict e \<Rightarrow> length d = length e \<and> py_eq_dict d e | _ \<Rightarrow> False)"
| "py_eq (POther t) b = (b = POther t)"
| "py_eq_list [] ys = (ys = [])"
| "py_eq_list (x # xs) ys =
     (case ys of [] \<Rightarrow> False | y # ys' \<Rightarrow> py_eq x y \<and> py_eq_list xs ys')"
| "py_eq_dict [] e = True"
| "py_eq_dict ((k, v) # d) e =
     ((case map_of e k of None \<Rightarrow> False | Some w \<Rightarrow> py_eq v w) \<and> py_eq_dict d e)"

fun py_truthy :: "pyval \<Rightarrow> bool" where
  "py_truthy PNone = False"
| "py_truthy (PBool b) = b"
| "py_truthy (PInt n) = (n \<noteq> 0)"
| "py_truthy (PFloat f) = (\<not> feq f (Fin 0))"
| "py_truthy (PStr s) = (s \<noteq> [])"
| "py_truthy (PList xs) = (xs \<noteq> [])"
| "py_truthy (PDict d) = (d \<noteq> [])"
| "py_truthy (POther t) = True"

fun hashable :: "pyval \<Rightarrow> bool" where
  "hashable (PList _) = False"
| "hashable (PDict _) = False"
| "hashable (POther _) = False"
| "hashable _ = True"

lemma py_eq_PStr [simp]: "py_eq v (PStr s) \<longleftrightarrow> v = PStr s"
  by (cases v) (auto simp: num_eq_def)

lemma py_eq_PNone [simp]: "py_eq v PNone \<longleftrightarrow> v = PNone"
  by (cases v) (auto simp: num_eq_def)

text \<open>The annotation \<open>str | None\<close>, as a value.\<close>

definition opt_str :: "string option \<Rightarrow> pyval" where
  "opt_str s = (case s of None \<Rightarrow> PNone | Some t \<Rightarrow> PStr t)"

lemma opt_str_simps [simp]: "opt_str None = PNone" "opt_str (Some t) = PStr t"
  by (simp_all add: opt_str_def)

lemma py_eq_opt_str [simp]:
  "py_eq v (opt_str s) \<longleftrightarrow> v = opt_str s" "py_eq (opt_str s) v \<longleftrightarrow> v = opt_str s"
  by (cases s; simp)+

lemma hashable_opt_str [simp]: "hashable (opt_str s)"
  by (cases s) simp_all

lemma opt_str_inject [simp]: "opt_str s = opt_str t \<longleftrightarrow> s = t"
  by (cases s; cases t) simp_all

lemma opt_str_neq_collections [simp]:
  "opt_str s \<noteq> PList xs" "opt_str s \<noteq> PDict d" "opt_str s \<noteq> PInt n" "opt_str s \<noteq> PBool b"
  by (cases s; simp)+

subsection \<open>Integers as text\<close>

fun show_nat :: "nat \<Rightarrow> string" where
  "show_nat n = (if n < 10 then [char_of (48 + n)] else show_nat (n div 10) @ [char_of (48 + n mod 10)])"

declare show_nat.simps [simp del]

definition show_int :: "int \<Rightarrow> string" where
  "show_int n = (if n < 0 then CHR ''-'' # show_nat (nat (- n)) else show_nat (nat n))"

definition digits_val :: "string \<Rightarrow> nat" where
  "digits_val s = foldl (\<lambda>a c. 10 * a + (of_char c - 48)) 0 s"

lemma of_char_digit: "d < 10 \<Longrightarrow> (of_char (char_of (48 + d) :: char) :: nat) = 48 + d"
  by simp

lemma digits_val_show_nat: "digits_val (show_nat n) = n"
proof (induction n rule: show_nat.induct)
  case (1 n)
  show ?case
  proof (cases "n < 10")
    case True
    then show ?thesis by (subst show_nat.simps) (simp add: digits_val_def of_char_digit)
  next
    case False
    with "1.IH" have "foldl (\<lambda>a c. 10 * a + (of_char c - 48)) 0 (show_nat (n div 10)) = n div 10"
      by (simp add: digits_val_def)
    with False show ?thesis
      by (subst show_nat.simps) (simp add: digits_val_def of_char_digit)
  qed
qed

lemma inj_show_nat: "show_nat m = show_nat n \<longleftrightarrow> m = n"
  by (metis digits_val_show_nat)

lemma show_nat_digits: "c \<in> set (show_nat n) \<Longrightarrow> 48 \<le> (of_char c :: nat) \<and> (of_char c :: nat) < 58"
proof (induction n rule: show_nat.induct)
  case (1 n)
  show ?case
  proof (cases "n < 10")
    case True
    with "1.prems" show ?thesis by (simp add: show_nat.simps [of n] of_char_digit)
  next
    case False
    with "1.prems" have "c \<in> set (show_nat (n div 10)) \<or> c = char_of (48 + n mod 10)"
      by (auto simp: show_nat.simps [of n])
    with "1.IH" False show ?thesis by (auto simp: of_char_digit)
  qed
qed

lemma show_nat_no_colon: "CHR '':'' \<notin> set (show_nat n)"
  using show_nat_digits [of "CHR '':''" n] by auto

lemma show_nat_not_minus: "show_nat n \<noteq> CHR ''-'' # s"
proof
  assume "show_nat n = CHR ''-'' # s"
  then have "CHR ''-'' \<in> set (show_nat n)" by simp
  from show_nat_digits [OF this] show False by simp
qed

lemma inj_show_int: "show_int m = show_int n \<longleftrightarrow> m = n"
  using show_nat_not_minus by (auto simp: show_int_def inj_show_nat split: if_splits) metis+

lemma show_int_no_colon: "CHR '':'' \<notin> set (show_int n)"
  by (simp add: show_int_def show_nat_no_colon)

subsection \<open>JSON\<close>

fun is_json :: "pyval \<Rightarrow> bool" where
  "is_json (PList xs) = list_all is_json xs"
| "is_json (PDict d) = list_all (\<lambda>p. is_json (snd p)) d"
| "is_json (POther _) = False"
| "is_json _ = True"

text \<open>The type name in \<open>json.dumps\<close>'s message, of the first value it cannot render.\<close>

fun not_json :: "pyval \<Rightarrow> string option" and not_json_list :: "pyval list \<Rightarrow> string option"
  and not_json_dict :: "(string \<times> pyval) list \<Rightarrow> string option"
where
  "not_json (PList xs) = not_json_list xs"
| "not_json (PDict d) = not_json_dict d"
| "not_json (POther t) = Some t"
| "not_json _ = None"
| "not_json_list [] = None"
| "not_json_list (x # xs) = (case not_json x of Some t \<Rightarrow> Some t | None \<Rightarrow> not_json_list xs)"
| "not_json_dict [] = None"
| "not_json_dict ((k, v) # d) = (case not_json v of Some t \<Rightarrow> Some t | None \<Rightarrow> not_json_dict d)"

lemma not_json_iff:
  "not_json v = None \<longleftrightarrow> is_json v"
  "not_json_list vs = None \<longleftrightarrow> list_all is_json vs"
  "not_json_dict d = None \<longleftrightarrow> list_all (\<lambda>p. is_json (snd p)) d"
  by (induction v and vs and d rule: not_json_not_json_list_not_json_dict.induct)
     (auto split: option.splits)

definition char_json_len :: "char \<Rightarrow> nat" where
  "char_json_len c =
     (if c = CHR 0x22 \<or> c = CHR 0x5C \<or> c = CHR 0x0A \<or> c = CHR 0x0D \<or> c = CHR 0x09
         \<or> c = CHR 0x0C \<or> c = CHR 0x08 then 2
      else if 32 \<le> (of_char c :: nat) \<and> (of_char c :: nat) \<le> 126 then 1 else 6)"

definition str_json_len :: "string \<Rightarrow> nat" where
  "str_json_len s = 2 + sum_list (map char_json_len s)"

text \<open>
  The length of \<open>json.dumps(value)\<close> (default separators, ASCII only, so characters are
  bytes); \<open>float_len\<close> is the length of a rendered float.
\<close>

fun json_len :: "(pyfloat \<Rightarrow> nat) \<Rightarrow> pyval \<Rightarrow> nat" where
  "json_len float_len PNone = 4"
| "json_len float_len (PBool b) = (if b then 4 else 5)"
| "json_len float_len (PInt n) = length (show_int n)"
| "json_len float_len (PFloat f) = float_len f"
| "json_len float_len (PStr s) = str_json_len s"
| "json_len float_len (PList xs) =
     2 + 2 * (length xs - 1) + sum_list (map (json_len float_len) xs)"
| "json_len float_len (PDict d) =
     2 + 2 * (length d - 1) + sum_list (map (\<lambda>p. str_json_len (fst p) + 2 + json_len float_len (snd p)) d)"
| "json_len float_len (POther t) = 0"

text \<open>
  \<open>len(text.encode())\<close>: bytes of UTF-8.
\<close>

definition utf8_len :: "string \<Rightarrow> nat" where
  "utf8_len s = sum_list (map (\<lambda>c. if (of_char c :: nat) < 128 then 1 else 2) s)"

lemma utf8_len_ge: "length s \<le> utf8_len s"
  by (induction s) (auto simp: utf8_len_def)

text \<open>\<open>json.dumps(..., sort_keys=True)\<close>: the value with every dictionary in key order.\<close>

fun char_le :: "string \<Rightarrow> string \<Rightarrow> bool" where
  "char_le [] _ = True"
| "char_le (c # s) [] = False"
| "char_le (c # s) (d # t) =
     (if c = d then char_le s t else (of_char c :: nat) < of_char d)"

fun insert_key :: "string \<times> 'v \<Rightarrow> (string, 'v) dict \<Rightarrow> (string, 'v) dict" where
  "insert_key p [] = [p]"
| "insert_key p (q # d) = (if char_le (fst p) (fst q) then p # q # d else q # insert_key p d)"

fun json_sorted :: "pyval \<Rightarrow> pyval" where
  "json_sorted (PList xs) = PList (map json_sorted xs)"
| "json_sorted (PDict d) = PDict (foldr insert_key (map (\<lambda>p. (fst p, json_sorted (snd p))) d) [])"
| "json_sorted v = v"

text \<open>
  What the sources hash: the JSON text of a value, with the default or the compact separators,
  or plain text.  \<open>sha256(...).hexdigest()\<close> is a parameter over these.
\<close>

datatype hashed = Spaced pyval | Compact pyval | Plain string

subsection \<open>Exceptions\<close>

text \<open>
  One constructor per exception class the sources raise.  \<open>InvalidTransition\<close> and its
  subclasses carry the state's name and the event; a class whose message is later written on
  the Track carries that message; \<open>Raised\<close> is an exception of code outside the sources
  (the executor, a worker), by its class name and its text.
\<close>

datatype exn =
    InvalidTransition string string
  | StaleEscalation string string
  | RunEnded string string
  | UndeclaredTransition
  | ValueError
  | TypeError
  | KeyError
  | LookupError
  | AttributeError
  | OneSubmissionPerRun
  | IntegrityError
  | RunBusy
  | BackendNotImplemented
  | StopIteration
  | UsageUnavailable string
  | EnvelopeInvalid string
  | BudgetExceeded string string
  | RunCancelled string
  | RunUnreadable
  | Raised string string

text \<open>\<open>except InvalidTransition\<close> also catches its subclasses.\<close>

fun is_invalid_transition :: "exn \<Rightarrow> bool" where
  "is_invalid_transition (InvalidTransition _ _) = True"
| "is_invalid_transition (StaleEscalation _ _) = True"
| "is_invalid_transition (RunEnded _ _) = True"
| "is_invalid_transition _ = False"

text \<open>\<open>type(exc).__name__\<close>, and \<open>str(exc)\<close> for the classes that carry their message.\<close>

fun exn_class :: "exn \<Rightarrow> string" where
  "exn_class (InvalidTransition _ _) = ''InvalidTransition''"
| "exn_class (StaleEscalation _ _) = ''StaleEscalation''"
| "exn_class (RunEnded _ _) = ''RunEnded''"
| "exn_class UndeclaredTransition = ''RuntimeError''"
| "exn_class ValueError = ''ValueError''"
| "exn_class TypeError = ''TypeError''"
| "exn_class KeyError = ''KeyError''"
| "exn_class LookupError = ''LookupError''"
| "exn_class AttributeError = ''AttributeError''"
| "exn_class OneSubmissionPerRun = ''OneSubmissionPerRun''"
| "exn_class IntegrityError = ''IntegrityError''"
| "exn_class RunBusy = ''RunBusy''"
| "exn_class BackendNotImplemented = ''BackendNotImplemented''"
| "exn_class StopIteration = ''StopIteration''"
| "exn_class (UsageUnavailable _) = ''UsageUnavailable''"
| "exn_class (EnvelopeInvalid _) = ''EnvelopeInvalid''"
| "exn_class (BudgetExceeded _ _) = ''BudgetExceeded''"
| "exn_class (RunCancelled _) = ''_Cancelled''"
| "exn_class RunUnreadable = ''RunUnreadable''"
| "exn_class (Raised c _) = c"

fun exn_text :: "exn \<Rightarrow> string" where
  "exn_text (UsageUnavailable m) = m"
| "exn_text (EnvelopeInvalid m) = m"
| "exn_text (BudgetExceeded m _) = m"
| "exn_text (RunCancelled m) = m"
| "exn_text (Raised _ m) = m"
| "exn_text _ = []"

text \<open>
  \<open>dict(v)\<close>: a mapping, or an empty sequence.  A list of pairs, which nothing writes where the
  sources call it, is refused here.
\<close>

definition dict_of :: "pyval \<Rightarrow> exn + payload" where
  "dict_of v =
     (case v of
        PDict d \<Rightarrow> Inr d
      | PStr s \<Rightarrow> (if s = [] then Inr [] else Inl ValueError)
      | PList xs \<Rightarrow> (if xs = [] then Inr [] else Inl TypeError)
      | _ \<Rightarrow> Inl TypeError)"

text \<open>\<open>a or b\<close>.\<close>

definition py_or :: "pyval \<Rightarrow> pyval \<Rightarrow> pyval" where
  "py_or a b = (if py_truthy a then a else b)"

end
