(* ===== verification/Machine.thy ===== *)
theory Machine
  imports PyValues
begin

section \<open>The state pattern the four machines share (states/_machine.py)\<close>

text \<open>
  A machine has a context type (the run, the worker, \<dots>), a handler per event, and a table
  of declared transitions, the edges \<open>(source, event, target)\<close> that the \<open>accepts\<close>
  decorators write down.  \<open>Context.dispatch\<close> asks the current state's handler for a
  transition and checks it against the table; a transition the table does not declare is a
  \<open>RuntimeError\<close>.  The locale \<open>machine\<close> is the contract between the handlers and the
  table; its lemmas say that the check in \<open>dispatch\<close> never fires, that a final state is
  never left, and that every run of the machine is a path of the table.
\<close>

datatype trec = Record (rec_type: string) (rec_payload: payload)

type_synonym 'c transition = "'c \<times> trec list"

type_synonym 's edges = "('s \<times> string \<times> 's) list"

text \<open>\<open>Context.dispatch\<close>, of the transition the current state's handler returned.\<close>

definition dispatch ::
  "('c \<Rightarrow> 's) \<Rightarrow> 's edges \<Rightarrow> string \<Rightarrow> 'c \<Rightarrow> exn + 'c transition \<Rightarrow> exn + 'c transition" where
  "dispatch state_of edges event context handled =
     bind_result handled (\<lambda>(after, records).
       if (state_of context, event, state_of after) \<in> set edges then Inr (after, records)
       else Inl UndeclaredTransition)"

text \<open>\<open>Machine.accepts\<close>, \<open>State.final\<close> and \<open>Machine.pairs\<close>, read off the table.\<close>

definition accepts :: "'s edges \<Rightarrow> 's \<Rightarrow> string \<Rightarrow> bool" where
  "accepts edges s event = list_ex (\<lambda>(source, e, target). source = s \<and> e = event) edges"

definition final :: "'s edges \<Rightarrow> 's \<Rightarrow> bool" where
  "final edges s = (\<not> list_ex (\<lambda>(source, e, target). source = s) edges)"

definition pairs :: "'s edges \<Rightarrow> ('s \<times> 's) list" where
  "pairs edges = remdups (map (\<lambda>(source, e, target). (source, target)) edges)"

text \<open>\<open>str.lower\<close> on the ASCII letters, which is all a state's name has.\<close>

definition lower_char :: "char \<Rightarrow> char" where
  "lower_char c =
     (if 65 \<le> (of_char c :: nat) \<and> (of_char c :: nat) \<le> 90 then char_of ((of_char c :: nat) + 32) else c)"

definition lower :: "string \<Rightarrow> string" where
  "lower s = map lower_char s"

text \<open>\<open>Machine.__getitem__\<close>: the state whose wire value, or name, is the text.\<close>

definition by_value :: "('s \<Rightarrow> string) \<Rightarrow> 's list \<Rightarrow> string \<Rightarrow> exn + 's" where
  "by_value name_of states v =
     (case List.find (\<lambda>s. lower (name_of s) = lower v) states of None \<Rightarrow> Inl KeyError | Some s \<Rightarrow> Inr s)"

subsection \<open>Runs of a machine\<close>

text \<open>
  A sequence of events, each through the handler; the records of all of them in order, and the
  first exception ends it.
\<close>

fun run_calls :: "('c \<Rightarrow> 'a \<Rightarrow> exn + 'c transition) \<Rightarrow> 'c \<Rightarrow> 'a list \<Rightarrow> exn + 'c transition" where
  "run_calls step c [] = Inr (c, [])"
| "run_calls step c (a # as) =
     bind_result (step c a) (\<lambda>(c', rs).
       bind_result (run_calls step c' as) (\<lambda>(c'', rs'). Inr (c'', rs @ rs')))"

text \<open>The contexts a machine can reach from one, by any calls.\<close>

inductive reaches :: "('c \<Rightarrow> 'a \<Rightarrow> exn + 'c transition) \<Rightarrow> 'c \<Rightarrow> 'c \<Rightarrow> bool"
  for step :: "'c \<Rightarrow> 'a \<Rightarrow> exn + 'c transition" where
  reaches_refl: "reaches step c c"
| reaches_step: "reaches step c d \<Longrightarrow> step d a = Inr (e, rs) \<Longrightarrow> reaches step c e"

lemma reaches_trans: "reaches step d e \<Longrightarrow> reaches step c d \<Longrightarrow> reaches step c e"
  by (induction rule: reaches.induct) (auto intro: reaches.intros)

lemma reaches_one: "step c a = Inr (d, rs) \<Longrightarrow> reaches step c d"
  by (rule reaches_step [OF reaches_refl])

lemma run_calls_reaches: "run_calls step c as = Inr (c', rs) \<Longrightarrow> reaches step c c'"
proof (induction as arbitrary: c rs)
  case (Cons a as)
  then obtain d rs1 rs2 where "step c a = Inr (d, rs1)" "run_calls step d as = Inr (c', rs2)"
    by (auto simp: bind_result_Inr_iff)
  with Cons.IH show ?case
    by (meson reaches_refl reaches_step reaches_trans)
qed (simp add: reaches_refl)

lemma reaches_invariant:
  assumes "reaches step c d" and "P c" and "\<And>d a e rs. P d \<Longrightarrow> step d a = Inr (e, rs) \<Longrightarrow> P e"
  shows "P d"
  using assms by (induction rule: reaches.induct) blast+

subsection \<open>The contract of handlers and table\<close>

locale machine =
  fixes state_of :: "'c \<Rightarrow> 's"
    and edges :: "'s edges"
    and event_of :: "'a \<Rightarrow> string"
    and handler :: "'c \<Rightarrow> 'a \<Rightarrow> exn + 'c transition"
  assumes declared: "handler c a = Inr (c', rs) \<Longrightarrow> (state_of c, event_of a, state_of c') \<in> set edges"
    and no_undeclared: "handler c a \<noteq> Inl UndeclaredTransition"
begin

lemma dispatch_handler: "dispatch state_of edges (event_of a) c (handler c a) = handler c a"
  using declared [of c a] by (cases "handler c a") (auto simp: dispatch_def)

lemma dispatch_declared: "dispatch state_of edges (event_of a) c (handler c a) \<noteq> Inl UndeclaredTransition"
  by (simp add: dispatch_handler no_undeclared)

lemma accepts_if_handled: "handler c a = Inr t \<Longrightarrow> accepts edges (state_of c) (event_of a)"
  using declared [of c a] by (cases t) (force simp: accepts_def list_ex_iff)

lemma final_refuses: "final edges (state_of c) \<Longrightarrow> \<exists>e. handler c a = Inl e"
  using declared [of c a]
  by (cases "handler c a") (force simp: final_def list_ex_iff)+

lemma final_is_stuck:
  assumes "reaches handler c d" and "final edges (state_of c)"
  shows "d = c"
  using assms
proof (induction rule: reaches.induct)
  case (reaches_step c d a e rs)
  then have "d = c" by blast
  with reaches_step final_refuses [of d a] show ?case by auto
qed simp

lemma step_in_pairs: "handler c a = Inr (c', rs) \<Longrightarrow> (state_of c, state_of c') \<in> set (pairs edges)"
  using declared [of c a c' rs] by (force simp: pairs_def)

lemma reaches_path:
  "reaches handler c d \<Longrightarrow> (state_of c, state_of d) \<in> (set (pairs edges))\<^sup>*"
  by (induction rule: reaches.induct) (auto intro: step_in_pairs rtrancl_into_rtrancl)

end

end
