(* ===== verification/InstallMachine.thy ===== *)
theory InstallMachine
  imports Machine
begin

section \<open>A Cog's install on a hub (states/install.py)\<close>

text \<open>
  An install is pinned by its reference and goes from the registry to invokable: fetched, bound
  by a binding that was admitted, checked.  Only an \<open>INVOKABLE\<close> install is materialized.
\<close>

datatype install_state = PUBLISHED | FETCHED | BOUND | INVOKABLE | UNINSTALLED

fun install_state_name :: "install_state \<Rightarrow> string" where
  "install_state_name PUBLISHED = ''PUBLISHED''"
| "install_state_name FETCHED = ''FETCHED''"
| "install_state_name BOUND = ''BOUND''"
| "install_state_name INVOKABLE = ''INVOKABLE''"
| "install_state_name UNINSTALLED = ''UNINSTALLED''"

record cog_install =
  reference :: string
  install_state :: install_state
  binding :: "string option"
  failure :: "string option"

definition new_install :: "string \<Rightarrow> cog_install" where
  "new_install ref = \<lparr>reference = ref, install_state = PUBLISHED, binding = None, failure = None\<rparr>"

datatype install_call =
    Fetch
  | AdmitBinding string
  | RefuseBinding string
  | CheckPassed
  | CheckFailed string string
  | Uninstall

fun install_event :: "install_call \<Rightarrow> string" where
  "install_event Fetch = ''fetch''"
| "install_event (AdmitBinding _) = ''admit_binding''"
| "install_event (RefuseBinding _) = ''refuse_binding''"
| "install_event CheckPassed = ''check_passed''"
| "install_event (CheckFailed _ _) = ''check_failed''"
| "install_event Uninstall = ''uninstall''"

definition install_edges :: "install_state edges" where
  "install_edges =
    [(PUBLISHED, ''fetch'', FETCHED),
     (FETCHED, ''admit_binding'', BOUND),
     (FETCHED, ''refuse_binding'', FETCHED),
     (FETCHED, ''uninstall'', UNINSTALLED),
     (BOUND, ''check_passed'', INVOKABLE),
     (BOUND, ''check_failed'', BOUND),
     (BOUND, ''uninstall'', UNINSTALLED),
     (INVOKABLE, ''uninstall'', UNINSTALLED)]"

definition install_refuse :: "cog_install \<Rightarrow> string \<Rightarrow> exn + 'a" where
  "install_refuse c event = Inl (InvalidTransition (install_state_name (install_state c)) event)"

definition install_fetch :: "cog_install \<Rightarrow> exn + cog_install transition" where
  "install_fetch c =
     (if install_state c = PUBLISHED then
        Inr (c\<lparr>install_state := FETCHED\<rparr>, [Record ''install_fetched'' [(''reference'', PStr (reference c))]])
      else install_refuse c ''fetch'')"

definition install_admit_binding :: "cog_install \<Rightarrow> string \<Rightarrow> exn + cog_install transition" where
  "install_admit_binding c b =
     (if install_state c = FETCHED then
        Inr (c\<lparr>install_state := BOUND, binding := Some b, failure := None\<rparr>,
             [Record ''binding_admitted'' [(''reference'', PStr (reference c)), (''binding'', PStr b)]])
      else install_refuse c ''admit_binding'')"

definition install_refuse_binding :: "cog_install \<Rightarrow> string \<Rightarrow> exn + cog_install transition" where
  "install_refuse_binding c reason =
     (if install_state c = FETCHED then
        Inr (c\<lparr>install_state := FETCHED, failure := Some reason\<rparr>,
             [Record ''binding_refused'' [(''reference'', PStr (reference c)), (''reason'', PStr reason)]])
      else install_refuse c ''refuse_binding'')"

definition install_check_passed :: "cog_install \<Rightarrow> exn + cog_install transition" where
  "install_check_passed c =
     (if install_state c = BOUND then
        Inr (c\<lparr>install_state := INVOKABLE, failure := None\<rparr>,
             [Record ''check_passed'' [(''reference'', PStr (reference c)), (''binding'', opt_str (binding c))]])
      else install_refuse c ''check_passed'')"

definition install_check_failed :: "cog_install \<Rightarrow> string \<Rightarrow> string \<Rightarrow> exn + cog_install transition" where
  "install_check_failed c step reason =
     (if install_state c = BOUND then
        Inr (c\<lparr>install_state := BOUND, failure := Some (step @ '': '' @ reason)\<rparr>,
             [Record ''check_failed''
                [(''reference'', PStr (reference c)), (''step'', PStr step), (''reason'', PStr reason)]])
      else install_refuse c ''check_failed'')"

definition install_uninstall :: "cog_install \<Rightarrow> exn + cog_install transition" where
  "install_uninstall c =
     (if install_state c \<in> {FETCHED, BOUND, INVOKABLE} then
        Inr (c\<lparr>install_state := UNINSTALLED\<rparr>, [Record ''uninstalled'' [(''reference'', PStr (reference c))]])
      else install_refuse c ''uninstall'')"

fun install_handler :: "cog_install \<Rightarrow> install_call \<Rightarrow> exn + cog_install transition" where
  "install_handler c Fetch = install_fetch c"
| "install_handler c (AdmitBinding b) = install_admit_binding c b"
| "install_handler c (RefuseBinding reason) = install_refuse_binding c reason"
| "install_handler c CheckPassed = install_check_passed c"
| "install_handler c (CheckFailed step reason) = install_check_failed c step reason"
| "install_handler c Uninstall = install_uninstall c"

text \<open>\<open>CogInstall.require_invokable\<close>.\<close>

definition require_invokable :: "cog_install \<Rightarrow> exn + unit" where
  "require_invokable c =
     (if install_state c \<noteq> INVOKABLE then install_refuse c ''materialize'' else Inr ())"

lemmas install_handler_defs =
  install_fetch_def install_admit_binding_def install_refuse_binding_def install_check_passed_def
  install_check_failed_def install_uninstall_def install_refuse_def

interpretation installs: machine install_state install_edges install_event install_handler
proof
  fix c call c' rs
  show "install_handler c call = Inr (c', rs) \<Longrightarrow>
      (install_state c, install_event call, install_state c') \<in> set install_edges"
    by (cases call) (auto simp: install_handler_defs install_edges_def split: if_splits)
  show "install_handler c call \<noteq> Inl UndeclaredTransition"
    by (cases call) (auto simp: install_handler_defs)
qed

text \<open>
  What an install that can run has behind it: a binding, and no failure standing.  A failure
  is only ever recorded in a state from which the hub may still mend the install.
\<close>

definition install_inv :: "cog_install \<Rightarrow> bool" where
  "install_inv c \<longleftrightarrow>
     (install_state c \<in> {BOUND, INVOKABLE} \<longrightarrow> binding c \<noteq> None) \<and>
     (install_state c = PUBLISHED \<longrightarrow> binding c = None \<and> failure c = None) \<and>
     (install_state c = INVOKABLE \<longrightarrow> failure c = None)"

lemma install_inv_step: "install_inv c \<Longrightarrow> install_handler c call = Inr (c', rs) \<Longrightarrow> install_inv c'"
  by (cases call) (auto simp: install_handler_defs install_inv_def split: if_splits)

lemma install_reference_step: "install_handler c call = Inr (c', rs) \<Longrightarrow> reference c' = reference c"
  by (cases call) (auto simp: install_handler_defs split: if_splits)

text \<open>The record every state needs before it: which of the three admissions came first.\<close>

fun install_needs :: "install_state \<Rightarrow> string list" where
  "install_needs PUBLISHED = []"
| "install_needs FETCHED = [''install_fetched'']"
| "install_needs BOUND = [''install_fetched'', ''binding_admitted'']"
| "install_needs INVOKABLE = [''install_fetched'', ''binding_admitted'', ''check_passed'']"
| "install_needs UNINSTALLED = [''install_fetched'']"

definition milestones :: "trec list \<Rightarrow> string list" where
  "milestones recs =
     filter (\<lambda>t. t \<in> {''install_fetched'', ''binding_admitted'', ''check_passed''}) (map rec_type recs)"

lemma milestones_step:
  assumes "install_handler c call = Inr (c', rs)"
  shows "install_state c' = UNINSTALLED \<or> install_needs (install_state c') = install_needs (install_state c) @ milestones rs"
    and "install_state c' = UNINSTALLED \<Longrightarrow> milestones rs = [] \<and> install_state c \<in> {FETCHED, BOUND, INVOKABLE}"
  using assms by (cases call; auto simp: install_handler_defs milestones_def split: if_splits)+

lemma milestones_append: "milestones (rs @ rs') = milestones rs @ milestones rs'"
  by (simp add: milestones_def)

lemma milestones_run:
  assumes "run_calls install_handler c calls = Inr (c', recs)" and "install_state c' \<noteq> UNINSTALLED"
  shows "install_needs (install_state c') = install_needs (install_state c) @ milestones recs"
  using assms
proof (induction calls arbitrary: c recs)
  case (Cons a as)
  then obtain d rs1 rs2 where h: "install_handler c a = Inr (d, rs1)"
    and rest: "run_calls install_handler d as = Inr (c', rs2)" and recs: "recs = rs1 @ rs2"
    by (auto simp: bind_result_Inr_iff)
  have "install_state d \<noteq> UNINSTALLED"
  proof
    assume "install_state d = UNINSTALLED"
    then have "final install_edges (install_state d)" by (simp add: final_def install_edges_def)
    then have "c' = d" by (rule installs.final_is_stuck [OF run_calls_reaches [OF rest]])
    with Cons.prems(2) \<open>install_state d = UNINSTALLED\<close> show False by simp
  qed
  with Cons.IH [OF rest Cons.prems(2)] milestones_step(1) [OF h] recs show ?case
    by (simp add: milestones_append)
qed (simp add: milestones_def)

text \<open>
  C39: a Cog is invokable only after its package was fetched, then a binding admitted, then its
  check passed, each exactly once and in that order; it then holds a binding and no failure.
\<close>

theorem invokable_only_after_checks:
  assumes "run_calls install_handler (new_install ref) calls = Inr (c, recs)"
    and "require_invokable c = Inr ()"
  shows "milestones recs = [''install_fetched'', ''binding_admitted'', ''check_passed'']
       \<and> binding c \<noteq> None \<and> failure c = None \<and> reference c = ref"
proof -
  from assms(2) have s: "install_state c = INVOKABLE"
    by (auto simp: require_invokable_def install_refuse_def split: if_splits)
  note reached = run_calls_reaches [OF assms(1)]
  have "install_inv c"
    using reached by (rule reaches_invariant) (simp add: new_install_def install_inv_def, rule install_inv_step)
  moreover have "reference c = ref"
    using reached by (rule reaches_invariant) (simp_all add: new_install_def install_reference_step)
  ultimately have "install_inv c \<and> reference c = ref" by blast
  with milestones_run [OF assms(1)] s show ?thesis
    by (simp add: new_install_def install_inv_def)
qed

theorem invokable_only_after_checks_witness:
  "milestones (snd (projr (run_calls install_handler (new_install ''cog@1'')
     [Fetch, RefuseBinding ''no model'', AdmitBinding ''b'', CheckFailed ''up'' ''slow'', CheckPassed])))
   = [''install_fetched'', ''binding_admitted'', ''check_passed'']"
  using invokable_only_after_checks [of "''cog@1''"
      "[Fetch, RefuseBinding ''no model'', AdmitBinding ''b'', CheckFailed ''up'' ''slow'', CheckPassed]"]
  by (simp add: install_handler_defs new_install_def require_invokable_def)

end
