(* ===== verification/StepMachine.thy ===== *)
theory StepMachine
  imports Machine
begin

section \<open>A step attempt and its keyed claim (states/step.py)\<close>

text \<open>
  One invocation under one idempotency key.  The claim is reserved before the side effect and
  committed after it; a worker lost in between leaves the outcome unknown, and only a named
  person reconciles it.
\<close>

datatype attempt_state = INVOKED | RESERVED | COMMITTED | OUTCOME_UNKNOWN | RECORDED

fun attempt_state_name :: "attempt_state \<Rightarrow> string" where
  "attempt_state_name INVOKED = ''INVOKED''"
| "attempt_state_name RESERVED = ''RESERVED''"
| "attempt_state_name COMMITTED = ''COMMITTED''"
| "attempt_state_name OUTCOME_UNKNOWN = ''OUTCOME_UNKNOWN''"
| "attempt_state_name RECORDED = ''RECORDED''"

record step_attempt =
  attempt_key :: string
  attempt_state :: attempt_state

definition new_attempt :: "string \<Rightarrow> step_attempt" where
  "new_attempt key = \<lparr>attempt_key = key, attempt_state = INVOKED\<rparr>"

datatype attempt_call = WorkerLost | Reserve | Commit | RecordOutcome | Reconcile "string option"

fun attempt_event :: "attempt_call \<Rightarrow> string" where
  "attempt_event WorkerLost = ''worker_lost''"
| "attempt_event Reserve = ''reserve''"
| "attempt_event Commit = ''commit''"
| "attempt_event RecordOutcome = ''record''"
| "attempt_event (Reconcile _) = ''reconcile''"

definition attempt_edges :: "attempt_state edges" where
  "attempt_edges =
    [(INVOKED, ''worker_lost'', INVOKED),
     (INVOKED, ''reserve'', RESERVED),
     (RESERVED, ''commit'', COMMITTED),
     (RESERVED, ''worker_lost'', OUTCOME_UNKNOWN),
     (COMMITTED, ''record'', RECORDED),
     (OUTCOME_UNKNOWN, ''reconcile'', RECORDED)]"

definition attempt_refuse :: "step_attempt \<Rightarrow> string \<Rightarrow> exn + 'a" where
  "attempt_refuse a event = Inl (InvalidTransition (attempt_state_name (attempt_state a)) event)"

definition attempt_worker_lost :: "step_attempt \<Rightarrow> exn + step_attempt transition" where
  "attempt_worker_lost a =
     (case attempt_state a of
        INVOKED \<Rightarrow> Inr (a\<lparr>attempt_state := INVOKED\<rparr>,
                     [Record ''step_reinvoked'' [(''key'', PStr (attempt_key a))]])
      | RESERVED \<Rightarrow> Inr (a\<lparr>attempt_state := OUTCOME_UNKNOWN\<rparr>,
                     [Record ''outcome_unknown'' [(''key'', PStr (attempt_key a))]])
      | _ \<Rightarrow> attempt_refuse a ''worker_lost'')"

definition attempt_reserve :: "step_attempt \<Rightarrow> exn + step_attempt transition" where
  "attempt_reserve a =
     (case attempt_state a of
        INVOKED \<Rightarrow> Inr (a\<lparr>attempt_state := RESERVED\<rparr>,
                     [Record ''claim_reserved'' [(''key'', PStr (attempt_key a))]])
      | _ \<Rightarrow> attempt_refuse a ''reserve'')"

definition attempt_commit :: "step_attempt \<Rightarrow> exn + step_attempt transition" where
  "attempt_commit a =
     (case attempt_state a of
        RESERVED \<Rightarrow> Inr (a\<lparr>attempt_state := COMMITTED\<rparr>,
                     [Record ''claim_committed'' [(''key'', PStr (attempt_key a))]])
      | _ \<Rightarrow> attempt_refuse a ''commit'')"

definition attempt_record :: "step_attempt \<Rightarrow> exn + step_attempt transition" where
  "attempt_record a =
     (case attempt_state a of
        COMMITTED \<Rightarrow> Inr (a\<lparr>attempt_state := RECORDED\<rparr>, [])
      | _ \<Rightarrow> attempt_refuse a ''record'')"

definition attempt_reconcile :: "step_attempt \<Rightarrow> string option \<Rightarrow> exn + step_attempt transition" where
  "attempt_reconcile a actor =
     (case attempt_state a of
        OUTCOME_UNKNOWN \<Rightarrow>
          (if \<not> py_truthy (opt_str actor) then attempt_refuse a ''reconcile''
           else Inr (a\<lparr>attempt_state := RECORDED\<rparr>,
                  [Record ''outcome_reconciled'' [(''key'', PStr (attempt_key a)), (''actor'', opt_str actor)]]))
      | _ \<Rightarrow> attempt_refuse a ''reconcile'')"

fun attempt_handler :: "step_attempt \<Rightarrow> attempt_call \<Rightarrow> exn + step_attempt transition" where
  "attempt_handler a WorkerLost = attempt_worker_lost a"
| "attempt_handler a Reserve = attempt_reserve a"
| "attempt_handler a Commit = attempt_commit a"
| "attempt_handler a RecordOutcome = attempt_record a"
| "attempt_handler a (Reconcile actor) = attempt_reconcile a actor"

lemmas attempt_handler_defs =
  attempt_worker_lost_def attempt_reserve_def attempt_commit_def attempt_record_def
  attempt_reconcile_def attempt_refuse_def

interpretation attempts: machine attempt_state attempt_edges attempt_event attempt_handler
proof
  fix a call a' rs
  show "attempt_handler a call = Inr (a', rs) \<Longrightarrow>
      (attempt_state a, attempt_event call, attempt_state a') \<in> set attempt_edges"
    by (cases call; cases "attempt_state a")
       (auto simp: attempt_handler_defs attempt_edges_def split: if_splits)
  show "attempt_handler a call \<noteq> Inl UndeclaredTransition"
    by (cases call; cases "attempt_state a") (auto simp: attempt_handler_defs)
qed

text \<open>How many times the side effect was claimed, committed, and answered for, in a history.\<close>

definition count_type :: "string \<Rightarrow> trec list \<Rightarrow> nat" where
  "count_type t recs = length (filter (\<lambda>r. rec_type r = t) recs)"

lemma count_type_append [simp]: "count_type t (rs @ rs') = count_type t rs + count_type t rs'"
  by (simp add: count_type_def)

text \<open>What each state says was done so far: reservations, commits, unknown outcomes, reconciliations.\<close>

fun attempt_done :: "attempt_state \<Rightarrow> (nat \<times> nat \<times> nat \<times> nat) set" where
  "attempt_done INVOKED = {(0, 0, 0, 0)}"
| "attempt_done RESERVED = {(1, 0, 0, 0)}"
| "attempt_done COMMITTED = {(1, 1, 0, 0)}"
| "attempt_done OUTCOME_UNKNOWN = {(1, 0, 1, 0)}"
| "attempt_done RECORDED = {(1, 1, 0, 0), (1, 0, 1, 1)}"

definition done_in :: "trec list \<Rightarrow> nat \<times> nat \<times> nat \<times> nat" where
  "done_in recs = (count_type ''claim_reserved'' recs, count_type ''claim_committed'' recs,
     count_type ''outcome_unknown'' recs, count_type ''outcome_reconciled'' recs)"

lemma attempt_done_step:
  assumes "attempt_handler a call = Inr (a', rs)" and "done_in recs \<in> attempt_done (attempt_state a)"
  shows "done_in (recs @ rs) \<in> attempt_done (attempt_state a')"
  using assms
  by (cases call; cases "attempt_state a")
     (auto simp: attempt_handler_defs done_in_def count_type_def split: if_splits)

lemma attempt_done_run:
  assumes "run_calls attempt_handler a calls = Inr (a', recs')"
    and "done_in recs \<in> attempt_done (attempt_state a)"
  shows "done_in (recs @ recs') \<in> attempt_done (attempt_state a')"
  using assms
proof (induction calls arbitrary: a recs recs')
  case (Cons c cs)
  then obtain b rs1 rs2 where "attempt_handler a c = Inr (b, rs1)"
    "run_calls attempt_handler b cs = Inr (a', rs2)" "recs' = rs1 @ rs2"
    by (auto simp: bind_result_Inr_iff)
  with Cons.IH [of b rs2 "recs @ rs1"] attempt_done_step Cons.prems(2) show ?case
    by (simp add: append_assoc)
qed simp

text \<open>
  Under one key the claim is reserved and committed at most once, a commit excludes an unknown
  outcome, and an attempt that is recorded was either committed or reconciled by a named person.
\<close>

theorem claim_at_most_once:
  assumes "run_calls attempt_handler (new_attempt key) calls = Inr (a, recs)"
  shows "count_type ''claim_reserved'' recs \<le> 1 \<and> count_type ''claim_committed'' recs \<le> 1
       \<and> count_type ''claim_committed'' recs + count_type ''outcome_unknown'' recs \<le> 1
       \<and> (attempt_state a = RECORDED \<longrightarrow>
            count_type ''claim_committed'' recs + count_type ''outcome_reconciled'' recs = 1)"
proof -
  have "done_in ([] @ recs) \<in> attempt_done (attempt_state a)"
    using assms by (rule attempt_done_run) (simp add: done_in_def count_type_def new_attempt_def)
  then show ?thesis by (cases "attempt_state a") (auto simp: done_in_def)
qed

theorem claim_at_most_once_witness:
  "count_type ''claim_reserved'' (snd (projr (run_calls attempt_handler (new_attempt ''k'')
     [WorkerLost, Reserve, WorkerLost, Reconcile (Some ''ada'')]))) \<le> 1"
  using claim_at_most_once [of "''k''" "[WorkerLost, Reserve, WorkerLost, Reconcile (Some ''ada'')]"]
  by (simp add: attempt_handler_defs new_attempt_def)

end
