(* ===== verification/RunMachine.thy ===== *)
theory RunMachine
  imports Machine
begin

section \<open>The run machine (states/run.py)\<close>

text \<open>
  A run's nine states, its nine events and their handlers, and the fold of the machine over a
  Track, \<open>Run.replay\<close>.  A handler reads its arguments as Python does: live they are strings
  or \<open>None\<close>, replayed they are whatever the Track's payload holds, so every argument is a
  \<open>pyval\<close> and the \<open>TypeError\<close>s of unhashable keys and of comparisons are branches.
  The main result is that replay inverts recording: the records a live run wrote, with any
  facts about steps and workers between them, replay to the run that wrote them.
\<close>

subsection \<open>States, contexts, events\<close>

datatype run_state =
    SUBMITTED | RUNNING | WAITING_AT_GATE | COMPLETED | FAILED | REJECTED | CANCELLED
  | BUDGET_EXCEEDED | INTERRUPTED

fun run_state_name :: "run_state \<Rightarrow> string" where
  "run_state_name SUBMITTED = ''SUBMITTED''"
| "run_state_name RUNNING = ''RUNNING''"
| "run_state_name WAITING_AT_GATE = ''WAITING_AT_GATE''"
| "run_state_name COMPLETED = ''COMPLETED''"
| "run_state_name FAILED = ''FAILED''"
| "run_state_name REJECTED = ''REJECTED''"
| "run_state_name CANCELLED = ''CANCELLED''"
| "run_state_name BUDGET_EXCEEDED = ''BUDGET_EXCEEDED''"
| "run_state_name INTERRUPTED = ''INTERRUPTED''"

definition run_states :: "run_state list" where
  "run_states = [SUBMITTED, RUNNING, WAITING_AT_GATE, COMPLETED, FAILED, REJECTED, CANCELLED,
     BUDGET_EXCEEDED, INTERRUPTED]"

definition run_state_value :: "run_state \<Rightarrow> string" where
  "run_state_value s = lower (run_state_name s)"

text \<open>\<open>RunState.ended\<close>: the run has finished, or waits for a retry.\<close>

fun ended :: "run_state \<Rightarrow> bool" where
  "ended SUBMITTED = False"
| "ended RUNNING = False"
| "ended WAITING_AT_GATE = False"
| "ended _ = True"

definition DIMENSIONS :: "string list" where
  "DIMENSIONS = [''duration'', ''tokens'', ''cost'']"

definition DECISIONS :: "string list" where
  "DECISIONS = [''approve'', ''send_back'', ''reject'']"

text \<open>\<open>Run\<close>.  \<open>escalations\<close> counts, per step, how often it escalated.\<close>

record run =
  run_ident :: string
  run_state :: run_state
  open_step :: pyval
  open_escalation :: pyval
  escalations :: "(pyval, int) dict"

definition new_run :: "string \<Rightarrow> run" where
  "new_run i = \<lparr>run_ident = i, run_state = SUBMITTED, open_step = PNone, open_escalation = PNone,
     escalations = []\<rparr>"

text \<open>\<open>run.escalations.get(step, 0)\<close>, and the count put back one higher; keys compare with \<open>==\<close>.\<close>

fun esc_get :: "(pyval, int) dict \<Rightarrow> pyval \<Rightarrow> int" where
  "esc_get [] k = 0"
| "esc_get ((k', n) # d) k = (if py_eq k' k then n else esc_get d k)"

fun esc_put :: "(pyval, int) dict \<Rightarrow> pyval \<Rightarrow> int \<Rightarrow> (pyval, int) dict" where
  "esc_put [] k n = [(k, n)]"
| "esc_put ((k', m) # d) k n = (if py_eq k' k then (k', n) # d else (k', m) # esc_put d k n)"

lemma esc_get_put_PStr [simp]:
  "esc_get (esc_put d (PStr s) n) k = (if k = PStr s then n else esc_get d k)"
  by (induction d) (auto split: if_splits)

text \<open>The calls a run takes: one constructor per event, with its keyword arguments.\<close>

datatype run_call =
    Pickup
  | Escalate pyval pyval pyval payload
      \<comment> \<open>step, reason, escalation, details\<close>
  | Decide pyval pyval pyval pyval pyval pyval
      \<comment> \<open>outcome, escalation, findings, revise limit, actor, envelope digest\<close>
  | Complete
  | Fail pyval pyval pyval payload
      \<comment> \<open>error, step, reason, details\<close>
  | ExhaustBudget pyval pyval pyval
      \<comment> \<open>dimension, step, reason\<close>
  | Cancel pyval
      \<comment> \<open>actor\<close>
  | HostStopped pyval
      \<comment> \<open>backend\<close>
  | Retry

fun run_event :: "run_call \<Rightarrow> string" where
  "run_event Pickup = ''pickup''"
| "run_event (Escalate _ _ _ _) = ''escalate''"
| "run_event (Decide _ _ _ _ _ _) = ''decide''"
| "run_event Complete = ''complete''"
| "run_event (Fail _ _ _ _) = ''fail''"
| "run_event (ExhaustBudget _ _ _) = ''exhaust_budget''"
| "run_event (Cancel _) = ''cancel''"
| "run_event (HostStopped _) = ''host_stopped''"
| "run_event Retry = ''retry''"

text \<open>The transitions the states declare with \<open>accepts\<close>.\<close>

definition run_edges :: "run_state edges" where
  "run_edges =
    [(SUBMITTED, ''pickup'', RUNNING),
     (SUBMITTED, ''cancel'', CANCELLED),
     (RUNNING, ''escalate'', WAITING_AT_GATE),
     (RUNNING, ''complete'', COMPLETED),
     (RUNNING, ''fail'', FAILED),
     (RUNNING, ''exhaust_budget'', BUDGET_EXCEEDED),
     (RUNNING, ''cancel'', CANCELLED),
     (RUNNING, ''host_stopped'', INTERRUPTED),
     (WAITING_AT_GATE, ''decide'', RUNNING),
     (WAITING_AT_GATE, ''decide'', REJECTED),
     (WAITING_AT_GATE, ''decide'', FAILED),
     (WAITING_AT_GATE, ''cancel'', CANCELLED),
     (WAITING_AT_GATE, ''host_stopped'', INTERRUPTED),
     (FAILED, ''retry'', RUNNING),
     (BUDGET_EXCEEDED, ''retry'', RUNNING),
     (INTERRUPTED, ''retry'', RUNNING)]"

subsection \<open>Handlers\<close>

definition run_refuse :: "run \<Rightarrow> string \<Rightarrow> exn + 'a" where
  "run_refuse r event = Inl (InvalidTransition (run_state_name (run_state r)) event)"

text \<open>\<open>value in frozenset(...)\<close>: hashing a list or a dict raises.\<close>

definition in_names :: "pyval \<Rightarrow> string list \<Rightarrow> exn + bool" where
  "in_names v names =
     (if hashable v then Inr (case v of PStr s \<Rightarrow> s \<in> set names | _ \<Rightarrow> False) else Inl TypeError)"

text \<open>\<open>n > limit\<close> for an \<open>int\<close> and a value: only a number compares.\<close>

definition int_gt :: "int \<Rightarrow> pyval \<Rightarrow> exn + bool" where
  "int_gt n v =
     (case num_of v of None \<Rightarrow> Inl TypeError
      | Some f \<Rightarrow> Inr (fge (Fin (of_int n)) f \<and> \<not> feq (Fin (of_int n)) f))"

definition run_pickup :: "run \<Rightarrow> exn + run transition" where
  "run_pickup r =
     (case run_state r of
        SUBMITTED \<Rightarrow> Inr (r\<lparr>run_state := RUNNING\<rparr>, [Record ''run_picked_up'' []])
      | _ \<Rightarrow> run_refuse r ''pickup'')"

definition run_cancel :: "run \<Rightarrow> pyval \<Rightarrow> exn + run transition" where
  "run_cancel r actor =
     (if run_state r \<in> {SUBMITTED, RUNNING, WAITING_AT_GATE} then
        (if \<not> py_truthy actor then run_refuse r ''cancel''
         else Inr (r\<lparr>run_state := CANCELLED, open_step := PNone, open_escalation := PNone\<rparr>,
                   [Record ''cancelled'' [(''actor'', actor)]]))
      else run_refuse r ''cancel'')"

definition run_host_stopped :: "run \<Rightarrow> pyval \<Rightarrow> exn + run transition" where
  "run_host_stopped r backend =
     (if run_state r \<in> {RUNNING, WAITING_AT_GATE} then
        (if \<not> py_eq backend (PStr ''none'') then run_refuse r ''host_stopped''
         else Inr (r\<lparr>run_state := INTERRUPTED\<rparr>, [Record ''interrupted'' [(''backend'', backend)]]))
      else run_refuse r ''host_stopped'')"

definition step_payload :: "pyval \<Rightarrow> payload" where
  "step_payload step = (if step = PNone then [] else [(''step'', step)])"

definition failed_record :: "pyval \<Rightarrow> pyval \<Rightarrow> pyval \<Rightarrow> payload \<Rightarrow> trec" where
  "failed_record step error reason details =
     (let p = AList.update ''error'' error (step_payload step);
          q = (if reason = PNone then p else AList.update ''reason'' reason p)
      in Record ''failed'' (dict_merge q details))"

definition run_escalate :: "run \<Rightarrow> pyval \<Rightarrow> pyval \<Rightarrow> pyval \<Rightarrow> payload \<Rightarrow> exn + run transition" where
  "run_escalate r step reason escalation details =
     (case run_state r of
        RUNNING \<Rightarrow>
          (let p = dict_merge [(''step'', step), (''reason'', reason)] details;
               q = (if escalation = PNone then p else AList.update ''escalation'' escalation p)
           in if \<not> hashable step then Inl TypeError
              else Inr (r\<lparr>run_state := WAITING_AT_GATE, open_step := step, open_escalation := escalation,
                         escalations := esc_put (escalations r) step (esc_get (escalations r) step + 1)\<rparr>,
                        [Record ''gate_escalated'' q]))
      | _ \<Rightarrow> run_refuse r ''escalate'')"

definition run_complete :: "run \<Rightarrow> exn + run transition" where
  "run_complete r =
     (case run_state r of
        RUNNING \<Rightarrow> Inr (r\<lparr>run_state := COMPLETED\<rparr>, [Record ''completed'' []])
      | _ \<Rightarrow> run_refuse r ''complete'')"

definition run_fail :: "run \<Rightarrow> pyval \<Rightarrow> pyval \<Rightarrow> pyval \<Rightarrow> payload \<Rightarrow> exn + run transition" where
  "run_fail r error step reason details =
     (case run_state r of
        RUNNING \<Rightarrow> Inr (r\<lparr>run_state := FAILED\<rparr>, [failed_record step error reason details])
      | _ \<Rightarrow> run_refuse r ''fail'')"

definition run_exhaust_budget :: "run \<Rightarrow> pyval \<Rightarrow> pyval \<Rightarrow> pyval \<Rightarrow> exn + run transition" where
  "run_exhaust_budget r which step reason =
     (case run_state r of
        RUNNING \<Rightarrow>
          bind_result (in_names which DIMENSIONS) (\<lambda>known.
            if \<not> known then run_refuse r ''exhaust_budget''
            else Inr (r\<lparr>run_state := BUDGET_EXCEEDED\<rparr>,
                      [Record ''budget_exceeded''
                         (dict_merge (step_payload step) [(''reason'', reason), (''dimension'', which)])]))
      | _ \<Rightarrow> run_refuse r ''exhaust_budget'')"

text \<open>What a decision record names besides its outcome: the escalation answered, who decided, on what.\<close>

definition answered :: "pyval \<Rightarrow> pyval \<Rightarrow> pyval \<Rightarrow> payload" where
  "answered escalation actor envelope_digest =
     (let a = (if escalation = PNone then [] else [(''escalation'', escalation)]);
          b = (if actor = PNone then a else AList.update ''actor'' actor a)
      in if envelope_digest = PNone then b else AList.update ''envelope_digest'' envelope_digest b)"

definition decided_record :: "pyval \<Rightarrow> pyval \<Rightarrow> pyval \<Rightarrow> payload \<Rightarrow> trec" where
  "decided_record step outcome findings ans =
     Record ''gate_decided''
       (dict_merge [(''step'', step), (''outcome'', outcome), (''value'', findings)] ans)"

text \<open>\<open>move(run, state, ..., open_step=None, open_escalation=None)\<close>: the Gate is answered.\<close>

definition close_gate :: "run \<Rightarrow> run_state \<Rightarrow> run" where
  "close_gate r s = r\<lparr>run_state := s, open_step := PNone, open_escalation := PNone\<rparr>"

lemma close_gate_simps [simp]:
  "run_state (close_gate r s) = s" "run_ident (close_gate r s) = run_ident r"
  "open_step (close_gate r s) = PNone" "open_escalation (close_gate r s) = PNone"
  "escalations (close_gate r s) = escalations r"
  by (simp_all add: close_gate_def)

lemma close_gate_inject [simp]: "close_gate r s = close_gate r t \<longleftrightarrow> s = t"
  by (metis close_gate_simps(1))

definition run_decide ::
  "run \<Rightarrow> pyval \<Rightarrow> pyval \<Rightarrow> pyval \<Rightarrow> pyval \<Rightarrow> pyval \<Rightarrow> pyval \<Rightarrow> exn + run transition" where
  "run_decide r outcome escalation findings limit actor envelope_digest =
     (case run_state r of
        WAITING_AT_GATE \<Rightarrow>
          bind_result (in_names outcome DECISIONS) (\<lambda>known.
            if \<not> known then run_refuse r ''decide''
            else if \<not> py_eq escalation (open_escalation r) then
              Inl (StaleEscalation (run_state_name (run_state r)) ''decide'')
            else
              let step = open_step r; ans = answered escalation actor envelope_digest
              in if outcome = PStr ''reject'' then
                   Inr (close_gate r REJECTED, [decided_record step outcome findings ans])
                 else bind_result
                   (if outcome = PStr ''send_back'' \<and> limit \<noteq> PNone
                    then int_gt (esc_get (escalations r) step) limit else Inr False) (\<lambda>over.
                   if over then
                     Inr (close_gate r FAILED,
                       [failed_record step (PStr ''revise_limit_exceeded'') PNone
                          (dict_merge [(''revise_limit'', limit), (''value'', findings)] ans)])
                   else Inr (close_gate r RUNNING, [decided_record step outcome findings ans])))
      | _ \<Rightarrow> run_refuse r ''decide'')"

definition retry_record :: "run_state \<Rightarrow> payload" where
  "retry_record s =
     (case s of
        FAILED \<Rightarrow> [(''from_status'', PStr (run_state_value s)), (''attempt'', PStr ''new'')]
      | BUDGET_EXCEEDED \<Rightarrow> [(''from_status'', PStr (run_state_value s)), (''attempt'', PStr ''same''),
                            (''budget_epoch'', PStr ''new'')]
      | _ \<Rightarrow> [(''from_status'', PStr (run_state_value s)), (''attempt'', PStr ''same'')])"

definition run_retry :: "run \<Rightarrow> exn + run transition" where
  "run_retry r =
     (if run_state r \<in> {FAILED, BUDGET_EXCEEDED, INTERRUPTED} then
        Inr (r\<lparr>run_state := RUNNING\<rparr>, [Record ''retry_requested'' (retry_record (run_state r))])
      else run_refuse r ''retry'')"

text \<open>\<open>getattr(state, event)(run, **arguments)\<close>.\<close>

fun run_handler :: "run \<Rightarrow> run_call \<Rightarrow> exn + run transition" where
  "run_handler r Pickup = run_pickup r"
| "run_handler r (Escalate step reason escalation details) = run_escalate r step reason escalation details"
| "run_handler r (Decide outcome escalation findings limit actor digest) =
     run_decide r outcome escalation findings limit actor digest"
| "run_handler r Complete = run_complete r"
| "run_handler r (Fail error step reason details) = run_fail r error step reason details"
| "run_handler r (ExhaustBudget which step reason) = run_exhaust_budget r which step reason"
| "run_handler r (Cancel actor) = run_cancel r actor"
| "run_handler r (HostStopped backend) = run_host_stopped r backend"
| "run_handler r Retry = run_retry r"

text \<open>\<open>Run.dispatch\<close>.\<close>

definition run_dispatch :: "run \<Rightarrow> run_call \<Rightarrow> exn + run transition" where
  "run_dispatch r call = dispatch run_state run_edges (run_event call) r (run_handler r call)"

text \<open>\<open>Run.submit\<close>: a new run, and the record of its submission.\<close>

definition run_submit :: "string \<Rightarrow> pyval \<Rightarrow> payload option \<Rightarrow> string option \<Rightarrow> run transition" where
  "run_submit i op by name =
     (new_run i,
      [Record ''op_submitted''
         ([(''op'', op)]
          @ (case by of None \<Rightarrow> [] | Some b \<Rightarrow> [(''submitted_by'', PDict b)])
          @ (case name of None \<Rightarrow> [] | Some n \<Rightarrow> [(''name'', PStr n)]))])"

lemmas run_handler_defs =
  run_pickup_def run_escalate_def run_decide_def run_complete_def run_fail_def run_exhaust_budget_def
  run_cancel_def run_host_stopped_def run_retry_def run_refuse_def

lemma run_handler_no_undeclared: "run_handler r call \<noteq> Inl UndeclaredTransition"
  by (cases call; cases "run_state r")
     (auto simp: run_handler_defs in_names_def int_gt_def bind_result_def Let_def
       split: sum.splits option.splits)

lemma run_handler_declared:
  "run_handler r call = Inr (r', rs) \<Longrightarrow>
   (run_state r, run_event call, run_state r') \<in> set run_edges"
  by (cases call; cases "run_state r")
     (auto simp: run_handler_defs run_edges_def bind_result_Inr_iff Let_def split: if_splits)

interpretation runs: machine run_state run_edges run_event run_handler
  by unfold_locales (rule run_handler_declared run_handler_no_undeclared, assumption?)+

lemma run_dispatch_eq [simp]: "run_dispatch r call = run_handler r call"
  by (simp add: run_dispatch_def runs.dispatch_handler)

end
