(* ===== verification/RunReplay.thy ===== *)
theory RunReplay
  imports RunMachine
begin

section \<open>Folding the run machine over a Track (states/run.py, Run.apply and Run.replay)\<close>

text \<open>
  A Track fact is its run, its event type and its payload, the protocol \<open>TrackFact\<close>; a
  Track event (theory \<open>Track\<close>) extends it.  \<open>apply_fact\<close> and \<open>replay\<close> are
  \<open>Run.apply\<close> and \<open>Run.replay\<close>.
\<close>

record track_fact =
  run_id :: string
  event_type :: string
  payload :: payload

subsection \<open>The tables\<close>

definition SUBMISSIONS :: "string list" where
  "SUBMISSIONS = [''op_submitted'', ''submitted'']"

text \<open>Events about a step, its worker, a request or a turn: they leave the run where it is.\<close>

definition RUN_FACTS :: "string list" where
  "RUN_FACTS =
    [''step_started'', ''materialized'', ''ready'', ''interaction_started'', ''interaction_usage'',
     ''idle'', ''teardown_started'', ''teardown_failed'', ''step_completed'', ''step_failed'',
     ''worker_started'', ''worker_stopped'', ''cancel_requested'',
     ''turn_requested'', ''turn_answered'', ''turn_failed'']"

definition DECIDING :: "string list" where
  "DECIDING = [''outcome'', ''attempt'', ''from_status'', ''error'', ''dimension'']"

definition PICKED_UP_BY :: "string list" where
  "PICKED_UP_BY =
    [''step_started'', ''gate_escalated'', ''gate_decided'', ''completed'', ''failed'',
     ''budget_exceeded'', ''interrupted'', ''retry_requested'']"

subsection \<open>The call a recorded event replays as\<close>

definition replay_failed :: "run \<Rightarrow> payload \<Rightarrow> run_call" where
  "replay_failed r p =
     (if run_state r = WAITING_AT_GATE \<and> py_eq (py_get p ''error'') (PStr ''revise_limit_exceeded'')
      then Decide (PStr ''send_back'') (py_get p ''escalation'') (py_get p ''value'')
             (py_get p ''revise_limit'') (py_get p ''actor'') (py_get p ''envelope_digest'')
      else Fail (py_get_default p ''error'' (PStr '''')) (py_get p ''step'') (py_get p ''reason'') [])"

definition replay_decision :: "run \<Rightarrow> payload \<Rightarrow> run_call" where
  "replay_decision r p =
     Decide (py_get_default p ''outcome'' (PStr ''send_back'')) (py_get p ''escalation'')
       (py_get p ''value'') PNone (py_get p ''actor'') (py_get p ''envelope_digest'')"

definition REPLAY :: "(string, run \<Rightarrow> payload \<Rightarrow> run_call) dict" where
  "REPLAY =
    [(''run_picked_up'', \<lambda>r p. Pickup),
     (''gate_escalated'', \<lambda>r p.
        Escalate (py_get_default p ''step'' (PStr '''')) (py_get p ''reason'') (py_get p ''escalation'') []),
     (''gate_decided'', replay_decision),
     (''completed'', \<lambda>r p. Complete),
     (''failed'', replay_failed),
     (''budget_exceeded'', \<lambda>r p.
        ExhaustBudget (py_get_default p ''dimension'' (PStr ''tokens'')) (py_get p ''step'') (py_get p ''reason'')),
     (''cancelled'', \<lambda>r p. Cancel (py_get_default p ''actor'' (PStr ''''))),
     (''interrupted'', \<lambda>r p. HostStopped (py_get_default p ''backend'' (PStr ''none''))),
     (''retry_requested'', \<lambda>r p. Retry)]"

text \<open>A deciding field both the Track and the machine recorded, on which they differ.\<close>

definition disagrees :: "payload \<Rightarrow> payload \<Rightarrow> bool" where
  "disagrees recorded produced =
     list_ex (\<lambda>k. case (map_of recorded k, map_of produced k) of
                    (Some v, Some w) \<Rightarrow> \<not> py_eq v w | _ \<Rightarrow> False) DECIDING"

text \<open>\<open>Run.apply\<close>.\<close>

definition apply_fact :: "run \<Rightarrow> string \<Rightarrow> payload \<Rightarrow> exn + run" where
  "apply_fact r ty p =
     (if ty \<in> set RUN_FACTS then Inr r
      else case map_of REPLAY ty of
        None \<Rightarrow> run_refuse r ty
      | Some to_call \<Rightarrow>
          bind_result (run_dispatch r (to_call r p)) (\<lambda>(after, records).
            case records of
              [] \<Rightarrow> run_refuse r ty
            | produced # _ \<Rightarrow>
                if rec_type produced \<noteq> ty then run_refuse r ty
                else if disagrees p (rec_payload produced) then run_refuse r ty
                else Inr after))"

subsection \<open>Run.replay\<close>

definition before_pickups :: "('a track_fact_scheme) list \<Rightarrow> bool" where
  "before_pickups facts = (\<not> list_ex (\<lambda>f. event_type f = ''run_picked_up'') facts)"

definition replay_step :: "bool \<Rightarrow> run option \<Rightarrow> 'a track_fact_scheme \<Rightarrow> exn + run option" where
  "replay_step implicit current f =
     (if event_type f \<in> set SUBMISSIONS then
        (case current of
           Some r \<Rightarrow> run_refuse r (event_type f)
         | None \<Rightarrow> Inr (Some (new_run (run_id f))))
      else case current of
        None \<Rightarrow>
          (if map_of REPLAY (event_type f) \<noteq> None then run_refuse (new_run '''') (event_type f)
           else Inr None)
      | Some r \<Rightarrow>
          bind_result
            (if implicit \<and> run_state r = SUBMITTED \<and> event_type f \<in> set PICKED_UP_BY
             then bind_result (run_dispatch r Pickup) (\<lambda>(after, _). Inr after) else Inr r) (\<lambda>r.
          bind_result (apply_fact r (event_type f) (payload f)) (\<lambda>r. Inr (Some r))))"

definition replay :: "('a track_fact_scheme) list \<Rightarrow> exn + run option" where
  "replay facts = fold_result (replay_step (before_pickups facts)) None facts"

subsection \<open>One record, replayed\<close>

text \<open>
  What a live call passes: the annotated types (a step and an error are strings, an
  escalation a string or \<open>None\<close>), and details that do not shadow the fields the event
  itself records.
\<close>

fun is_str :: "pyval \<Rightarrow> bool" where
  "is_str (PStr _) = True"
| "is_str _ = False"

lemma is_str_iff: "is_str v \<longleftrightarrow> (\<exists>s. v = PStr s)"
  by (cases v) auto

fun live_call :: "run_call \<Rightarrow> bool" where
  "live_call (Escalate step reason escalation details) =
     (is_str step \<and> (is_str escalation \<or> escalation = PNone)
      \<and> map_of (rev details) ''step'' = None \<and> map_of (rev details) ''escalation'' = None)"
| "live_call (Fail error step reason details) =
     (is_str error \<and> map_of (rev details) ''error'' = None)"
| "live_call _ = True"

lemma run_handler_one_record:
  assumes "run_handler r call = Inr (r', rs)"
  shows "\<exists>ty p. rs = [Record ty p]"
proof -
  from assms have "length rs = Suc 0"
    by (cases call; cases "run_state r")
       (auto simp: run_handler_defs Let_def bind_result_Inr_iff split: if_splits)
  then show ?thesis by (metis length_0_conv length_Suc_conv trec.exhaust)
qed

lemma in_names_Inr: "in_names v names = Inr True \<longleftrightarrow> (\<exists>s. v = PStr s \<and> s \<in> set names)"
  by (cases v) (auto simp: in_names_def)

lemma map_of_answered:
  "map_of (rev (answered e a d)) k =
     (if k = ''escalation'' \<and> e \<noteq> PNone then Some e
      else if k = ''actor'' \<and> a \<noteq> PNone then Some a
      else if k = ''envelope_digest'' \<and> d \<noteq> PNone then Some d else None)"
  by (auto simp: answered_def Let_def)

lemma disagrees_iff:
  "disagrees p q \<longleftrightarrow>
     (\<exists>k v w. k \<in> set DECIDING \<and> map_of p k = Some v \<and> map_of q k = Some w \<and> \<not> py_eq v w)"
  unfolding disagrees_def list_ex_iff Bex_def by (intro ex_cong1) (auto split: option.splits)

lemma decided_lookups:
  assumes "p = dict_merge [(''step'', step), (''outcome'', out), (''value'', fnd)] (answered esc act dig)"
  shows "py_get p ''escalation'' = esc" "py_get p ''value'' = fnd" "py_get p ''actor'' = act"
    "py_get p ''envelope_digest'' = dig" "py_get_default p ''outcome'' x = out"
    "map_of p ''outcome'' = Some out"
    "map_of p ''attempt'' = None" "map_of p ''from_status'' = None"
    "map_of p ''error'' = None" "map_of p ''dimension'' = None"
  unfolding assms by (simp_all add: map_of_answered)

lemma run_decide_cases [consumes 1, case_names decided limit]:
  assumes "run_decide r out esc fnd rl act dig = Inr (r', rs)"
  obtains (decided) s st where "run_state r = WAITING_AT_GATE" "out = PStr s" "s \<in> set DECISIONS"
      "py_eq esc (open_escalation r)" "r' = close_gate r st" "st = (if s = ''reject'' then REJECTED else RUNNING)"
      "rs = [decided_record (open_step r) out fnd (answered esc act dig)]"
    | (limit) "run_state r = WAITING_AT_GATE" "out = PStr ''send_back''"
      "py_eq esc (open_escalation r)" "rl \<noteq> PNone"
      "int_gt (esc_get (escalations r) (open_step r)) rl = Inr True" "r' = close_gate r FAILED"
      "rs = [failed_record (open_step r) (PStr ''revise_limit_exceeded'') PNone
               (dict_merge [(''revise_limit'', rl), (''value'', fnd)] (answered esc act dig))]"
proof -
  from assms have w: "run_state r = WAITING_AT_GATE"
    by (auto simp: run_decide_def run_refuse_def split: run_state.splits)
  from assms w obtain s where out: "out = PStr s" "s \<in> set DECISIONS"
    by (auto simp: run_decide_def run_refuse_def bind_result_Inr_iff in_names_Inr split: if_splits)
  with assms w have esc: "py_eq esc (open_escalation r)"
    by (auto simp: run_decide_def in_names_def split: if_splits)
  show ?thesis
  proof (cases "r' = close_gate r FAILED")
    case True
    with assms w out esc show ?thesis
      by (intro limit)
         (auto simp: run_decide_def in_names_def bind_result_Inr_iff Let_def split: if_splits)
  next
    case False
    with assms w out esc show ?thesis
      by (intro decided [OF w out esc, of "if s = ''reject'' then REJECTED else RUNNING"])
         (auto simp: run_decide_def in_names_def bind_result_Inr_iff Let_def split: if_splits)
  qed
qed

lemma run_decide_no_limit:
  assumes "run_state r = WAITING_AT_GATE" "s \<in> set DECISIONS" "py_eq esc (open_escalation r)"
  shows "run_decide r (PStr s) esc fnd PNone act dig =
    Inr (close_gate r (if s = ''reject'' then REJECTED else RUNNING),
         [decided_record (open_step r) (PStr s) fnd (answered esc act dig)])"
  using assms by (simp add: run_decide_def in_names_def Let_def)

lemma not_a_fact [simp]: "map_of REPLAY ty = Some c \<Longrightarrow> ty \<notin> set RUN_FACTS"
  by (auto simp: REPLAY_def RUN_FACTS_def split: if_splits)

text \<open>What \<open>apply_fact\<close> needs of a recorded event: the call it replays as, and that the call records it again.\<close>

lemma apply_factI:
  assumes "map_of REPLAY ty = Some c" and "run_handler r (c r p) = Inr (r', [Record ty q])"
    and "\<not> disagrees p q"
  shows "apply_fact r ty p = Inr r'"
  using assms not_a_fact [OF assms(1)] by (simp add: apply_fact_def)

lemma REPLAY_lookup [simp]:
  "map_of REPLAY ''gate_decided'' = Some replay_decision"
  "map_of REPLAY ''failed'' = Some replay_failed"
  "map_of REPLAY ''run_picked_up'' = Some (\<lambda>r p. Pickup)"
  "map_of REPLAY ''completed'' = Some (\<lambda>r p. Complete)"
  "map_of REPLAY ''retry_requested'' = Some (\<lambda>r p. Retry)"
  "map_of REPLAY ''cancelled'' = Some (\<lambda>r p. Cancel (py_get_default p ''actor'' (PStr '''')))"
  "map_of REPLAY ''interrupted'' = Some (\<lambda>r p. HostStopped (py_get_default p ''backend'' (PStr ''none'')))"
  "map_of REPLAY ''budget_exceeded'' = Some (\<lambda>r p.
     ExhaustBudget (py_get_default p ''dimension'' (PStr ''tokens'')) (py_get p ''step'') (py_get p ''reason''))"
  "map_of REPLAY ''gate_escalated'' = Some (\<lambda>r p.
     Escalate (py_get_default p ''step'' (PStr '''')) (py_get p ''reason'') (py_get p ''escalation'') [])"
  by (simp_all add: REPLAY_def)

lemma apply_live_decide:
  assumes "run_handler r (Decide out esc fnd rl act dig) = Inr (r', [Record ty p])"
  shows "apply_fact r ty p = Inr r'"
proof -
  from assms have "run_decide r out esc fnd rl act dig = Inr (r', [Record ty p])" by simp
  then show ?thesis
  proof (cases rule: run_decide_cases)
    case (decided s st)
    then have ty: "ty = ''gate_decided''"
      and p: "p = dict_merge [(''step'', open_step r), (''outcome'', out), (''value'', fnd)] (answered esc act dig)"
      by (simp_all add: decided_record_def)
    from decided have "run_handler r (replay_decision r p) = Inr (r', [Record ty p])"
      by (simp add: replay_decision_def decided_lookups [OF p] run_decide_no_limit del: py_get_simps)
    moreover have "\<not> disagrees p p"
      using decided by (simp add: disagrees_def DECIDING_def decided_lookups [OF p])
    ultimately show ?thesis unfolding ty by (intro apply_factI) auto
  next
    case limit
    let ?d = "dict_merge [(''revise_limit'', rl), (''value'', fnd)] (answered esc act dig)"
    from limit have ty: "ty = ''failed''"
      and p: "p = dict_merge (AList.update ''error'' (PStr ''revise_limit_exceeded'') (step_payload (open_step r))) ?d"
      by (simp_all add: failed_record_def)
    have "map_of (rev ?d) k = map_of ?d k" for k
      by (simp add: dict_merge_def answered_def Let_def)
    then have look: "py_get p ''error'' = PStr ''revise_limit_exceeded''" "py_get p ''escalation'' = esc"
      "py_get p ''value'' = fnd" "py_get p ''revise_limit'' = rl" "py_get p ''actor'' = act"
      "py_get p ''envelope_digest'' = dig" "map_of p ''error'' = Some (PStr ''revise_limit_exceeded'')"
      "map_of p ''outcome'' = None"
      "map_of p ''attempt'' = None" "map_of p ''from_status'' = None" "map_of p ''dimension'' = None"
      by (simp_all add: p map_of_answered step_payload_def)
    from limit have "run_handler r (replay_failed r p) = Inr (r', [Record ty p])"
      using assms by (simp add: replay_failed_def look del: py_get_simps)
    moreover have "\<not> disagrees p p"
      by (simp add: disagrees_def DECIDING_def look)
    ultimately show ?thesis unfolding ty by (intro apply_factI) auto
  qed
qed

lemma apply_live_fail:
  assumes "run_handler r (Fail err st rsn det) = Inr (r', [Record ty p])"
    and "live_call (Fail err st rsn det)"
  shows "apply_fact r ty p = Inr r'"
proof -
  from assms(1) have w: "run_state r = RUNNING" and r': "r' = r\<lparr>run_state := FAILED\<rparr>"
    and rec: "Record ty p = failed_record st err rsn det"
    by (auto simp: run_fail_def run_refuse_def split: run_state.splits)
  from rec assms(2) have ty: "ty = ''failed''" and e: "map_of p ''error'' = Some err"
    by (auto simp: failed_record_def Let_def)
  obtain q where h: "run_handler r (replay_failed r p) = Inr (r', [Record ty q])"
    and q: "Record ty q = failed_record (py_get p ''step'') err (py_get p ''reason'') []"
    using w r' ty e by (simp add: replay_failed_def run_fail_def failed_record_def Let_def)
  have "map_of q ''error'' = Some err" "map_of q ''outcome'' = None" "map_of q ''attempt'' = None"
    "map_of q ''from_status'' = None" "map_of q ''dimension'' = None"
    using q by (auto simp: failed_record_def Let_def dict_merge_def step_payload_def)
  moreover from assms(2) obtain s where "err = PStr s" by (auto simp: is_str_iff)
  ultimately have "\<not> disagrees p q" by (auto simp: disagrees_iff DECIDING_def e)
  with h show ?thesis unfolding ty by (intro apply_factI) auto
qed

lemma apply_live_escalate:
  assumes "run_handler r (Escalate st rsn esc det) = Inr (r', [Record ty p])"
    and "live_call (Escalate st rsn esc det)"
  shows "apply_fact r ty p = Inr r'"
proof -
  from assms(2) obtain s where st: "st = PStr s" by (auto simp: is_str_iff)
  from assms have w: "run_state r = RUNNING" and ty: "ty = ''gate_escalated''"
    and look: "map_of p ''step'' = Some st" "py_get p ''escalation'' = esc"
    by (auto simp: run_escalate_def run_refuse_def Let_def split: run_state.splits if_splits)
  have "\<exists>q. run_handler r (Escalate st (py_get p ''reason'') esc []) = Inr (r', [Record ty q]) \<and>
      (\<forall>k. k \<in> set DECIDING \<longrightarrow> map_of q k = None)"
    using assms w ty st
    by (auto simp: run_escalate_def Let_def DECIDING_def dict_merge_def)
  then obtain q where "run_handler r (Escalate st (py_get p ''reason'') esc []) = Inr (r', [Record ty q])"
    and "\<not> disagrees p q"
    by (auto simp: disagrees_iff)
  with look show ?thesis
    unfolding ty by (intro apply_factI [OF REPLAY_lookup(9)]) (simp_all del: run_handler.simps)
qed

lemma apply_live_budget:
  assumes "run_handler r (ExhaustBudget which st rsn) = Inr (r', [Record ty p])"
  shows "apply_fact r ty p = Inr r'"
proof -
  from assms have w: "run_state r = RUNNING" and ty: "ty = ''budget_exceeded''"
    and p: "p = dict_merge (step_payload st) [(''reason'', rsn), (''dimension'', which)]"
    and known: "in_names which DIMENSIONS = Inr True" and r': "r' = r\<lparr>run_state := BUDGET_EXCEEDED\<rparr>"
    by (auto simp: run_exhaust_budget_def run_refuse_def bind_result_Inr_iff
        split: run_state.splits if_splits)
  obtain s where s: "which = PStr s" using known by (auto simp: in_names_Inr)
  have look: "map_of p ''dimension'' = Some which" "py_get p ''reason'' = rsn" "py_get p ''step'' = st"
    by (auto simp: p step_payload_def)
  have "run_handler r (ExhaustBudget which st rsn) = Inr (r', [Record ty p])" by (rule assms)
  moreover have "\<not> disagrees p p"
    by (auto simp: disagrees_iff DECIDING_def p s step_payload_def dict_merge_def)
  ultimately show ?thesis 
    unfolding ty using look
    by (intro apply_factI [OF REPLAY_lookup(8)]) (simp_all del: run_handler.simps)
qed

text \<open>A live call's record, applied to the run it was made of, gives the run it led to.\<close>

lemma apply_live:
  assumes "run_handler r call = Inr (r', [Record ty p])" and "live_call call"
  shows "apply_fact r ty p = Inr r'"
proof (cases call)
  case Pickup
  with assms show ?thesis
    by (intro apply_factI [where q = "[]"])
       (auto simp: run_pickup_def run_refuse_def disagrees_def DECIDING_def split: run_state.splits)
next
  case Complete
  with assms show ?thesis
    by (intro apply_factI [where q = "[]"])
       (auto simp: run_complete_def run_refuse_def disagrees_def DECIDING_def split: run_state.splits)
next
  case (Cancel actor)
  with assms show ?thesis
    by (intro apply_factI [where q = "[(''actor'', actor)]"])
       (auto simp: run_cancel_def run_refuse_def disagrees_def DECIDING_def split: if_splits)
next
  case (HostStopped backend)
  with assms show ?thesis
    by (intro apply_factI [where q = "[(''backend'', backend)]"])
       (auto simp: run_host_stopped_def run_refuse_def disagrees_def DECIDING_def split: if_splits)
next
  case Retry
  with assms show ?thesis
    by (intro apply_factI [where q = p])
       (auto simp: run_retry_def run_refuse_def retry_record_def disagrees_def DECIDING_def
         split: if_splits)
qed (use assms in \<open>auto intro: apply_live_decide apply_live_fail apply_live_escalate apply_live_budget
        simp del: run_handler.simps live_call.simps\<close>)

subsection \<open>Replaying a Track, event by event\<close>

lemma facts_not_submissions [simp]: "ty \<in> set RUN_FACTS \<Longrightarrow> ty \<notin> set SUBMISSIONS"
  by (auto simp: RUN_FACTS_def SUBMISSIONS_def)

lemma replay_not_submissions [simp]: "map_of REPLAY ty = Some c \<Longrightarrow> ty \<notin> set SUBMISSIONS"
  by (auto simp: REPLAY_def SUBMISSIONS_def split: if_splits)

lemma apply_fact_fact [simp]: "ty \<in> set RUN_FACTS \<Longrightarrow> apply_fact r ty p = Inr r"
  by (simp add: apply_fact_def)

text \<open>A step of the replay, when the Track records its pickups or the run was picked up.\<close>

definition past_pickup :: "bool \<Rightarrow> run \<Rightarrow> string \<Rightarrow> bool" where
  "past_pickup before r ty \<longleftrightarrow> \<not> before \<or> run_state r \<noteq> SUBMITTED \<or> ty \<notin> set PICKED_UP_BY"

lemma replay_step_Some:
  assumes "event_type f \<notin> set SUBMISSIONS" and "past_pickup b r (event_type f)"
  shows "replay_step b (Some r) f =
    bind_result (apply_fact r (event_type f) (payload f)) (\<lambda>r'. Inr (Some r'))"
  using assms by (auto simp: replay_step_def past_pickup_def)

lemma replay_step_fact:
  "event_type f \<in> set RUN_FACTS \<Longrightarrow> past_pickup b r (event_type f) \<Longrightarrow>
   replay_step b (Some r) f = Inr (Some r)"
  by (simp add: replay_step_Some)

lemma fold_replay_facts:
  assumes "list_all (\<lambda>f. event_type f \<in> set RUN_FACTS) fs"
    and "\<not> b \<or> run_state r \<noteq> SUBMITTED \<or> \<not> list_ex (\<lambda>f. event_type f = ''step_started'') fs"
  shows "fold_result (replay_step b) (Some r) fs = Inr (Some r)"
  using assms
proof (induction fs)
  case (Cons f fs)
  have "past_pickup b r (event_type f)"
    using Cons.prems by (auto simp: past_pickup_def RUN_FACTS_def PICKED_UP_BY_def)
  with Cons show ?case by (simp add: replay_step_fact)
qed simp

text \<open>The types a call records, and that none of them is a fact or a submission.\<close>

lemma recorded_type_in_REPLAY:
  assumes "run_handler r call = Inr (r', [Record ty p])"
  shows "\<exists>c. map_of REPLAY ty = Some c"
  using assms
  by (cases call; cases "run_state r")
     (auto simp: run_handler_defs failed_record_def decided_record_def Let_def bind_result_Inr_iff
       split: if_splits)

definition fact_of :: "string \<Rightarrow> trec \<Rightarrow> track_fact" where
  "fact_of i r = \<lparr>run_id = i, event_type = rec_type r, payload = rec_payload r\<rparr>"

text \<open>
  The part of a Track that moves the run: everything but the facts.  \<open>core_of\<close> forgets what
  a Track event carries besides the fact.
\<close>

definition core_of :: "'a track_fact_scheme \<Rightarrow> string \<times> payload" where
  "core_of f = (event_type f, payload f)"

definition run_events_of :: "('a track_fact_scheme) list \<Rightarrow> (string \<times> payload) list" where
  "run_events_of fs = map core_of (filter (\<lambda>f. event_type f \<notin> set RUN_FACTS) fs)"

lemma run_events_of_simps [simp]:
  "run_events_of [] = []"
  "event_type f \<in> set RUN_FACTS \<Longrightarrow> run_events_of (f # fs) = run_events_of fs"
  "event_type f \<notin> set RUN_FACTS \<Longrightarrow> run_events_of (f # fs) = core_of f # run_events_of fs"
  by (simp_all add: run_events_of_def)

abbreviation rec_core :: "trec \<Rightarrow> string \<times> payload" where
  "rec_core r \<equiv> (rec_type r, rec_payload r)"

lemma run_handler_leaves_submitted:
  "run_handler r call = Inr (r', rs) \<Longrightarrow> run_state r' \<noteq> SUBMITTED"
  using run_handler_declared [of r call r' rs] by (auto simp: run_edges_def)

lemma fold_replay_live:
  assumes "run_calls run_handler r calls = Inr (r', recs)" and "list_all live_call calls"
    and "run_events_of fs = map rec_core recs"
    and "\<not> b \<or> run_state r \<noteq> SUBMITTED"
  shows "fold_result (replay_step b) (Some r) fs = Inr (Some r')"
  using assms
proof (induction fs arbitrary: r calls recs)
  case Nil
  then have "recs = []" by simp
  moreover from Nil have "calls = []"
  proof (cases calls)
    case (Cons c cs)
    with Nil \<open>recs = []\<close> show ?thesis
      by (auto simp: bind_result_Inr_iff dest!: run_handler_one_record)
  qed simp
  ultimately show ?case using Nil by simp
next
  case (Cons f fs)
  from Cons.prems(4) have past: "past_pickup b r (event_type f)" by (auto simp: past_pickup_def)
  show ?case
  proof (cases "event_type f \<in> set RUN_FACTS")
    case True
    with Cons past show ?thesis by (simp add: replay_step_fact)
  next
    case False
    with Cons.prems(3) have split: "core_of f # run_events_of fs = map rec_core recs" by simp
    then obtain c cs where calls: "calls = c # cs" using Cons.prems(1) by (cases calls) auto
    with Cons.prems(1) obtain r1 rs1 rs2 where h: "run_handler r c = Inr (r1, rs1)"
      and rest: "run_calls run_handler r1 cs = Inr (r', rs2)" and recs: "recs = rs1 @ rs2"
      by (auto simp: bind_result_Inr_iff)
    from run_handler_one_record [OF h] obtain ty p where rs1: "rs1 = [Record ty p]" by auto
    with split recs have f: "event_type f = ty" "payload f = p" and fs: "run_events_of fs = map rec_core rs2"
      by (simp_all add: core_of_def)
    have "apply_fact r ty p = Inr r1" using apply_live [of r c r1 ty p] h rs1 calls Cons.prems(2) by simp
    moreover have "ty \<notin> set SUBMISSIONS" using recorded_type_in_REPLAY [of r c r1 ty p] h rs1 by auto
    ultimately have "replay_step b (Some r) f = Inr (Some r1)"
      using past by (simp add: replay_step_Some f)
    moreover have "fold_result (replay_step b) (Some r1) fs = Inr (Some r')"
      using Cons.IH [OF rest _ fs] calls Cons.prems(2) run_handler_leaves_submitted [OF h] by simp
    ultimately show ?thesis by simp
  qed
qed

lemma replay_step_not_picked_up:
  "event_type f \<notin> set PICKED_UP_BY \<Longrightarrow> replay_step b current f = replay_step False current f"
  by (cases current) (simp_all add: replay_step_def)

lemma not_picked_up_by:
  "ty \<in> set RUN_FACTS \<Longrightarrow> ty \<noteq> ''step_started'' \<Longrightarrow> ty \<notin> set PICKED_UP_BY"
  "''cancelled'' \<notin> set PICKED_UP_BY"
  by (auto simp: RUN_FACTS_def PICKED_UP_BY_def)

lemma fold_replay_not_picked_up:
  "list_all (\<lambda>f. event_type f \<notin> set PICKED_UP_BY) fs \<Longrightarrow>
   fold_result (replay_step b) current fs = fold_result (replay_step False) current fs"
proof (induction fs arbitrary: current)
  case (Cons f fs)
  then have "replay_step b current f = replay_step False current f"
    by (intro replay_step_not_picked_up) simp
  with Cons show ?case by (cases "replay_step False current f") simp_all
qed simp

lemma fold_replay_none:
  "list_all (\<lambda>f. event_type f \<in> set RUN_FACTS) fs \<Longrightarrow> fold_result (replay_step b) None fs = Inr None"
proof (induction fs)
  case (Cons f fs)
  then have "map_of REPLAY (event_type f) = None"
    using not_a_fact by (cases "map_of REPLAY (event_type f)") auto
  with Cons have "replay_step b None f = Inr None" by (simp add: replay_step_def)
  with Cons show ?case by simp
qed simp

lemma run_events_of_Cons_split:
  assumes "run_events_of fs = x # xs"
  obtains pre f post where "fs = pre @ f # post" "list_all (\<lambda>g. event_type g \<in> set RUN_FACTS) pre"
    "event_type f \<notin> set RUN_FACTS" "core_of f = x" "run_events_of post = xs"
proof -
  have "\<exists>pre f post. fs = pre @ f # post \<and> list_all (\<lambda>g. event_type g \<in> set RUN_FACTS) pre \<and>
      event_type f \<notin> set RUN_FACTS \<and> core_of f = x \<and> run_events_of post = xs"
    using assms
  proof (induction fs)
    case (Cons g fs)
    show ?case
    proof (cases "event_type g \<in> set RUN_FACTS")
      case True
      with Cons obtain pre f post where "fs = pre @ f # post"
        "list_all (\<lambda>g. event_type g \<in> set RUN_FACTS) pre" "event_type f \<notin> set RUN_FACTS"
        "core_of f = x" "run_events_of post = xs"
        by auto
      with True show ?thesis by (intro exI [of _ "g # pre"] exI [of _ f] exI [of _ post]) simp
    next
      case False
      with Cons.prems show ?thesis by (intro exI [of _ "[]"] exI [of _ g] exI [of _ fs]) simp
    qed
  qed simp
  then show thesis using that by blast
qed

text \<open>From a submitted run, calls that pick nothing up are none, or one cancellation.\<close>

lemma calls_without_pickup:
  assumes "run_calls run_handler r calls = Inr (r', recs)" and "run_state r = SUBMITTED"
    and "\<forall>x\<in>set recs. rec_type x \<noteq> ''run_picked_up''"
  shows "recs = [] \<or> (\<exists>p. recs = [Record ''cancelled'' p])"
proof (cases calls)
  case (Cons c cs)
  with assms(1) obtain r1 rs1 rs2 where h: "run_handler r c = Inr (r1, rs1)"
    and rest: "run_calls run_handler r1 cs = Inr (r', rs2)" and recs: "recs = rs1 @ rs2"
    by (auto simp: bind_result_Inr_iff)
  have c: "(\<exists>p. rs1 = [Record ''cancelled'' p]) \<and> run_state r1 = CANCELLED"
    using h assms(2,3) recs
    by (cases c) (auto simp: run_handler_defs split: if_splits)
  have "rs2 = []"
  proof (cases cs)
    case (Cons d ds)
    have "final run_edges (run_state r1)" using c by (simp add: final_def run_edges_def)
    then obtain e where "run_handler r1 d = Inl e" using runs.final_refuses by blast
    with rest Cons show ?thesis by simp
  qed (use rest in simp)
  with c recs show ?thesis by auto
qed (use assms(1) in simp)

text \<open>
  C18: a run's Track is its state.  However a live run moved, the records it wrote, with any
  facts about steps, workers, requests and turns written between them by whoever wrote them,
  replay to exactly the run that wrote them.
\<close>

theorem replay_inverts_recording:
  assumes calls: "run_calls run_handler (new_run i) calls = Inr (r, recs)" "list_all live_call calls"
    and track: "run_events_of fs = map rec_core (snd (run_submit i op who name) @ recs)"
    and run: "list_all (\<lambda>f. run_id f = i) fs"
    and picked: "list_ex (\<lambda>f. event_type f = ''run_picked_up'') fs \<or>
                 \<not> list_ex (\<lambda>f. event_type f = ''step_started'') fs"
  shows "replay fs = Inr (Some r)"
proof -
  let ?b = "before_pickups fs"
  obtain pre f post where fs: "fs = pre @ f # post"
    and pre: "list_all (\<lambda>g. event_type g \<in> set RUN_FACTS) pre"
    and f: "event_type f = ''op_submitted''" and post: "run_events_of post = map rec_core recs"
    using track by (auto simp: run_submit_def core_of_def elim!: run_events_of_Cons_split)
  have "replay_step ?b None f = Inr (Some (new_run i))"
    using f run fs by (simp add: replay_step_def SUBMISSIONS_def)
  with pre have start: "replay fs = fold_result (replay_step ?b) (Some (new_run i)) post"
    by (simp add: replay_def fs fold_result_append fold_replay_none)
  have live: "fold_result (replay_step False) (Some (new_run i)) post = Inr (Some r)"
    by (rule fold_replay_live [OF calls post]) simp
  show ?thesis
  proof (cases ?b)
    case False
    with start live show ?thesis by simp
  next
    case True
    then have none: "event_type g \<noteq> ''run_picked_up''" if "g \<in> set fs" for g
      using that by (auto simp: before_pickups_def list_ex_iff)
    have types: "rec_type x = event_type g \<and> g \<in> set fs"
      if "x \<in> set recs" "rec_core x = core_of g" "g \<in> set post" for x g
      using that fs by (simp add: core_of_def)
    have "\<forall>x\<in>set recs. rec_type x \<noteq> ''run_picked_up''"
    proof
      fix x assume x: "x \<in> set recs"
      then have "rec_core x \<in> set (run_events_of post)" using post by simp
      then obtain g where "g \<in> set post" "rec_core x = core_of g" by (auto simp: run_events_of_def)
      with types [OF x] none show "rec_type x \<noteq> ''run_picked_up''" by auto
    qed
    from calls_without_pickup [OF calls(1) _ this]
    have "set (map fst (run_events_of post)) \<subseteq> {''cancelled''}" using post by (auto simp: new_run_def)
    then have kinds: "event_type g \<in> set RUN_FACTS \<or> event_type g = ''cancelled''" if "g \<in> set post" for g
      using that by (force simp: run_events_of_def core_of_def)
    have "event_type g \<notin> set PICKED_UP_BY" if g: "g \<in> set post" for g
    proof -
      have "\<not> list_ex (\<lambda>f. event_type f = ''step_started'') fs"
        using True picked by (simp add: before_pickups_def)
      with g have "event_type g \<noteq> ''step_started''" by (simp add: list_ex_iff fs)
      with kinds [OF g] show ?thesis using not_picked_up_by by metis
    qed
    then have rest: "list_all (\<lambda>g. event_type g \<notin> set PICKED_UP_BY) post" by (simp add: list_all_iff)
    from start live show ?thesis
      unfolding fold_replay_not_picked_up [OF rest, of ?b] by simp
  qed
qed

theorem replay_inverts_recording_witness:
  "replay
     [\<lparr>run_id = ''r'', event_type = ''op_submitted'', payload = [(''op'', PNone)]\<rparr>,
      \<lparr>run_id = ''r'', event_type = ''run_picked_up'', payload = []\<rparr>,
      \<lparr>run_id = ''r'', event_type = ''step_started'', payload = [(''step'', PStr ''draft'')]\<rparr>,
      \<lparr>run_id = ''r'', event_type = ''gate_escalated'', payload =
         [(''step'', PStr ''draft''), (''reason'', PStr ''check''), (''escalation'', PStr ''esc-1'')]\<rparr>]
   = Inr (Some \<lparr>run_ident = ''r'', run_state = WAITING_AT_GATE, open_step = PStr ''draft'',
       open_escalation = PStr ''esc-1'', escalations = [(PStr ''draft'', 1)]\<rparr>)"
  by (rule replay_inverts_recording [where op = PNone and who = None and name = None and i = "''r''"
        and calls = "[Pickup, Escalate (PStr ''draft'') (PStr ''check'') (PStr ''esc-1'') []]"
        and recs = "[Record ''run_picked_up'' [], Record ''gate_escalated''
           [(''step'', PStr ''draft''), (''reason'', PStr ''check''), (''escalation'', PStr ''esc-1'')]]"])
     (simp_all add: run_handler_defs new_run_def run_submit_def dict_merge_def RUN_FACTS_def core_of_def
       run_events_of_def)

subsection \<open>What replay accepts, the machine can do\<close>

lemma apply_fact_Inr_iff:
  "apply_fact r ty p = Inr r' \<longleftrightarrow>
     (if ty \<in> set RUN_FACTS then r' = r
      else \<exists>c q. map_of REPLAY ty = Some c \<and> run_handler r (c r p) = Inr (r', [Record ty q])
             \<and> \<not> disagrees p q)"
proof (cases "ty \<in> set RUN_FACTS \<or> map_of REPLAY ty = None")
  case True
  then show ?thesis by (auto simp: apply_fact_def run_refuse_def)
next
  case False
  then obtain c where c: "map_of REPLAY ty = Some c" "ty \<notin> set RUN_FACTS" by auto
  show ?thesis
  proof (cases "run_handler r (c r p)")
    case (Inr t)
    obtain after rs where t: "t = (after, rs)" by (cases t)
    then obtain ty' q where "rs = [Record ty' q]" using Inr run_handler_one_record by blast
    with Inr t c show ?thesis by (auto simp: apply_fact_def run_refuse_def)
  qed (use c in \<open>auto simp: apply_fact_def\<close>)
qed

lemma replay_step_cases [consumes 1, case_names submission skipped moved]:
  assumes "replay_step b c f = Inr d"
  obtains (submission) "event_type f \<in> set SUBMISSIONS" "c = None" "d = Some (new_run (run_id f))"
    | (skipped) "event_type f \<notin> set SUBMISSIONS" "map_of REPLAY (event_type f) = None" "c = None" "d = None"
    | (moved) r r1 r' where "event_type f \<notin> set SUBMISSIONS" "c = Some r"
        "if b \<and> run_state r = SUBMITTED \<and> event_type f \<in> set PICKED_UP_BY
         then \<exists>rs. run_handler r Pickup = Inr (r1, rs) else r1 = r"
        "apply_fact r1 (event_type f) (payload f) = Inr r'" "d = Some r'"
proof (cases "event_type f \<in> set SUBMISSIONS")
  case True
  with assms show ?thesis
    by (intro submission) (auto simp: replay_step_def run_refuse_def split: option.splits)
next
  case False
  show ?thesis
  proof (cases c)
    case None
    with False assms show ?thesis
      by (intro skipped) (auto simp: replay_step_def run_refuse_def split: if_splits)
  next
    case (Some r)
    with False assms obtain r1 r' where
      "(if b \<and> run_state r = SUBMITTED \<and> event_type f \<in> set PICKED_UP_BY
        then \<exists>rs. run_handler r Pickup = Inr (r1, rs) else r1 = r)"
      "apply_fact r1 (event_type f) (payload f) = Inr r'" "d = Some r'"
      by (auto simp: replay_step_def bind_result_Inr_iff split: if_splits)
    with moved False Some show ?thesis by blast
  qed
qed

lemma apply_fact_reaches: "apply_fact r ty p = Inr r' \<Longrightarrow> reaches run_handler r r'"
  by (auto simp: apply_fact_Inr_iff split: if_splits intro: reaches_refl reaches_one)

lemma replay_step_reaches:
  assumes "replay_step b (Some r) f = Inr d"
  shows "\<exists>r'. d = Some r' \<and> reaches run_handler r r'"
  using assms
proof (cases rule: replay_step_cases)
  case (moved r0 r1 r')
  from moved(2,3) have "r1 = r \<or> (\<exists>rs. run_handler r Pickup = Inr (r1, rs))" by (metis option.inject)
  then have "reaches run_handler r r1" by (metis reaches_refl reaches_one)
  from reaches_trans [OF apply_fact_reaches [OF moved(4)] this] moved(5) show ?thesis by simp
qed auto

lemma fold_replay_Some_reaches:
  assumes "fold_result (replay_step b) (Some r) fs = Inr d"
  shows "\<exists>r'. d = Some r' \<and> reaches run_handler r r'"
  using assms
proof (induction fs arbitrary: r)
  case (Cons f fs)
  then obtain c where c: "replay_step b (Some r) f = Inr c" "fold_result (replay_step b) c fs = Inr d"
    by (auto simp: bind_result_Inr_iff)
  from replay_step_reaches [OF c(1)] obtain r1 where "c = Some r1" "reaches run_handler r r1" by blast
  with Cons.IH c(2) show ?case by (blast intro: reaches_trans)
qed (auto intro: reaches_refl)

lemma fold_replay_reaches:
  assumes "fold_result (replay_step b) None fs = Inr (Some r)"
  shows "\<exists>i. reaches run_handler (new_run i) r"
  using assms
proof (induction fs)
  case (Cons f fs)
  then obtain c where c: "replay_step b None f = Inr c" "fold_result (replay_step b) c fs = Inr (Some r)"
    by (auto simp: bind_result_Inr_iff)
  from c(1) show ?case
  proof (cases rule: replay_step_cases)
    case submission
    with c(2) show ?thesis by (auto dest: fold_replay_Some_reaches)
  qed (use c Cons.IH in auto)
qed simp

text \<open>
  Replay never invents a state.  Whatever Track is read, if it replays to a run then the run
  machine itself can reach that run from a submission; a Track the machine could not have written
  is refused.
\<close>

theorem replay_only_reachable:
  assumes "replay fs = Inr (Some r)"
  shows "\<exists>i. reaches run_handler (new_run i) r"
  using assms unfolding replay_def by (rule fold_replay_reaches)

theorem replay_only_reachable_witness:
  "\<exists>i. reaches run_handler (new_run i) \<lparr>run_ident = ''r'', run_state = CANCELLED, open_step = PNone,
     open_escalation = PNone, escalations = []\<rparr>"
  by (rule replay_only_reachable [where fs =
        "[\<lparr>run_id = ''r'', event_type = ''op_submitted'', payload = []\<rparr>,
          \<lparr>run_id = ''r'', event_type = ''cancelled'', payload = [(''actor'', PStr ''ada'')]\<rparr>]"])
     code_simp

subsection \<open>Appending to a Track that has been replayed\<close>

lemma replay_snoc:
  assumes "before_pickups (fs @ [f]) = before_pickups fs"
  shows "replay (fs @ [f]) = bind_result (replay fs) (\<lambda>c. replay_step (before_pickups fs) c f)"
  using assms by (simp add: replay_def fold_result_snoc)

lemma reaches_submitted: "reaches run_handler d r \<Longrightarrow> run_state r = SUBMITTED \<Longrightarrow> d = r"
  by (induction rule: reaches.induct) (auto dest: run_handler_leaves_submitted)

text \<open>Reading a Track as one that records pickups makes no difference while the run is submitted.\<close>

lemma fold_replay_submitted:
  assumes "fold_result (replay_step b) c fs = Inr (Some r)" and "run_state r = SUBMITTED"
  shows "fold_result (replay_step False) c fs = Inr (Some r)"
  using assms
proof (induction fs arbitrary: c)
  case (Cons f fs)
  then obtain d where d: "replay_step b c f = Inr d" "fold_result (replay_step b) d fs = Inr (Some r)"
    by (auto simp: bind_result_Inr_iff)
  from d(1) have "replay_step False c f = Inr d"
  proof (cases rule: replay_step_cases)
    case (moved r0 r1 r')
    from moved d(2) have "reaches run_handler r' r" by (auto dest: fold_replay_Some_reaches)
    with Cons.prems have "r' = r" by (auto dest: reaches_submitted)
    with moved(4) Cons.prems have "r1 = r" by (auto dest!: apply_fact_reaches reaches_submitted)
    with moved(3) Cons.prems have "r1 = r0"
      by (auto split: if_splits dest: run_handler_leaves_submitted simp del: run_handler.simps)
    with moved show ?thesis by (simp add: replay_step_def)
  qed (auto simp: replay_step_def)
  with Cons d show ?case by simp
qed simp

lemma replay_append_fact:
  assumes "replay fs = Inr (Some r)" and "event_type f \<in> set RUN_FACTS"
    and "run_state r \<noteq> SUBMITTED \<or> event_type f \<noteq> ''step_started''"
  shows "replay (fs @ [f]) = Inr (Some r)"
proof -
  have "event_type f \<noteq> ''run_picked_up''" using assms(2) by (auto simp: RUN_FACTS_def)
  then have "before_pickups (fs @ [f]) = before_pickups fs" by (simp add: before_pickups_def)
  moreover have "past_pickup (before_pickups fs) r (event_type f)"
    using assms(2,3) not_picked_up_by(1) by (auto simp: past_pickup_def)
  ultimately show ?thesis using assms by (simp add: replay_snoc replay_step_fact)
qed

lemma recorded_pickup:
  assumes "run_handler r call = Inr (r', [Record ty p])"
  shows "ty = ''run_picked_up'' \<longleftrightarrow> call = Pickup"
    and "run_state r = SUBMITTED \<Longrightarrow> call = Pickup \<or> ty = ''cancelled''"
    and "call = Pickup \<Longrightarrow> run_state r = SUBMITTED"
  using assms
  by (cases call; cases "run_state r";
      auto simp: run_handler_defs failed_record_def decided_record_def Let_def bind_result_Inr_iff
      split: if_splits)+

lemma replay_append_live:
  assumes fs: "replay fs = Inr (Some r)" and h: "run_handler r call = Inr (r', [Record ty p])"
    and live: "live_call call" and f: "event_type f = ty" "payload f = p"
  shows "replay (fs @ [f]) = Inr (Some r')"
proof -
  have ap: "apply_fact r ty p = Inr r'" using h live by (rule apply_live)
  have sub: "ty \<notin> set SUBMISSIONS" using recorded_type_in_REPLAY [OF h] by auto
  show ?thesis
  proof (cases "call = Pickup")
    case True
    with h have ty: "ty = ''run_picked_up''" and s: "run_state r = SUBMITTED"
      using recorded_pickup [OF h] by auto
    then have b: "before_pickups (fs @ [f]) = False" by (simp add: before_pickups_def f)
    have "fold_result (replay_step False) None fs = Inr (Some r)"
      using fs s fold_replay_submitted unfolding replay_def by blast
    then have "replay (fs @ [f]) = replay_step False (Some r) f"
      by (simp add: replay_def b fold_result_snoc)
    also have "\<dots> = Inr (Some r')"
      using ap sub by (simp add: replay_step_Some past_pickup_def f)
    finally show ?thesis .
  next
    case False
    then have "ty \<noteq> ''run_picked_up''" using recorded_pickup [OF h] by simp
    then have "before_pickups (fs @ [f]) = before_pickups fs" by (simp add: before_pickups_def f)
    moreover have "past_pickup (before_pickups fs) r ty"
      using False recorded_pickup(2) [OF h] not_picked_up_by(2) by (auto simp: past_pickup_def)
    ultimately show ?thesis using fs ap sub by (simp add: replay_snoc replay_step_Some f)
  qed
qed

text \<open>A Track that has been submitted keeps a run: appending never makes it unsubmitted.\<close>

lemma replay_submission:
  assumes "event_type f \<in> set SUBMISSIONS"
  shows "replay [f] = Inr (Some (new_run (run_id f)))"
  using assms by (simp add: replay_def replay_step_def)

end
