(* ===== verification/Track.thy ===== *)
theory Track
  imports RunReplay
begin

section \<open>The Track: events, versions, stores (track.py)\<close>

text \<open>
  A Track is the append-only record of one Op.  Here: the event, the reading of events written
  before schema version 1, the status derived from a Track, and the two stores that live in
  one process or one file.  A store is a record of its operations, \<open>track_ops\<close>, over a
  state; the locale \<open>track_store\<close> is what every caller relies on, and both stores are
  interpreted in it.  The PostgreSQL store, whose point is concurrency, has its own theory.

  Times are microseconds since the epoch.  JSON text kept in a row is represented by the value
  it renders; a value \<open>json.dumps\<close> cannot render is refused, as \<open>TypeError\<close>.
\<close>

record track_event = track_fact +
  occurred_at :: int
  event_id :: string
  sequence :: "int option"
  schema :: int

definition SCHEMA_VERSION :: int where
  "SCHEMA_VERSION = 1"

definition PAYLOAD_INLINE_MAX_BYTES :: int where
  "PAYLOAD_INLINE_MAX_BYTES = 64 * 1024"

text \<open>\<open>event.sequence or 0\<close>.\<close>

definition seq_of :: "track_event \<Rightarrow> int" where
  "seq_of e = (case sequence e of None \<Rightarrow> 0 | Some n \<Rightarrow> n)"

subsection \<open>Events written before version 1\<close>

definition RENAMED :: "(string, string) dict" where
  "RENAMED =
    [(''submitted'', ''op_submitted''), (''paused'', ''gate_escalated''),
     (''signal_received'', ''gate_decided''), (''rejected'', ''gate_decided''),
     (''timed_out'', ''budget_exceeded'')]"

definition IMPLIED :: "(string, payload) dict" where
  "IMPLIED =
    [(''rejected'', [(''outcome'', PStr ''reject'')]),
     (''signal_received'', [(''outcome'', PStr ''send_back'')]),
     (''timed_out'', [(''dimension'', PStr ''duration'')])]"

definition upgrade_payload :: "string \<Rightarrow> payload \<Rightarrow> payload" where
  "upgrade_payload kind p =
     (let implied = (case map_of IMPLIED kind of None \<Rightarrow> [] | Some d \<Rightarrow> d);
          q = foldl (\<lambda>d (k, v). dict_setdefault k v d) p implied
      in case map_of q ''output'' of
           None \<Rightarrow> q
         | Some v \<Rightarrow> (if map_of q ''payload'' = None then AList.update ''payload'' v (AList.delete ''output'' q) else q))"

definition upgrade :: "track_event \<Rightarrow> track_event" where
  "upgrade e =
     (if SCHEMA_VERSION \<le> schema e then e
      else e\<lparr>event_type := (case map_of RENAMED (event_type e) of None \<Rightarrow> event_type e | Some t \<Rightarrow> t),
             payload := upgrade_payload (event_type e) (payload e), schema := SCHEMA_VERSION\<rparr>)"

text \<open>\<open>derive_run_status\<close>: the state of the run the Track tells of, if one was submitted.\<close>

definition derive_run_status :: "track_event list \<Rightarrow> exn + run_state option" where
  "derive_run_status es =
     bind_result (replay (map upgrade es)) (\<lambda>r. Inr (map_option run_state r))"

lemma upgrade_v1 [simp]: "schema e = SCHEMA_VERSION \<Longrightarrow> upgrade e = e"
  by (simp add: upgrade_def)

lemma upgrade_keeps [simp]:
  "run_id (upgrade e) = run_id e" "occurred_at (upgrade e) = occurred_at e"
  "event_id (upgrade e) = event_id e" "sequence (upgrade e) = sequence e" "seq_of (upgrade e) = seq_of e"
  by (simp_all add: upgrade_def seq_of_def)

lemma upgrade_schema: "SCHEMA_VERSION \<le> schema (upgrade e)"
  by (simp add: upgrade_def)

lemma upgrade_idem [simp]: "upgrade (upgrade e) = upgrade e"
  using upgrade_schema [of e] by (simp add: upgrade_def [of "upgrade e"])

lemma upgrade_type_not_renamed: "schema e < SCHEMA_VERSION \<Longrightarrow> event_type (upgrade e) \<notin> fst ` set RENAMED"
proof -
  assume "schema e < SCHEMA_VERSION"
  then have t: "event_type (upgrade e) = (case map_of RENAMED (event_type e) of None \<Rightarrow> event_type e | Some t \<Rightarrow> t)"
    by (simp add: upgrade_def)
  show ?thesis
  proof (cases "map_of RENAMED (event_type e)")
    case None
    then have "event_type e \<notin> fst ` set RENAMED" by (simp add: map_of_eq_None_iff)
    with t None show ?thesis by simp
  next
    case (Some s)
    then have "(event_type e, s) \<in> set RENAMED" by (rule map_of_SomeD)
    then show ?thesis unfolding t Some by (auto simp: RENAMED_def)
  qed
qed

subsection \<open>Stores\<close>

record 's track_ops =
  t_append :: "'s \<Rightarrow> track_event \<Rightarrow> (exn + track_event) \<times> 's"
  t_append_if :: "'s \<Rightarrow> track_event \<Rightarrow> (track_event list \<Rightarrow> exn + bool) \<Rightarrow> (exn + track_event option) \<times> 's"
  t_replay :: "'s \<Rightarrow> string \<Rightarrow> int \<Rightarrow> track_event list"
  t_put_payload :: "'s \<Rightarrow> string \<Rightarrow> string \<Rightarrow> pyval \<Rightarrow> 's"
  t_get_payload :: "'s \<Rightarrow> string \<Rightarrow> exn + pyval"
  t_run_ids :: "'s \<Rightarrow> string list"

definition log_of :: "'s track_ops \<Rightarrow> 's \<Rightarrow> string \<Rightarrow> track_event list" where
  "log_of ops s r = t_replay ops s r 0"

text \<open>
  \<open>append_if\<close>, given how a store appends and reads: the condition is asked of the run's Track
  and the event appended in one step.
\<close>

definition checked_append ::
  "('s \<Rightarrow> track_event \<Rightarrow> (exn + track_event) \<times> 's) \<Rightarrow> ('s \<Rightarrow> string \<Rightarrow> int \<Rightarrow> track_event list) \<Rightarrow>
   's \<Rightarrow> track_event \<Rightarrow> (track_event list \<Rightarrow> exn + bool) \<Rightarrow> (exn + track_event option) \<times> 's" where
  "checked_append put select s e condition =
     (case condition (select s (run_id e) 0) of
        Inl x \<Rightarrow> (Inl x, s)
      | Inr False \<Rightarrow> (Inr None, s)
      | Inr True \<Rightarrow>
          (case put s e of (Inl x, t) \<Rightarrow> (Inl x, t) | (Inr y, t) \<Rightarrow> (Inr (Some y), t)))"

definition SUBMITTED_TYPES :: "string list" where
  "SUBMITTED_TYPES = [''op_submitted'', ''submitted'']"

text \<open>Any call that writes to a store, from any process, and a sequence of them.\<close>

datatype store_call =
    Append track_event
  | AppendIf track_event "track_event list \<Rightarrow> exn + bool"
  | PutPayload string string pyval

fun store_step :: "'s track_ops \<Rightarrow> 's \<Rightarrow> store_call \<Rightarrow> 's" where
  "store_step ops s (Append e) = snd (t_append ops s e)"
| "store_step ops s (AppendIf e c) = snd (t_append_if ops s e c)"
| "store_step ops s (PutPayload r ref v) = t_put_payload ops s r ref v"

fun store_call_ok :: "store_call \<Rightarrow> bool" where
  "store_call_ok (AppendIf e c) = (sequence e = None)"
| "store_call_ok _ = True"

text \<open>
  \<open>_poll\<close>: what a stream yields.  Each look at the store is a pair of the state seen and
  the clock read after it; the cursor moves with each event, and the loop ends when no time
  was given or the deadline has passed (or the client stops asking, the end of the list).
\<close>

fun poll :: "('s \<Rightarrow> string \<Rightarrow> int \<Rightarrow> track_event list) \<Rightarrow> string \<Rightarrow> int \<Rightarrow> rat \<Rightarrow> rat \<Rightarrow> ('s \<times> rat) list \<Rightarrow> track_event list" where
  "poll read r cursor timeout deadline [] = []"
| "poll read r cursor timeout deadline ((s, now) # looks) =
     (let es = read s r cursor;
          cursor' = foldl (\<lambda>c e. if seq_of e = 0 then c else seq_of e) cursor es
      in es @ (if timeout = 0 \<or> deadline \<le> now then [] else poll read r cursor' timeout deadline looks))"

definition extends :: "track_event list \<Rightarrow> track_event list \<Rightarrow> bool" where
  "extends xs ys \<longleftrightarrow> take (length xs) ys = xs"

lemma extends_iff: "extends xs ys \<longleftrightarrow> (\<exists>zs. ys = xs @ zs)"
  unfolding extends_def by (metis append_eq_conv_conj append_take_drop_id)

lemma extends_refl [simp]: "extends xs xs"
  by (simp add: extends_iff)

lemma extends_trans: "extends xs ys \<Longrightarrow> extends ys zs \<Longrightarrow> extends xs zs"
  by (auto simp: extends_iff)

locale track_store =
  fixes ops :: "'s track_ops" and inv :: "'s \<Rightarrow> bool"
  assumes append_inv: "inv s \<Longrightarrow> t_append ops s e = (res, s') \<Longrightarrow> inv s'"
    and append_stores: "inv s \<Longrightarrow> t_append ops s e = (Inr e', s') \<Longrightarrow>
      sequence e = None \<and> (\<exists>n>0. e' = e\<lparr>sequence := Some n\<rparr> \<and> (\<forall>x\<in>set (log_of ops s (run_id e)). seq_of x < n)) \<and>
      (\<forall>r. log_of ops s' r = (if r = run_id e then log_of ops s r @ [e'] else log_of ops s r))"
    and append_refuses: "inv s \<Longrightarrow> t_append ops s e = (Inl x, s') \<Longrightarrow> s' = s"
    and append_errors: "t_append ops s e = (Inl x, s') \<Longrightarrow> \<not> is_invalid_transition x \<and> x \<noteq> RunBusy"
    and append_if_is: "inv s \<Longrightarrow> sequence e = None \<Longrightarrow>
      t_append_if ops s e c = checked_append (t_append ops) (t_replay ops) s e c"
    and replay_after: "inv s \<Longrightarrow> t_replay ops s r k = filter (\<lambda>e. k < seq_of e) (log_of ops s r)"
    and log_events: "inv s \<Longrightarrow> e \<in> set (log_of ops s r) \<Longrightarrow> run_id e = r \<and> 0 < seq_of e"
    and log_sorted: "inv s \<Longrightarrow> sorted_wrt (\<lambda>a b. seq_of a < seq_of b) (log_of ops s r)"
    and log_one_submission: "inv s \<Longrightarrow> length (filter (\<lambda>e. event_type e = ''op_submitted'') (log_of ops s r)) \<le> 1"
    and run_ids_are: "inv s \<Longrightarrow> distinct (t_run_ids ops s) \<and>
      (r \<in> set (t_run_ids ops s) \<longleftrightarrow> (\<exists>e\<in>set (log_of ops s r). event_type e \<in> set SUBMITTED_TYPES))"
    and put_keeps: "inv s \<Longrightarrow> inv (t_put_payload ops s r ref v) \<and>
      log_of ops (t_put_payload ops s r ref v) r' = log_of ops s r'"
    and get_put: "t_get_payload ops (t_put_payload ops s r ref v) ref' =
      (if ref' = ref then Inr v else t_get_payload ops s ref')"
    and get_append: "t_append ops s e = (res, s') \<Longrightarrow> t_get_payload ops s' ref = t_get_payload ops s ref"
begin

lemma append_extends:
  assumes "inv s" and "t_append ops s e = (res, s')"
  shows "\<exists>new. log_of ops s' r = log_of ops s r @ new \<and> length new \<le> 1"
  using assms append_stores [of s e] append_refuses [of s e]
  by (cases res) (fastforce split: if_splits)+

lemma append_if_inv:
  assumes "inv s" and "sequence e = None" and "t_append_if ops s e c = (res, s')"
  shows "inv s'"
  using assms append_inv [of s e]
  by (auto simp: append_if_is checked_append_def split: sum.splits bool.splits prod.splits)

text \<open>An event landed by \<open>append_if\<close> lands on exactly the Track its condition was true of.\<close>

lemma append_if_atomic:
  assumes "inv s" and "sequence e = None" and "t_append_if ops s e c = (Inr (Some e'), s')"
  shows "c (log_of ops s (run_id e)) = Inr True \<and> log_of ops s' (run_id e) = log_of ops s (run_id e) @ [e'] \<and>
         (\<exists>n. e' = e\<lparr>sequence := Some n\<rparr>)"
proof -
  from assms have c: "c (log_of ops s (run_id e)) = Inr True" "t_append ops s e = (Inr e', s')"
    by (auto simp: append_if_is checked_append_def log_of_def split: sum.splits bool.splits prod.splits)
  then show ?thesis using append_stores [OF assms(1) c(2)] by auto
qed

lemma append_if_declined:
  assumes "inv s" and "sequence e = None" and "t_append_if ops s e c = (res, s')" and "\<forall>e'. res \<noteq> Inr (Some e')"
  shows "s' = s"
  using assms append_refuses [of s e]
  by (auto simp: append_if_is checked_append_def split: sum.splits bool.splits prod.splits)

text \<open>A reader that keeps the last sequence it saw as a cursor misses nothing and sees nothing twice.\<close>

lemma cursor_complete:
  assumes "inv s" and "log_of ops s r = seen @ new" and "seen \<noteq> []"
  shows "t_replay ops s r (seq_of (last seen)) = new"
proof -
  obtain xs x where seen: "seen = xs @ [x]" using assms(3) by (metis rev_exhaust)
  have "sorted_wrt (\<lambda>a b. seq_of a < seq_of b) (xs @ x # new)" using log_sorted [OF assms(1), of r] assms(2) seen by simp
  then have "filter (\<lambda>e. seq_of x < seq_of e) xs = []" "filter (\<lambda>e. seq_of x < seq_of e) new = new"
    by (auto simp: sorted_wrt_append filter_empty_conv filter_id_conv)
  with replay_after [OF assms(1), of r "seq_of x"] assms(2) seen show ?thesis by simp
qed

lemma store_step_inv: "inv s \<Longrightarrow> store_call_ok c \<Longrightarrow> inv (store_step ops s c)"
  by (cases c) (auto simp: put_keeps intro: append_inv append_if_inv prod.collapse [symmetric])

lemma store_step_extends:
  assumes "inv s" and "store_call_ok c"
  shows "extends (log_of ops s r) (log_of ops (store_step ops s c) r)"
proof (cases c)
  case (Append e)
  with append_extends [OF assms(1), of e "fst (t_append ops s e)" "snd (t_append ops s e)" r]
  show ?thesis by (auto simp: extends_iff)
next
  case (AppendIf e k)
  obtain res s' where st: "t_append_if ops s e k = (res, s')" by (cases "t_append_if ops s e k")
  show ?thesis
  proof (cases "\<exists>e'. res = Inr (Some e')")
    case True
    with st AppendIf assms obtain e' where "t_append ops s e = (Inr e', s')"
      by (auto simp: append_if_is checked_append_def split: sum.splits bool.splits prod.splits)
    with append_extends [OF assms(1) this, of r] st AppendIf show ?thesis by (auto simp: extends_iff)
  next
    case False
    with append_if_declined [OF assms(1) _ st] AppendIf assms st show ?thesis by simp
  qed
qed (simp add: put_keeps assms)

lemma store_steps:
  assumes "inv s" and "list_all store_call_ok cs"
  shows "inv (foldl (store_step ops) s cs) \<and>
         extends (log_of ops s r) (log_of ops (foldl (store_step ops) s cs) r)"
  using assms
proof (induction cs arbitrary: s)
  case (Cons c cs)
  then have "inv (store_step ops s c)" "extends (log_of ops s r) (log_of ops (store_step ops s c) r)"
    using store_step_inv store_step_extends by auto
  with Cons.IH [of "store_step ops s c"] Cons.prems show ?case by (auto intro: extends_trans)
qed simp

text \<open>The cursor after reading events in order is the last one's sequence.\<close>

lemma cursor_after:
  "\<forall>e\<in>set es. 0 < seq_of e \<Longrightarrow>
   foldl (\<lambda>c e. if seq_of e = 0 then c else seq_of e) cursor es = (if es = [] then cursor else seq_of (last es))"
  by (induction es arbitrary: cursor) auto

lemma poll_yields:
  assumes "list_all (\<lambda>(s, t). inv s) looks"
    and "sorted_wrt (\<lambda>(s, _) (t, _). extends (log_of ops s r) (log_of ops t r)) looks"
    and "\<forall>(s, _)\<in>set looks. extends seen (log_of ops s r)"
    and "\<forall>e\<in>set seen. seq_of e \<le> cursor" and "seen \<noteq> [] \<Longrightarrow> cursor \<le> seq_of (last seen)"
    and "seen = [] \<Longrightarrow> cursor \<le> 0"
  shows "\<exists>k. seen @ poll (t_replay ops) r cursor timeout deadline looks =
           (if k = 0 then seen else log_of ops (fst (looks ! (k - 1))) r) \<and> k \<le> length looks \<and>
           (looks \<noteq> [] \<longrightarrow> 0 < k)"
  using assms
proof (induction looks arbitrary: cursor seen)
  case (Cons l looks)
  obtain s now where l: "l = (s, now)" by (cases l)
  from Cons.prems l obtain new where new: "log_of ops s r = seen @ new" and i: "inv s"
    by (auto simp: extends_iff)
  have read: "t_replay ops s r cursor = new"
  proof (cases "seen = []")
    case True
    with Cons.prems(6) new i log_events [OF i, of _ r] show ?thesis
      by (force simp: replay_after filter_id_conv)
  next
    case False
    with Cons.prems(4,5) have "cursor = seq_of (last seen)" by (simp add: order_antisym)
    with cursor_complete [OF i new False] show ?thesis by simp
  qed
  have pos: "\<forall>e\<in>set new. 0 < seq_of e" using log_events [OF i, of _ r] new by auto
  let ?c = "if new = [] then cursor else seq_of (last new)"
  have sorted: "sorted_wrt (\<lambda>a b. seq_of a < seq_of b) (seen @ new)" using log_sorted [OF i, of r] new by simp
  have le: "\<forall>e\<in>set (seen @ new). seq_of e \<le> ?c"
  proof (cases "new = []")
    case False
    then obtain xs x where x: "new = xs @ [x]" by (metis rev_exhaust)
    from sorted show ?thesis unfolding x by (auto simp: sorted_wrt_append)
  qed (use Cons.prems(4) in simp)
  show ?case
  proof (cases "timeout = 0 \<or> deadline \<le> now")
    case True
    with read new l show ?thesis by (intro exI [of _ 1]) (simp add: Let_def)
  next
    case False
    have "\<exists>k. (seen @ new) @ poll (t_replay ops) r ?c timeout deadline looks =
        (if k = 0 then seen @ new else log_of ops (fst (looks ! (k - 1))) r) \<and> k \<le> length looks \<and>
        (looks \<noteq> [] \<longrightarrow> 0 < k)"
    proof (rule Cons.IH)
      show "list_all (\<lambda>(s, t). inv s) looks" using Cons.prems(1) by simp
      show "sorted_wrt (\<lambda>(s, _) (t, _). extends (log_of ops s r) (log_of ops t r)) looks"
        using Cons.prems(2) by simp
      show "\<forall>(s, _)\<in>set looks. extends (seen @ new) (log_of ops s r)"
        using Cons.prems(2) l new by auto
      show "\<forall>e\<in>set (seen @ new). seq_of e \<le> ?c" by (fact le)
      show "seen @ new \<noteq> [] \<Longrightarrow> ?c \<le> seq_of (last (seen @ new))" using Cons.prems(5) by auto
      show "seen @ new = [] \<Longrightarrow> ?c \<le> 0" using Cons.prems(6) by auto
    qed
    then obtain k where k: "(seen @ new) @ poll (t_replay ops) r ?c timeout deadline looks =
        (if k = 0 then seen @ new else log_of ops (fst (looks ! (k - 1))) r)" "k \<le> length looks" by blast
    show ?thesis
      using k False read new l cursor_after [OF pos, of cursor]
      by (intro exI [of _ "Suc k"]) (auto simp: Let_def nth_Cons')
  qed
qed auto

end

end
