(* ===== verification/PostgresTrack.thy ===== *)
theory PostgresTrack
  imports Track
begin

section \<open>The PostgreSQL store: concurrent transactions (track.py)\<close>

text \<open>
  The store behind several API replicas.  What matters is interleaving: a row's sequence is
  drawn when it is inserted and visible when its transaction commits.  The model is a step
  relation over the statements of concurrent \<open>append\<close> and \<open>append_if\<close> calls, each a
  transaction: take the run's advisory lock, (for \<open>append_if\<close>) read and ask the condition,
  insert, commit; a transaction may also be lost at any point.  PostgreSQL's documented part
  is what the steps say: the lock is exclusive and held to the end of the transaction, a
  statement sees committed rows, \<open>nextval\<close> never repeats and is not rolled back, a unique
  index refuses a duplicate.

  Parameters: \<open>lock_key\<close>, which number \<open>hashtextextended\<close> gives a lock's name (two runs may
  collide; they then only wait for each other), and \<open>jsonb\<close>, what a payload reads back as
  from a \<open>jsonb\<close> column, or that the database refuses it.
\<close>

definition run_lock :: "string \<Rightarrow> string" where
  "run_lock r = ''collab_track:'' @ r"

datatype pg_call =
    PgAppend track_event
  | PgAppendIf track_event "track_event list \<Rightarrow> exn + bool"

fun pg_event :: "pg_call \<Rightarrow> track_event" where
  "pg_event (PgAppend e) = e"
| "pg_event (PgAppendIf e _) = e"

record pg_tx =
  tx_call :: pg_call
  tx_row :: "track_event option"

record 'k pg_store =
  committed :: "track_event list"
  next_val :: int
  holder :: "'k \<Rightarrow> nat option"
  open_tx :: "nat \<Rightarrow> pg_tx option"
  pg_payloads :: "(string, pyval) dict"

definition pg_init :: "'k pg_store" where
  "pg_init = \<lparr>committed = [], next_val = 1, holder = (\<lambda>k. None), open_tx = (\<lambda>t. None), pg_payloads = []\<rparr>"

text \<open>\<open>_select\<close>: the committed rows of a run after a sequence, in sequence order.\<close>

definition pg_select :: "'k pg_store \<Rightarrow> string \<Rightarrow> int \<Rightarrow> track_event list" where
  "pg_select s r after_sequence =
     sort_key seq_of (filter (\<lambda>e. run_id e = r \<and> after_sequence < seq_of e) (committed s))"

definition pg_run_ids :: "'k pg_store \<Rightarrow> string list" where
  "pg_run_ids s =
     once (map run_id (sort_key seq_of (filter (\<lambda>e. event_type e \<in> set SUBMITTED_TYPES) (committed s))))"

definition pg_put_payload :: "(pyval \<Rightarrow> exn + pyval) \<Rightarrow> 'k pg_store \<Rightarrow> string \<Rightarrow> string \<Rightarrow> pyval \<Rightarrow> (exn + unit) \<times> 'k pg_store" where
  "pg_put_payload jsonb s r ref v =
     (case jsonb v of
        Inl x \<Rightarrow> (Inl x, s)
      | Inr w \<Rightarrow> (Inr (), s\<lparr>pg_payloads := AList.update ref w (pg_payloads s)\<rparr>))"

definition pg_get_payload :: "'k pg_store \<Rightarrow> string \<Rightarrow> exn + pyval" where
  "pg_get_payload s ref = (case map_of (pg_payloads s) ref of None \<Rightarrow> Inl KeyError | Some v \<Rightarrow> Inr v)"

text \<open>
  \<open>_insert\<close>'s statement: the row it would add, at the sequence drawn, or the error.  A row
  another open transaction inserted under the same id is waited for, so it is among the
  conditions of the step below, not here.
\<close>

definition pg_insert ::
  "(pyval \<Rightarrow> exn + pyval) \<Rightarrow> 'k pg_store \<Rightarrow> track_event \<Rightarrow> exn + track_event" where
  "pg_insert jsonb s e =
     (if \<not> is_json (PDict (payload e)) then Inl TypeError
      else case jsonb (PDict (payload e)) of
        Inl x \<Rightarrow> Inl x
      | Inr v \<Rightarrow>
          if list_ex (\<lambda>x. event_id x = event_id e) (committed s) then Inl IntegrityError
          else if event_type e = ''op_submitted'' \<and>
                  list_ex (\<lambda>x. run_id x = run_id e \<and> event_type x = ''op_submitted'') (committed s)
          then Inl OneSubmissionPerRun
          else Inr (e\<lparr>sequence := Some (next_val s), payload := (case v of PDict d \<Rightarrow> d | _ \<Rightarrow> payload e)\<rparr>))"

definition end_tx :: "'k pg_store \<Rightarrow> nat \<Rightarrow> 'k pg_store" where
  "end_tx s t =
     s\<lparr>open_tx := (open_tx s)(t := None), holder := (\<lambda>k. if holder s k = Some t then None else holder s k)\<rparr>"

fun pg_wanted :: "'k pg_store \<Rightarrow> pg_call \<Rightarrow> bool" where
  "pg_wanted s (PgAppend e) = True"
| "pg_wanted s (PgAppendIf e condition) = (condition (pg_select s (run_id e) 0) = Inr True)"

inductive pg_step ::
  "(string \<Rightarrow> 'k) \<Rightarrow> (pyval \<Rightarrow> exn + pyval) \<Rightarrow> 'k pg_store \<Rightarrow> 'k pg_store \<Rightarrow> bool"
  for lock_key :: "string \<Rightarrow> 'k" and jsonb :: "pyval \<Rightarrow> exn + pyval" where
  pg_lock: "open_tx s t = None \<Longrightarrow> sequence (pg_event c) = None \<Longrightarrow>
    k = lock_key (run_lock (run_id (pg_event c))) \<Longrightarrow> holder s k = None \<Longrightarrow>
    pg_step lock_key jsonb s
      (s\<lparr>holder := (holder s)(k := Some t), open_tx := (open_tx s)(t := Some \<lparr>tx_call = c, tx_row = None\<rparr>)\<rparr>)"
| pg_declined: "open_tx s t = Some \<lparr>tx_call = c, tx_row = None\<rparr> \<Longrightarrow> \<not> pg_wanted s c \<Longrightarrow>
    pg_step lock_key jsonb s (end_tx s t)"
| pg_inserted: "open_tx s t = Some \<lparr>tx_call = c, tx_row = None\<rparr> \<Longrightarrow> pg_wanted s c \<Longrightarrow>
    pg_insert jsonb s (pg_event c) = Inr row \<Longrightarrow>
    pg_step lock_key jsonb s
      (s\<lparr>next_val := next_val s + 1, open_tx := (open_tx s)(t := Some \<lparr>tx_call = c, tx_row = Some row\<rparr>)\<rparr>)"
| pg_refused: "open_tx s t = Some \<lparr>tx_call = c, tx_row = None\<rparr> \<Longrightarrow> pg_wanted s c \<Longrightarrow>
    pg_insert jsonb s (pg_event c) = Inl x \<Longrightarrow>
    pg_step lock_key jsonb s (end_tx (s\<lparr>next_val := next_val s + 1\<rparr>) t)"
| pg_commit: "open_tx s t = Some \<lparr>tx_call = c, tx_row = Some row\<rparr> \<Longrightarrow>
    pg_step lock_key jsonb s (end_tx (s\<lparr>committed := committed s @ [row]\<rparr>) t)"
| pg_lost: "open_tx s t = Some x \<Longrightarrow> pg_step lock_key jsonb s (end_tx s t)"

inductive_cases pg_stepE: "pg_step lock_key jsonb s s'"

subsection \<open>What holds between any two statements\<close>

definition run_rows :: "'k pg_store \<Rightarrow> string \<Rightarrow> track_event list" where
  "run_rows s r = filter (\<lambda>e. run_id e = r) (committed s)"

definition rows_inv :: "'k pg_store \<Rightarrow> bool" where
  "rows_inv s \<longleftrightarrow>
     0 < next_val s \<and>
     (\<forall>e\<in>set (committed s). 0 < seq_of e \<and> seq_of e < next_val s) \<and>
     (\<forall>r. sorted_wrt (\<lambda>a b. seq_of a < seq_of b) (run_rows s r)
          \<and> length (filter (\<lambda>e. event_type e = ''op_submitted'') (run_rows s r)) \<le> 1)"

text \<open>An open transaction holds its run's lock; a row it inserted comes after every row of the run.\<close>

definition row_inv :: "'k pg_store \<Rightarrow> pg_call \<Rightarrow> track_event \<Rightarrow> bool" where
  "row_inv s c row \<longleftrightarrow>
     run_id row = run_id (pg_event c) \<and> pg_wanted s c \<and> 0 < seq_of row \<and> seq_of row < next_val s \<and>
     (\<forall>e\<in>set (run_rows s (run_id row)). seq_of e < seq_of row) \<and>
     (event_type row = ''op_submitted'' \<longrightarrow>
        filter (\<lambda>e. event_type e = ''op_submitted'') (run_rows s (run_id row)) = [])"

definition tx_inv :: "(string \<Rightarrow> 'k) \<Rightarrow> 'k pg_store \<Rightarrow> nat \<Rightarrow> pg_tx \<Rightarrow> bool" where
  "tx_inv lock_key s t x \<longleftrightarrow>
     holder s (lock_key (run_lock (run_id (pg_event (tx_call x))))) = Some t \<and>
     (\<forall>row. tx_row x = Some row \<longrightarrow> row_inv s (tx_call x) row)"

definition pg_inv :: "(string \<Rightarrow> 'k) \<Rightarrow> 'k pg_store \<Rightarrow> bool" where
  "pg_inv lock_key s \<longleftrightarrow> rows_inv s \<and> (\<forall>t x. open_tx s t = Some x \<longrightarrow> tx_inv lock_key s t x)"

lemma pg_select_rows:
  assumes "rows_inv s"
  shows "pg_select s r k = filter (\<lambda>e. k < seq_of e) (run_rows s r)"
proof -
  have "sorted_wrt (\<lambda>a b. seq_of a < seq_of b) (run_rows s r)" using assms by (simp add: rows_inv_def)
  then have "sorted_wrt (\<lambda>a b. seq_of a < seq_of b) (filter (\<lambda>e. k < seq_of e) (run_rows s r))"
    by (rule sorted_wrt_filter)
  then have "sorted (map seq_of (filter (\<lambda>e. k < seq_of e) (run_rows s r)))"
    by (auto simp: sorted_map intro: sorted_wrt_mono_rel [rotated])
  moreover have "filter (\<lambda>e. run_id e = r \<and> k < seq_of e) (committed s) = filter (\<lambda>e. k < seq_of e) (run_rows s r)"
    by (simp add: run_rows_def conj_commute)
  ultimately show ?thesis by (simp add: pg_select_def sort_key_id_if_sorted)
qed

lemma pg_select_all: "rows_inv s \<Longrightarrow> pg_select s r 0 = run_rows s r"
  by (simp add: pg_select_rows filter_id_conv) (simp add: rows_inv_def run_rows_def)

lemma pg_wanted_cong: "pg_select s' (run_id (pg_event c)) 0 = pg_select s (run_id (pg_event c)) 0 \<Longrightarrow>
  pg_wanted s' c = pg_wanted s c"
  by (cases c) simp_all

lemma pg_insert_Inr:
  assumes "pg_insert jsonb s e = Inr row"
  shows "run_id row = run_id e" "seq_of row = next_val s" "event_type row = event_type e"
    "event_type e = ''op_submitted'' \<Longrightarrow> filter (\<lambda>x. event_type x = ''op_submitted'') (run_rows s (run_id e)) = []"
  using assms
  by (auto simp: pg_insert_def seq_of_def run_rows_def list_ex_iff filter_empty_conv split: if_splits sum.splits)

lemma end_tx_simps [simp]:
  "committed (end_tx s t) = committed s" "next_val (end_tx s t) = next_val s"
  "run_rows (end_tx s t) r = run_rows s r" "pg_select (end_tx s t) r k = pg_select s r k"
  "rows_inv (end_tx s t) = rows_inv s"
  by (simp_all add: end_tx_def run_rows_def pg_select_def rows_inv_def)

lemma row_inv_end_tx [simp]: "row_inv (end_tx s t) c row = row_inv s c row"
  using pg_wanted_cong [of "end_tx s t" c s] by (simp add: row_inv_def)

lemma pg_inv_init: "pg_inv lock_key pg_init"
  by (simp add: pg_inv_def rows_inv_def pg_init_def run_rows_def)

lemma open_end_tx: "open_tx (end_tx s t) u = Some x \<longleftrightarrow> u \<noteq> t \<and> open_tx s u = Some x"
  by (auto simp: end_tx_def)

lemma tx_inv_end_tx: "u \<noteq> t \<Longrightarrow> tx_inv lock_key s u x \<Longrightarrow> tx_inv lock_key (end_tx s t) u x"
  by (simp add: tx_inv_def) (simp add: end_tx_def)

lemma pg_inv_end_tx: "pg_inv lock_key s \<Longrightarrow> pg_inv lock_key (end_tx s t)"
  by (auto simp: pg_inv_def open_end_tx intro: tx_inv_end_tx)

text \<open>Steps that leave the committed rows alone and only raise the counter keep what rows say.\<close>

lemma row_inv_mono:
  assumes "row_inv s c row" and "committed s' = committed s" and "next_val s \<le> next_val s'"
  shows "row_inv s' c row"
proof -
  have "pg_wanted s' c = pg_wanted s c" using assms(2) by (intro pg_wanted_cong) (simp add: pg_select_def)
  moreover have "run_rows s' = run_rows s" using assms(2) by (intro ext) (simp add: run_rows_def)
  ultimately show ?thesis using assms(1,3) by (auto simp: row_inv_def)
qed

lemma rows_inv_mono:
  "rows_inv s \<Longrightarrow> committed s' = committed s \<Longrightarrow> next_val s \<le> next_val s' \<Longrightarrow> rows_inv s'"
  by (auto simp: rows_inv_def run_rows_def)

lemma tx_inv_mono:
  assumes "tx_inv lock_key s u x" and "committed s' = committed s" and "next_val s \<le> next_val s'"
    and "\<And>k. holder s k = Some u \<Longrightarrow> holder s' k = Some u"
  shows "tx_inv lock_key s' u x"
  using assms row_inv_mono [OF _ assms(2,3)] by (auto simp: tx_inv_def)

text \<open>Committing one transaction's row leaves the other open ones as they were: they hold other locks.\<close>

lemma run_rows_commit:
  "run_rows (s\<lparr>committed := committed s @ [row]\<rparr>) r = run_rows s r @ (if run_id row = r then [row] else [])"
  by (simp add: run_rows_def)

lemma rows_inv_commit:
  assumes "rows_inv s" and "row_inv s c row"
  shows "rows_inv (s\<lparr>committed := committed s @ [row]\<rparr>)"
  using assms unfolding rows_inv_def row_inv_def run_rows_commit
  by (auto simp: sorted_wrt_append)

lemma tx_inv_commit:
  assumes "tx_inv lock_key s u x" and "tx_inv lock_key s t \<lparr>tx_call = c, tx_row = Some row\<rparr>" and "u \<noteq> t"
    and "rows_inv s"
  shows "tx_inv lock_key (s\<lparr>committed := committed s @ [row]\<rparr>) u x"
proof -
  let ?s = "s\<lparr>committed := committed s @ [row]\<rparr>"
  have row: "row_inv s c row" using assms(2) by (simp add: tx_inv_def)
  have ne: "run_id row \<noteq> run_id (pg_event (tx_call x))"
    using assms(1-3) row by (auto simp: tx_inv_def row_inv_def)
  then have same: "run_rows ?s (run_id (pg_event (tx_call x))) = run_rows s (run_id (pg_event (tx_call x)))"
    by (simp add: run_rows_commit)
  then have "pg_wanted ?s (tx_call x) = pg_wanted s (tx_call x)"
    using rows_inv_commit [OF assms(4) row] assms(4) by (intro pg_wanted_cong) (simp add: pg_select_all)
  then have "row_inv s (tx_call x) r \<Longrightarrow> row_inv ?s (tx_call x) r" for r
    using same by (auto simp: row_inv_def)
  with assms(1) show ?thesis by (simp add: tx_inv_def)
qed

lemma pg_inv_step:
  assumes "pg_step lock_key jsonb s s'" and "pg_inv lock_key s"
  shows "pg_inv lock_key s'"
  using assms
proof cases
  case (pg_lock t c k)
  have "tx_inv lock_key s' u x" if "tx_inv lock_key s u x" for u x
    using that by (rule tx_inv_mono) (use pg_lock in auto)
  moreover have "tx_inv lock_key s' t \<lparr>tx_call = c, tx_row = None\<rparr>"
    using pg_lock by (simp add: tx_inv_def)
  moreover have "rows_inv s'"
    by (rule rows_inv_mono [of s]) (use assms(2) pg_lock in \<open>auto simp: pg_inv_def\<close>)
  ultimately show ?thesis using assms(2) by (simp add: pg_inv_def) (simp add: pg_lock(1))
next
  case (pg_inserted t c row)
  have t: "tx_inv lock_key s t \<lparr>tx_call = c, tx_row = None\<rparr>" and r: "rows_inv s"
    using pg_inserted assms(2) by (auto simp: pg_inv_def)
  have "row_inv s' c row"
  proof -
    have "pg_wanted s' c = pg_wanted s c"
      unfolding pg_inserted by (intro pg_wanted_cong) (simp add: pg_select_def)
    moreover have "run_rows s' = run_rows s" unfolding pg_inserted by (intro ext) (simp add: run_rows_def)
    ultimately show ?thesis
      using pg_insert_Inr [OF pg_inserted(4)] pg_inserted r
      by (auto simp: row_inv_def rows_inv_def run_rows_def)
  qed
  with t have "tx_inv lock_key s' t \<lparr>tx_call = c, tx_row = Some row\<rparr>"
    by (simp add: tx_inv_def pg_inserted(1))
  moreover have "rows_inv s'" using r by (rule rows_inv_mono) (simp_all add: pg_inserted(1))
  moreover have "tx_inv lock_key s' u x" if "tx_inv lock_key s u x" for u x
    using that by (rule tx_inv_mono) (simp_all add: pg_inserted(1))
  ultimately show ?thesis using assms(2) by (simp add: pg_inv_def) (simp add: pg_inserted(1))
next
  case (pg_refused t c x)
  have "pg_inv lock_key (s\<lparr>next_val := next_val s + 1\<rparr>)"
    using assms(2) by (auto simp: pg_inv_def intro: rows_inv_mono [of s] tx_inv_mono [of lock_key s])
  then show ?thesis unfolding pg_refused(1) by (rule pg_inv_end_tx)
next
  case (pg_commit t c row)
  have t: "tx_inv lock_key s t \<lparr>tx_call = c, tx_row = Some row\<rparr>" and r: "rows_inv s"
    using pg_commit assms(2) by (auto simp: pg_inv_def)
  then have "rows_inv (s\<lparr>committed := committed s @ [row]\<rparr>)"
    by (intro rows_inv_commit [of s c]) (auto simp: tx_inv_def)
  with assms(2) tx_inv_commit [OF _ t _ r] show ?thesis
    unfolding pg_commit(1) by (auto simp: pg_inv_def open_end_tx intro: tx_inv_end_tx)
qed (use assms(2) pg_inv_end_tx in auto)

subsection \<open>A cursor over one run never skips an event\<close>

definition pg_reachable :: "(string \<Rightarrow> 'k) \<Rightarrow> (pyval \<Rightarrow> exn + pyval) \<Rightarrow> 'k pg_store \<Rightarrow> bool" where
  "pg_reachable lock_key jsonb s \<longleftrightarrow> (pg_step lock_key jsonb)\<^sup>*\<^sup>* pg_init s"

lemma pg_steps_inv:
  "(pg_step lock_key jsonb)\<^sup>*\<^sup>* s s' \<Longrightarrow> pg_inv lock_key s \<Longrightarrow> pg_inv lock_key s'"
  by (induction rule: rtranclp_induct) (auto intro: pg_inv_step)

lemma pg_step_extends:
  assumes "pg_step lock_key jsonb s s'"
  shows "extends (run_rows s r) (run_rows s' r)"
  using assms by cases (auto simp: extends_iff run_rows_def end_tx_def)

lemma pg_steps_extends:
  "(pg_step lock_key jsonb)\<^sup>*\<^sup>* s s' \<Longrightarrow> extends (run_rows s r) (run_rows s' r)"
  by (induction rule: rtranclp_induct) (auto intro: extends_trans pg_step_extends)

text \<open>
  C27: however the transactions of any number of writers interleave and fail, what a reader has
  seen of a run stays a prefix of its Track, every later event has a larger sequence than all
  it has seen, so reading on from the last sequence seen gives exactly the events it has not
  seen; and a run has at most one submission.
\<close>

theorem pg_cursor_never_skips:
  assumes "pg_reachable lock_key jsonb s" and "(pg_step lock_key jsonb)\<^sup>*\<^sup>* s s'"
    and "pg_select s r 0 \<noteq> []"
  shows "pg_select s' r 0 = pg_select s r 0 @ pg_select s' r (seq_of (last (pg_select s r 0)))
       \<and> length (filter (\<lambda>e. event_type e = ''op_submitted'') (pg_select s' r 0)) \<le> 1"
proof -
  have s: "rows_inv s" and s': "rows_inv s'"
    using assms(1,2) pg_steps_inv pg_inv_init unfolding pg_reachable_def by (metis pg_inv_def)+
  obtain new where new: "run_rows s' r = run_rows s r @ new"
    using pg_steps_extends [OF assms(2), of r] by (auto simp: extends_iff)
  obtain xs x where x: "run_rows s r = xs @ [x]"
    using assms(3) by (metis pg_select_all [OF s] rev_exhaust)
  have "sorted_wrt (\<lambda>a b. seq_of a < seq_of b) (xs @ x # new)"
    using s' new x unfolding rows_inv_def by (metis append.assoc append_Cons append_Nil)
  then have "filter (\<lambda>e. seq_of x < seq_of e) (xs @ x # new) = new"
    by (auto simp: sorted_wrt_append filter_empty_conv filter_id_conv)
  then have "pg_select s' r (seq_of x) = new" using new x by (simp add: pg_select_rows [OF s'])
  moreover have "length (filter (\<lambda>e. event_type e = ''op_submitted'') (run_rows s' r)) \<le> 1"
    using s' by (simp only: rows_inv_def)
  ultimately show ?thesis using new x by (simp only: pg_select_all [OF s] pg_select_all [OF s'] last_snoc)
qed

definition pg_example_event :: "string \<Rightarrow> string \<Rightarrow> track_event" where
  "pg_example_event ty i =
     \<lparr>run_id = ''r'', event_type = ty, payload = [], occurred_at = 0, event_id = i, sequence = None, schema = 1\<rparr>"

lemma pg_insert_cong:
  assumes "committed s' = committed s" and "next_val s' = next_val s"
  shows "pg_insert jsonb s' e = pg_insert jsonb s e"
  unfolding pg_insert_def assms ..

lemma pg_append_alone:
  assumes "open_tx s = (\<lambda>_. None)" and "holder s = (\<lambda>_. None)" and "sequence e = None"
    and "pg_insert jsonb s e = Inr row"
  shows "\<exists>s'. (pg_step lock_key jsonb)\<^sup>*\<^sup>* s s' \<and> committed s' = committed s @ [row] \<and>
    next_val s' = next_val s + 1 \<and> open_tx s' = (\<lambda>_. None) \<and> holder s' = (\<lambda>_. None)"
proof -
  let ?a = "s\<lparr>holder := (holder s)(lock_key (run_lock (run_id e)) := Some 0),
      open_tx := (open_tx s)(0 := Some \<lparr>tx_call = PgAppend e, tx_row = None\<rparr>)\<rparr>"
  let ?b = "?a\<lparr>next_val := next_val ?a + 1, open_tx := (open_tx ?a)(0 := Some \<lparr>tx_call = PgAppend e, tx_row = Some row\<rparr>)\<rparr>"
  let ?c = "end_tx (?b\<lparr>committed := committed ?b @ [row]\<rparr>) 0"
  have "pg_step lock_key jsonb s ?a" using pg_lock [of s 0 "PgAppend e"] assms by simp
  moreover have "pg_step lock_key jsonb ?a ?b"
    using pg_inserted [of ?a 0 "PgAppend e" jsonb row lock_key] assms(4) pg_insert_cong [of ?a s jsonb e] by simp
  moreover have "pg_step lock_key jsonb ?b ?c" by (rule pg_commit) simp
  ultimately have "(pg_step lock_key jsonb)\<^sup>*\<^sup>* s ?c"
    by (blast intro: converse_rtranclp_into_rtranclp rtranclp.rtrancl_refl)
  moreover have "open_tx ?c = (\<lambda>_. None)" "holder ?c = (\<lambda>_. None)" using assms(1,2) by (auto simp: end_tx_def)
  ultimately show ?thesis by (intro exI [of _ ?c]) simp
qed

theorem pg_cursor_never_skips_witness:
  "\<exists>(s :: string pg_store) (s' :: string pg_store). pg_select s ''r'' 0 \<noteq> [] \<and> length (pg_select s' ''r'' 0) = 2 \<and>
     pg_select s' ''r'' 0 = pg_select s ''r'' 0 @ pg_select s' ''r'' (seq_of (last (pg_select s ''r'' 0)))"
proof -
  define e1 where "e1 = pg_example_event ''op_submitted'' ''a''"
  define e2 where "e2 = pg_example_event ''completed'' ''b''"
  have i1: "pg_insert Inr (pg_init :: string pg_store) e1 = Inr (e1\<lparr>sequence := Some 1\<rparr>)"
    by (simp add: pg_init_def e1_def pg_example_event_def pg_insert_def)
  obtain s :: "string pg_store" where s: "(pg_step id Inr)\<^sup>*\<^sup>* pg_init s" "committed s = [e1\<lparr>sequence := Some 1\<rparr>]"
    "next_val s = 2" "open_tx s = (\<lambda>_. None)" "holder s = (\<lambda>_. None)"
    using pg_append_alone [OF _ _ _ i1, of id] by (auto simp: pg_init_def e1_def pg_example_event_def)
  have i2: "pg_insert Inr s e2 = Inr (e2\<lparr>sequence := Some 2\<rparr>)"
    by (simp add: s e1_def e2_def pg_example_event_def pg_insert_def)
  obtain s' :: "string pg_store" where s': "(pg_step id Inr)\<^sup>*\<^sup>* s s'"
    "committed s' = [e1\<lparr>sequence := Some 1\<rparr>, e2\<lparr>sequence := Some 2\<rparr>]"
    using pg_append_alone [OF s(4,5) _ i2, of id] by (auto simp: s e2_def pg_example_event_def)
  have "pg_select s ''r'' 0 \<noteq> []" "length (pg_select s' ''r'' 0) = 2"
    by (simp_all add: pg_select_def s s' e1_def e2_def pg_example_event_def seq_of_def)
  moreover have "pg_reachable id Inr s" using s(1) by (simp add: pg_reachable_def)
  ultimately show ?thesis using pg_cursor_never_skips [of id Inr s s' "''r''"] s'(1) by blast
qed

text \<open>
  The row of an \<open>append_if\<close> that commits joins exactly the Track its condition was true
  of: whatever the other writers did since the condition was asked, nothing was added to the
  run in between.
\<close>

theorem pg_append_if_atomic:
  assumes "pg_reachable lock_key jsonb s"
    and "open_tx s t = Some \<lparr>tx_call = PgAppendIf e condition, tx_row = Some row\<rparr>"
    and "s' = end_tx (s\<lparr>committed := committed s @ [row]\<rparr>) t"
  shows "condition (pg_select s (run_id e) 0) = Inr True
       \<and> pg_select s' (run_id e) 0 = pg_select s (run_id e) 0 @ [row] \<and> pg_reachable lock_key jsonb s'"
proof -
  have i: "pg_inv lock_key s" using assms(1) pg_steps_inv pg_inv_init unfolding pg_reachable_def by blast
  then have "tx_inv lock_key s t \<lparr>tx_call = PgAppendIf e condition, tx_row = Some row\<rparr>"
    using assms(2) by (simp add: pg_inv_def)
  then have row: "row_inv s (PgAppendIf e condition) row" by (simp add: tx_inv_def)
  have step: "pg_step lock_key jsonb s s'" unfolding assms(3) using assms(2) by (rule pg_commit)
  then have i': "pg_inv lock_key s'" using i by (rule pg_inv_step)
  have "run_rows s' (run_id e) = run_rows s (run_id e) @ [row]"
    using row unfolding assms(3) by (simp add: run_rows_commit row_inv_def)
  moreover have "pg_reachable lock_key jsonb s'"
    using assms(1) step unfolding pg_reachable_def by (rule rtranclp.rtrancl_into_rtrancl)
  ultimately show ?thesis
    using row i i' by (simp add: row_inv_def pg_inv_def pg_select_all)
qed

theorem pg_append_if_atomic_witness:
  "\<exists>s row. open_tx s 0 = Some \<lparr>tx_call = PgAppendIf (pg_example_event ''cancel_requested'' ''a'') (\<lambda>es. Inr (es = [])),
       tx_row = Some row\<rparr> \<and>
     pg_select (end_tx (s\<lparr>committed := committed s @ [row]\<rparr>) 0) ''r'' 0 = pg_select (s :: string pg_store) ''r'' 0 @ [row]"
proof -
  let ?e = "pg_example_event ''cancel_requested'' ''a''" and ?c = "\<lambda>es :: track_event list. Inr (es = []) :: exn + bool"
  let ?i = "pg_init :: string pg_store"
  let ?a = "?i\<lparr>holder := (holder ?i)(id (run_lock (run_id ?e)) := Some 0),
      open_tx := (open_tx ?i)(0 := Some \<lparr>tx_call = PgAppendIf ?e ?c, tx_row = None\<rparr>)\<rparr>"
  let ?row = "?e\<lparr>sequence := Some 1\<rparr>"
  let ?b = "?a\<lparr>next_val := next_val ?a + 1,
      open_tx := (open_tx ?a)(0 := Some \<lparr>tx_call = PgAppendIf ?e ?c, tx_row = Some ?row\<rparr>)\<rparr>"
  have "pg_step id Inr pg_init ?a"
    by (rule pg_lock [of ?i 0 "PgAppendIf ?e ?c", simplified pg_event.simps])
       (simp_all add: pg_init_def pg_example_event_def)
  moreover have "pg_step id Inr ?a ?b"
    using pg_inserted [of ?a 0 "PgAppendIf ?e ?c" Inr ?row id]
    by (simp add: pg_init_def pg_example_event_def pg_insert_def pg_select_def)
  ultimately have r: "pg_reachable id Inr ?b" unfolding pg_reachable_def by (simp add: converse_rtranclp_into_rtranclp)
  have o: "open_tx ?b 0 = Some \<lparr>tx_call = PgAppendIf ?e ?c, tx_row = Some ?row\<rparr>" by simp
  have "run_id ?e = ''r''" by (simp add: pg_example_event_def)
  with pg_append_if_atomic [OF r o refl]
  have "pg_select (end_tx (?b\<lparr>committed := committed ?b @ [?row]\<rparr>) 0) ''r'' 0 = pg_select ?b ''r'' 0 @ [?row]"
    by simp
  with o show ?thesis by blast
qed

end
