(* ===== verification/RunTokens.thy ===== *)
theory RunTokens
  imports Track
begin

section \<open>Run tokens (run_tokens.py)\<close>

text \<open>
  A worker's token is checked against the hashes its run's Track holds.  \<open>live\<close> maps each
  instance that is up to the event that started it; keys compare with \<open>==\<close>, and an unhashable
  one is a \<open>TypeError\<close>.  \<open>sha256\<close> is a parameter.
\<close>

definition ENDS_EVERY_WORKER :: "string list" where
  "ENDS_EVERY_WORKER = [''completed'', ''failed'', ''cancelled'', ''interrupted'', ''budget_exceeded'']"

fun key_put :: "(pyval, 'v) dict \<Rightarrow> pyval \<Rightarrow> 'v \<Rightarrow> (pyval, 'v) dict" where
  "key_put [] k v = [(k, v)]"
| "key_put ((k', w) # d) k v = (if py_eq k' k then (k', v) # d else (k', w) # key_put d k v)"

definition key_pop :: "(pyval, 'v) dict \<Rightarrow> pyval \<Rightarrow> (pyval, 'v) dict" where
  "key_pop d k = filter (\<lambda>(k', v). \<not> py_eq k' k) d"

definition token_digest :: "(hashed \<Rightarrow> string) \<Rightarrow> string \<Rightarrow> string" where
  "token_digest sha256 token = sha256 (Plain token)"

definition live_step ::
  "(pyval, payload) dict \<Rightarrow> 'a track_fact_scheme \<Rightarrow> exn + (pyval, payload) dict" where
  "live_step live e =
     (let i = py_get (payload e) ''instance''
      in if event_type e = ''worker_started'' \<and> i \<noteq> PNone then
           (if hashable i then Inr (key_put live i (payload e)) else Inl TypeError)
         else if event_type e = ''worker_stopped'' then
           (if hashable i then Inr (key_pop live i) else Inl TypeError)
         else if event_type e \<in> set ENDS_EVERY_WORKER then Inr []
         else Inr live)"

definition verify :: "(hashed \<Rightarrow> string) \<Rightarrow> ('a track_fact_scheme) list \<Rightarrow> string \<Rightarrow> exn + payload option" where
  "verify sha256 es token =
     bind_result (fold_result live_step [] es) (\<lambda>live.
       Inr (List.find (\<lambda>started. py_get started ''run_token_sha256'' = PStr (token_digest sha256 token))
              (map snd live)))"

subsection \<open>A token verifies only while its worker is up\<close>

lemma key_put_cases: "(k', w) \<in> set (key_put d k v) \<Longrightarrow> w = v \<and> (k' = k \<or> py_eq k' k) \<or> (k', w) \<in> set d"
  by (induction d) (auto split: if_splits)

text \<open>The event that started what is live: nothing since stopped it or ended the run.\<close>

definition started_and_up :: "('a track_fact_scheme) list \<Rightarrow> payload \<Rightarrow> bool" where
  "started_and_up es p \<longleftrightarrow>
     (\<exists>before e since. es = before @ e # since \<and> event_type e = ''worker_started'' \<and> payload e = p \<and>
        (\<forall>x\<in>set since. event_type x \<notin> set ENDS_EVERY_WORKER \<and>
           \<not> (event_type x = ''worker_stopped'' \<and>
              py_eq (py_get p ''instance'') (py_get (payload x) ''instance''))))"

lemma started_and_up_later:
  assumes "started_and_up es p" and "event_type x \<notin> set ENDS_EVERY_WORKER"
    and "\<not> (event_type x = ''worker_stopped'' \<and> py_eq (py_get p ''instance'') (py_get (payload x) ''instance''))"
  shows "started_and_up (es @ [x]) p"
proof -
  from assms(1) obtain before e since where
    "es = before @ e # since" "event_type e = ''worker_started''" "payload e = p"
    "\<forall>x\<in>set since. event_type x \<notin> set ENDS_EVERY_WORKER \<and>
      \<not> (event_type x = ''worker_stopped'' \<and> py_eq (py_get p ''instance'') (py_get (payload x) ''instance''))"
    unfolding started_and_up_def by blast
  with assms(2,3) show ?thesis unfolding started_and_up_def
    by (intro exI [of _ before] exI [of _ e] exI [of _ "since @ [x]"]) auto
qed

text \<open>Instances are strings, as the runner writes them, so a key is the instance it was put under.\<close>

definition str_instances :: "('a track_fact_scheme) list \<Rightarrow> bool" where
  "str_instances es =
     list_all (\<lambda>e. event_type e \<in> {''worker_started'', ''worker_stopped''} \<longrightarrow> is_str (py_get (payload e) ''instance'')) es"

lemma live_started:
  assumes "fold_result live_step [] es = Inr live" and "(k, p) \<in> set live" and "str_instances es"
  shows "started_and_up es p \<and> k = py_get p ''instance''"
  using assms
proof (induction es arbitrary: live k p rule: rev_induct)
  case (snoc x es)
  then obtain live' where live': "fold_result live_step [] es = Inr live'" "live_step live' x = Inr live"
    by (auto simp: fold_result_snoc bind_result_Inr_iff)
  have si: "str_instances es" using snoc.prems(3) by (simp add: str_instances_def)
  note IH = snoc.IH [OF live'(1) _ si]
  show ?case
  proof (cases "event_type x \<in> {''worker_started'', ''worker_stopped''}")
    case True
    with snoc.prems(3) obtain i where i: "py_get (payload x) ''instance'' = PStr i"
      by (auto simp: str_instances_def is_str_iff)
    have notend: "event_type x \<notin> set ENDS_EVERY_WORKER" using True by (auto simp: ENDS_EVERY_WORKER_def)
    show ?thesis
    proof (cases "event_type x = ''worker_started''")
      case started: True
      with live'(2) i have "live = key_put live' (PStr i) (payload x)" by (simp add: live_step_def Let_def del: py_get_def)
      then have "p = payload x \<and> k = PStr i \<or> (k, p) \<in> set live'" using snoc.prems(2) key_put_cases by fastforce
      then show ?thesis
      proof
        assume "p = payload x \<and> k = PStr i"
        moreover have "started_and_up (es @ [x]) (payload x)" unfolding started_and_up_def
          by (rule exI [of _ es], rule exI [of _ x], rule exI [of _ "[]"]) (simp add: started)
        ultimately show ?thesis using i by simp
      next
        assume "(k, p) \<in> set live'"
        with IH started notend show ?thesis by (auto intro: started_and_up_later)
      qed
    next
      case False
      with True live'(2) i have "live = key_pop live' (PStr i)" and "event_type x = ''worker_stopped''"
        by (simp_all add: live_step_def Let_def del: py_get_def)
      with snoc.prems(2) IH i notend show ?thesis
        by (auto simp: key_pop_def simp del: py_get_simps intro!: started_and_up_later)
    qed
  next
    case False
    with live'(2) snoc.prems(2) have "(k, p) \<in> set live'" "event_type x \<notin> set ENDS_EVERY_WORKER"
      by (auto simp: live_step_def Let_def split: if_splits)
    with IH False show ?thesis by (auto intro!: started_and_up_later)
  qed
qed simp


definition worker_fact :: "string \<Rightarrow> payload \<Rightarrow> track_fact" where
  "worker_fact ty p = \<lparr>run_id = ''r'', event_type = ty, payload = p\<rparr>"


text \<open>
  A rejecting decision ends a run too, but is not among the ends that clear its workers: on a
  Track that rejects while a started worker was never recorded as stopped, its token verifies.
\<close>

lemma rejected_run_keeps_tokens:
  "verify (\<lambda>_. ''h'')
     [worker_fact ''op_submitted'' [], worker_fact ''run_picked_up'' [],
      worker_fact ''worker_started'' [(''instance'', PStr ''s:0''), (''run_token_sha256'', PStr ''h'')],
      worker_fact ''gate_escalated'' [(''step'', PStr ''s''), (''escalation'', PStr ''e'')],
      worker_fact ''gate_decided'' [(''outcome'', PStr ''reject''), (''escalation'', PStr ''e'')]] ''t''
   = Inr (Some [(''instance'', PStr ''s:0''), (''run_token_sha256'', PStr ''h'')])
   \<and> map_option run_state (projr (replay
     [worker_fact ''op_submitted'' [], worker_fact ''run_picked_up'' [],
      worker_fact ''worker_started'' [(''instance'', PStr ''s:0''), (''run_token_sha256'', PStr ''h'')],
      worker_fact ''gate_escalated'' [(''step'', PStr ''s''), (''escalation'', PStr ''e'')],
      worker_fact ''gate_decided'' [(''outcome'', PStr ''reject''), (''escalation'', PStr ''e'')]])) = Some REJECTED"
  by (intro conjI) code_simp+

end
