(* ===== verification/WorkerMachine.thy ===== *)
theory WorkerMachine
  imports InstallMachine RunReplay
begin

section \<open>A worker: one materialization of a Cog (states/worker.py)\<close>

text \<open>
  A worker goes from its first answer to its teardown; only an invokable install is
  materialized.  Its records are facts about a step's worker, none of which moves the run:
  \<open>worker_records_are_facts\<close> is what lets the runner interleave them with the run's own
  events.
\<close>

datatype worker_state =
    MATERIALIZED | READY | INTERACTING | IDLE | TEARING_DOWN | TORN_DOWN | WORKER_FAILED

fun worker_state_name :: "worker_state \<Rightarrow> string" where
  "worker_state_name MATERIALIZED = ''MATERIALIZED''"
| "worker_state_name READY = ''READY''"
| "worker_state_name INTERACTING = ''INTERACTING''"
| "worker_state_name IDLE = ''IDLE''"
| "worker_state_name TEARING_DOWN = ''TEARING_DOWN''"
| "worker_state_name TORN_DOWN = ''TORN_DOWN''"
| "worker_state_name WORKER_FAILED = ''WORKER_FAILED''"

text \<open>\<open>TEARDOWN_REASONS\<close>, by the state a worker is torn down from; the other states have no entry.\<close>

fun TEARDOWN_REASONS :: "worker_state \<Rightarrow> string list" where
  "TEARDOWN_REASONS READY = [''cancel'', ''orphan_reaped'']"
| "TEARDOWN_REASONS INTERACTING = [''cancel'', ''deadline'', ''orphan_reaped'']"
| "TEARDOWN_REASONS IDLE = [''one_shot'', ''idle_timeout'', ''orphan_reaped'']"
| "TEARDOWN_REASONS _ = []"

record worker =
  worker_cog :: string
  worker_step :: "string option"
  worker_digest :: "string option"
  worker_state :: worker_state
  worker_error :: "string option"

datatype worker_call =
    Ready
  | Invoke string "string option"
      \<comment> \<open>entry point, step\<close>
  | EnvelopeReturned
  | TearDown string
  | TornDown
  | WorkerFail string

fun worker_event :: "worker_call \<Rightarrow> string" where
  "worker_event Ready = ''ready''"
| "worker_event (Invoke _ _) = ''invoke''"
| "worker_event EnvelopeReturned = ''envelope_returned''"
| "worker_event (TearDown _) = ''tear_down''"
| "worker_event TornDown = ''torn_down''"
| "worker_event (WorkerFail _) = ''fail''"

definition worker_edges :: "worker_state edges" where
  "worker_edges =
    [(MATERIALIZED, ''ready'', READY),
     (MATERIALIZED, ''fail'', WORKER_FAILED),
     (READY, ''invoke'', INTERACTING),
     (READY, ''tear_down'', TEARING_DOWN),
     (READY, ''fail'', WORKER_FAILED),
     (INTERACTING, ''envelope_returned'', IDLE),
     (INTERACTING, ''tear_down'', TEARING_DOWN),
     (INTERACTING, ''fail'', WORKER_FAILED),
     (IDLE, ''invoke'', INTERACTING),
     (IDLE, ''tear_down'', TEARING_DOWN),
     (IDLE, ''fail'', WORKER_FAILED),
     (TEARING_DOWN, ''torn_down'', TORN_DOWN),
     (TEARING_DOWN, ''fail'', WORKER_FAILED)]"

definition worker_refuse :: "worker \<Rightarrow> string \<Rightarrow> exn + 'a" where
  "worker_refuse w event = Inl (InvalidTransition (worker_state_name (worker_state w)) event)"

definition worker_ready :: "worker \<Rightarrow> exn + worker transition" where
  "worker_ready w =
     (case worker_state w of
        MATERIALIZED \<Rightarrow>
          Inr (w\<lparr>worker_state := READY\<rparr>, [Record ''ready'' [(''cog'', PStr (worker_cog w))]])
      | _ \<Rightarrow> worker_refuse w ''ready'')"

text \<open>\<open>_invoke\<close>: a warm worker takes the next step, else it keeps its own.\<close>

definition worker_invoke :: "worker \<Rightarrow> string \<Rightarrow> string option \<Rightarrow> exn + worker transition" where
  "worker_invoke w entry_point step =
     (if worker_state w \<in> {READY, IDLE} then
        (let s = (case step of None \<Rightarrow> worker_step w | Some _ \<Rightarrow> step)
         in Inr (w\<lparr>worker_state := INTERACTING, worker_step := s\<rparr>,
                 [Record ''interaction_started'' [(''step'', opt_str s), (''entry_point'', PStr entry_point)]]))
      else worker_refuse w ''invoke'')"

definition worker_envelope_returned :: "worker \<Rightarrow> exn + worker transition" where
  "worker_envelope_returned w =
     (case worker_state w of
        INTERACTING \<Rightarrow>
          Inr (w\<lparr>worker_state := IDLE\<rparr>, [Record ''idle'' [(''step'', opt_str (worker_step w))]])
      | _ \<Rightarrow> worker_refuse w ''envelope_returned'')"

definition worker_tear_down :: "worker \<Rightarrow> string \<Rightarrow> exn + worker transition" where
  "worker_tear_down w reason =
     (if worker_state w \<in> {READY, INTERACTING, IDLE} then
        (if reason \<notin> set (TEARDOWN_REASONS (worker_state w)) then worker_refuse w ''tear_down''
         else Inr (w\<lparr>worker_state := TEARING_DOWN\<rparr>,
                   [Record ''teardown_started'' [(''step'', opt_str (worker_step w)), (''reason'', PStr reason)]]))
      else worker_refuse w ''tear_down'')"

definition worker_torn_down :: "worker \<Rightarrow> exn + worker transition" where
  "worker_torn_down w =
     (case worker_state w of
        TEARING_DOWN \<Rightarrow> Inr (w\<lparr>worker_state := TORN_DOWN\<rparr>, [])
      | _ \<Rightarrow> worker_refuse w ''torn_down'')"

text \<open>A worker that could not be torn down may still be running, so that failure alone is recorded.\<close>

definition worker_fail :: "worker \<Rightarrow> string \<Rightarrow> exn + worker transition" where
  "worker_fail w error =
     (case worker_state w of
        TORN_DOWN \<Rightarrow> worker_refuse w ''fail''
      | WORKER_FAILED \<Rightarrow> worker_refuse w ''fail''
      | TEARING_DOWN \<Rightarrow>
          Inr (w\<lparr>worker_state := WORKER_FAILED, worker_error := Some error\<rparr>,
               [Record ''teardown_failed'' [(''step'', opt_str (worker_step w)), (''error'', PStr error)]])
      | _ \<Rightarrow> Inr (w\<lparr>worker_state := WORKER_FAILED, worker_error := Some error\<rparr>, []))"

fun worker_handler :: "worker \<Rightarrow> worker_call \<Rightarrow> exn + worker transition" where
  "worker_handler w Ready = worker_ready w"
| "worker_handler w (Invoke entry_point step) = worker_invoke w entry_point step"
| "worker_handler w EnvelopeReturned = worker_envelope_returned w"
| "worker_handler w (TearDown reason) = worker_tear_down w reason"
| "worker_handler w TornDown = worker_torn_down w"
| "worker_handler w (WorkerFail error) = worker_fail w error"

definition worker_dispatch :: "worker \<Rightarrow> worker_call \<Rightarrow> exn + worker transition" where
  "worker_dispatch w call = dispatch worker_state worker_edges (worker_event call) w (worker_handler w call)"

text \<open>\<open>Worker.materialize\<close>: a development package has no install.\<close>

definition worker_materialize ::
  "string \<Rightarrow> string option \<Rightarrow> string option \<Rightarrow> cog_install option \<Rightarrow> exn + worker transition" where
  "worker_materialize cog step dig install =
     bind_result (case install of None \<Rightarrow> Inr () | Some c \<Rightarrow> require_invokable c) (\<lambda>_.
       Inr (\<lparr>worker_cog = cog, worker_step = step, worker_digest = dig, worker_state = MATERIALIZED,
             worker_error = None\<rparr>,
            [Record ''materialized'' [(''cog'', PStr cog), (''digest'', opt_str dig)]]))"

lemmas worker_handler_defs =
  worker_ready_def worker_invoke_def worker_envelope_returned_def worker_tear_down_def
  worker_torn_down_def worker_fail_def worker_refuse_def

interpretation workers: machine worker_state worker_edges worker_event worker_handler
proof
  fix w call w' rs
  show "worker_handler w call = Inr (w', rs) \<Longrightarrow>
      (worker_state w, worker_event call, worker_state w') \<in> set worker_edges"
    by (cases call; cases "worker_state w")
       (auto simp: worker_handler_defs worker_edges_def Let_def split: if_splits)
  show "worker_handler w call \<noteq> Inl UndeclaredTransition"
    by (cases call; cases "worker_state w") (auto simp: worker_handler_defs Let_def)
qed

lemma worker_dispatch_eq [simp]: "worker_dispatch w call = worker_handler w call"
  by (simp add: worker_dispatch_def workers.dispatch_handler)

lemma worker_records_are_facts:
  "worker_handler w call = Inr (w', rs) \<Longrightarrow>
   \<forall>r\<in>set rs. rec_type r \<in> set RUN_FACTS \<and> rec_type r \<noteq> ''step_started''"
  by (cases call; cases "worker_state w")
     (auto simp: worker_handler_defs RUN_FACTS_def Let_def split: if_splits)

lemma materialize_records_are_facts:
  "worker_materialize cog step dig install = Inr (w, rs) \<Longrightarrow>
   \<forall>r\<in>set rs. rec_type r \<in> set RUN_FACTS \<and> rec_type r \<noteq> ''step_started''"
  by (auto simp: worker_materialize_def bind_result_Inr_iff RUN_FACTS_def)

text \<open>The moves the runner asks for, each always answered in the state it asks in.\<close>

lemma worker_moves:
  "worker_state w = MATERIALIZED \<Longrightarrow> worker_handler w Ready =
     Inr (w\<lparr>worker_state := READY\<rparr>, [Record ''ready'' [(''cog'', PStr (worker_cog w))]])"
  "worker_state w = READY \<Longrightarrow> worker_handler w (Invoke ep (Some st)) =
     Inr (w\<lparr>worker_state := INTERACTING, worker_step := Some st\<rparr>,
          [Record ''interaction_started'' [(''step'', PStr st), (''entry_point'', PStr ep)]])"
  "worker_state w = INTERACTING \<Longrightarrow> worker_handler w EnvelopeReturned =
     Inr (w\<lparr>worker_state := IDLE\<rparr>, [Record ''idle'' [(''step'', opt_str (worker_step w))]])"
  "worker_state w = IDLE \<Longrightarrow> worker_handler w (TearDown ''one_shot'') =
     Inr (w\<lparr>worker_state := TEARING_DOWN\<rparr>,
          [Record ''teardown_started'' [(''step'', opt_str (worker_step w)), (''reason'', PStr ''one_shot'')]])"
  "worker_state w = TEARING_DOWN \<Longrightarrow> worker_handler w (WorkerFail e) =
     Inr (w\<lparr>worker_state := WORKER_FAILED, worker_error := Some e\<rparr>,
          [Record ''teardown_failed'' [(''step'', opt_str (worker_step w)), (''error'', PStr e)]])"
  "worker_state w \<in> {MATERIALIZED, READY, INTERACTING, IDLE} \<Longrightarrow> worker_handler w (WorkerFail e) =
     Inr (w\<lparr>worker_state := WORKER_FAILED, worker_error := Some e\<rparr>, [])"
  by (auto simp: worker_handler_defs Let_def)

subsection \<open>What a worker's history shows\<close>

text \<open>Before it can be asked to act a worker said it was ready; once it stops it never acts again.\<close>

definition worker_stopped_in :: "trec list \<Rightarrow> bool" where
  "worker_stopped_in recs = list_ex (\<lambda>r. rec_type r \<in> {''teardown_started'', ''teardown_failed''}) recs"

definition stopping :: "worker \<Rightarrow> bool" where
  "stopping w \<longleftrightarrow> worker_state w \<in> {TEARING_DOWN, TORN_DOWN, WORKER_FAILED}"

lemma stopping_step:
  assumes "worker_handler w call = Inr (w', rs)"
  shows "worker_stopped_in rs \<Longrightarrow> stopping w'"
    and "stopping w \<Longrightarrow> stopping w' \<and> (\<forall>r\<in>set rs. rec_type r = ''teardown_failed'')"
  using assms
  by (cases call; cases "worker_state w";
      auto simp: worker_handler_defs worker_stopped_in_def stopping_def Let_def split: if_splits)+

lemma stopping_run:
  assumes "run_calls worker_handler w calls = Inr (w', recs)" and "stopping w"
  shows "\<forall>r\<in>set recs. rec_type r = ''teardown_failed''"
  using assms
proof (induction calls arbitrary: w recs)
  case (Cons c cs)
  then obtain v rs1 rs2 where "worker_handler w c = Inr (v, rs1)"
    "run_calls worker_handler v cs = Inr (w', rs2)" "recs = rs1 @ rs2"
    by (auto simp: bind_result_Inr_iff)
  with Cons stopping_step(2) [of w c v rs1] show ?case by auto
qed simp

lemma run_calls_append:
  "run_calls step c (xs @ ys) =
     bind_result (run_calls step c xs) (\<lambda>(d, rs).
       bind_result (run_calls step d ys) (\<lambda>(e, rs'). Inr (e, rs @ rs')))"
  by (induction xs arbitrary: c)
     (auto simp: bind_result_assoc bind_result_def split: sum.splits)

lemma stopped_after:
  assumes "run_calls worker_handler w calls = Inr (w', recs)" and "worker_stopped_in recs"
  shows "stopping w'"
  using assms
proof (induction calls arbitrary: w recs)
  case (Cons c cs)
  then obtain v rs1 rs2 where c: "worker_handler w c = Inr (v, rs1)"
    "run_calls worker_handler v cs = Inr (w', rs2)" "recs = rs1 @ rs2"
    by (auto simp: bind_result_Inr_iff)
  show ?case
  proof (cases "worker_stopped_in rs2")
    case True
    with Cons.IH c show ?thesis by blast
  next
    case False
    with Cons.prems c have "stopping v"
      using stopping_step(1) [OF c(1)] by (auto simp: worker_stopped_in_def)
    from run_calls_reaches [OF c(2)] this show ?thesis
      by (rule reaches_invariant) (rule stopping_step(2) [THEN conjunct1])
  qed
qed (simp add: worker_stopped_in_def)

text \<open>
  A worker is brought up only from an install that can run (or a development package that
  has none), and once its teardown has begun nothing it is asked to do is recorded any more,
  whatever calls follow: only that the teardown failed.
\<close>

theorem no_interaction_after_teardown:
  assumes "worker_materialize cog step dig install = Inr (w, rs)"
    and "run_calls worker_handler w before = Inr (v, recs)" and "worker_stopped_in recs"
    and "run_calls worker_handler v later = Inr (u, recs')"
  shows "(\<forall>c. install = Some c \<longrightarrow> install_state c = INVOKABLE)
       \<and> (\<forall>r\<in>set recs'. rec_type r = ''teardown_failed'')"
proof -
  have "\<forall>c. install = Some c \<longrightarrow> install_state c = INVOKABLE"
    using assms(1) by (auto simp: worker_materialize_def require_invokable_def install_refuse_def
        bind_result_Inr_iff split: if_splits)
  moreover have "\<forall>r\<in>set recs'. rec_type r = ''teardown_failed''"
    using assms(4) stopped_after [OF assms(2,3)] by (rule stopping_run)
  ultimately show ?thesis by auto
qed

theorem no_interaction_after_teardown_witness:
  "\<exists>w v u recs recs'. worker_materialize ''cog'' (Some ''s'') None None = Inr (w, [Record ''materialized''
       [(''cog'', PStr ''cog''), (''digest'', PNone)]])
   \<and> run_calls worker_handler w [Ready, Invoke ''go'' None, EnvelopeReturned, TearDown ''one_shot''] = Inr (v, recs)
   \<and> run_calls worker_handler v [WorkerFail ''Timeout''] = Inr (u, recs')
   \<and> recs' \<noteq> [] \<and> (\<forall>r\<in>set recs'. rec_type r = ''teardown_failed'')"
proof -
  let ?m = "worker_materialize ''cog'' (Some ''s'') None None"
  let ?r1 = "run_calls worker_handler (fst (projr ?m)) [Ready, Invoke ''go'' None, EnvelopeReturned, TearDown ''one_shot'']"
  let ?r2 = "run_calls worker_handler (fst (projr ?r1)) [WorkerFail ''Timeout'']"
  show ?thesis
    using no_interaction_after_teardown [of "''cog''" "Some ''s''" None None "fst (projr ?m)" "snd (projr ?m)"
        "[Ready, Invoke ''go'' None, EnvelopeReturned, TearDown ''one_shot'']" "fst (projr ?r1)" "snd (projr ?r1)"
        "[WorkerFail ''Timeout'']" "fst (projr ?r2)" "snd (projr ?r2)"]
    by (simp add: worker_materialize_def worker_handler_defs worker_stopped_in_def)
qed

end
