(* ===== verification/Envelope.thy ===== *)
theory Envelope
  imports PyValues
begin

section \<open>The result envelope (envelope.py)\<close>

text \<open>
  What a Cog's entry point returns, version 1.  \<open>ResultEnvelope\<close> checks its invariants on
  construction, \<open>mk_envelope\<close>, so any envelope the engine holds satisfies
  \<open>envelope_ok\<close>; \<open>parse_envelope\<close> reads decoded JSON and \<open>envelope_to_dict\<close> writes
  it.  \<open>py_repr\<close>, CPython's \<open>repr\<close>, occurs only in two messages and is a parameter.
\<close>

definition ENVELOPE_VERSION :: int where
  "ENVELOPE_VERSION = 1"

definition ERROR_CODES :: "string list" where
  "ERROR_CODES = [''binding-invalid'', ''invalid-input'', ''model-unavailable'', ''model-call-failed'',
     ''model-response-malformed'']"

definition STATUS_FOR_CODE :: "(string, int) dict" where
  "STATUS_FOR_CODE = [(''invalid-input'', 422), (''model-call-failed'', 502),
     (''model-response-malformed'', 502), (''model-unavailable'', 503), (''binding-invalid'', 503)]"

definition CODE_FOR_STATUS :: "(int, string) dict" where
  "CODE_FOR_STATUS = [(422, ''invalid-input''), (502, ''model-call-failed''), (503, ''model-unavailable'')]"

definition SEVERITIES :: "string list" where
  "SEVERITIES = [''error'', ''warn'']"

record problem =
  prob_check :: string
  prob_detail :: string
  prob_severity :: string

record envelope_error =
  err_code :: string
  err_detail :: string

record result_envelope =
  env_ok :: bool
  env_payload :: pyval
  env_problems :: "problem list"
  env_error :: "envelope_error option"
  env_binding :: "payload option"
  env_usage :: pyval
  env_raw :: "string option"
  env_cog :: "payload option"
  env_task :: "string option"
  env_timing :: "payload option"
  env_version :: int

text \<open>\<open>Problem(check, detail, severity)\<close>, with \<open>__post_init__\<close>.\<close>

definition mk_problem :: "pyval \<Rightarrow> pyval \<Rightarrow> pyval \<Rightarrow> exn + problem" where
  "mk_problem check detail severity =
     (case check of
        PStr c \<Rightarrow>
          (if c = [] then Inl (EnvelopeInvalid ''problem.check must be a non-empty string'')
           else case detail of
             PStr d \<Rightarrow>
               (case severity of
                  PStr s \<Rightarrow>
                    (if s \<in> set SEVERITIES then Inr \<lparr>prob_check = c, prob_detail = d, prob_severity = s\<rparr>
                     else Inl (EnvelopeInvalid ''problem.severity must be one of ('error', 'warn')''))
                | _ \<Rightarrow> Inl (EnvelopeInvalid ''problem.severity must be one of ('error', 'warn')''))
           | _ \<Rightarrow> Inl (EnvelopeInvalid ''problem.detail must be a string''))
      | _ \<Rightarrow> Inl (EnvelopeInvalid ''problem.check must be a non-empty string''))"

text \<open>\<open>EnvelopeError(code, detail)\<close>, with \<open>__post_init__\<close>: the code set is closed.\<close>

definition mk_error :: "(pyval \<Rightarrow> string) \<Rightarrow> string \<Rightarrow> pyval \<Rightarrow> exn + envelope_error" where
  "mk_error py_repr code detail =
     (if code \<notin> set ERROR_CODES then
        Inl (EnvelopeInvalid (''error.code must be one of ['binding-invalid', 'invalid-input','' @
          '' 'model-call-failed', 'model-response-malformed', 'model-unavailable'], not '' @ py_repr (PStr code)))
      else case detail of
        PStr d \<Rightarrow> Inr \<lparr>err_code = code, err_detail = d\<rparr>
      | _ \<Rightarrow> Inl (EnvelopeInvalid ''error.detail must be a string''))"

definition parse_error :: "(pyval \<Rightarrow> string) \<Rightarrow> pyval \<Rightarrow> exn + envelope_error option" where
  "parse_error py_repr v =
     (case v of
        PNone \<Rightarrow> Inr None
      | PDict d \<Rightarrow>
          (case (map_of d ''code'', map_of d ''detail'') of
             (Some code, Some detail) \<Rightarrow>
               (case code of
                  PStr c \<Rightarrow> bind_result (mk_error py_repr c detail) (\<lambda>e. Inr (Some e))
                | _ \<Rightarrow> Inl (EnvelopeInvalid ''error.code must be a string''))
           | _ \<Rightarrow> Inl (EnvelopeInvalid ''error needs both code and detail''))
      | _ \<Rightarrow> Inl (EnvelopeInvalid ''error must be null or {code, detail}''))"

definition parse_problem :: "pyval \<Rightarrow> exn + problem" where
  "parse_problem v =
     (case v of
        PDict d \<Rightarrow> mk_problem (py_get d ''check'') (py_get_default d ''detail'' (PStr ''''))
                     (py_get_default d ''severity'' (PStr ''error''))
      | _ \<Rightarrow> Inl (EnvelopeInvalid ''each problem is {check, detail, severity}''))"

definition parse_problems :: "pyval \<Rightarrow> exn + problem list" where
  "parse_problems v =
     (case v of
        PNone \<Rightarrow> Inr []
      | PList xs \<Rightarrow> map_result parse_problem xs
      | _ \<Rightarrow> Inl (EnvelopeInvalid ''problems must be a list''))"

definition optional_mapping :: "pyval \<Rightarrow> string \<Rightarrow> exn + payload option" where
  "optional_mapping v name =
     (case v of
        PNone \<Rightarrow> Inr None
      | PDict d \<Rightarrow> Inr (Some d)
      | _ \<Rightarrow> Inl (EnvelopeInvalid (name @ '' must be null or an object'')))"

definition optional_str :: "pyval \<Rightarrow> string \<Rightarrow> exn + string option" where
  "optional_str v name =
     (case v of
        PNone \<Rightarrow> Inr None
      | PStr s \<Rightarrow> Inr (Some s)
      | _ \<Rightarrow> Inl (EnvelopeInvalid (name @ '' must be null or a string'')))"

text \<open>
  \<open>ResultEnvelope(...)\<close> with \<open>__post_init__\<close>, from fields of any type, checked in the
  order the code checks them; problems and error are already \<open>Problem\<close> and
  \<open>EnvelopeError\<close> values.
\<close>

definition mk_envelope ::
  "(pyval \<Rightarrow> string) \<Rightarrow> pyval \<Rightarrow> pyval \<Rightarrow> problem list \<Rightarrow> envelope_error option \<Rightarrow> pyval \<Rightarrow> pyval \<Rightarrow> pyval \<Rightarrow>
   pyval \<Rightarrow> pyval \<Rightarrow> pyval \<Rightarrow> pyval \<Rightarrow> exn + result_envelope" where
  "mk_envelope py_repr ok payload problems error binding usage raw cog task timing version =
     (if version \<noteq> PInt ENVELOPE_VERSION then
        Inl (EnvelopeInvalid (''unsupported envelope version '' @ py_repr version @ ''; this hub reads 1''))
      else case ok of
        PBool b \<Rightarrow>
          (if \<not> b \<and> error = None then Inl (EnvelopeInvalid ''ok: false requires error {code, detail}'')
           else if b \<and> error \<noteq> None then Inl (EnvelopeInvalid ''ok: true cannot carry an error'')
           else
             bind_result (optional_mapping binding ''binding'') (\<lambda>bnd.
             bind_result (optional_mapping cog ''cog'') (\<lambda>cg.
             bind_result (optional_mapping timing ''timing'') (\<lambda>tm.
             bind_result (optional_str raw ''raw'') (\<lambda>rw.
             bind_result (optional_str task ''task'') (\<lambda>tk.
             Inr \<lparr>env_ok = b, env_payload = payload, env_problems = problems, env_error = error,
                  env_binding = bnd, env_usage = usage, env_raw = rw, env_cog = cg, env_task = tk,
                  env_timing = tm, env_version = ENVELOPE_VERSION\<rparr>))))))
      | _ \<Rightarrow> Inl (EnvelopeInvalid ''ok must be a boolean''))"

text \<open>\<open>ResultEnvelope.parse\<close>: unknown fields are ignored; problems and error are read before the rest is checked.\<close>

definition parse_envelope :: "(pyval \<Rightarrow> string) \<Rightarrow> pyval \<Rightarrow> exn + result_envelope" where
  "parse_envelope py_repr v =
     (case v of
        PDict d \<Rightarrow>
          (if py_get d ''envelope'' = PNone then Inl (EnvelopeInvalid ''missing envelope version'')
           else
             bind_result (parse_problems (py_get d ''problems'')) (\<lambda>problems.
             bind_result (parse_error py_repr (py_get d ''error'')) (\<lambda>error.
             mk_envelope py_repr (py_get d ''ok'') (py_get d ''payload'') problems error (py_get d ''binding'')
               (py_get d ''usage'') (py_get d ''raw'') (py_get d ''cog'') (py_get d ''task'')
               (py_get d ''timing'') (py_get d ''envelope''))))
      | _ \<Rightarrow> Inl (EnvelopeInvalid ''a result envelope is a JSON object''))"

text \<open>\<open>ResultEnvelope.success\<close> and \<open>ResultEnvelope.failure\<close>, with their optional fields.\<close>

record envelope_extras =
  ex_usage :: pyval
  ex_problems :: "problem list"
  ex_binding :: "payload option"
  ex_raw :: "string option"
  ex_cog :: "payload option"
  ex_task :: "string option"
  ex_timing :: "payload option"

definition no_extras :: envelope_extras where
  "no_extras = \<lparr>ex_usage = PNone, ex_problems = [], ex_binding = None, ex_raw = None, ex_cog = None,
     ex_task = None, ex_timing = None\<rparr>"

definition envelope_success :: "pyval \<Rightarrow> envelope_extras \<Rightarrow> result_envelope" where
  "envelope_success payload x =
     \<lparr>env_ok = True, env_payload = payload, env_problems = ex_problems x, env_error = None,
      env_binding = ex_binding x, env_usage = ex_usage x, env_raw = ex_raw x, env_cog = ex_cog x,
      env_task = ex_task x, env_timing = ex_timing x, env_version = ENVELOPE_VERSION\<rparr>"

definition envelope_failure ::
  "(pyval \<Rightarrow> string) \<Rightarrow> string \<Rightarrow> string \<Rightarrow> envelope_extras \<Rightarrow> exn + result_envelope" where
  "envelope_failure py_repr code detail x =
     bind_result (mk_error py_repr code (PStr detail)) (\<lambda>e.
       Inr \<lparr>env_ok = False, env_payload = PNone, env_problems = ex_problems x, env_error = Some e,
            env_binding = ex_binding x, env_usage = ex_usage x, env_raw = ex_raw x, env_cog = ex_cog x,
            env_task = ex_task x, env_timing = ex_timing x, env_version = ENVELOPE_VERSION\<rparr>)"

definition problem_to_dict :: "problem \<Rightarrow> pyval" where
  "problem_to_dict p =
     PDict [(''check'', PStr (prob_check p)), (''detail'', PStr (prob_detail p)),
            (''severity'', PStr (prob_severity p))]"

definition opt_dict :: "payload option \<Rightarrow> pyval" where
  "opt_dict m = (case m of None \<Rightarrow> PNone | Some d \<Rightarrow> PDict d)"

definition envelope_to_dict :: "result_envelope \<Rightarrow> payload" where
  "envelope_to_dict e =
     [(''envelope'', PInt (env_version e)),
      (''cog'', opt_dict (env_cog e)),
      (''task'', opt_str (env_task e)),
      (''ok'', PBool (env_ok e)),
      (''error'', (case env_error e of None \<Rightarrow> PNone
         | Some x \<Rightarrow> PDict [(''code'', PStr (err_code x)), (''detail'', PStr (err_detail x))])),
      (''payload'', env_payload e),
      (''raw'', opt_str (env_raw e)),
      (''problems'', PList (map problem_to_dict (env_problems e))),
      (''binding'', opt_dict (env_binding e)),
      (''usage'', env_usage e),
      (''timing'', opt_dict (env_timing e))]"

subsection \<open>The contract\<close>

definition problem_ok :: "problem \<Rightarrow> bool" where
  "problem_ok p \<longleftrightarrow> prob_check p \<noteq> [] \<and> prob_severity p \<in> set SEVERITIES"

definition envelope_ok :: "result_envelope \<Rightarrow> bool" where
  "envelope_ok e \<longleftrightarrow>
     env_version e = ENVELOPE_VERSION \<and>
     (case env_error e of None \<Rightarrow> env_ok e | Some x \<Rightarrow> \<not> env_ok e \<and> err_code x \<in> set ERROR_CODES) \<and>
     list_all problem_ok (env_problems e)"

lemma mk_problem_Inr_iff:
  "mk_problem c d s = Inr p \<longleftrightarrow>
     c = PStr (prob_check p) \<and> d = PStr (prob_detail p) \<and> s = PStr (prob_severity p) \<and> problem_ok p"
  by (cases p) (auto simp: mk_problem_def problem_ok_def split: pyval.splits)

lemma mk_error_Inr_iff:
  "mk_error rp c d = Inr x \<longleftrightarrow> c = err_code x \<and> d = PStr (err_detail x) \<and> c \<in> set ERROR_CODES"
  by (cases x) (auto simp: mk_error_def split: pyval.splits)

lemma parse_problem_ok: "parse_problem v = Inr p \<Longrightarrow> problem_ok p"
  by (auto simp: parse_problem_def mk_problem_Inr_iff split: pyval.splits)

lemma map_result_all:
  "map_result f xs = Inr ys \<Longrightarrow> (\<And>x y. f x = Inr y \<Longrightarrow> P y) \<Longrightarrow> list_all P ys"
  by (induction xs arbitrary: ys) (auto simp: bind_result_Inr_iff)

lemma parse_problems_ok: "parse_problems v = Inr ps \<Longrightarrow> list_all problem_ok ps"
  by (cases v) (auto simp: parse_problems_def intro: map_result_all parse_problem_ok)

lemma parse_error_ok: "parse_error rp v = Inr (Some x) \<Longrightarrow> err_code x \<in> set ERROR_CODES"
  by (auto simp: parse_error_def mk_error_Inr_iff bind_result_Inr_iff split: pyval.splits option.splits)

lemma optional_Inr_iff:
  "optional_mapping v n = Inr m \<longleftrightarrow> v = opt_dict m"
  "optional_str v n = Inr s \<longleftrightarrow> v = opt_str s"
  by (cases v; cases m; auto simp: optional_mapping_def opt_dict_def)
     (cases v; cases s; auto simp: optional_str_def)

lemma mk_envelope_Inr_iff:
  "mk_envelope rp ok pl probs er bd us rw cg tk tm vs = Inr e \<longleftrightarrow>
     vs = PInt (env_version e) \<and> env_version e = ENVELOPE_VERSION \<and> ok = PBool (env_ok e) \<and>
     (env_error e = None \<longleftrightarrow> env_ok e) \<and> pl = env_payload e \<and> probs = env_problems e \<and> er = env_error e \<and>
     bd = opt_dict (env_binding e) \<and> us = env_usage e \<and> rw = opt_str (env_raw e) \<and>
     cg = opt_dict (env_cog e) \<and> tk = opt_str (env_task e) \<and> tm = opt_dict (env_timing e)"
  by (cases e)
     (auto simp: mk_envelope_def bind_result_Inr_iff optional_Inr_iff split: pyval.splits if_splits)

lemma parse_problem_to_dict: "problem_ok p \<Longrightarrow> parse_problem (problem_to_dict p) = Inr p"
  by (simp add: parse_problem_def problem_to_dict_def mk_problem_Inr_iff)

lemma parse_problems_to_dict:
  "list_all problem_ok ps \<Longrightarrow> parse_problems (PList (map problem_to_dict ps)) = Inr ps"
  using map_result_map_Inr [of ps parse_problem problem_to_dict "\<lambda>p. p"]
  by (simp add: parse_problems_def list_all_iff parse_problem_to_dict)

lemma parse_error_to_dict:
  "err_code x \<in> set ERROR_CODES \<Longrightarrow>
   parse_error rp (PDict [(''code'', PStr (err_code x)), (''detail'', PStr (err_detail x))]) = Inr (Some x)"
  by (simp add: parse_error_def mk_error_def)

lemma parsed_envelope_ok:
  assumes "parse_envelope rp v = Inr e"
  shows "envelope_ok e"
proof -
  from assms obtain d probs er where
    d: "parse_problems (py_get d ''problems'') = Inr probs" "parse_error rp (py_get d ''error'') = Inr er"
    and mk: "mk_envelope rp (py_get d ''ok'') (py_get d ''payload'') probs er (py_get d ''binding'')
        (py_get d ''usage'') (py_get d ''raw'') (py_get d ''cog'') (py_get d ''task'')
        (py_get d ''timing'') (py_get d ''envelope'') = Inr e"
    unfolding parse_envelope_def by (auto simp: bind_result_Inr_iff split: pyval.splits if_splits)
  from mk have "probs = env_problems e" "er = env_error e" "env_version e = ENVELOPE_VERSION"
    "env_error e = None \<longleftrightarrow> env_ok e" by (simp_all only: mk_envelope_Inr_iff)
  with parse_problems_ok [OF d(1)] parse_error_ok d(2) show ?thesis
    by (auto simp: envelope_ok_def split: option.splits)
qed

lemma parse_to_dict:
  assumes "envelope_ok e"
  shows "parse_envelope rp (PDict (envelope_to_dict e)) = Inr e"
proof -
  have er: "parse_error rp (py_get (envelope_to_dict e) ''error'') = Inr (env_error e)"
    using assms parse_error_to_dict
    by (cases "env_error e") (simp_all add: envelope_to_dict_def envelope_ok_def parse_error_def)
  have ps: "parse_problems (py_get (envelope_to_dict e) ''problems'') = Inr (env_problems e)"
    using assms parse_problems_to_dict by (simp add: envelope_to_dict_def envelope_ok_def)
  have "mk_envelope rp (py_get d ''ok'') (py_get d ''payload'') (env_problems e) (env_error e)
      (py_get d ''binding'') (py_get d ''usage'') (py_get d ''raw'') (py_get d ''cog'') (py_get d ''task'')
      (py_get d ''timing'') (py_get d ''envelope'') = Inr e"
    if "d = envelope_to_dict e" for d
    using assms that unfolding mk_envelope_Inr_iff
    by (auto simp: envelope_to_dict_def envelope_ok_def split: option.splits)
  with er ps show ?thesis
    by (simp add: parse_envelope_def del: py_get_simps) (simp add: envelope_to_dict_def)
qed

text \<open>
  C38: an envelope survives being written and read back, and whatever is read satisfies the
  contract of version 1: an error exactly when it is not ok, from the closed code set, and
  well-formed problems.
\<close>

theorem envelope_roundtrip:
  "(envelope_ok e \<longrightarrow> parse_envelope rp (PDict (envelope_to_dict e)) = Inr e) \<and>
   (parse_envelope rp v = Inr e \<longrightarrow>
      envelope_ok e \<and> parse_envelope rp (PDict (envelope_to_dict e)) = Inr e)"
  using parse_to_dict parsed_envelope_ok by blast

theorem envelope_roundtrip_witness:
  "parse_envelope (\<lambda>_. []) (PDict (envelope_to_dict (envelope_success (PInt 7) no_extras)))
     = Inr (envelope_success (PInt 7) no_extras)"
  using envelope_roundtrip [of "envelope_success (PInt 7) no_extras" "\<lambda>_. []" PNone]
  by (simp add: envelope_success_def no_extras_def envelope_ok_def)

text \<open>Each error code has its HTTP status, and the status assumed back is a code of that status.\<close>

lemma status_code_agree:
  "\<forall>c\<in>set ERROR_CODES. map_of STATUS_FOR_CODE c \<noteq> None"
  "\<forall>(s, c)\<in>set CODE_FOR_STATUS. c \<in> set ERROR_CODES \<and> map_of STATUS_FOR_CODE c = Some s"
  by (simp_all add: ERROR_CODES_def STATUS_FOR_CODE_def CODE_FOR_STATUS_def)

end
