(* ===== verification/Gates.thy ===== *)
theory Gates
  imports Envelope
begin

section \<open>Gates (gates.py)\<close>

text \<open>
  The decision point on an Op step: evaluated over the step's envelope, it passes, passes with
  problems, or escalates to a person.  A Gate a caller declares is validated
  (\<open>mk_gate\<close>); a Gate read back from a Track never is refused (\<open>gate_from_dict\<close>), and an
  unknown policy reads as the strictest.
\<close>

definition DEFAULT_APPROVERS :: "string list" where
  "DEFAULT_APPROVERS = [''owner'', ''operator'']"

definition POLICIES :: "string list" where
  "POLICIES = [''never'', ''error'', ''warn'', ''always'']"

datatype gate_outcome = PASS | PASS_WITH_PROBLEMS | ESCALATE

record gate =
  gate_policy :: string
  gate_approvers :: "string list"

definition default_gate :: gate where
  "default_gate = \<lparr>gate_policy = ''error'', gate_approvers = []\<rparr>"

definition is_policy :: "pyval \<Rightarrow> bool" where
  "is_policy v = (case v of PStr s \<Rightarrow> s \<in> set POLICIES | _ \<Rightarrow> False)"

definition str_of :: "pyval \<Rightarrow> string" where
  "str_of v = (case v of PStr s \<Rightarrow> s | _ \<Rightarrow> '''')"

definition is_role :: "pyval \<Rightarrow> bool" where
  "is_role v = (case v of PStr s \<Rightarrow> s \<noteq> [] | _ \<Rightarrow> False)"

text \<open>The elements of an iterable value other than a string: a dict gives its keys.\<close>

definition iterated :: "pyval \<Rightarrow> pyval list option" where
  "iterated v =
     (case v of PList xs \<Rightarrow> Some xs | PDict d \<Rightarrow> Some (map (\<lambda>p. PStr (fst p)) d) | _ \<Rightarrow> None)"

text \<open>\<open>Gate(escalate, approvers)\<close> with \<open>__post_init__\<close>.\<close>

definition mk_gate :: "pyval \<Rightarrow> pyval \<Rightarrow> exn + gate" where
  "mk_gate policy approvers =
     (if \<not> is_policy policy then Inl ValueError
      else if is_role approvers \<or> approvers = PStr '''' then Inl ValueError
      else case iterated approvers of
        None \<Rightarrow> Inl TypeError
      | Some roles \<Rightarrow>
          if \<not> list_all is_role roles then Inl ValueError
          else Inr \<lparr>gate_policy = str_of policy, gate_approvers = map str_of roles\<rparr>)"

text \<open>\<open>Gate.deciders\<close>: the declared approvers, or the default ones.\<close>

definition deciders :: "gate \<Rightarrow> string list" where
  "deciders g = (if gate_approvers g = [] then DEFAULT_APPROVERS else gate_approvers g)"

definition gate_evaluate :: "gate \<Rightarrow> result_envelope \<Rightarrow> gate_outcome \<times> string option" where
  "gate_evaluate g e =
     (let severities = map prob_severity (env_problems e)
      in if gate_policy g = ''always'' then
           (ESCALATE, Some ''the Gate asks an approver to sign off every result'')
         else if gate_policy g = ''error'' \<and> ''error'' \<in> set severities then
           (ESCALATE, Some ''a problem with severity error'')
         else if gate_policy g = ''warn'' \<and> severities \<noteq> [] then
           (ESCALATE, Some (''a problem with severity '' @
              (if ''error'' \<in> set severities then ''error'' else ''warn'')))
         else (if env_problems e \<noteq> [] then PASS_WITH_PROBLEMS else PASS, None))"

definition gate_to_dict :: "gate \<Rightarrow> pyval" where
  "gate_to_dict g =
     PDict [(''escalate'', PStr (gate_policy g)), (''approvers'', PList (map PStr (gate_approvers g)))]"

text \<open>\<open>Gate.from_dict\<close>: \<open>.get\<close> of a value that is no mapping is an \<open>AttributeError\<close>.\<close>

definition gate_from_dict :: "pyval \<Rightarrow> exn + gate" where
  "gate_from_dict v =
     (case v of
        PNone \<Rightarrow> Inr default_gate
      | PDict d \<Rightarrow>
          (let policy = py_get_default d ''escalate'' (PStr ''error'');
               recorded = (case iterated (py_get_default d ''approvers'' (PList [])) of
                             None \<Rightarrow> [] | Some xs \<Rightarrow> xs);
               approvers = map str_of (filter is_role recorded)
           in Inr \<lparr>gate_policy = (if is_policy policy then str_of policy else ''always''),
                   gate_approvers = approvers\<rparr>)
      | _ \<Rightarrow> Inl AttributeError)"

text \<open>\<open>envelope_digest\<close> and \<open>escalation_id\<close>, over canonical JSON.\<close>

definition envelope_digest :: "(hashed \<Rightarrow> string) \<Rightarrow> payload \<Rightarrow> string" where
  "envelope_digest sha256 shape = ''env-'' @ take 16 (sha256 (Spaced (json_sorted (PDict shape))))"

definition escalation_material :: "string \<Rightarrow> string \<Rightarrow> int \<Rightarrow> result_envelope \<Rightarrow> pyval" where
  "escalation_material run step attempt e =
     PDict [(''run'', PStr run), (''step'', PStr step), (''attempt'', PInt attempt),
            (''envelope'', PDict (envelope_to_dict e))]"

definition escalation_id :: "(hashed \<Rightarrow> string) \<Rightarrow> string \<Rightarrow> string \<Rightarrow> int \<Rightarrow> result_envelope \<Rightarrow> string" where
  "escalation_id sha256 run step attempt e =
     ''esc-'' @ take 16 (sha256 (Spaced (json_sorted (escalation_material run step attempt e))))"

subsection \<open>What a Gate promises\<close>

definition gate_ok :: "gate \<Rightarrow> bool" where
  "gate_ok g \<longleftrightarrow> gate_policy g \<in> set POLICIES \<and> list_all (\<lambda>r. r \<noteq> []) (gate_approvers g)"

lemma is_role_PStr [simp]: "is_role (PStr s) \<longleftrightarrow> s \<noteq> []"
  by (simp add: is_role_def)

lemma str_of_PStr [simp]: "str_of (PStr s) = s"
  by (simp add: str_of_def)

lemma roles_nonempty: "list_all (\<lambda>r. r \<noteq> []) (map str_of (filter is_role xs))"
  by (induction xs) (auto simp: is_role_def split: pyval.splits)

lemma mk_gate_ok: "mk_gate p a = Inr g \<Longrightarrow> gate_ok g"
proof -
  assume m: "mk_gate p a = Inr g"
  then obtain roles where "iterated a = Some roles" "list_all is_role roles" "is_policy p"
    "g = \<lparr>gate_policy = str_of p, gate_approvers = map str_of roles\<rparr>"
    by (auto simp: mk_gate_def split: if_splits option.splits)
  moreover have "filter is_role roles = roles" using \<open>list_all is_role roles\<close>
    by (simp add: list_all_iff)
  ultimately show "gate_ok g" using roles_nonempty [of roles]
    by (auto simp: gate_ok_def is_policy_def split: pyval.splits)
qed

lemma gate_from_dict_ok: "gate_from_dict v = Inr g \<Longrightarrow> gate_ok g"
  using roles_nonempty
  by (auto simp: gate_from_dict_def default_gate_def gate_ok_def is_policy_def POLICIES_def Let_def
      split: pyval.splits if_splits)

lemma gate_from_to_dict: "gate_ok g \<Longrightarrow> gate_from_dict (gate_to_dict g) = Inr g"
proof -
  assume ok: "gate_ok g"
  then have "filter is_role (map PStr (gate_approvers g)) = map PStr (gate_approvers g)"
    by (auto simp: gate_ok_def list_all_iff filter_id_conv)
  with ok show ?thesis
    by (simp add: gate_from_dict_def gate_to_dict_def iterated_def gate_ok_def is_policy_def comp_def Let_def)
qed

definition strictness :: "string \<Rightarrow> nat" where
  "strictness p = (if p = ''never'' then 0 else if p = ''error'' then 1 else if p = ''warn'' then 2 else 3)"

definition escalates :: "gate \<Rightarrow> result_envelope \<Rightarrow> bool" where
  "escalates g e \<longleftrightarrow> fst (gate_evaluate g e) = ESCALATE"

lemma escalates_iff:
  assumes "gate_policy g \<in> set POLICIES"
  shows "escalates g e \<longleftrightarrow>
     (let sev = prob_severity ` set (env_problems e)
      in strictness (gate_policy g) = 3 \<or> (strictness (gate_policy g) = 2 \<and> sev \<noteq> {})
         \<or> (strictness (gate_policy g) = 1 \<and> ''error'' \<in> sev))"
proof -
  consider "gate_policy g = ''never''" | "gate_policy g = ''error''" | "gate_policy g = ''warn''"
    | "gate_policy g = ''always''" using assms by (auto simp: POLICIES_def)
  then show ?thesis
    by cases (auto simp: escalates_def gate_evaluate_def strictness_def Let_def)
qed

text \<open>
  A Gate recorded on the Track reads back as it was declared; any recorded mapping, whatever
  an older or newer engine put there, reads as a valid Gate; and a stricter policy never lets
  through a result a laxer one holds for a person, so an unknown policy, read as the strictest,
  holds everything.
\<close>

theorem gate_reading_is_safe:
  "(gate_ok g \<longrightarrow> gate_from_dict (gate_to_dict g) = Inr g) \<and>
   (\<exists>h. gate_from_dict (PDict d) = Inr h \<and> gate_ok h \<and> deciders h \<noteq> [] \<and>
        (\<not> is_policy (py_get_default d ''escalate'' (PStr ''error'')) \<longrightarrow> escalates h e)) \<and>
   (gate_ok g \<and> gate_ok g' \<and> strictness (gate_policy g) \<le> strictness (gate_policy g') \<and> escalates g e
      \<longrightarrow> escalates g' e)"
proof (intro conjI)
  show "gate_ok g \<longrightarrow> gate_from_dict (gate_to_dict g) = Inr g" by (simp add: gate_from_to_dict)
  obtain h where h: "gate_from_dict (PDict d) = Inr h" by (simp add: gate_from_dict_def Let_def)
  moreover have "gate_ok h" using h by (rule gate_from_dict_ok)
  moreover have "deciders h \<noteq> []" by (simp add: deciders_def DEFAULT_APPROVERS_def)
  moreover have "escalates h e" if "\<not> is_policy (py_get_default d ''escalate'' (PStr ''error''))"
    using h that unfolding gate_from_dict_def
    by (auto simp: escalates_def gate_evaluate_def Let_def simp del: py_get_simps)
  ultimately show "\<exists>h. gate_from_dict (PDict d) = Inr h \<and> gate_ok h \<and> deciders h \<noteq> [] \<and>
      (\<not> is_policy (py_get_default d ''escalate'' (PStr ''error'')) \<longrightarrow> escalates h e)" by blast
  show "gate_ok g \<and> gate_ok g' \<and> strictness (gate_policy g) \<le> strictness (gate_policy g') \<and> escalates g e
      \<longrightarrow> escalates g' e"
    by (auto simp: escalates_iff gate_ok_def Let_def strictness_def split: if_splits)
qed

theorem gate_reading_is_safe_witness:
  "gate_from_dict (gate_to_dict \<lparr>gate_policy = ''warn'', gate_approvers = [''owner'']\<rparr>)
     = Inr \<lparr>gate_policy = ''warn'', gate_approvers = [''owner'']\<rparr>
   \<and> (\<exists>h. gate_from_dict (PDict [(''escalate'', PStr ''sometimes'')]) = Inr h
          \<and> escalates h (envelope_success PNone no_extras))"
  using gate_reading_is_safe [of "\<lparr>gate_policy = ''warn'', gate_approvers = [''owner'']\<rparr>"
      "[(''escalate'', PStr ''sometimes'')]" "envelope_success PNone no_extras" default_gate]
  by (auto simp: gate_ok_def POLICIES_def is_policy_def)

end
