(* ===== verification/Ops.thy ===== *)
theory Ops
  imports Gates
begin

section \<open>Ops and the seam a step crosses (ops.py)\<close>

text \<open>
  An Op is a run id and its steps; the Track keeps it as JSON.  A recorded name, Cog, entry
  point or digest is a string, as \<open>_serialize_op\<close> of an annotated \<open>OpStep\<close> writes it;
  any other value there is read as a \<open>TypeError\<close>.  The in-memory executor, a handler per
  Cog, is the instance the examples of later theories run on.
\<close>

record op_step =
  step_name :: string
  step_cog :: string
  entry_point :: string
  step_input :: pyval
  step_digest :: "string option"
  step_gate :: gate

record op_definition =
  op_run_id :: string
  op_steps :: "op_step list"

definition serialize_step :: "op_step \<Rightarrow> pyval" where
  "serialize_step s =
     PDict [(''name'', PStr (step_name s)), (''cog'', PStr (step_cog s)),
            (''entry_point'', PStr (entry_point s)), (''input'', step_input s),
            (''digest'', opt_str (step_digest s)), (''gate'', gate_to_dict (step_gate s))]"

definition serialize_op :: "op_definition \<Rightarrow> pyval" where
  "serialize_op op =
     PDict [(''run_id'', PStr (op_run_id op)), (''steps'', PList (map serialize_step (op_steps op)))]"

text \<open>\<open>value[key]\<close> where a string is expected.\<close>

definition req_str :: "payload \<Rightarrow> string \<Rightarrow> exn + string" where
  "req_str d k =
     (case map_of d k of None \<Rightarrow> Inl KeyError | Some v \<Rightarrow> (case v of PStr s \<Rightarrow> Inr s | _ \<Rightarrow> Inl TypeError))"

definition get_opt_str :: "payload \<Rightarrow> string \<Rightarrow> exn + string option" where
  "get_opt_str d k =
     (case py_get d k of PNone \<Rightarrow> Inr None | PStr s \<Rightarrow> Inr (Some s) | _ \<Rightarrow> Inl TypeError)"

definition deserialize_step :: "pyval \<Rightarrow> exn + op_step" where
  "deserialize_step v =
     (case v of
        PDict d \<Rightarrow>
          bind_result (req_str d ''name'') (\<lambda>nm.
          bind_result (req_str d ''cog'') (\<lambda>cg.
          bind_result (req_str d ''entry_point'') (\<lambda>ep.
          bind_result (get_opt_str d ''digest'') (\<lambda>dg.
          bind_result (gate_from_dict (py_get d ''gate'')) (\<lambda>g.
          Inr \<lparr>step_name = nm, step_cog = cg, entry_point = ep, step_input = py_get d ''input'',
               step_digest = dg, step_gate = g\<rparr>)))))
      | _ \<Rightarrow> Inl TypeError)"

text \<open>Iterating \<open>value["steps"]\<close>: a string or a dict gives strings, which are no steps.\<close>

definition step_items :: "pyval \<Rightarrow> exn + pyval list" where
  "step_items v =
     (case v of
        PList xs \<Rightarrow> Inr xs
      | PDict d \<Rightarrow> Inr (map (\<lambda>p. PStr (fst p)) d)
      | PStr s \<Rightarrow> Inr (map (\<lambda>c. PStr [c]) s)
      | _ \<Rightarrow> Inl TypeError)"

definition deserialize_op :: "pyval \<Rightarrow> exn + op_definition" where
  "deserialize_op v =
     (case v of
        PDict d \<Rightarrow>
          bind_result (req_str d ''run_id'') (\<lambda>i.
          bind_result (case map_of d ''steps'' of None \<Rightarrow> Inl KeyError | Some w \<Rightarrow> step_items w) (\<lambda>items.
          bind_result (map_result deserialize_step items) (\<lambda>steps.
          Inr \<lparr>op_run_id = i, op_steps = steps\<rparr>)))
      | _ \<Rightarrow> Inl TypeError)"

text \<open>\<open>_canonical_op\<close>: the JSON text both sides are compared as, by the value it renders.\<close>

definition canonical_op :: "op_definition \<Rightarrow> exn + pyval" where
  "canonical_op op =
     (if is_json (serialize_op op) then Inr (json_sorted (serialize_op op)) else Inl TypeError)"

subsection \<open>The in-memory executor\<close>

text \<open>What a handler returns: an envelope, or any other value; or it raises.\<close>

datatype handled = Envelope result_envelope | Answer pyval

definition answer_of :: "(pyval \<Rightarrow> string) \<Rightarrow> handled \<Rightarrow> exn + result_envelope" where
  "answer_of py_repr h =
     (case h of
        Envelope e \<Rightarrow> Inr e
      | Answer v \<Rightarrow>
          (case v of
             PDict d \<Rightarrow> (if map_of d ''envelope'' \<noteq> None then parse_envelope py_repr v
                         else Inr (envelope_success v no_extras))
           | _ \<Rightarrow> Inr (envelope_success v no_extras)))"

record in_memory_executor =
  handlers :: "(string, string \<Rightarrow> pyval \<Rightarrow> pyval option \<Rightarrow> exn + handled) dict"
  materialized :: "(string \<times> string) list"
  torn_down :: "string list"

text \<open>The run and Cog are noted before the handler is looked up; a worker is its Cog's name.\<close>

definition im_materialize ::
  "in_memory_executor \<Rightarrow> string \<Rightarrow> string \<Rightarrow> (exn + string) \<times> in_memory_executor" where
  "im_materialize x cog run =
     (let y = x\<lparr>materialized := materialized x @ [(run, cog)]\<rparr>
      in (if map_of (handlers x) cog = None then Inl KeyError else Inr cog, y))"

definition im_interact ::
  "(pyval \<Rightarrow> string) \<Rightarrow> in_memory_executor \<Rightarrow> string \<Rightarrow> string \<Rightarrow> pyval \<Rightarrow> pyval option \<Rightarrow> exn + result_envelope" where
  "im_interact py_repr x worker ep input signal =
     (case map_of (handlers x) worker of
        None \<Rightarrow> Inl KeyError
      | Some h \<Rightarrow> bind_result (h ep input signal) (answer_of py_repr))"

definition im_teardown :: "in_memory_executor \<Rightarrow> string \<Rightarrow> in_memory_executor" where
  "im_teardown x worker = x\<lparr>torn_down := torn_down x @ [worker]\<rparr>"

subsection \<open>An Op survives the Track\<close>

definition op_ok :: "op_definition \<Rightarrow> bool" where
  "op_ok op \<longleftrightarrow> list_all (\<lambda>s. gate_ok (step_gate s)) (op_steps op)"

lemma deserialize_serialize_step:
  assumes "gate_ok (step_gate s)"
  shows "deserialize_step (serialize_step s) = Inr s"
proof -
  have g: "gate_from_dict (gate_to_dict (step_gate s)) = Inr (step_gate s)"
    using assms by (rule gate_from_to_dict)
  show ?thesis
    by (cases "step_digest s")
       (simp_all add: deserialize_step_def serialize_step_def req_str_def get_opt_str_def g)
qed

lemma deserialize_serialize_op: "op_ok op \<Longrightarrow> deserialize_op (serialize_op op) = Inr op"
proof -
  assume "op_ok op"
  then have "map_result deserialize_step (map serialize_step (op_steps op)) = Inr (map (\<lambda>s. s) (op_steps op))"
    by (intro map_result_map_Inr) (simp add: op_ok_def list_all_iff deserialize_serialize_step)
  then show ?thesis
    by (simp add: deserialize_op_def serialize_op_def req_str_def step_items_def)
qed

lemma deserialize_step_gate_ok: "deserialize_step v = Inr s \<Longrightarrow> gate_ok (step_gate s)"
  by (auto simp: deserialize_step_def bind_result_Inr_iff split: pyval.splits dest: gate_from_dict_ok)

lemma deserialize_op_ok: "deserialize_op v = Inr op \<Longrightarrow> op_ok op"
proof -
  assume "deserialize_op v = Inr op"
  then obtain items where "map_result deserialize_step items = Inr (op_steps op)"
    by (auto simp: deserialize_op_def bind_result_Inr_iff split: pyval.splits)
  then show "op_ok op" unfolding op_ok_def
    by (rule map_result_all) (rule deserialize_step_gate_ok)
qed

text \<open>
  An Op with valid Gates is read back from its recorded form exactly, and what is read from
  any recording has valid Gates, so it can be recorded and read again unchanged.
\<close>

theorem op_roundtrip:
  "(op_ok op \<longrightarrow> deserialize_op (serialize_op op) = Inr op) \<and>
   (deserialize_op v = Inr op \<longrightarrow> deserialize_op (serialize_op op) = Inr op)"
  using deserialize_serialize_op deserialize_op_ok by blast

theorem op_roundtrip_witness:
  "deserialize_op (serialize_op \<lparr>op_run_id = ''r'', op_steps = [\<lparr>step_name = ''draft'', step_cog = ''writer'',
     entry_point = ''go'', step_input = PInt 1, step_digest = None, step_gate = default_gate\<rparr>]\<rparr>)
   = Inr \<lparr>op_run_id = ''r'', op_steps = [\<lparr>step_name = ''draft'', step_cog = ''writer'',
     entry_point = ''go'', step_input = PInt 1, step_digest = None, step_gate = default_gate\<rparr>]\<rparr>"
  using op_roundtrip [of "\<lparr>op_run_id = ''r'', op_steps = [\<lparr>step_name = ''draft'', step_cog = ''writer'',
     entry_point = ''go'', step_input = PInt 1, step_digest = None, step_gate = default_gate\<rparr>]\<rparr>" PNone]
  by (simp add: op_ok_def gate_ok_def default_gate_def POLICIES_def)

end
