(* ===== verification/TrackStores.thy ===== *)
theory TrackStores
  imports Track
begin

section \<open>The in-memory and the SQLite store (track.py)\<close>

text \<open>
  The two stores one process, or the processes of one host, share.  The first keeps a list
  per run and the ids it has seen; the second a table, whose constraints SQLite enforces: the
  primary key counts up and is never reused (\<open>AUTOINCREMENT\<close>), \<open>event_id\<close> is unique, and
  a partial unique index allows one \<open>op_submitted\<close> per run.  A statement that a constraint
  refuses changes nothing.
\<close>

subsection \<open>InMemoryTrackStore\<close>

record mem_store =
  next_sequence :: int
  mem_events :: "(string, track_event list) dict"
  mem_ids :: "string list"
  mem_payloads :: "(string, pyval) dict"

definition mem_init :: mem_store where
  "mem_init = \<lparr>next_sequence = 1, mem_events = [], mem_ids = [], mem_payloads = []\<rparr>"

definition mem_run :: "mem_store \<Rightarrow> string \<Rightarrow> track_event list" where
  "mem_run s r = (case map_of (mem_events s) r of None \<Rightarrow> [] | Some es \<Rightarrow> es)"

definition mem_append :: "mem_store \<Rightarrow> track_event \<Rightarrow> (exn + track_event) \<times> mem_store" where
  "mem_append s e =
     (if sequence e \<noteq> None then (Inl ValueError, s)
      else if event_id e \<in> set (mem_ids s) then (Inl ValueError, s)
      else if event_type e = ''op_submitted'' \<and>
              list_ex (\<lambda>x. event_type x = ''op_submitted'') (mem_run s (run_id e))
      then (Inl OneSubmissionPerRun, s)
      else let stored = e\<lparr>sequence := Some (next_sequence s)\<rparr>
           in (Inr stored,
               s\<lparr>next_sequence := next_sequence s + 1,
                 mem_events := AList.update (run_id e) (mem_run s (run_id e) @ [stored]) (mem_events s),
                 mem_ids := event_id e # mem_ids s\<rparr>))"

definition mem_replay :: "mem_store \<Rightarrow> string \<Rightarrow> int \<Rightarrow> track_event list" where
  "mem_replay s r after_sequence = filter (\<lambda>e. after_sequence < seq_of e) (mem_run s r)"

definition mem_append_if ::
  "mem_store \<Rightarrow> track_event \<Rightarrow> (track_event list \<Rightarrow> exn + bool) \<Rightarrow> (exn + track_event option) \<times> mem_store" where
  "mem_append_if = checked_append mem_append mem_replay"

definition mem_put_payload :: "mem_store \<Rightarrow> string \<Rightarrow> string \<Rightarrow> pyval \<Rightarrow> mem_store" where
  "mem_put_payload s r ref v = s\<lparr>mem_payloads := AList.update ref v (mem_payloads s)\<rparr>"

definition mem_get_payload :: "mem_store \<Rightarrow> string \<Rightarrow> exn + pyval" where
  "mem_get_payload s ref = (case map_of (mem_payloads s) ref of None \<Rightarrow> Inl KeyError | Some v \<Rightarrow> Inr v)"

text \<open>The submissions of all runs by sequence (no two share one), each run where it first appears.\<close>

definition mem_run_ids :: "mem_store \<Rightarrow> string list" where
  "mem_run_ids s =
     once (map snd (sort_key fst (concat (map (\<lambda>(r, es).
       map (\<lambda>e. (seq_of e, r)) (filter (\<lambda>e. event_type e \<in> set SUBMITTED_TYPES) es)) (mem_events s)))))"

definition mem_ops :: "mem_store track_ops" where
  "mem_ops = \<lparr>t_append = mem_append, t_append_if = mem_append_if, t_replay = mem_replay,
     t_put_payload = mem_put_payload, t_get_payload = mem_get_payload, t_run_ids = mem_run_ids\<rparr>"

definition mem_inv :: "mem_store \<Rightarrow> bool" where
  "mem_inv s \<longleftrightarrow>
     0 < next_sequence s \<and> distinct (map fst (mem_events s)) \<and>
     (\<forall>r. sorted_wrt (\<lambda>a b. seq_of a < seq_of b) (mem_run s r) \<and>
          (\<forall>e\<in>set (mem_run s r). run_id e = r \<and> 0 < seq_of e \<and> seq_of e < next_sequence s) \<and>
          length (filter (\<lambda>e. event_type e = ''op_submitted'') (mem_run s r)) \<le> 1)"

lemma mem_inv_init: "mem_inv mem_init"
  by (simp add: mem_inv_def mem_init_def mem_run_def)

lemma mem_append_Inr:
  assumes "mem_append s e = (Inr e', s')"
  shows "sequence e = None" "e' = e\<lparr>sequence := Some (next_sequence s)\<rparr>"
    "next_sequence s' = next_sequence s + 1"
    "mem_run s' r = (if r = run_id e then mem_run s r @ [e'] else mem_run s r)"
    "mem_payloads s' = mem_payloads s"
    "event_type e = ''op_submitted'' \<Longrightarrow> filter (\<lambda>x. event_type x = ''op_submitted'') (mem_run s (run_id e)) = []"
    "distinct (map fst (mem_events s)) \<Longrightarrow> distinct (map fst (mem_events s'))"
  using assms
  by (auto simp: mem_append_def mem_run_def Let_def list_ex_iff filter_empty_conv distinct_update
      split: if_splits option.splits)

lemma mem_append_inv:
  assumes "mem_inv s" and "mem_append s e = (Inr e', s')"
  shows "mem_inv s'"
proof -
  note a = mem_append_Inr [OF assms(2)]
  have n: "seq_of e' = next_sequence s" "run_id e' = run_id e" "event_type e' = event_type e"
    by (simp_all add: a(2) seq_of_def)
  show ?thesis using assms(1) a(6) unfolding mem_inv_def a(3,4)
    by (auto simp: n a(7) sorted_wrt_append intro!: less_imp_le)
qed

lemma mem_append_Inl: "mem_append s e = (Inl x, s') \<Longrightarrow> s' = s"
  by (auto simp: mem_append_def Let_def split: if_splits)

lemma mem_log: "mem_inv s \<Longrightarrow> mem_replay s r 0 = mem_run s r"
  by (auto simp: mem_replay_def mem_inv_def filter_id_conv)

lemma set_pairs_of:
  "snd ` set (concat (map (\<lambda>(r, es). map (\<lambda>e. (f e, r)) (filter P es)) d)) =
     {r. \<exists>es. (r, es) \<in> set d \<and> (\<exists>e\<in>set es. P e)}"
  by (induction d) (auto simp: image_Un image_image)

lemma mem_run_ids_set:
  assumes "distinct (map fst (mem_events s))"
  shows "r \<in> set (mem_run_ids s) \<longleftrightarrow> (\<exists>e\<in>set (mem_run s r). event_type e \<in> set SUBMITTED_TYPES)"
proof -
  have "r \<in> set (mem_run_ids s) \<longleftrightarrow>
      (\<exists>es. (r, es) \<in> set (mem_events s) \<and> (\<exists>e\<in>set es. event_type e \<in> set SUBMITTED_TYPES))"
    unfolding mem_run_ids_def set_once set_map set_sort set_pairs_of by simp
  also have "\<dots> \<longleftrightarrow> (\<exists>es. map_of (mem_events s) r = Some es \<and> (\<exists>e\<in>set es. event_type e \<in> set SUBMITTED_TYPES))"
    using assms by simp
  finally show ?thesis by (cases "map_of (mem_events s) r") (simp_all add: mem_run_def)
qed

lemmas mem_ops_defs = mem_ops_def log_of_def mem_append_if_def

interpretation mem: track_store mem_ops mem_inv
proof
  fix s :: mem_store and e e' :: track_event and s' r r' k res c x v ref ref'
  show "mem_inv s \<Longrightarrow> t_append mem_ops s e = (res, s') \<Longrightarrow> mem_inv s'"
    by (cases res) (auto simp: mem_ops_def dest: mem_append_inv mem_append_Inl)
  show "mem_inv s \<Longrightarrow> t_append mem_ops s e = (Inl x, s') \<Longrightarrow> s' = s"
    by (simp add: mem_ops_def mem_append_Inl)
  show "t_append mem_ops s e = (Inl x, s') \<Longrightarrow> \<not> is_invalid_transition x \<and> x \<noteq> RunBusy"
    by (auto simp: mem_ops_def mem_append_def Let_def split: if_splits)
  show "t_append_if mem_ops s e c = checked_append (t_append mem_ops) (t_replay mem_ops) s e c"
    by (simp add: mem_ops_defs)
  show "mem_inv s \<Longrightarrow> t_replay mem_ops s r k = filter (\<lambda>e. k < seq_of e) (log_of mem_ops s r)"
    by (simp add: mem_ops_defs mem_log) (simp add: mem_replay_def)
  show "mem_inv s \<Longrightarrow> e \<in> set (log_of mem_ops s r) \<Longrightarrow> run_id e = r \<and> 0 < seq_of e"
    by (simp add: mem_ops_defs mem_log) (simp add: mem_inv_def)
  show "mem_inv s \<Longrightarrow> sorted_wrt (\<lambda>a b. seq_of a < seq_of b) (log_of mem_ops s r)"
    by (simp add: mem_ops_defs mem_log) (simp add: mem_inv_def)
  show "mem_inv s \<Longrightarrow> length (filter (\<lambda>e. event_type e = ''op_submitted'') (log_of mem_ops s r)) \<le> 1"
    by (simp add: mem_ops_defs mem_log) (simp add: mem_inv_def)
  show "mem_inv s \<Longrightarrow> distinct (t_run_ids mem_ops s) \<and> (r \<in> set (t_run_ids mem_ops s) \<longleftrightarrow>
      (\<exists>e\<in>set (log_of mem_ops s r). event_type e \<in> set SUBMITTED_TYPES))"
    by (simp add: mem_ops_defs mem_log mem_run_ids_set mem_inv_def) (simp add: mem_run_ids_def)
  show "mem_inv s \<Longrightarrow> mem_inv (t_put_payload mem_ops s r ref v) \<and>
      log_of mem_ops (t_put_payload mem_ops s r ref v) r' = log_of mem_ops s r'"
    by (simp add: mem_ops_defs mem_inv_def mem_put_payload_def mem_run_def mem_replay_def)
  show "t_get_payload mem_ops (t_put_payload mem_ops s r ref v) ref' =
      (if ref' = ref then Inr v else t_get_payload mem_ops s ref')"
    by (simp add: mem_ops_def mem_get_payload_def mem_put_payload_def)
  show "t_append mem_ops s e = (res, s') \<Longrightarrow> t_get_payload mem_ops s' ref = t_get_payload mem_ops s ref"
    by (cases res) (auto simp: mem_ops_def mem_get_payload_def mem_append_Inr(5) dest: mem_append_Inl)
  assume i: "mem_inv s" and a: "t_append mem_ops s e = (Inr e', s')"
  then have a: "mem_append s e = (Inr e', s')" by (simp add: mem_ops_def)
  with i have i': "mem_inv s'" by (rule mem_append_inv)
  show "sequence e = None \<and> (\<exists>n>0. e' = e\<lparr>sequence := Some n\<rparr> \<and> (\<forall>x\<in>set (log_of mem_ops s (run_id e)). seq_of x < n)) \<and>
      (\<forall>r. log_of mem_ops s' r = (if r = run_id e then log_of mem_ops s r @ [e'] else log_of mem_ops s r))"
  proof (intro conjI exI allI)
    show "sequence e = None" "e' = e\<lparr>sequence := Some (next_sequence s)\<rparr>" by (fact mem_append_Inr [OF a])+
    show "0 < next_sequence s" "\<forall>x\<in>set (log_of mem_ops s (run_id e)). seq_of x < next_sequence s"
      using i by (simp_all add: mem_ops_defs mem_log) (simp_all add: mem_inv_def)
    show "log_of mem_ops s' r = (if r = run_id e then log_of mem_ops s r @ [e'] else log_of mem_ops s r)" for r
      using mem_append_Inr(4) [OF a] by (simp add: mem_ops_defs mem_log [OF i] mem_log [OF i'])
  qed
qed

subsection \<open>SqliteTrackStore\<close>

text \<open>
  \<open>last_row\<close> is the largest key ever given out, which \<open>AUTOINCREMENT\<close> keeps; rows are
  in key order, since a key is always the largest.
\<close>

record sqlite_store =
  rows :: "track_event list"
  last_row :: int
  payload_rows :: "(string, pyval) dict"

text \<open>\<open>ensure_schema\<close> on a fresh file.\<close>

definition sqlite_init :: sqlite_store where
  "sqlite_init = \<lparr>rows = [], last_row = 0, payload_rows = []\<rparr>"

text \<open>
  \<open>_insert\<close>: \<open>json.dumps\<close> of the payload comes first; a second \<open>op_submitted\<close> of a run is
  named by its column unless the event's id is refused before it, and any other refusal is the
  driver's \<open>IntegrityError\<close>.
\<close>

definition sqlite_insert :: "sqlite_store \<Rightarrow> track_event \<Rightarrow> (exn + track_event) \<times> sqlite_store" where
  "sqlite_insert s e =
     (if \<not> is_json (PDict (payload e)) then (Inl TypeError, s)
      else if list_ex (\<lambda>x. event_id x = event_id e) (rows s) then (Inl IntegrityError, s)
      else if event_type e = ''op_submitted'' \<and>
              list_ex (\<lambda>x. run_id x = run_id e \<and> event_type x = ''op_submitted'') (rows s)
      then (Inl OneSubmissionPerRun, s)
      else let stored = e\<lparr>sequence := Some (last_row s + 1)\<rparr>
           in (Inr stored, s\<lparr>rows := rows s @ [stored], last_row := last_row s + 1\<rparr>))"

definition sqlite_append :: "sqlite_store \<Rightarrow> track_event \<Rightarrow> (exn + track_event) \<times> sqlite_store" where
  "sqlite_append s e = (if sequence e \<noteq> None then (Inl ValueError, s) else sqlite_insert s e)"

definition sqlite_select :: "sqlite_store \<Rightarrow> string \<Rightarrow> int \<Rightarrow> track_event list" where
  "sqlite_select s r after_sequence = filter (\<lambda>e. run_id e = r \<and> after_sequence < seq_of e) (rows s)"

definition sqlite_append_if ::
  "sqlite_store \<Rightarrow> track_event \<Rightarrow> (track_event list \<Rightarrow> exn + bool) \<Rightarrow> (exn + track_event option) \<times> sqlite_store" where
  "sqlite_append_if s e condition =
     (if sequence e \<noteq> None then (Inl ValueError, s)
      else checked_append sqlite_insert sqlite_select s e condition)"

definition sqlite_put_payload :: "sqlite_store \<Rightarrow> string \<Rightarrow> string \<Rightarrow> pyval \<Rightarrow> sqlite_store" where
  "sqlite_put_payload s r ref v = s\<lparr>payload_rows := AList.update ref v (payload_rows s)\<rparr>"

definition sqlite_get_payload :: "sqlite_store \<Rightarrow> string \<Rightarrow> exn + pyval" where
  "sqlite_get_payload s ref =
     (case map_of (payload_rows s) ref of None \<Rightarrow> Inl KeyError | Some v \<Rightarrow> Inr v)"

definition sqlite_run_ids :: "sqlite_store \<Rightarrow> string list" where
  "sqlite_run_ids s = once (map run_id (filter (\<lambda>e. event_type e \<in> set SUBMITTED_TYPES) (rows s)))"

definition sqlite_ops :: "sqlite_store track_ops" where
  "sqlite_ops = \<lparr>t_append = sqlite_append, t_append_if = sqlite_append_if, t_replay = sqlite_select,
     t_put_payload = sqlite_put_payload, t_get_payload = sqlite_get_payload, t_run_ids = sqlite_run_ids\<rparr>"

definition sqlite_inv :: "sqlite_store \<Rightarrow> bool" where
  "sqlite_inv s \<longleftrightarrow>
     0 \<le> last_row s \<and> sorted_wrt (\<lambda>a b. seq_of a < seq_of b) (rows s) \<and>
     (\<forall>e\<in>set (rows s). 0 < seq_of e \<and> seq_of e \<le> last_row s) \<and>
     distinct (map event_id (rows s)) \<and>
     (\<forall>r. length (filter (\<lambda>e. run_id e = r \<and> event_type e = ''op_submitted'') (rows s)) \<le> 1)"

lemma sqlite_inv_init: "sqlite_inv sqlite_init"
  by (simp add: sqlite_inv_def sqlite_init_def)

lemma sqlite_append_Inr:
  assumes "sqlite_append s e = (Inr e', s')"
  shows "sequence e = None" "e' = e\<lparr>sequence := Some (last_row s + 1)\<rparr>"
    "s' = s\<lparr>rows := rows s @ [e'], last_row := last_row s + 1\<rparr>"
    "event_id e \<notin> event_id ` set (rows s)"
    "event_type e = ''op_submitted'' \<Longrightarrow>
       filter (\<lambda>x. run_id x = run_id e \<and> event_type x = ''op_submitted'') (rows s) = []"
  using assms
  by (auto simp: sqlite_append_def sqlite_insert_def Let_def list_ex_iff filter_empty_conv split: if_splits)

lemma sqlite_append_inv:
  assumes "sqlite_inv s" and "sqlite_append s e = (Inr e', s')"
  shows "sqlite_inv s'"
proof -
  note a = sqlite_append_Inr [OF assms(2)]
  have n: "seq_of e' = last_row s + 1" "run_id e' = run_id e" "event_type e' = event_type e"
    "event_id e' = event_id e" by (simp_all add: a(2) seq_of_def)
  show ?thesis using assms(1) a(4,5) unfolding sqlite_inv_def a(3)
    by (auto simp: n sorted_wrt_append)
qed

lemma sqlite_append_Inl: "sqlite_append s e = (Inl x, s') \<Longrightarrow> s' = s"
  by (auto simp: sqlite_append_def sqlite_insert_def Let_def split: if_splits)

lemma sqlite_log: "sqlite_inv s \<Longrightarrow> sqlite_select s r 0 = filter (\<lambda>e. run_id e = r) (rows s)"
  by (auto simp: sqlite_select_def sqlite_inv_def intro: filter_cong)

lemmas sqlite_ops_defs = sqlite_ops_def log_of_def

interpretation sqlite: track_store sqlite_ops sqlite_inv
proof
  fix s :: sqlite_store and e e' :: track_event and s' r r' k res c x v ref ref'
  show "sqlite_inv s \<Longrightarrow> t_append sqlite_ops s e = (res, s') \<Longrightarrow> sqlite_inv s'"
    by (cases res) (auto simp: sqlite_ops_def dest: sqlite_append_inv sqlite_append_Inl)
  show "sqlite_inv s \<Longrightarrow> t_append sqlite_ops s e = (Inl x, s') \<Longrightarrow> s' = s"
    by (simp add: sqlite_ops_def sqlite_append_Inl)
  show "t_append sqlite_ops s e = (Inl x, s') \<Longrightarrow> \<not> is_invalid_transition x \<and> x \<noteq> RunBusy"
    by (auto simp: sqlite_ops_def sqlite_append_def sqlite_insert_def Let_def split: if_splits)
  show "sequence e = None \<Longrightarrow>
      t_append_if sqlite_ops s e c = checked_append (t_append sqlite_ops) (t_replay sqlite_ops) s e c"
    by (simp add: sqlite_ops_def sqlite_append_if_def checked_append_def sqlite_append_def split: sum.splits bool.splits)
  show "sqlite_inv s \<Longrightarrow> t_replay sqlite_ops s r k = filter (\<lambda>e. k < seq_of e) (log_of sqlite_ops s r)"
    by (simp add: sqlite_ops_defs sqlite_log) (simp add: sqlite_select_def conj_commute)
  show "sqlite_inv s \<Longrightarrow> e \<in> set (log_of sqlite_ops s r) \<Longrightarrow> run_id e = r \<and> 0 < seq_of e"
    by (simp add: sqlite_ops_defs sqlite_log) (simp add: sqlite_inv_def)
  show "sqlite_inv s \<Longrightarrow> sorted_wrt (\<lambda>a b. seq_of a < seq_of b) (log_of sqlite_ops s r)"
    by (simp add: sqlite_ops_defs sqlite_log) (simp add: sqlite_inv_def sorted_wrt_filter)
  show "sqlite_inv s \<Longrightarrow> length (filter (\<lambda>e. event_type e = ''op_submitted'') (log_of sqlite_ops s r)) \<le> 1"
    by (simp add: sqlite_ops_defs sqlite_log) (simp add: sqlite_inv_def conj_commute)
  show "sqlite_inv s \<Longrightarrow> distinct (t_run_ids sqlite_ops s) \<and> (r \<in> set (t_run_ids sqlite_ops s) \<longleftrightarrow>
      (\<exists>e\<in>set (log_of sqlite_ops s r). event_type e \<in> set SUBMITTED_TYPES))"
    by (auto simp: sqlite_ops_defs sqlite_log sqlite_run_ids_def)
  show "sqlite_inv s \<Longrightarrow> sqlite_inv (t_put_payload sqlite_ops s r ref v) \<and>
      log_of sqlite_ops (t_put_payload sqlite_ops s r ref v) r' = log_of sqlite_ops s r'"
    by (simp add: sqlite_ops_defs sqlite_inv_def sqlite_put_payload_def sqlite_select_def)
  show "t_get_payload sqlite_ops (t_put_payload sqlite_ops s r ref v) ref' =
      (if ref' = ref then Inr v else t_get_payload sqlite_ops s ref')"
    by (simp add: sqlite_ops_def sqlite_get_payload_def sqlite_put_payload_def)
  show "t_append sqlite_ops s e = (res, s') \<Longrightarrow> t_get_payload sqlite_ops s' ref = t_get_payload sqlite_ops s ref"
    by (cases res) (auto simp: sqlite_ops_def sqlite_get_payload_def dest: sqlite_append_Inl sqlite_append_Inr(3))
  assume i: "sqlite_inv s" and a: "t_append sqlite_ops s e = (Inr e', s')"
  then have a: "sqlite_append s e = (Inr e', s')" by (simp add: sqlite_ops_def)
  with i have i': "sqlite_inv s'" by (rule sqlite_append_inv)
  show "sequence e = None \<and> (\<exists>n>0. e' = e\<lparr>sequence := Some n\<rparr> \<and> (\<forall>x\<in>set (log_of sqlite_ops s (run_id e)). seq_of x < n)) \<and>
      (\<forall>r. log_of sqlite_ops s' r = (if r = run_id e then log_of sqlite_ops s r @ [e'] else log_of sqlite_ops s r))"
  proof (intro conjI exI allI)
    show "sequence e = None" "e' = e\<lparr>sequence := Some (last_row s + 1)\<rparr>" by (fact sqlite_append_Inr [OF a])+
    show "0 < last_row s + 1" "\<forall>x\<in>set (log_of sqlite_ops s (run_id e)). seq_of x < last_row s + 1"
      using i by (simp_all add: sqlite_ops_defs sqlite_log) (auto simp: sqlite_inv_def)
    have "run_id e' = run_id e" by (simp add: sqlite_append_Inr(2) [OF a])
    then show "log_of sqlite_ops s' r = (if r = run_id e then log_of sqlite_ops s r @ [e'] else log_of sqlite_ops s r)" for r
      using sqlite_append_Inr(3) [OF a]
      by (simp add: sqlite_ops_defs sqlite_log [OF i] sqlite_log [OF i', unfolded sqlite_append_Inr(3) [OF a]])
  qed
qed

subsection \<open>What every history of a store shows\<close>

definition sqlite_after :: "store_call list \<Rightarrow> sqlite_store" where
  "sqlite_after cs = foldl (store_step sqlite_ops) sqlite_init cs"

lemma sqlite_after_inv: "list_all store_call_ok cs \<Longrightarrow> sqlite_inv (sqlite_after cs)"
  using sqlite.store_steps [OF sqlite_inv_init] by (simp add: sqlite_after_def)

text \<open>
  C26: whatever calls any processes make, in any order, a run's Track in the SQLite store only
  ever grows at its end; its sequences strictly increase, it holds at most one submission, and
  every event in it is the run's own.
\<close>

theorem track_is_append_only:
  assumes "list_all store_call_ok (before @ later)"
  shows "extends (sqlite_select (sqlite_after before) r 0) (sqlite_select (sqlite_after (before @ later)) r 0)
       \<and> sorted_wrt (\<lambda>a b. seq_of a < seq_of b) (sqlite_select (sqlite_after (before @ later)) r 0)
       \<and> length (filter (\<lambda>e. event_type e = ''op_submitted'') (sqlite_select (sqlite_after (before @ later)) r 0)) \<le> 1
       \<and> (\<forall>e\<in>set (sqlite_select (sqlite_after (before @ later)) r 0). run_id e = r \<and> 0 < seq_of e)"
proof -
  let ?s = "sqlite_after before" and ?t = "sqlite_after (before @ later)"
  have s: "sqlite_inv ?s" and t: "sqlite_inv ?t" using assms by (simp_all add: sqlite_after_inv)
  have "?t = foldl (store_step sqlite_ops) ?s later" by (simp add: sqlite_after_def)
  then have "extends (log_of sqlite_ops ?s r) (log_of sqlite_ops ?t r)"
    using sqlite.store_steps [OF s, of later r] assms by simp
  with sqlite.log_sorted [OF t] sqlite.log_one_submission [OF t] sqlite.log_events [OF t]
  show ?thesis by (simp add: sqlite_ops_defs)
qed

definition sample_event :: "string \<Rightarrow> string \<Rightarrow> payload \<Rightarrow> string \<Rightarrow> track_event" where
  "sample_event r ty p i =
     \<lparr>run_id = r, event_type = ty, payload = p, occurred_at = 0, event_id = i, sequence = None, schema = 1\<rparr>"

theorem track_is_append_only_witness:
  "map seq_of (sqlite_select (sqlite_after [Append (sample_event ''r'' ''op_submitted'' [] ''a''),
      Append (sample_event ''r'' ''op_submitted'' [] ''b''), Append (sample_event ''r'' ''completed'' [] ''c'')]) ''r'' 0) = [1, 2]
   \<and> extends (sqlite_select (sqlite_after [Append (sample_event ''r'' ''op_submitted'' [] ''a'')]) ''r'' 0)
       (sqlite_select (sqlite_after [Append (sample_event ''r'' ''op_submitted'' [] ''a''),
         Append (sample_event ''r'' ''op_submitted'' [] ''b''), Append (sample_event ''r'' ''completed'' [] ''c'')]) ''r'' 0)"
proof
  let ?a = "Append (sample_event ''r'' ''op_submitted'' [] ''a'')" and ?b = "Append (sample_event ''r'' ''op_submitted'' [] ''b'')"
    and ?c = "Append (sample_event ''r'' ''completed'' [] ''c'')"
  show "map seq_of (sqlite_select (sqlite_after [?a, ?b, ?c]) ''r'' 0) = [1, 2]" by code_simp
  show "extends (sqlite_select (sqlite_after [?a]) ''r'' 0) (sqlite_select (sqlite_after [?a, ?b, ?c]) ''r'' 0)"
    using track_is_append_only [of "[?a]" "[?b, ?c]" "''r''"] by simp
qed

text \<open>
  \<open>append_if\<close> is one step: an event it stores is the next event of exactly the Track its
  condition was true of, and when it stores nothing the store is as it was.
\<close>

theorem append_if_is_atomic:
  assumes "sqlite_inv s" and "sequence e = None" and "sqlite_append_if s e condition = (res, s')"
  shows "(case res of
            Inr (Some e') \<Rightarrow> condition (sqlite_select s (run_id e) 0) = Inr True
              \<and> sqlite_select s' (run_id e) 0 = sqlite_select s (run_id e) 0 @ [e']
              \<and> (\<exists>n. e' = e\<lparr>sequence := Some n\<rparr>)
          | _ \<Rightarrow> s' = s)
       \<and> sqlite_inv s'"
proof -
  from assms(3) have a: "t_append_if sqlite_ops s e condition = (res, s')" by (simp add: sqlite_ops_def)
  have "sqlite_inv s'" using assms(1,2) a by (rule sqlite.append_if_inv)
  moreover have "s' = s" if "\<forall>e'. res \<noteq> Inr (Some e')"
    using assms(1,2) a that by (rule sqlite.append_if_declined)
  moreover have "condition (sqlite_select s (run_id e) 0) = Inr True
      \<and> sqlite_select s' (run_id e) 0 = sqlite_select s (run_id e) 0 @ [e'] \<and> (\<exists>n. e' = e\<lparr>sequence := Some n\<rparr>)"
    if "res = Inr (Some e')" for e'
    using sqlite.append_if_atomic [OF assms(1,2)] a that by (simp add: sqlite_ops_defs)
  ultimately show ?thesis by (auto split: sum.splits option.splits)
qed

theorem append_if_is_atomic_witness:
  "snd (sqlite_append_if sqlite_init (sample_event ''r'' ''cancel_requested'' [] ''a'') (\<lambda>es. Inr (es \<noteq> []))) = sqlite_init
   \<and> sqlite_inv sqlite_init"
  using append_if_is_atomic [OF sqlite_inv_init, of "sample_event ''r'' ''cancel_requested'' [] ''a''"
      "\<lambda>es. Inr (es \<noteq> [])" "Inr None" sqlite_init]
  by (simp add: sqlite_append_if_def checked_append_def sample_event_def sqlite_select_def sqlite_init_def)

text \<open>
  A stream from the start of a run's Track, over looks at a store that only grew between
  them, yields exactly the Track as one of the looks saw it: every event once, in order, none
  skipped, whenever the stream stops.
\<close>

theorem stream_yields_track:
  assumes "looks \<noteq> []" and "list_all (\<lambda>(s, t). sqlite_inv s) looks"
    and "sorted_wrt (\<lambda>(s, _) (t, _). extends (sqlite_select s r 0) (sqlite_select t r 0)) looks"
  shows "\<exists>k<length looks. poll sqlite_select r 0 timeout deadline looks = sqlite_select (fst (looks ! k)) r 0"
proof -
  have "\<exists>k. [] @ poll (t_replay sqlite_ops) r 0 timeout deadline looks =
           (if k = 0 then [] else log_of sqlite_ops (fst (looks ! (k - 1))) r) \<and> k \<le> length looks \<and>
           (looks \<noteq> [] \<longrightarrow> 0 < k)"
    by (rule sqlite.poll_yields) (use assms in \<open>auto simp: sqlite_ops_defs extends_iff\<close>)
  then obtain k where "0 < k" "k \<le> length looks"
    "poll sqlite_select r 0 timeout deadline looks = sqlite_select (fst (looks ! (k - 1))) r 0"
    using assms(1) by (auto simp: sqlite_ops_defs)
  then show ?thesis by (intro exI [of _ "k - 1"]) simp
qed

theorem stream_yields_track_witness:
  "map event_id (poll sqlite_select ''r'' 0 1 10
     [(sqlite_init, 0), (sqlite_after [Append (sample_event ''r'' ''op_submitted'' [] ''a'')], 1)]) = [''a'']
   \<and> (\<exists>k<2. poll sqlite_select ''r'' 0 1 10
     [(sqlite_init, 0), (sqlite_after [Append (sample_event ''r'' ''op_submitted'' [] ''a'')], 1)]
     = sqlite_select (fst ([(sqlite_init, 0), (sqlite_after [Append (sample_event ''r'' ''op_submitted'' [] ''a'')], 1 :: rat)] ! k)) ''r'' 0)"
proof
  let ?looks = "[(sqlite_init, 0), (sqlite_after [Append (sample_event ''r'' ''op_submitted'' [] ''a'')], 1 :: rat)]"
  show "map event_id (poll sqlite_select ''r'' 0 1 10 ?looks) = [''a'']"
    by code_simp
  have "sqlite_select sqlite_init ''r'' 0 = []" by (simp add: sqlite_select_def sqlite_init_def)
  then show "\<exists>k<2. poll sqlite_select ''r'' 0 1 10 ?looks = sqlite_select (fst (?looks ! k)) ''r'' 0"
    using stream_yields_track [of ?looks "''r''" 1 10]
    by (simp add: sqlite_inv_init sqlite_after_inv extends_iff numeral_2_eq_2)
qed

end
