(* ===== verification/Budget.thy ===== *)
theory Budget
  imports Track
begin

section \<open>Per-run budgets and usage accounting (lifecycle.py, runner.py)\<close>

text \<open>
  \<open>RunBudget\<close> and \<open>BudgetTracker\<close>, the validation of what a worker reports it spent, and
  the tracker the runner rebuilds from a run's Track.  Times and durations are in microseconds;
  tokens are unbounded integers, cost is a double, summed as Python sums it.
\<close>

record run_budget =
  max_duration :: "int option"
  max_tokens :: "int option"
  max_cost :: "pyfloat option"

record budget_tracker =
  bt_budget :: run_budget
  started_at :: int
  bt_tokens :: int
  bt_cost :: pyfloat

text \<open>\<open>BudgetTracker(budget, started_at=...)\<close>; the clock is read when no start is given.\<close>

definition new_tracker :: "run_budget \<Rightarrow> int option \<Rightarrow> int \<Rightarrow> budget_tracker" where
  "new_tracker b start now =
     \<lparr>bt_budget = b, started_at = (case start of None \<Rightarrow> now | Some t \<Rightarrow> t), bt_tokens = 0, bt_cost = Fin 0\<rparr>"

text \<open>\<open>BudgetTracker.check\<close>: limits are inclusive, checked in this order.\<close>

definition budget_check :: "budget_tracker \<Rightarrow> int \<Rightarrow> exn + unit" where
  "budget_check t now =
     (let b = bt_budget t
      in if (case max_duration b of None \<Rightarrow> False | Some d \<Rightarrow> started_at t + d \<le> now)
         then Inl (BudgetExceeded ''run duration budget exceeded'' ''duration'')
         else if (case max_tokens b of None \<Rightarrow> False | Some m \<Rightarrow> m \<le> bt_tokens t)
         then Inl (BudgetExceeded ''run token budget exceeded'' ''tokens'')
         else if (case max_cost b of None \<Rightarrow> False | Some m \<Rightarrow> fge (bt_cost t) m)
         then Inl (BudgetExceeded ''run cost budget exceeded'' ''cost'')
         else Inr ())"

text \<open>A reported amount as a float, as \<open>float + value\<close> converts it.\<close>

definition as_float :: "pyval \<Rightarrow> pyfloat" where
  "as_float v = (case v of PInt n \<Rightarrow> round_double (of_int n) | PFloat f \<Rightarrow> f | _ \<Rightarrow> Fin 0)"

definition as_int :: "pyval \<Rightarrow> int" where
  "as_int v = (case v of PInt n \<Rightarrow> n | _ \<Rightarrow> 0)"

text \<open>Adding a validated usage to the totals: absent amounts add nothing.\<close>

definition add_usage :: "budget_tracker \<Rightarrow> payload option \<Rightarrow> budget_tracker" where
  "add_usage t usage =
     (let u = (case usage of None \<Rightarrow> [] | Some d \<Rightarrow> d)
      in t\<lparr>bt_tokens := bt_tokens t + as_int (py_get_default u ''tokens'' (PInt 0)),
           bt_cost := fadd (bt_cost t) (as_float (py_get_default u ''cost'' (PFloat (Fin 0))))\<rparr>)"

text \<open>\<open>BudgetTracker.consume\<close>: the totals move, then the limits are checked.\<close>

definition budget_consume :: "budget_tracker \<Rightarrow> payload option \<Rightarrow> int \<Rightarrow> budget_tracker \<times> (exn + unit)" where
  "budget_consume t usage now = (add_usage t usage, budget_check (add_usage t usage) now)"

subsection \<open>What a worker reports\<close>

definition valid_tokens :: "pyval \<Rightarrow> bool" where
  "valid_tokens v = (case v of PInt n \<Rightarrow> 0 \<le> n | _ \<Rightarrow> False)"

text \<open>
  A cost is an \<open>int\<close> or a finite \<open>float\<close>, not negative; \<open>math.isfinite\<close> of an integer too
  large for a double overflows, which is invalid too.
\<close>

definition valid_cost :: "pyval \<Rightarrow> bool" where
  "valid_cost v =
     (case v of
        PInt n \<Rightarrow> 0 \<le> n \<and> is_finite (round_double (of_int n))
      | PFloat f \<Rightarrow> (case f of Fin q \<Rightarrow> 0 \<le> q | _ \<Rightarrow> False)
      | _ \<Rightarrow> False)"

definition check_amount :: "payload \<Rightarrow> string \<Rightarrow> bool \<Rightarrow> (pyval \<Rightarrow> bool) \<Rightarrow> exn + unit" where
  "check_amount usage name configured valid =
     (case map_of usage name of
        None \<Rightarrow> (if configured then Inl (UsageUnavailable (''missing '' @ name @ '' usage for configured budget''))
                 else Inr ())
      | Some v \<Rightarrow> (if valid v then Inr () else Inl (UsageUnavailable (''invalid '' @ name @ '' usage''))))"

definition limits_tokens :: "run_budget option \<Rightarrow> bool" where
  "limits_tokens budget = (case budget of None \<Rightarrow> False | Some b \<Rightarrow> max_tokens b \<noteq> None)"

definition limits_cost :: "run_budget option \<Rightarrow> bool" where
  "limits_cost budget = (case budget of None \<Rightarrow> False | Some b \<Rightarrow> max_cost b \<noteq> None)"

definition kept_usage :: "payload \<Rightarrow> payload" where
  "kept_usage usage =
     concat (map (\<lambda>k. case map_of usage k of None \<Rightarrow> [] | Some v \<Rightarrow> [(k, v)]) [''tokens'', ''cost''])"

definition validate_usage :: "pyval \<Rightarrow> run_budget option \<Rightarrow> exn + payload option" where
  "validate_usage raw budget =
     (case raw of
        PNone \<Rightarrow>
          bind_result (check_amount [] ''tokens'' (limits_tokens budget) valid_tokens) (\<lambda>_.
          bind_result (check_amount [] ''cost'' (limits_cost budget) valid_cost) (\<lambda>_.
          Inr None))
      | PDict usage \<Rightarrow>
          bind_result (check_amount usage ''tokens'' (limits_tokens budget) valid_tokens) (\<lambda>_.
          bind_result (check_amount usage ''cost'' (limits_cost budget) valid_cost) (\<lambda>_.
          Inr (Some (kept_usage usage))))
      | _ \<Rightarrow> Inl (UsageUnavailable ''usage must be an object''))"

subsection \<open>The tracker rebuilt from a Track\<close>

definition opt_payload :: "payload option \<Rightarrow> pyval" where
  "opt_payload u = (case u of None \<Rightarrow> PNone | Some d \<Rightarrow> PDict d)"

text \<open>
  \<open>LifecycleRunner.budget_tracker\<close>: every \<open>interaction_usage\<close> counts, and a
  \<open>step_completed\<close> of a step that has none (an older engine recorded usage there).
\<close>

definition counts_usage :: "track_event list \<Rightarrow> track_event \<Rightarrow> bool" where
  "counts_usage es e \<longleftrightarrow>
     event_type e = ''interaction_usage'' \<or>
     (event_type e = ''step_completed'' \<and>
      \<not> list_ex (\<lambda>x. event_type x = ''interaction_usage'' \<and> py_eq (py_get (payload x) ''step'') (py_get (payload e) ''step'')) es)"

definition submitted_time :: "track_event list \<Rightarrow> int option" where
  "submitted_time es =
     map_option occurred_at (List.find (\<lambda>e. event_type e \<in> set [''submitted'', ''op_submitted'']) es)"

definition steps_hashable :: "track_event list \<Rightarrow> bool" where
  "steps_hashable es =
     list_all (\<lambda>e. event_type e \<in> set [''interaction_usage'', ''step_completed''] \<longrightarrow>
                    hashable (py_get (payload e) ''step'')) es"

text \<open>The steps are collected in a set, so an unhashable one is a \<open>TypeError\<close>.\<close>

definition rebuild_tracker :: "run_budget \<Rightarrow> track_event list \<Rightarrow> int \<Rightarrow> exn + budget_tracker" where
  "rebuild_tracker b es now =
     (if \<not> steps_hashable es then Inl TypeError
      else fold_result (\<lambda>t e.
        if counts_usage es e then
          bind_result (validate_usage (py_get (payload e) ''usage'') (Some b)) (\<lambda>u. Inr (add_usage t u))
        else Inr t) (new_tracker b (submitted_time es) now) es)"

subsection \<open>What accounting guarantees\<close>

lemma validate_usage_Inr:
  assumes "validate_usage raw budget = Inr u"
  shows "(raw = PNone \<and> u = None \<and> \<not> limits_tokens budget \<and> \<not> limits_cost budget) \<or>
    (\<exists>d. raw = PDict d \<and> u = Some (kept_usage d) \<and>
       (case map_of d ''tokens'' of None \<Rightarrow> \<not> limits_tokens budget | Some v \<Rightarrow> valid_tokens v) \<and>
       (case map_of d ''cost'' of None \<Rightarrow> \<not> limits_cost budget | Some v \<Rightarrow> valid_cost v))"
  using assms
  by (auto simp: validate_usage_def check_amount_def bind_result_Inr_iff
      split: pyval.splits option.splits if_splits)

lemma map_of_kept [simp]:
  "map_of (kept_usage d) k = (if k = ''tokens'' \<or> k = ''cost'' then map_of d k else None)"
  by (auto simp: kept_usage_def split: option.splits)

lemma add_usage_simps [simp]:
  "started_at (add_usage t u) = started_at t" "bt_budget (add_usage t u) = bt_budget t"
  "bt_tokens (add_usage t None) = bt_tokens t"
  "bt_tokens (add_usage t (Some d)) = bt_tokens t + (case map_of d ''tokens'' of None \<Rightarrow> 0 | Some v \<Rightarrow> as_int v)"
  by (simp_all add: add_usage_def as_int_def Let_def split: option.splits)

definition raw_tokens :: "pyval \<Rightarrow> int" where
  "raw_tokens raw =
     (case raw of PDict d \<Rightarrow> (case map_of d ''tokens'' of None \<Rightarrow> 0 | Some v \<Rightarrow> as_int v) | _ \<Rightarrow> 0)"

lemma valid_tokens_iff: "valid_tokens v \<longleftrightarrow> (\<exists>n. v = PInt n \<and> 0 \<le> n)"
  by (cases v) (auto simp: valid_tokens_def)

lemma add_validated:
  assumes "validate_usage raw (Some b) = Inr u"
  shows "bt_tokens (add_usage t u) = bt_tokens t + raw_tokens raw \<and> 0 \<le> raw_tokens raw \<and>
    (max_tokens b \<noteq> None \<longrightarrow> (\<exists>d n. raw = PDict d \<and> map_of d ''tokens'' = Some (PInt n)))"
  using validate_usage_Inr [OF assms]
proof
  assume "\<exists>d. raw = PDict d \<and> u = Some (kept_usage d) \<and>
       (case map_of d ''tokens'' of None \<Rightarrow> \<not> limits_tokens (Some b) | Some v \<Rightarrow> valid_tokens v) \<and>
       (case map_of d ''cost'' of None \<Rightarrow> \<not> limits_cost (Some b) | Some v \<Rightarrow> valid_cost v)"
  then obtain d where d: "raw = PDict d" "u = Some (kept_usage d)"
    "case map_of d ''tokens'' of None \<Rightarrow> \<not> limits_tokens (Some b) | Some v \<Rightarrow> valid_tokens v" by blast
  show ?thesis
  proof (cases "map_of d ''tokens''")
    case None
    with d show ?thesis by (simp add: raw_tokens_def limits_tokens_def)
  next
    case (Some v)
    with d obtain n where "v = PInt n" "0 \<le> n" by (auto simp: valid_tokens_iff)
    with d Some show ?thesis by (simp add: raw_tokens_def as_int_def)
  qed
qed (simp add: raw_tokens_def limits_tokens_def)

text \<open>The tokens a recorded usage reports, none if it reports none.\<close>

definition usage_of :: "track_event \<Rightarrow> pyval" where
  "usage_of e = py_get (payload e) ''usage''"

lemma fold_tracker:
  assumes "fold_result (\<lambda>t e.
        if P e then bind_result (validate_usage (usage_of e) (Some b)) (\<lambda>u. Inr (add_usage t u))
        else Inr t) t0 es = Inr t"
  shows "bt_tokens t = bt_tokens t0 + sum_list (map (\<lambda>e. raw_tokens (usage_of e)) (filter P es)) \<and>
    started_at t = started_at t0 \<and> bt_budget t = bt_budget t0 \<and>
    (\<forall>e\<in>set es. P e \<longrightarrow> 0 \<le> raw_tokens (usage_of e) \<and>
       (max_tokens b \<noteq> None \<longrightarrow> (\<exists>d n. usage_of e = PDict d \<and> map_of d ''tokens'' = Some (PInt n))))"
  using assms
proof (induction es arbitrary: t0)
  case (Cons e es)
  show ?case
  proof (cases "P e")
    case True
    with Cons.prems obtain u where u: "validate_usage (usage_of e) (Some b) = Inr u"
      by (auto simp: bind_result_Inr_iff)
    with Cons.prems True Cons.IH [of "add_usage t0 u"] add_validated [OF u, of t0] show ?thesis
      by simp
  next
    case False
    with Cons.prems Cons.IH [of t0] show ?thesis by simp
  qed
qed simp

text \<open>
  The budget a run is held to after a restart is the one its Track tells: the clock runs
  from the submission, the tokens are the sum of what every interaction reported, and under a
  token limit an interaction whose spending is unknown is never counted as zero: then there is
  no tracker at all.
\<close>

theorem tracker_counts_every_interaction:
  assumes "rebuild_tracker b es now = Inr t"
  shows "bt_tokens t = sum_list (map (\<lambda>e. raw_tokens (usage_of e)) (filter (counts_usage es) es)) \<and> 0 \<le> bt_tokens t
       \<and> started_at t = (case submitted_time es of None \<Rightarrow> now | Some s \<Rightarrow> s)
       \<and> (max_tokens b \<noteq> None \<longrightarrow>
            (\<forall>e\<in>set es. counts_usage es e \<longrightarrow>
               (\<exists>d n. usage_of e = PDict d \<and> map_of d ''tokens'' = Some (PInt n) \<and> 0 \<le> n)))"
proof -
  from assms have f: "fold_result (\<lambda>t e. if counts_usage es e then
      bind_result (validate_usage (usage_of e) (Some b)) (\<lambda>u. Inr (add_usage t u))
      else Inr t) (new_tracker b (submitted_time es) now) es = Inr t"
    unfolding rebuild_tracker_def usage_of_def by (simp split: if_splits)
  note t = fold_tracker [OF f]
  then have nonneg: "\<forall>e\<in>set (filter (counts_usage es) es). 0 \<le> raw_tokens (usage_of e)" by simp
  then have "0 \<le> sum_list (map (\<lambda>e. raw_tokens (usage_of e)) (filter (counts_usage es) es))" by (intro sum_list_nonneg) auto
  moreover have "0 \<le> n" if "e \<in> set es" "counts_usage es e" "usage_of e = PDict d"
    "map_of d ''tokens'' = Some (PInt n)" for e d n
    using t that by (fastforce simp: raw_tokens_def as_int_def)
  ultimately show ?thesis using t by (fastforce simp: new_tracker_def)
qed

definition usage_event :: "string \<Rightarrow> int \<Rightarrow> track_event" where
  "usage_event i n =
     \<lparr>run_id = ''r'', event_type = ''interaction_usage'',
      payload = [(''step'', PStr ''a''), (''usage'', PDict [(''tokens'', PInt n)])], occurred_at = 5,
      event_id = i, sequence = None, schema = 1\<rparr>"

theorem tracker_counts_every_interaction_witness:
  "\<exists>t. rebuild_tracker \<lparr>max_duration = None, max_tokens = Some 10, max_cost = None\<rparr>
         [usage_event ''a'' 3, usage_event ''b'' 4] 9 = Inr t \<and> bt_tokens t = 7"
proof -
  let ?es = "[usage_event ''a'' 3, usage_event ''b'' 4]"
  let ?b = "\<lparr>max_duration = None, max_tokens = Some 10, max_cost = None\<rparr>"
  obtain t where t: "rebuild_tracker ?b ?es 9 = Inr t"
    by (simp add: rebuild_tracker_def steps_hashable_def counts_usage_def usage_event_def validate_usage_def
        check_amount_def valid_tokens_def limits_tokens_def limits_cost_def)
  have "sum_list (map (\<lambda>e. raw_tokens (usage_of e)) (filter (counts_usage ?es) ?es)) = 7" by code_simp
  with tracker_counts_every_interaction [OF t] t show ?thesis by auto
qed

text \<open>
  A limit is a ceiling that stays reached: once a run is at its token limit or its deadline,
  whatever further valid usage is added and however much later it is asked, every check refuses.
\<close>

theorem budget_stop_is_permanent:
  assumes "budget_check t now = Inl (BudgetExceeded m d)" and "d \<noteq> ''cost''"
    and "validate_usage raw (Some (bt_budget t)) = Inr u" and "now \<le> later"
  shows "\<exists>m' d'. budget_check (add_usage t u) later = Inl (BudgetExceeded m' d') \<and> d' \<in> set DIMENSIONS"
proof -
  have "bt_tokens t \<le> bt_tokens (add_usage t u)"
    using add_validated [OF assms(3), of t] by simp
  then show ?thesis using assms(1,2,4)
    by (auto simp: budget_check_def DIMENSIONS_def Let_def split: if_splits option.splits)
qed

theorem budget_stop_is_permanent_witness:
  "\<exists>m' d'. budget_check (add_usage \<lparr>bt_budget = \<lparr>max_duration = None, max_tokens = Some 5, max_cost = None\<rparr>,
      started_at = 0, bt_tokens = 5, bt_cost = Fin 0\<rparr> (Some [(''tokens'', PInt 2)])) 3 = Inl (BudgetExceeded m' d')
      \<and> d' \<in> set DIMENSIONS"
  by (rule budget_stop_is_permanent [where now = 1 and raw = "PDict [(''tokens'', PInt 2)]"
        and m = "''run token budget exceeded''" and d = "''tokens''"])
     (simp_all add: budget_check_def validate_usage_def check_amount_def valid_tokens_def limits_tokens_def
       limits_cost_def kept_usage_def)

end
