(* ===== verification/Backends.thy ===== *)
theory Backends
  imports PyValues "HOL-Library.Multiset"
begin

section \<open>Durability backends and model bindings (backends, binding.py)\<close>

text \<open>
  The \<open>backend\<close> setting chooses how step functions are scheduled: only \<open>none\<close> is built,
  and it calls each in process.  A context Cog's model requirement is resolved among declared
  model Cogs, to exactly one or not at all.
\<close>

definition DURABILITY_BACKENDS :: "string list" where
  "DURABILITY_BACKENDS = [''none'', ''dbos'', ''temporal'']"

definition NOT_YET :: "string list" where
  "NOT_YET = [''dbos'', ''temporal'']"

record backend =
  backend_name :: string
  durable :: bool

definition none_backend :: backend where
  "none_backend = \<lparr>backend_name = ''none'', durable = False\<rparr>"

definition select_backend :: "string \<Rightarrow> exn + backend" where
  "select_backend name =
     (if name = ''none'' then Inr none_backend
      else if name \<in> set NOT_YET then Inl BackendNotImplemented
      else Inl ValueError)"

text \<open>\<open>NoneBackend.run_step\<close>: the step function, called.\<close>

definition run_step :: "string \<Rightarrow> string \<Rightarrow> ('s, exn, 'a) sx \<Rightarrow> ('s, exn, 'a) sx" where
  "run_step run name function = function"

lemma select_backend_iff:
  "select_backend name = Inr b \<longleftrightarrow> name = ''none'' \<and> b = none_backend"
  by (auto simp: select_backend_def)

subsection \<open>Resolving a model\<close>

record capability_requirement =
  capability :: string
  provider :: "string option"

record model_cog =
  model_name :: string
  endpoint :: string
  model_identifier :: string
  auth_ref :: string
  transport :: string
  provides :: "string list"

record context_cog =
  context_name :: string
  context_model :: capability_requirement

record model_binding =
  mb_endpoint :: string
  mb_model_identifier :: string
  mb_auth_ref :: string
  mb_transport :: string

definition matching_models :: "capability_requirement \<Rightarrow> model_cog list \<Rightarrow> model_cog list" where
  "matching_models req models =
     (let m = filter (\<lambda>x. capability req \<in> set (provides x)) models
      in case provider req of None \<Rightarrow> m | Some p \<Rightarrow> filter (\<lambda>x. model_name x = p) m)"

definition resolve_model :: "context_cog \<Rightarrow> model_cog list \<Rightarrow> exn + model_binding" where
  "resolve_model ctx models =
     (case matching_models (context_model ctx) models of
        [m] \<Rightarrow> Inr \<lparr>mb_endpoint = endpoint m, mb_model_identifier = model_identifier m,
                   mb_auth_ref = auth_ref m, mb_transport = transport m\<rparr>
      | _ \<Rightarrow> Inl LookupError)"

text \<open>Adding a provider that does not match changes nothing; a second match makes the choice ambiguous, never arbitrary.\<close>

lemma matching_models_order:
  "mset models = mset models' \<Longrightarrow> mset (matching_models req models) = mset (matching_models req models')"
  by (simp add: matching_models_def Let_def split: option.splits)

lemma not_one: "length xs \<noteq> 1 \<Longrightarrow> (case xs of [m] \<Rightarrow> f m | _ \<Rightarrow> g) = g"
  by (cases xs; cases "tl xs") simp_all

text \<open>
  A model requirement is met only by the one declared model Cog that provides the
  capability (and has the required name): resolution does not depend on the order the models
  are declared in, and with none or several it refuses.
\<close>

theorem resolution_is_unambiguous:
  assumes "mset models = mset models'"
  shows "resolve_model ctx models = resolve_model ctx models' \<and>
    (is_ok (resolve_model ctx models) \<longleftrightarrow> length (matching_models (context_model ctx) models) = 1)"
proof -
  let ?m = "matching_models (context_model ctx)"
  have ms: "mset (?m models) = mset (?m models')" using assms by (rule matching_models_order)
  then have len: "length (?m models) = length (?m models')" by (metis size_mset)
  show ?thesis
  proof (cases "length (?m models) = 1")
    case True
    then obtain x where x: "?m models = [x]" by (auto simp: length_Suc_conv)
    then have "?m models' = [x]" using ms by simp
    with x show ?thesis by (simp add: resolve_model_def)
  next
    case False
    with len have "length (?m models') \<noteq> 1" by simp
    then have "resolve_model ctx models' = Inl LookupError" unfolding resolve_model_def by (rule not_one)
    moreover have "resolve_model ctx models = Inl LookupError" unfolding resolve_model_def using False by (rule not_one)
    ultimately show ?thesis using False by simp
  qed
qed

definition small_model :: "string \<Rightarrow> model_cog" where
  "small_model n = \<lparr>model_name = n, endpoint = ''http'', model_identifier = n, auth_ref = ''ref'',
     transport = ''http'', provides = [''model'']\<rparr>"

theorem resolution_is_unambiguous_witness:
  "resolve_model \<lparr>context_name = ''c'', context_model = \<lparr>capability = ''model'', provider = Some ''a''\<rparr>\<rparr>
       [small_model ''a'', small_model ''b''] =
   resolve_model \<lparr>context_name = ''c'', context_model = \<lparr>capability = ''model'', provider = Some ''a''\<rparr>\<rparr>
       [small_model ''b'', small_model ''a'']"
  using resolution_is_unambiguous [of "[small_model ''a'', small_model ''b'']" "[small_model ''b'', small_model ''a'']"
      "\<lparr>context_name = ''c'', context_model = \<lparr>capability = ''model'', provider = Some ''a''\<rparr>\<rparr>"]
  by simp

end
