(* ===== verification/Runner.thy ===== *)
theory Runner
  imports WorkerMachine Ops TrackStores Budget Backends
begin

section \<open>The lifecycle runner: settings, a pass, what it reads off a Track (runner.py)\<close>

text \<open>
  The runner advances one claimed run at a time.  \<open>_Pass\<close> is the state \<open>pass\<close>: the Track
  store, the history read and written so far, the claim (\<open>advancing\<close>, with the attempt in
  flight), and two things of the model: a tick, and the log of what the executor was asked.

  Everything outside the package is the record \<open>world\<close>, functions of the tick, so two calls
  may answer differently: fresh ids, the clock, the executor and its workers, and the cancels
  that other threads deliver.  A cancel accepted by another thread only touches the claim, and
  the driver reads the claim at known points; \<open>observe_cancel\<close> is such a point, where any
  cancel since the last one lands, so every interleaving of an accepted cancel is a choice of
  \<open>world\<close>.  The SHA-256 of a text, the length of a rendered float, \<open>repr\<close> and the text of an
  envelope are parameters too.
\<close>

subsection \<open>The world and the settings\<close>

record cog_worker =
  cw_ref :: string
  run_token_digest :: "string option"
  cw_details :: payload

datatype answer = AnEnvelope result_envelope | NotAnEnvelope

record world =
  w_uuid :: "nat \<Rightarrow> string"
  w_clock :: "nat \<Rightarrow> int"
  w_materialize :: "nat \<Rightarrow> string \<Rightarrow> string \<Rightarrow> string \<Rightarrow> exn + cog_worker"
  w_interact :: "nat \<Rightarrow> cog_worker \<Rightarrow> string \<Rightarrow> pyval \<Rightarrow> string \<Rightarrow> pyval option \<Rightarrow> exn + answer"
  w_teardown :: "nat \<Rightarrow> cog_worker \<Rightarrow> exn option"
  w_cancel :: "nat \<Rightarrow> string option"
  w_sha256 :: "hashed \<Rightarrow> string"
  w_float_len :: "pyfloat \<Rightarrow> nat"
  w_repr :: "pyval \<Rightarrow> string"
  w_show :: "result_envelope \<Rightarrow> string"

record 's runner =
  r_ops :: "'s track_ops"
  r_budget :: "run_budget option"
  max_revisions :: "int option"
  inline_max :: int
  r_backend :: backend
  r_world :: world

text \<open>\<open>LifecycleRunner.__init__\<close>: a backend not built yet is refused here.\<close>

definition make_runner ::
  "'s track_ops \<Rightarrow> run_budget option \<Rightarrow> int option \<Rightarrow> int \<Rightarrow> string \<Rightarrow> world \<Rightarrow> exn + 's runner" where
  "make_runner ops budget revisions max_bytes backend w =
     bind_result (select_backend backend) (\<lambda>b.
       Inr \<lparr>r_ops = ops, r_budget = budget, max_revisions = revisions, inline_max = max_bytes,
            r_backend = b, r_world = w\<rparr>)"

subsection \<open>Attempts, claims, passes\<close>

datatype outcome = Ok result_envelope | Error result_envelope | Broken string

record attempt =
  a_step :: op_step
  a_number :: int
  a_instance :: string
  a_key :: string
  a_worker :: "cog_worker option"
  a_cog_worker :: "worker option"
  invoked :: bool
  answered :: bool
  accounted :: bool
  a_result :: "answer option"
  a_rendered :: "pyval option"
  a_usage :: "payload option"
  a_outcome :: outcome
  failure_reason :: "string option"
  teardown_error :: "string option"
  worker_was_started :: bool
  released :: bool
  cancel_teardown_error :: "string option"

definition new_step_attempt :: "op_step \<Rightarrow> int \<Rightarrow> string \<Rightarrow> string \<Rightarrow> attempt" where
  "new_step_attempt step number inst key =
     \<lparr>a_step = step, a_number = number, a_instance = inst, a_key = key, a_worker = None,
      a_cog_worker = None, invoked = False, answered = False, accounted = False, a_result = None,
      a_rendered = None, a_usage = None, a_outcome = Broken ''Unknown'', failure_reason = None,
      teardown_error = None, worker_was_started = False, released = False, cancel_teardown_error = None\<rparr>"

record advancing =
  adv_attempt :: "attempt option"
  cancelled_by :: "string option"
  accepting :: bool

definition new_claim :: advancing where
  "new_claim = \<lparr>adv_attempt = None, cancelled_by = None, accepting = False\<rparr>"

text \<open>What the executor was asked, in order.\<close>

datatype exec_call = Materialized cog_worker | TornDownCall cog_worker

record 's pass =
  p_run :: string
  p_track :: 's
  p_history :: "track_event list"
  p_adv :: advancing
  p_tick :: nat
  p_calls :: "exec_call list"

subsection \<open>The one write path\<close>

text \<open>\<open>_append\<close>: a version-1 event, stored, and kept in the pass's history.\<close>

definition new_event :: "'s runner \<Rightarrow> 's pass \<Rightarrow> string \<Rightarrow> payload \<Rightarrow> track_event" where
  "new_event R s ty p =
     \<lparr>run_id = p_run s, event_type = ty, payload = p, occurred_at = w_clock (r_world R) (p_tick s),
      event_id = w_uuid (r_world R) (p_tick s), sequence = None, schema = SCHEMA_VERSION\<rparr>"

definition p_append :: "'s runner \<Rightarrow> string \<Rightarrow> payload \<Rightarrow> ('s pass, exn, unit) sx" where
  "p_append R ty p s =
     (case t_append (r_ops R) (p_track s) (new_event R s ty p) of
        (Inl x, t) \<Rightarrow> (Inl x, s\<lparr>p_track := t, p_tick := Suc (p_tick s)\<rparr>)
      | (Inr e, t) \<Rightarrow> (Inr (), s\<lparr>p_track := t, p_tick := Suc (p_tick s), p_history := p_history s @ [e]\<rparr>))"

text \<open>\<open>_record\<close>: write what a transition reports, and return the context after it.\<close>

primrec p_append_all :: "'s runner \<Rightarrow> trec list \<Rightarrow> ('s pass, exn, unit) sx" where
  "p_append_all R [] = ret ()"
| "p_append_all R (r # rs) = andthen (p_append R (rec_type r) (rec_payload r)) (p_append_all R rs)"

definition record_moves :: "'s runner \<Rightarrow> exn + 'c transition \<Rightarrow> ('s pass, exn, 'c) sx" where
  "record_moves R moved =
     bind (lift moved) (\<lambda>(after, records). andthen (p_append_all R records) (ret after))"

text \<open>Reading the attempt in flight, and changing it.\<close>

definition the_attempt :: "('s pass, exn, attempt) sx" where
  "the_attempt s = (case adv_attempt (p_adv s) of None \<Rightarrow> (Inl AttributeError, s) | Some a \<Rightarrow> (Inr a, s))"

definition set_attempt :: "(attempt \<Rightarrow> attempt) \<Rightarrow> ('s pass, exn, unit) sx" where
  "set_attempt f =
     modify (\<lambda>s. s\<lparr>p_adv := (p_adv s)\<lparr>adv_attempt := map_option f (adv_attempt (p_adv s))\<rparr>\<rparr>)"

text \<open>One question to the world: the tick it is asked at.\<close>

definition ask :: "('s pass, exn, nat) sx" where
  "ask s = (Inr (p_tick s), s\<lparr>p_tick := Suc (p_tick s)\<rparr>)"

definition log_call :: "exec_call \<Rightarrow> ('s pass, exn, unit) sx" where
  "log_call c = modify (\<lambda>s. s\<lparr>p_calls := p_calls s @ [c]\<rparr>)"

text \<open>\<open>executor.teardown(worker)\<close>: the class of what it raised, if it did.\<close>

definition exec_teardown :: "'s runner \<Rightarrow> cog_worker \<Rightarrow> ('s pass, exn, string option) sx" where
  "exec_teardown R w =
     bind ask (\<lambda>t. andthen (log_call (TornDownCall w))
       (ret (map_option exn_class (w_teardown (r_world R) t w))))"

subsection \<open>Cancels from other threads\<close>

text \<open>
  The body of \<open>cancel()\<close> that another thread runs while the driver accepts cancels: note who
  asked, claim the worker if the attempt has one nobody has claimed, tear it down.
\<close>

definition accept_cancel :: "'s runner \<Rightarrow> string \<Rightarrow> ('s pass, exn, unit) sx" where
  "accept_cancel R actor s =
     (let adv = p_adv s;
          s1 = s\<lparr>p_adv := adv\<lparr>cancelled_by := (case cancelled_by adv of None \<Rightarrow> Some actor | Some a \<Rightarrow> Some a)\<rparr>\<rparr>
      in case adv_attempt adv of
           None \<Rightarrow> (Inr (), s1)
         | Some a \<Rightarrow>
             (case a_worker a of
                None \<Rightarrow> (Inr (), s1)
              | Some w \<Rightarrow>
                  if released a then (Inr (), s1)
                  else bind (exec_teardown R w) (\<lambda>e.
                         set_attempt (\<lambda>a. a\<lparr>released := True, cancel_teardown_error := e\<rparr>)) s1))"

definition observe_cancel :: "'s runner \<Rightarrow> ('s pass, exn, bool) sx" where
  "observe_cancel R =
     bind ask (\<lambda>t.
     bind (gets p_adv) (\<lambda>adv.
     andthen (case w_cancel (r_world R) t of
                None \<Rightarrow> ret ()
              | Some actor \<Rightarrow> if accepting adv \<and> actor \<noteq> [] then accept_cancel R actor else ret ())
       (gets (\<lambda>s. cancelled_by (p_adv s) \<noteq> None))))"

subsection \<open>What the runner reads off a Track\<close>

definition MESSAGE_MAX_CHARS :: nat where
  "MESSAGE_MAX_CHARS = 1024"

definition bound :: "string option \<Rightarrow> string option" where
  "bound t = map_option (take MESSAGE_MAX_CHARS) t"

definition replace_char :: "char \<Rightarrow> string \<Rightarrow> string \<Rightarrow> string" where
  "replace_char c r s = concat (map (\<lambda>x. if x = c then r else [x]) s)"

definition key_component :: "string \<Rightarrow> string" where
  "key_component v = replace_char (CHR '':'') ''%3A'' (replace_char (CHR ''%'') ''%25'' v)"

definition recorded :: "result_envelope \<Rightarrow> payload" where
  "recorded e =
     (if env_problems e = [] then [] else [(''problems'', PList (map problem_to_dict (env_problems e)))]) @
     (case env_binding e of None \<Rightarrow> [] | Some b \<Rightarrow> [(''binding'', PDict b)])"

text \<open>\<open>_escalation\<close>: one escalation as a caller reads it, filled in for a Track written before Gates.\<close>

definition escalation_view :: "payload \<Rightarrow> payload" where
  "escalation_view p =
     [(''escalation'', py_get p ''escalation''), (''step'', py_get p ''step''), (''reason'', py_get p ''reason''),
      (''attempt'', py_get p ''attempt''), (''envelope'', py_get p ''envelope''),
      (''payload_ref'', py_get p ''payload_ref''), (''usage'', py_get p ''usage''),
      (''approvers'', py_get_default p ''approvers'' (PList (map PStr DEFAULT_APPROVERS))),
      (''gate'', py_get_default p ''gate'' (PStr (gate_policy default_gate)))]"

text \<open>\<open>_read\<close> and \<open>observe\<close>.\<close>

definition read_track :: "'s runner \<Rightarrow> 's \<Rightarrow> string \<Rightarrow> track_event list" where
  "read_track R t r = map upgrade (t_replay (r_ops R) t r 0)"

definition observe :: "'s runner \<Rightarrow> 's \<Rightarrow> string \<Rightarrow> exn + run_state option" where
  "observe R t r = bind_result (replay (read_track R t r)) (\<lambda>run. Inr (map_option run_state run))"

definition submitted_definition :: "track_event list \<Rightarrow> exn + op_definition" where
  "submitted_definition es =
     (case List.find (\<lambda>e. event_type e = ''op_submitted'') es of
        None \<Rightarrow> Inl LookupError
      | Some e \<Rightarrow> (case map_of (payload e) ''op'' of None \<Rightarrow> Inl KeyError | Some v \<Rightarrow> deserialize_op v))"

text \<open>\<open>_completed_steps\<close>: a set, so every recorded step has to be there and be hashable.\<close>

definition completed_steps :: "track_event list \<Rightarrow> exn + pyval list" where
  "completed_steps es =
     map_result (\<lambda>e. case map_of (payload e) ''step'' of
                       None \<Rightarrow> Inl KeyError
                     | Some v \<Rightarrow> if hashable v then Inr v else Inl TypeError)
       (filter (\<lambda>e. event_type e = ''step_completed'') es)"

definition retry_count :: "track_event list \<Rightarrow> int" where
  "retry_count es =
     int (length (filter (\<lambda>e. event_type e = ''retry_requested'' \<and>
        py_eq (py_get_default (payload e) ''attempt'' (PStr ''new'')) (PStr ''new'')) es))"

text \<open>\<open>_signal_for\<close>: the findings of the latest send back of a step, \<open>None\<close> for \<open>_NO_SIGNAL\<close>.\<close>

definition signal_for :: "track_event list \<Rightarrow> string \<Rightarrow> pyval option" where
  "signal_for es step =
     foldl (\<lambda>v e. if event_type e = ''gate_decided'' \<and> py_eq (py_get (payload e) ''step'') (PStr step) \<and>
                     py_eq (py_get_default (payload e) ''outcome'' (PStr ''send_back'')) (PStr ''send_back'')
                  then Some (py_get (payload e) ''value'') else v) None es"

text \<open>\<open>_approved\<close>: the escalation of a step that was approved and is not yet completed.\<close>

definition approved_step ::
  "string \<Rightarrow> payload option \<times> payload option \<Rightarrow> track_event \<Rightarrow> payload option \<times> payload option" where
  "approved_step step st e =
     (let (escalated, approved) = st
      in if \<not> py_eq (py_get (payload e) ''step'') (PStr step) then st
         else if event_type e = ''gate_escalated'' then (Some (payload e), None)
         else if event_type e = ''gate_decided'' then
           (escalated,
            (case escalated of
               None \<Rightarrow> None
             | Some p \<Rightarrow>
                 if py_eq (py_get (payload e) ''outcome'') (PStr ''approve'') \<and> py_get p ''envelope'' \<noteq> PNone
                 then Some p else None))
         else if event_type e = ''step_completed'' then (escalated, None)
         else st)"

definition approved_of :: "track_event list \<Rightarrow> string \<Rightarrow> payload option" where
  "approved_of es step = snd (foldl (approved_step step) (None, None) es)"

text \<open>\<open>_open_escalation\<close>: \<open>next\<close> of nothing is a \<open>StopIteration\<close>.\<close>

definition open_escalation_of :: "track_event list \<Rightarrow> run option \<Rightarrow> exn + payload option" where
  "open_escalation_of es run =
     (case run of
        None \<Rightarrow> Inr None
      | Some r \<Rightarrow>
          if run_state r \<noteq> WAITING_AT_GATE then Inr None
          else case List.find (\<lambda>e. event_type e = ''gate_escalated'' \<and>
                     py_eq (py_get (payload e) ''escalation'') (open_escalation r)) (rev es) of
                 None \<Rightarrow> Inl StopIteration
               | Some e \<Rightarrow> Inr (Some (escalation_view (payload e))))"

end
