(* ===== verification/RunnerSteps.thy ===== *)
theory RunnerSteps
  imports Runner
begin

section \<open>The step functions and the driver (runner.py)\<close>

text \<open>
  The units a durability backend schedules, one definition each, and the driver that sequences
  them: \<open>advance\<close> with \<open>run_attempt\<close>.  Every one is a state transformer over the pass that
  may raise; what was written before a raise stays written.
\<close>

text \<open>\<open>try: m finally: f\<close>: what \<open>f\<close> raises replaces what \<open>m\<close> did.\<close>

definition ensure :: "('s, 'e, 'a) sx \<Rightarrow> ('s, 'e, unit) sx \<Rightarrow> ('s, 'e, 'a) sx" where
  "ensure m f = (\<lambda>s. case m s of (r, t) \<Rightarrow> (case f t of (Inl e, u) \<Rightarrow> (Inl e, u) | (Inr _, u) \<Rightarrow> (r, u)))"

subsection \<open>What an event carries\<close>

definition rendered_len :: "'s runner \<Rightarrow> pyval option \<Rightarrow> int" where
  "rendered_len R v = (case v of None \<Rightarrow> 0 | Some x \<Rightarrow> int (json_len (w_float_len (r_world R)) x))"

text \<open>\<open>_result\<close>: the payload inline, or a reference to it above the threshold.\<close>

definition result_of :: "'s runner \<Rightarrow> string \<Rightarrow> pyval \<Rightarrow> pyval option \<Rightarrow> ('s pass, exn, payload) sx" where
  "result_of R key value rendered =
     (if inline_max R < rendered_len R rendered then
        andthen (modify (\<lambda>s. s\<lparr>p_track := t_put_payload (r_ops R) (p_track s) (p_run s) key
                    (case rendered of None \<Rightarrow> PNone | Some v \<Rightarrow> v)\<rparr>))
          (ret [(''payload_ref'', PStr key)])
      else ret [(''payload'', value)])"

definition step_completed_payload ::
  "op_step \<Rightarrow> pyval \<Rightarrow> result_envelope \<Rightarrow> pyval \<Rightarrow> payload \<Rightarrow> pyval \<Rightarrow> payload" where
  "step_completed_payload step number envelope usage result escalation =
     (let p = dict_merge (dict_merge
            [(''step'', PStr (step_name step)), (''attempt'', number), (''cog'', PStr (step_cog step)),
             (''digest'', opt_str (step_digest step)), (''usage'', usage), (''frames'', PList [])]
            (recorded envelope)) result
      in if escalation = PNone then p else AList.update ''escalation'' escalation p)"

definition step_failed_payload ::
  "op_step \<Rightarrow> int \<Rightarrow> string \<Rightarrow> string \<Rightarrow> string option \<Rightarrow> result_envelope option \<Rightarrow> payload" where
  "step_failed_payload step number key error message envelope =
     dict_merge
       [(''step'', PStr (step_name step)), (''attempt'', PInt number), (''key'', PStr key),
        (''cog'', PStr (step_cog step)), (''digest'', opt_str (step_digest step)), (''error'', PStr error),
        (''message'', PStr (case bound message of None \<Rightarrow> '''' | Some m \<Rightarrow> m))]
       (case envelope of None \<Rightarrow> [] | Some e \<Rightarrow> recorded e)"

definition usage_payload :: "attempt \<Rightarrow> payload option \<Rightarrow> payload" where
  "usage_payload a usage =
     [(''step'', PStr (step_name (a_step a))), (''attempt'', PInt (a_number a)), (''usage'', opt_payload usage)]"

subsection \<open>An attempt\<close>

definition resolve :: "'s runner \<Rightarrow> op_definition \<Rightarrow> op_step \<Rightarrow> run \<Rightarrow> int \<Rightarrow> ('s pass, exn, attempt) sx" where
  "resolve R op step run retries =
     (let number = esc_get (escalations run) (PStr (step_name step)) + retries;
          inst = key_component (step_name step) @ '':'' @ show_int number;
          key = key_component (op_run_id op) @ '':'' @ inst
      in andthen (p_append R ''step_started''
             [(''step'', PStr (step_name step)), (''cog'', PStr (step_cog step)),
              (''digest'', opt_str (step_digest step)), (''attempt'', PInt number)])
           (ret (new_step_attempt step number inst key)))"

text \<open>A cancel may land while the executor works, before the attempt holds its worker.\<close>

definition materialize :: "'s runner \<Rightarrow> op_definition \<Rightarrow> ('s pass, exn, unit) sx" where
  "materialize R op =
     bind the_attempt (\<lambda>a. let step = a_step a in
     bind ask (\<lambda>t.
     bind (lift (w_materialize (r_world R) t (step_cog step) (op_run_id op) (a_instance a))) (\<lambda>w.
     andthen (log_call (Materialized w)) (
     andthen (observe_cancel R) (
     andthen (set_attempt (\<lambda>a. a\<lparr>a_worker := Some w\<rparr>)) (
     bind (record_moves R (worker_materialize (step_cog step) (Some (step_name step)) (step_digest step) None)) (\<lambda>cw.
     andthen (set_attempt (\<lambda>a. a\<lparr>a_cog_worker := Some cw\<rparr>)) (
     andthen (case run_token_digest w of
                None \<Rightarrow> ret ()
              | Some d \<Rightarrow>
                  andthen (p_append R ''worker_started''
                      (dict_merge (dict_merge
                         [(''step'', PStr (step_name step)), (''attempt'', PInt (a_number a)),
                          (''instance'', PStr (a_instance a))] (cw_details w))
                         [(''run_token_sha256'', PStr d)]))
                    (set_attempt (\<lambda>a. a\<lparr>worker_was_started := True\<rparr>))) (
     bind (record_moves R (worker_dispatch cw Ready)) (\<lambda>cw.
     set_attempt (\<lambda>a. a\<lparr>a_cog_worker := Some cw\<rparr>)))))))))))"

text \<open>A step function on a worker that is not there is an \<open>AttributeError\<close> of \<open>None\<close>.\<close>

definition need :: "'a option \<Rightarrow> ('s, exn, 'a) sx" where
  "need x = (case x of None \<Rightarrow> raise AttributeError | Some v \<Rightarrow> ret v)"

definition interact :: "'s runner \<Rightarrow> ('s pass, exn, unit) sx" where
  "interact R =
     bind the_attempt (\<lambda>a. let step = a_step a in
     bind (need (a_cog_worker a)) (\<lambda>cw.
     bind (record_moves R (worker_dispatch cw (Invoke (entry_point step) (Some (step_name step))))) (\<lambda>cw.
     andthen (set_attempt (\<lambda>a. a\<lparr>a_cog_worker := Some cw\<rparr>)) (
     bind (gets (\<lambda>s. signal_for (p_history s) (step_name step))) (\<lambda>signal.
     andthen (set_attempt (\<lambda>a. a\<lparr>invoked := True\<rparr>)) (
     bind (need (a_worker a)) (\<lambda>w.
     bind ask (\<lambda>t.
     bind (lift (w_interact (r_world R) t w (entry_point step) (step_input step) (a_key a) signal)) (\<lambda>x.
     set_attempt (\<lambda>a. a\<lparr>a_result := Some x\<rparr>))))))))))"

definition not_json_message :: "string \<Rightarrow> string" where
  "not_json_message t =
     ''the payload is not JSON: Object of type '' @ t @ '' is not JSON serializable''"

definition read_envelope :: "'s runner \<Rightarrow> ('s pass, exn, unit) sx" where
  "read_envelope R =
     bind the_attempt (\<lambda>a.
     case a_result a of
       Some (AnEnvelope e) \<Rightarrow>
         (let bad = (if env_ok e then not_json (env_payload e) else None)
          in andthen (set_attempt (\<lambda>a. a\<lparr>
                 a_rendered := (if env_ok e \<and> bad = None then Some (env_payload e) else a_rendered a),
                 answered := (bad = None),
                 a_outcome := (if env_ok e then Ok e else Error e)\<rparr>)) (
             bind (lift (validate_usage (env_usage e) (r_budget R))) (\<lambda>usage.
             andthen (set_attempt (\<lambda>a. a\<lparr>a_usage := usage\<rparr>)) (
             andthen (p_append R ''interaction_usage'' (usage_payload a usage)) (
             andthen (set_attempt (\<lambda>a. a\<lparr>accounted := True\<rparr>)) (
             case bad of None \<Rightarrow> ret () | Some t \<Rightarrow> raise (EnvelopeInvalid (not_json_message t))))))))
     | _ \<Rightarrow> raise (EnvelopeInvalid ''interact() must return a ResultEnvelope''))"

subsection \<open>Teardown\<close>

definition outcome_text :: "'s runner \<Rightarrow> outcome \<Rightarrow> string" where
  "outcome_text R x = (case x of Broken t \<Rightarrow> t | Ok e \<Rightarrow> w_show (r_world R) e | Error e \<Rightarrow> w_show (r_world R) e)"

text \<open>The worker another thread's cancel already claimed: its machine fails, and a teardown that failed is tried again.\<close>

definition tear_down_cancelled :: "'s runner \<Rightarrow> attempt \<Rightarrow> cog_worker \<Rightarrow> ('s pass, exn, string option) sx" where
  "tear_down_cancelled R a w =
     andthen (case a_cog_worker a of
                None \<Rightarrow> ret ()
              | Some cw \<Rightarrow> andthen (record_moves R (worker_dispatch cw (WorkerFail ''Cancelled''))) (ret ()))
       (bind the_attempt (\<lambda>a. if cancel_teardown_error a = None then ret None else exec_teardown R w))"

definition tear_down_own :: "'s runner \<Rightarrow> attempt \<Rightarrow> cog_worker \<Rightarrow> ('s pass, exn, string option) sx" where
  "tear_down_own R a w =
     (case a_cog_worker a of
        Some cw \<Rightarrow>
          if answered a then
            bind (record_moves R (worker_dispatch cw EnvelopeReturned)) (\<lambda>cw.
            bind (record_moves R (worker_dispatch cw (TearDown ''one_shot''))) (\<lambda>cw.
            bind (exec_teardown R w) (\<lambda>e.
            case e of
              None \<Rightarrow> ret None
            | Some x \<Rightarrow> andthen (record_moves R (worker_dispatch cw (WorkerFail x))) (ret (Some x)))))
          else andthen (record_moves R (worker_dispatch cw (WorkerFail (outcome_text R (a_outcome a)))))
                 (exec_teardown R w)
      | None \<Rightarrow> exec_teardown R w)"

definition tear_down :: "'s runner \<Rightarrow> cog_worker \<Rightarrow> ('s pass, exn, string option) sx" where
  "tear_down R w =
     bind (observe_cancel R) (\<lambda>_.
     bind the_attempt (\<lambda>a.
     andthen (set_attempt (\<lambda>a. a\<lparr>released := True\<rparr>))
       (if released a then tear_down_cancelled R a w else tear_down_own R a w)))"

definition teardown :: "'s runner \<Rightarrow> cog_worker \<Rightarrow> ('s pass, exn, string option) sx" where
  "teardown R w =
     bind (tear_down R w) (\<lambda>error.
     bind the_attempt (\<lambda>a.
     andthen (if error = None \<and> worker_was_started a then
                p_append R ''worker_stopped''
                  [(''step'', PStr (step_name (a_step a))), (''attempt'', PInt (a_number a)),
                   (''instance'', PStr (a_instance a))]
              else ret ())
       (ret error)))"

subsection \<open>Running an attempt\<close>

definition attempt_body :: "'s runner \<Rightarrow> op_definition \<Rightarrow> ('s pass, exn, unit) sx" where
  "attempt_body R op =
     bind (observe_cancel R) (\<lambda>c.
     if c then raise (RunCancelled ''the run was cancelled before its worker was materialized'')
     else andthen (run_step (op_run_id op) ''materialize'' (materialize R op)) (
     bind (observe_cancel R) (\<lambda>c.
     if c then raise (RunCancelled ''the run was cancelled before its worker was invoked'')
     else andthen (run_step (op_run_id op) ''interact'' (interact R))
            (run_step (op_run_id op) ''read_envelope'' (read_envelope R)))))"

text \<open>The \<open>except\<close> clauses: what the attempt's failure is, and that its spending is unknown.\<close>

definition attempt_failed :: "'s runner \<Rightarrow> exn \<Rightarrow> ('s pass, exn, unit) sx" where
  "attempt_failed R x =
     bind the_attempt (\<lambda>a.
     case x of
       UsageUnavailable m \<Rightarrow>
         andthen (p_append R ''interaction_usage'' (usage_payload a None))
           (set_attempt (\<lambda>a. a\<lparr>failure_reason := bound (Some m), a_outcome := Broken ''UsageUnavailable''\<rparr>))
     | EnvelopeInvalid m \<Rightarrow>
         andthen (if accounted a then ret () else p_append R ''interaction_usage'' (usage_payload a None))
           (set_attempt (\<lambda>a. a\<lparr>failure_reason := bound (Some m), a_outcome := Broken ''EnvelopeInvalid''\<rparr>))
     | _ \<Rightarrow>
         andthen (if invoked a then p_append R ''interaction_usage'' (usage_payload a None) else ret ())
           (set_attempt (\<lambda>a. a\<lparr>
              failure_reason := (if exn_text x = [] then None else bound (Some (exn_text x))),
              a_outcome := Broken (exn_class x)\<rparr>)))"

definition teardown_if_worker :: "'s runner \<Rightarrow> op_definition \<Rightarrow> ('s pass, exn, unit) sx" where
  "teardown_if_worker R op =
     bind the_attempt (\<lambda>a.
     case a_worker a of
       None \<Rightarrow> ret ()
     | Some w \<Rightarrow>
         bind (run_step (op_run_id op) ''teardown'' (teardown R w)) (\<lambda>e.
         set_attempt (\<lambda>a. a\<lparr>teardown_error := e\<rparr>)))"

definition run_attempt :: "'s runner \<Rightarrow> op_definition \<Rightarrow> ('s pass, exn, unit) sx" where
  "run_attempt R op =
     ensure (catch (attempt_body R op) (attempt_failed R)) (teardown_if_worker R op)"

subsection \<open>Ending a step or a run\<close>

definition complete :: "'s runner \<Rightarrow> attempt \<Rightarrow> result_envelope \<Rightarrow> ('s pass, exn, unit) sx" where
  "complete R a envelope =
     bind (result_of R (a_key a) (env_payload envelope) (a_rendered a)) (\<lambda>result.
     p_append R ''step_completed''
       (step_completed_payload (a_step a) (PInt (a_number a)) envelope (opt_payload (a_usage a)) result PNone))"

text \<open>\<open>_payload_digest\<close>: over compact JSON with sorted keys.\<close>

definition payload_digest :: "'s runner \<Rightarrow> pyval \<Rightarrow> string" where
  "payload_digest R v = w_sha256 (r_world R) (Compact (json_sorted v))"

definition shown_envelope :: "'s runner \<Rightarrow> result_envelope \<Rightarrow> payload \<Rightarrow> payload" where
  "shown_envelope R envelope result =
     (let shown = envelope_to_dict envelope
      in if map_of result ''payload_ref'' = None then shown
         else AList.update ''payload_digest'' (PStr (payload_digest R (env_payload envelope)))
                (AList.update ''payload'' PNone shown))"

definition escalation_details :: "'s runner \<Rightarrow> attempt \<Rightarrow> result_envelope \<Rightarrow> payload \<Rightarrow> payload" where
  "escalation_details R a envelope result =
     dict_merge (dict_merge
       [(''attempt'', PInt (a_number a)), (''envelope'', PDict (shown_envelope R envelope result))] result)
       [(''usage'', opt_payload (a_usage a)),
        (''approvers'', PList (map PStr (deciders (step_gate (a_step a))))),
        (''gate'', PStr (gate_policy (step_gate (a_step a))))]"

definition escalate ::
  "'s runner \<Rightarrow> op_definition \<Rightarrow> run \<Rightarrow> attempt \<Rightarrow> result_envelope \<Rightarrow> string option \<Rightarrow> ('s pass, exn, run_state) sx" where
  "escalate R op run a envelope why =
     bind (result_of R (a_key a) (env_payload envelope) (a_rendered a)) (\<lambda>result.
     let eid = escalation_id (w_sha256 (r_world R)) (op_run_id op) (step_name (a_step a)) (a_number a) envelope in
     bind (record_moves R (run_dispatch run (Escalate (PStr (step_name (a_step a))) (opt_str why) (PStr eid)
         (escalation_details R a envelope result)))) (\<lambda>run.
     ret (run_state run)))"

text \<open>The fields of an \<open>error\<close> an envelope that is not ok carries.\<close>

definition error_code :: "result_envelope \<Rightarrow> string" where
  "error_code e = (case env_error e of None \<Rightarrow> '''' | Some x \<Rightarrow> err_code x)"

definition error_detail :: "result_envelope \<Rightarrow> string" where
  "error_detail e = (case env_error e of None \<Rightarrow> '''' | Some x \<Rightarrow> err_detail x)"

definition fail_step :: "'s runner \<Rightarrow> run \<Rightarrow> attempt \<Rightarrow> ('s pass, exn, run_state) sx" where
  "fail_step R run a =
     (let step = a_step a; nm = PStr (step_name step);
          failed = step_failed_payload step (a_number a) (a_key a)
      in case teardown_error a of
           Some te \<Rightarrow>
             (let own = (case a_outcome a of
                           Broken d \<Rightarrow> failed d (failure_reason a) None
                         | Error e \<Rightarrow> failed (error_code e) (Some (error_detail e)) (Some e)
                         | Ok e \<Rightarrow> failed ''TeardownFailed'' (Some (te @ '': the worker could not be torn down'')) None)
              in andthen (p_append R ''step_failed'' (AList.update ''teardown_error'' (PStr te) own)) (
                 bind (record_moves R (run_dispatch run (Fail (PStr ''TeardownFailed'') nm (opt_str (bound (Some te)))
                    (if answered a then [] else [(''worker_error'', PStr (outcome_text R (a_outcome a)))])))) (\<lambda>run.
                 ret (run_state run))))
         | None \<Rightarrow>
             (case a_outcome a of
                Broken d \<Rightarrow>
                  andthen (p_append R ''step_failed'' (failed d (failure_reason a) None)) (
                  bind (record_moves R (run_dispatch run (Fail (PStr d) nm (opt_str (bound (failure_reason a))) []))) (\<lambda>run.
                  ret (run_state run)))
              | Ok e \<Rightarrow> raise ValueError
              | Error e \<Rightarrow>
                  andthen (p_append R ''step_failed'' (failed (error_code e) (Some (error_detail e)) (Some e))) (
                  bind (record_moves R (run_dispatch run (Fail (PStr (error_code e)) nm
                     (opt_str (bound (Some (error_detail e)))) (recorded e)))) (\<lambda>run.
                  ret (run_state run)))))"

text \<open>\<open>complete_approved\<close>: from the envelope the approver saw; the large result stays where it was kept.\<close>

definition need_key :: "payload \<Rightarrow> string \<Rightarrow> exn + pyval" where
  "need_key p k = (case map_of p k of None \<Rightarrow> Inl KeyError | Some v \<Rightarrow> Inr v)"

definition complete_approved :: "'s runner \<Rightarrow> op_step \<Rightarrow> payload \<Rightarrow> ('s pass, exn, unit) sx" where
  "complete_approved R step approved =
     bind (lift (need_key approved ''envelope'')) (\<lambda>v.
     bind (lift (parse_envelope (w_repr (r_world R)) v)) (\<lambda>envelope.
     bind (lift (need_key approved ''escalation'')) (\<lambda>escalation.
     let kept = py_get approved ''payload_ref'';
         result = (if py_truthy kept then [(''payload_ref'', kept)] else [(''payload'', env_payload envelope)])
     in p_append R ''step_completed''
          (step_completed_payload step (py_get_default approved ''attempt'' (PInt 0)) envelope
             (py_get approved ''usage'') result escalation))))"

definition stop_for_budget :: "'s runner \<Rightarrow> run \<Rightarrow> string \<Rightarrow> string \<Rightarrow> string \<Rightarrow> ('s pass, exn, run_state) sx" where
  "stop_for_budget R run step message which =
     bind (record_moves R (run_dispatch run (ExhaustBudget (PStr which) (PStr step) (PStr message)))) (\<lambda>run.
     ret (run_state run))"

subsection \<open>The driver\<close>

text \<open>\<open>_cancelled\<close>: end the run cancelled; a worker that could not be torn down is recorded beside it.\<close>

definition end_cancelled :: "'s runner \<Rightarrow> run \<Rightarrow> ('s pass, exn, run_state) sx" where
  "end_cancelled R run =
     bind (gets p_adv) (\<lambda>adv.
     andthen (case adv_attempt adv of
                None \<Rightarrow> ret ()
              | Some a \<Rightarrow>
                  (case teardown_error a of
                     None \<Rightarrow> ret ()
                   | Some te \<Rightarrow>
                       p_append R ''step_failed'' (AList.update ''teardown_error'' (PStr te)
                         (step_failed_payload (a_step a) (a_number a) (a_key a) ''TeardownFailed''
                            (Some (te @ '': the worker could not be torn down'')) None))))
       (bind (record_moves R (run_dispatch run (Cancel (opt_str (cancelled_by adv))))) (\<lambda>run.
        ret (run_state run))))"

text \<open>\<open>_finish\<close>: the run's end, or \<open>cancelled\<close> if a cancel was taken first; no cancel is taken after.\<close>

definition stop_accepting :: "('s pass, exn, unit) sx" where
  "stop_accepting = modify (\<lambda>s. s\<lparr>p_adv := (p_adv s)\<lparr>accepting := False\<rparr>\<rparr>)"

definition finish :: "'s runner \<Rightarrow> run \<Rightarrow> ('s pass, exn, run_state) sx \<Rightarrow> ('s pass, exn, run_state) sx" where
  "finish R run write_end =
     bind (observe_cancel R) (\<lambda>c.
     bind (if c then end_cancelled R run else write_end) (\<lambda>st.
     andthen stop_accepting (ret st)))"

text \<open>\<open>_finish(now, run)\<close> with no end to write: called only once a cancel was taken.\<close>

definition finish_cancelled :: "'s runner \<Rightarrow> run \<Rightarrow> ('s pass, exn, run_state) sx" where
  "finish_cancelled R run = finish R run (raise TypeError)"

definition keep :: "'s runner \<Rightarrow> run \<Rightarrow> ('s pass, exn, unit) sx \<Rightarrow> ('s pass, exn, run_state option) sx" where
  "keep R run write =
     bind (observe_cancel R) (\<lambda>c.
     if c then bind (finish_cancelled R run) (\<lambda>st. ret (Some st)) else andthen write (ret None))"

text \<open>A check of the budget at a boundary: \<open>None\<close> without a tracker or within it, else the stop.\<close>

definition check_boundary :: "'s runner \<Rightarrow> budget_tracker option \<Rightarrow> ('s pass, exn, (string \<times> string) option) sx" where
  "check_boundary R tracker =
     (case tracker of
        None \<Rightarrow> ret None
      | Some t \<Rightarrow>
          bind ask (\<lambda>i.
          case budget_check t (w_clock (r_world R) i) of
            Inl (BudgetExceeded m d) \<Rightarrow> ret (Some (m, d))
          | Inl x \<Rightarrow> raise x
          | Inr _ \<Rightarrow> ret None))"

definition consume_boundary ::
  "'s runner \<Rightarrow> budget_tracker option \<Rightarrow> payload option \<Rightarrow>
   ('s pass, exn, budget_tracker option \<times> (string \<times> string) option) sx" where
  "consume_boundary R tracker usage =
     (case tracker of
        None \<Rightarrow> ret (None, None)
      | Some t \<Rightarrow>
          bind (check_boundary R (Some (add_usage t usage))) (\<lambda>stop. ret (Some (add_usage t usage), stop)))"

definition complete_run :: "'s runner \<Rightarrow> run \<Rightarrow> ('s pass, exn, run_state) sx" where
  "complete_run R run = bind (record_moves R (run_dispatch run Complete)) (\<lambda>run. ret (run_state run))"

text \<open>The end of the steps is a boundary too, if this call reached one.\<close>

definition advance_end ::
  "'s runner \<Rightarrow> run \<Rightarrow> budget_tracker option \<Rightarrow> string option \<Rightarrow> ('s pass, exn, run_state) sx" where
  "advance_end R run tracker spent_on =
     bind (case spent_on of None \<Rightarrow> ret None | Some _ \<Rightarrow> check_boundary R tracker) (\<lambda>stop.
     case (stop, spent_on) of
       (Some (m, d), Some step) \<Rightarrow> finish R run (stop_for_budget R run step m d)
     | _ \<Rightarrow> finish R run (complete_run R run))"

text \<open>One step that is neither completed nor approved: run it, and end it, unless the run ended.\<close>

definition finish_step ::
  "'s runner \<Rightarrow> op_definition \<Rightarrow> run \<Rightarrow> op_step \<Rightarrow> budget_tracker option \<Rightarrow> attempt \<Rightarrow>
   ('s pass, exn, run_state + budget_tracker option) sx" where
  "finish_step R op run step tracker a =
     (case (teardown_error a, a_outcome a) of
        (None, Ok envelope) \<Rightarrow>
          bind (consume_boundary R tracker (a_usage a)) (\<lambda>(tracker, stop).
          case gate_evaluate (step_gate step) envelope of
            (ESCALATE, why) \<Rightarrow>
              bind (finish R run (escalate R op run a envelope why)) (\<lambda>st. ret (Inl st))
          | _ \<Rightarrow>
              bind (keep R run (complete R a envelope)) (\<lambda>stopped.
              case stopped of
                Some st \<Rightarrow> ret (Inl st)
              | None \<Rightarrow>
                  (case stop of
                     None \<Rightarrow> ret (Inr tracker)
                   | Some (m, d) \<Rightarrow>
                       bind (finish R run (stop_for_budget R run (step_name step) m d)) (\<lambda>st. ret (Inl st)))))
      | _ \<Rightarrow> bind (finish R run (fail_step R run a)) (\<lambda>st. ret (Inl st)))"

definition start_step ::
  "'s runner \<Rightarrow> op_definition \<Rightarrow> run \<Rightarrow> int \<Rightarrow> op_step \<Rightarrow> budget_tracker option \<Rightarrow>
   ('s pass, exn, run_state + budget_tracker option) sx" where
  "start_step R op run retries step tracker =
     bind (check_boundary R tracker) (\<lambda>stop.
     case stop of
       Some (m, d) \<Rightarrow> bind (finish R run (stop_for_budget R run (step_name step) m d)) (\<lambda>st. ret (Inl st))
     | None \<Rightarrow>
         bind (run_step (op_run_id op) ''resolve'' (resolve R op step run retries)) (\<lambda>a.
         andthen (modify (\<lambda>s. s\<lparr>p_adv := (p_adv s)\<lparr>adv_attempt := Some a\<rparr>\<rparr>)) (
         andthen (run_attempt R op) (
         bind (observe_cancel R) (\<lambda>c.
         if c then bind (finish_cancelled R run) (\<lambda>st. ret (Inl st))
         else bind the_attempt (finish_step R op run step tracker))))))"

fun advance_steps ::
  "'s runner \<Rightarrow> op_definition \<Rightarrow> run \<Rightarrow> pyval list \<Rightarrow> int \<Rightarrow> budget_tracker option \<Rightarrow> string option \<Rightarrow>
   op_step list \<Rightarrow> ('s pass, exn, run_state) sx" where
  "advance_steps R op run completed retries tracker spent_on [] = advance_end R run tracker spent_on"
| "advance_steps R op run completed retries tracker spent_on (step # steps) =
     (if PStr (step_name step) \<in> set completed then
        advance_steps R op run completed retries tracker spent_on steps
      else
        bind (observe_cancel R) (\<lambda>c.
        if c then finish_cancelled R run
        else
          bind (gets (\<lambda>s. approved_of (p_history s) (step_name step))) (\<lambda>approved.
          case approved of
            Some p \<Rightarrow>
              bind (keep R run (complete_approved R step p)) (\<lambda>stopped.
              case stopped of
                Some st \<Rightarrow> ret st
              | None \<Rightarrow> advance_steps R op run completed retries tracker (Some (step_name step)) steps)
          | None \<Rightarrow>
              bind (start_step R op run retries step tracker) (\<lambda>next.
              case next of
                Inl st \<Rightarrow> ret st
              | Inr tracker \<Rightarrow>
                  advance_steps R op run completed retries tracker (Some (step_name step)) steps))))"

definition begin_accepting :: "('s pass, exn, unit) sx" where
  "begin_accepting = modify (\<lambda>s. s\<lparr>p_adv := (p_adv s)\<lparr>accepting := True\<rparr>\<rparr>)"

text \<open>The budget tracker the pass starts with; unusable accounting fails the run.\<close>

definition start_tracker :: "'s runner \<Rightarrow> ('s pass, exn, budget_tracker option) sx" where
  "start_tracker R =
     (case r_budget R of
        None \<Rightarrow> ret None
      | Some b \<Rightarrow>
          bind ask (\<lambda>t.
          bind (gets p_history) (\<lambda>h.
          bind (lift (rebuild_tracker b h (w_clock (r_world R) t))) (\<lambda>x. ret (Some x)))))"

definition fail_accounting :: "'s runner \<Rightarrow> run \<Rightarrow> string \<Rightarrow> ('s pass, exn, run_state) sx" where
  "fail_accounting R run reason =
     bind (record_moves R (run_dispatch run (Fail (PStr ''UsageUnavailable'') PNone (PStr reason) []))) (\<lambda>run.
     ret (run_state run))"

definition advance_from :: "'s runner \<Rightarrow> op_definition \<Rightarrow> run \<Rightarrow> ('s pass, exn, run_state) sx" where
  "advance_from R op run =
     bind (gets p_history) (\<lambda>h.
     bind (lift (completed_steps h)) (\<lambda>completed.
     bind (catch (bind (start_tracker R) (\<lambda>t. ret (Inr t)))
             (\<lambda>x. case x of UsageUnavailable m \<Rightarrow> ret (Inl m) | _ \<Rightarrow> raise x)) (\<lambda>tracker.
     case tracker of
       Inl reason \<Rightarrow> finish R run (fail_accounting R run reason)
     | Inr t \<Rightarrow> advance_steps R op run completed (retry_count h) t None (op_steps op))))"

definition advance :: "'s runner \<Rightarrow> op_definition \<Rightarrow> ('s pass, exn, run_state) sx" where
  "advance R op =
     andthen begin_accepting (
     bind (gets p_history) (\<lambda>h.
     bind (lift (replay h)) (\<lambda>run.
     bind (need run) (\<lambda>run.
     bind (if run_state run = SUBMITTED then record_moves R (run_dispatch run Pickup) else ret run) (\<lambda>run.
     advance_from R op run)))))"

end
