(* ===== verification/RunnerHost.thy ===== *)
theory RunnerHost
  imports RunnerSteps
begin

section \<open>The host: claims, and the calls that move a run (runner.py)\<close>

text \<open>
  A host holds the Track store and its claims.  A call claims its run, works on a pass, and lets
  the claim go; \<open>with_claim\<close> is \<open>_claim\<close> around a body.  A claim another call holds makes the
  run busy.  \<open>submit()\<close> of a busy run answers from the Track once it holds the submission;
  where the code would wait for the holder and try again, the model answers \<open>RunBusy\<close>.
\<close>

record 's host =
  h_track :: 's
  h_claims :: "(string, advancing) dict"
  h_tick :: nat
  h_calls :: "exec_call list"

definition new_pass :: "'s host \<Rightarrow> string \<Rightarrow> 's pass" where
  "new_pass h r =
     \<lparr>p_run = r, p_track = h_track h, p_history = [], p_adv = new_claim, p_tick = h_tick h, p_calls = h_calls h\<rparr>"

definition after_pass :: "'s host \<Rightarrow> 's pass \<Rightarrow> 's host" where
  "after_pass h s = h\<lparr>h_track := p_track s, h_tick := p_tick s, h_calls := p_calls s\<rparr>"

definition with_claim :: "string \<Rightarrow> ('s pass, exn, 'a) sx \<Rightarrow> 's host \<Rightarrow> (exn + 'a) \<times> 's host" where
  "with_claim r body h =
     (if map_of (h_claims h) r \<noteq> None then (Inl RunBusy, h)
      else case body (new_pass h r) of (res, s) \<Rightarrow> (res, after_pass h s))"

text \<open>\<open>_claim_or_refuse\<close>.\<close>

definition with_claim_or_refuse :: "string \<Rightarrow> ('s pass, exn, 'a) sx \<Rightarrow> 's host \<Rightarrow> (exn + 'a) \<times> 's host" where
  "with_claim_or_refuse r body h =
     (if map_of (h_claims h) r \<noteq> None then (Inl ValueError, h) else with_claim r body h)"

text \<open>The Track as the call reads it, once: the history it advances on.\<close>

definition load :: "'s runner \<Rightarrow> ('s pass, exn, track_event list) sx" where
  "load R =
     andthen (modify (\<lambda>s. s\<lparr>p_history := read_track R (p_track s) (p_run s)\<rparr>)) (gets p_history)"

subsection \<open>submit\<close>

definition same_op :: "track_event list \<Rightarrow> op_definition \<Rightarrow> exn + unit" where
  "same_op es op =
     bind_result (bind_result (submitted_definition es) canonical_op) (\<lambda>a.
     bind_result (canonical_op op) (\<lambda>b.
     if a \<noteq> b then Inl ValueError else Inr ()))"

definition submit_body :: "'s runner \<Rightarrow> op_definition \<Rightarrow> ('s pass, exn, run_state) sx" where
  "submit_body R op =
     bind (load R) (\<lambda>es.
     if es = [] then
       andthen (record_moves R (Inr (run_submit (op_run_id op) (serialize_op op) None None))) (advance R op)
     else
       andthen (lift (same_op es op)) (
       bind (lift (replay es)) (\<lambda>run.
       case run of
         None \<Rightarrow> advance R op
       | Some r \<Rightarrow>
           if ended (run_state r) then ret (run_state r)
           else if run_state r \<noteq> SUBMITTED then ret (run_state r)
           else advance R op)))"

definition submitted_elsewhere :: "'s runner \<Rightarrow> op_definition \<Rightarrow> 's host \<Rightarrow> exn + run_state option" where
  "submitted_elsewhere R op h =
     (let es = read_track R (h_track h) (op_run_id op)
      in if es = [] then Inr None
         else bind_result (same_op es op) (\<lambda>_.
              bind_result (replay es) (\<lambda>run.
              case run of None \<Rightarrow> Inl AttributeError | Some r \<Rightarrow> Inr (Some (run_state r)))))"

definition submit :: "'s runner \<Rightarrow> op_definition \<Rightarrow> 's host \<Rightarrow> (exn + run_state) \<times> 's host" where
  "submit R op h =
     (if \<not> distinct (map step_name (op_steps op)) then (Inl ValueError, h)
      else if map_of (h_claims h) (op_run_id op) \<noteq> None then
        (case submitted_elsewhere R op h of
           Inl x \<Rightarrow> (Inl x, h)
         | Inr (Some st) \<Rightarrow> (Inr st, h)
         | Inr None \<Rightarrow> (Inl RunBusy, h))
      else with_claim (op_run_id op) (submit_body R op) h)"

subsection \<open>retry\<close>

definition retry_body :: "'s runner \<Rightarrow> ('s pass, exn, run_state) sx" where
  "retry_body R =
     bind (load R) (\<lambda>es.
     bind (lift (replay es)) (\<lambda>run.
     case run of
       None \<Rightarrow> raise ValueError
     | Some r \<Rightarrow>
         if \<not> ended (run_state r) then raise ValueError
         else if run_state r = BUDGET_EXCEEDED then raise ValueError
         else if \<not> accepts run_edges (run_state r) ''retry'' then raise ValueError
         else bind (lift (submitted_definition es)) (\<lambda>op.
              andthen (record_moves R (run_dispatch r Retry)) (advance R op))))"

definition retry :: "'s runner \<Rightarrow> string \<Rightarrow> 's host \<Rightarrow> (exn + run_state) \<times> 's host" where
  "retry R r h = with_claim_or_refuse r (retry_body R) h"

subsection \<open>decide\<close>

definition decided_on :: "'s runner \<Rightarrow> payload option \<Rightarrow> exn + pyval" where
  "decided_on R waiting_on =
     (case waiting_on of
        None \<Rightarrow> Inr PNone
      | Some w \<Rightarrow>
          if py_get w ''envelope'' = PNone then Inr PNone
          else bind_result (dict_of (py_get w ''envelope'')) (\<lambda>d.
               Inr (PStr (envelope_digest (w_sha256 (r_world R)) d))))"

definition decide_body ::
  "'s runner \<Rightarrow> string option \<Rightarrow> string \<Rightarrow> string \<Rightarrow> pyval list \<Rightarrow> ('s pass, exn, run_state) sx" where
  "decide_body R escalation actor verdict findings =
     bind (load R) (\<lambda>es.
     bind (lift (replay es)) (\<lambda>run.
     case run of
       None \<Rightarrow> raise ValueError
     | Some r \<Rightarrow>
         if run_state r \<noteq> WAITING_AT_GATE then raise ValueError
         else
           bind (lift (open_escalation_of es (Some r))) (\<lambda>waiting_on.
           if verdict = ''approve'' \<and> (case waiting_on of None \<Rightarrow> False | Some w \<Rightarrow> py_get w ''envelope'' = PNone)
           then raise ValueError
           else
             bind (lift (submitted_definition es)) (\<lambda>op.
             bind (lift (decided_on R waiting_on)) (\<lambda>dig.
             bind (record_moves R (run_dispatch r (Decide (PStr verdict) (opt_str escalation) (PList findings)
                 (case max_revisions R of None \<Rightarrow> PNone | Some n \<Rightarrow> PInt n) (PStr actor) dig))) (\<lambda>r.
             if run_state r \<noteq> RUNNING then ret (run_state r) else advance R op))))))"

definition decide ::
  "'s runner \<Rightarrow> string \<Rightarrow> string option \<Rightarrow> string \<Rightarrow> string \<Rightarrow> pyval \<Rightarrow> 's host \<Rightarrow> (exn + run_state) \<times> 's host" where
  "decide R r escalation actor verdict findings h =
     (if actor = [] then (Inl ValueError, h)
      else case findings of
        PNone \<Rightarrow> with_claim_or_refuse r (decide_body R escalation actor verdict []) h
      | PList xs \<Rightarrow> with_claim_or_refuse r (decide_body R escalation actor verdict xs) h
      | _ \<Rightarrow> (Inl ValueError, h))"

subsection \<open>cancel\<close>

definition cancel_body :: "'s runner \<Rightarrow> string \<Rightarrow> ('s pass, exn, run_state) sx" where
  "cancel_body R actor =
     bind (load R) (\<lambda>es.
     bind (lift (replay es)) (\<lambda>run.
     case run of
       None \<Rightarrow> raise LookupError
     | Some r \<Rightarrow> bind (record_moves R (run_dispatch r (Cancel (PStr actor)))) (\<lambda>r. ret (run_state r))))"

text \<open>
  A run another call is advancing takes the request through its claim (\<open>accept_cancel\<close>) and
  its state is read from the Track; any other is cancelled here.
\<close>

definition cancel :: "'s runner \<Rightarrow> string \<Rightarrow> string \<Rightarrow> 's host \<Rightarrow> (exn + run_state option) \<times> 's host" where
  "cancel R r actor h =
     (if actor = [] then (Inl ValueError, h)
      else case map_of (h_claims h) r of
        Some adv \<Rightarrow>
          if accepting adv then
            (let s = snd (accept_cancel R actor ((new_pass h r)\<lparr>p_adv := adv\<rparr>))
             in (observe R (p_track s) r, (after_pass h s)\<lparr>h_claims := AList.update r (p_adv s) (h_claims h)\<rparr>))
          else (Inl RunBusy, h)
      | None \<Rightarrow>
          (case with_claim r (cancel_body R actor) h of
             (Inl x, t) \<Rightarrow> (Inl x, t)
           | (Inr st, t) \<Rightarrow> (Inr (Some st), t)))"

text \<open>\<open>live_worker\<close>: the worker this host has invoked for the run and not yet let go of.\<close>

definition live_worker :: "'s host \<Rightarrow> string \<Rightarrow> cog_worker option" where
  "live_worker h r =
     (case map_of (h_claims h) r of
        None \<Rightarrow> None
      | Some adv \<Rightarrow>
          (case adv_attempt adv of
             None \<Rightarrow> None
           | Some a \<Rightarrow> if \<not> invoked a \<or> released a then None else a_worker a))"

subsection \<open>start\<close>

text \<open>One run of the loop: whether it was interrupted.\<close>

definition interrupt_body :: "'s runner \<Rightarrow> ('s pass, exn, bool) sx" where
  "interrupt_body R =
     bind (load R) (\<lambda>es.
     bind (lift (replay es)) (\<lambda>run.
     case run of
       None \<Rightarrow> ret False
     | Some r \<Rightarrow>
         if run_state r \<in> {RUNNING, WAITING_AT_GATE} then
           andthen (record_moves R (run_dispatch r (HostStopped (PStr (backend_name (r_backend R)))))) (ret True)
         else ret False))"

fun start_runs :: "'s runner \<Rightarrow> string list \<Rightarrow> 's host \<Rightarrow> (exn + string list) \<times> 's host" where
  "start_runs R [] h = (Inr [], h)"
| "start_runs R (r # rs) h =
     (case with_claim r (interrupt_body R) h of
        (Inl x, t) \<Rightarrow> (if x = RunBusy \<or> is_invalid_transition x then start_runs R rs t else (Inl x, t))
      | (Inr was, t) \<Rightarrow>
          (case start_runs R rs t of
             (Inl x, u) \<Rightarrow> (Inl x, u)
           | (Inr done, u) \<Rightarrow> (Inr ((if was then [r] else []) @ done), u)))"

definition start :: "'s runner \<Rightarrow> 's host \<Rightarrow> (exn + string list) \<times> 's host" where
  "start R h =
     (if durable (r_backend R) then (Inr [], h)
      else start_runs R (t_run_ids (r_ops R) (h_track h)) h)"

definition open_escalation_now :: "'s runner \<Rightarrow> 's host \<Rightarrow> string \<Rightarrow> exn + payload option" where
  "open_escalation_now R h r =
     (let es = read_track R (h_track h) r
      in bind_result (replay es) (\<lambda>run. open_escalation_of es run))"

end
