(* ===== verification/RunnerStable.thy ===== *)
theory RunnerStable
  imports RunnerHost
begin

section \<open>What the step functions leave alone\<close>

text \<open>
  A property of the pass is \<open>stable\<close> if it survives appending any fact, the clock, the log of
  executor calls, keeping a payload, and any change to the claim that leaves the attempt's step
  what it was.  Every step function that does not move the run keeps every stable property,
  whether it returns or raises; the theorems about the driver rest on that.
\<close>

named_theorems stable_intros

definition same_step :: "advancing \<Rightarrow> advancing \<Rightarrow> bool" where
  "same_step a b \<longleftrightarrow> map_option a_step (adv_attempt a) = map_option a_step (adv_attempt b)"

definition stable :: "'s runner \<Rightarrow> ('s pass \<Rightarrow> bool) \<Rightarrow> bool" where
  "stable R P \<longleftrightarrow>
     (\<forall>ty p. ty \<in> set RUN_FACTS \<longrightarrow> keeps P (p_append R ty p)) \<and>
     (\<forall>s t. P s \<longrightarrow> P (s\<lparr>p_tick := t\<rparr>)) \<and>
     (\<forall>s c. P s \<longrightarrow> P (s\<lparr>p_calls := c\<rparr>)) \<and>
     (\<forall>s a. P s \<longrightarrow> same_step a (p_adv s) \<longrightarrow> P (s\<lparr>p_adv := a\<rparr>)) \<and>
     (\<forall>s r k v. P s \<longrightarrow> P (s\<lparr>p_track := t_put_payload (r_ops R) (p_track s) r k v\<rparr>))"

lemma stableD:
  assumes "stable R P"
  shows stable_append: "ty \<in> set RUN_FACTS \<Longrightarrow> keeps P (p_append R ty p)"
    and stable_tick: "P s \<Longrightarrow> P (s\<lparr>p_tick := t\<rparr>)"
    and stable_calls: "P s \<Longrightarrow> P (s\<lparr>p_calls := c\<rparr>)"
    and stable_adv: "P s \<Longrightarrow> same_step a (p_adv s) \<Longrightarrow> P (s\<lparr>p_adv := a\<rparr>)"
    and stable_put: "P s \<Longrightarrow> P (s\<lparr>p_track := t_put_payload (r_ops R) (p_track s) r k v\<rparr>)"
  using assms by (auto simp: stable_def)

lemma facts_in [simp]:
  "''step_started'' \<in> set RUN_FACTS" "''worker_started'' \<in> set RUN_FACTS" "''worker_stopped'' \<in> set RUN_FACTS"
  "''interaction_usage'' \<in> set RUN_FACTS" "''step_completed'' \<in> set RUN_FACTS" "''step_failed'' \<in> set RUN_FACTS"
  by (simp_all add: RUN_FACTS_def)

lemma keeps_ask: "stable R P \<Longrightarrow> keeps P ask"
  by (simp add: keeps_def ask_def stable_tick)

lemma keeps_log_call: "stable R P \<Longrightarrow> keeps P (log_call c)"
  unfolding log_call_def by (rule keeps_modify) (rule stable_calls)

lemma keeps_set_attempt:
  assumes "stable R P" and "\<And>a. a_step (f a) = a_step a"
  shows "keeps P (set_attempt f)"
  unfolding set_attempt_def
  by (rule keeps_modify, rule stable_adv [OF assms(1)])
     (auto simp: same_step_def option.map_comp comp_def assms(2))

lemma keeps_the_attempt: "keeps P the_attempt"
  by (simp add: keeps_def the_attempt_def split: option.splits)

lemma keeps_need: "keeps P (need x)"
  unfolding need_def by (intro keeps_intros)

lemma keeps_append_all:
  "stable R P \<Longrightarrow> \<forall>x\<in>set recs. rec_type x \<in> set RUN_FACTS \<Longrightarrow> keeps P (p_append_all R recs)"
  by (induction recs) (auto intro!: keeps_intros stable_append)

lemma keeps_record_moves:
  assumes "stable R P" and "\<And>c recs. m = Inr (c, recs) \<Longrightarrow> \<forall>x\<in>set recs. rec_type x \<in> set RUN_FACTS"
  shows "keeps P (record_moves R m)"
proof (cases m)
  case (Inl x)
  then show ?thesis by (simp add: record_moves_def keeps_def bind_def sx_apply)
next
  case (Inr t)
  obtain c recs where t: "t = (c, recs)" by (cases t)
  have "keeps P (andthen (p_append_all R recs) (ret c))"
    using assms Inr t by (intro keeps_intros keeps_append_all) auto
  then show ?thesis by (simp add: record_moves_def Inr t keeps_def bind_def sx_apply)
qed

lemma keeps_worker_move: "stable R P \<Longrightarrow> keeps P (record_moves R (worker_dispatch w c))"
  by (rule keeps_record_moves) (auto dest: worker_records_are_facts)

lemma keeps_worker_up: "stable R P \<Longrightarrow> keeps P (record_moves R (worker_materialize c st d i))"
  by (rule keeps_record_moves) (auto dest: materialize_records_are_facts)

lemma keeps_exec_teardown: "stable R P \<Longrightarrow> keeps P (exec_teardown R w)"
  unfolding exec_teardown_def by (intro keeps_intros keeps_ask keeps_log_call)

lemma keeps_accept_cancel:
  assumes "stable R P"
  shows "keeps P (accept_cancel R actor)"
proof (rule keepsI)
  fix s assume s: "P s"
  let ?s1 = "s\<lparr>p_adv := (p_adv s)\<lparr>cancelled_by :=
    (case cancelled_by (p_adv s) of None \<Rightarrow> Some actor | Some a \<Rightarrow> Some a)\<rparr>\<rparr>"
  have s1: "P ?s1" by (rule stable_adv [OF assms s]) (simp add: same_step_def)
  have "keeps P (bind (exec_teardown R w) (\<lambda>e. set_attempt (\<lambda>a. a\<lparr>released := True, cancel_teardown_error := e\<rparr>)))" for w
    using assms by (intro keeps_intros keeps_exec_teardown keeps_set_attempt) auto
  from keepsD [OF this s1] s1 show "P (snd (accept_cancel R actor s))"
    by (simp add: accept_cancel_def Let_def split: option.splits)
qed

lemma keeps_observe_cancel: "stable R P \<Longrightarrow> keeps P (observe_cancel R)"
  unfolding observe_cancel_def by (intro keeps_intros keeps_ask keeps_accept_cancel)

lemmas keeps_basic =
  keeps_intros keeps_ask keeps_log_call keeps_set_attempt keeps_the_attempt keeps_need keeps_worker_move
  keeps_worker_up keeps_exec_teardown keeps_observe_cancel stable_append

lemma keeps_resolve: "stable R P \<Longrightarrow> keeps P (resolve R op step run retries)"
  unfolding resolve_def Let_def by (intro keeps_basic) auto

lemma keeps_materialize: "stable R P \<Longrightarrow> keeps P (materialize R op)"
  unfolding materialize_def Let_def by (intro keeps_basic) auto

lemma keeps_interact: "stable R P \<Longrightarrow> keeps P (interact R)"
  unfolding interact_def Let_def by (intro keeps_basic) auto

lemma keeps_read_envelope: "stable R P \<Longrightarrow> keeps P (read_envelope R)"
  unfolding read_envelope_def Let_def
  by (intro keeps_basic) (auto split: option.split answer.split intro!: keeps_basic)

lemma keeps_tear_down: "stable R P \<Longrightarrow> keeps P (tear_down R w)"
  unfolding tear_down_def tear_down_cancelled_def tear_down_own_def
  by (intro keeps_basic) auto

lemma keeps_teardown: "stable R P \<Longrightarrow> keeps P (teardown R w)"
  unfolding teardown_def by (intro keeps_basic keeps_tear_down) auto

lemma keeps_ensure: "keeps P m \<Longrightarrow> keeps P f \<Longrightarrow> keeps P (ensure m f)"
  unfolding keeps_def ensure_def by (fastforce split: prod.splits sum.splits)

lemma keeps_attempt_failed: "stable R P \<Longrightarrow> keeps P (attempt_failed R x)"
  unfolding attempt_failed_def
  by (intro keeps_basic) (cases x; auto intro!: keeps_basic)

lemma keeps_run_attempt:
  assumes "stable R P"
  shows "keeps P (run_attempt R op)"
proof -
  have "keeps P (attempt_body R op)"
    unfolding attempt_body_def run_step_def using assms
    by (intro keeps_basic keeps_materialize keeps_interact keeps_read_envelope) auto
  moreover have "keeps P (teardown_if_worker R op)"
    unfolding teardown_if_worker_def run_step_def using assms
    by (intro keeps_basic keeps_teardown) auto
  ultimately show ?thesis
    unfolding run_attempt_def using assms by (intro keeps_ensure keeps_catch keeps_attempt_failed)
qed

lemma keeps_result_of:
  assumes "stable R P"
  shows "keeps P (result_of R key v rendered)"
  unfolding result_of_def by (intro keeps_intros keeps_modify) (rule stable_put [OF assms])

lemma keeps_check_boundary: "stable R P \<Longrightarrow> keeps P (check_boundary R tracker)"
  unfolding check_boundary_def
  by (intro keeps_basic) (auto split: sum.split exn.split intro!: keeps_basic)

lemma keeps_consume_boundary: "stable R P \<Longrightarrow> keeps P (consume_boundary R tracker usage)"
  unfolding consume_boundary_def by (intro keeps_basic keeps_check_boundary)

lemma keeps_start_tracker: "stable R P \<Longrightarrow> keeps P (start_tracker R)"
  unfolding start_tracker_def by (intro keeps_basic)

subsection \<open>What the driver leaves alone\<close>

text \<open>
  A \<open>robust\<close> property also survives the moves of the run and every change of the claim.  The
  whole driver keeps robust properties; what the store holds of other runs is one, and that
  the run's own Track has only grown is another.
\<close>

definition robust :: "'s runner \<Rightarrow> ('s pass \<Rightarrow> bool) \<Rightarrow> bool" where
  "robust R P \<longleftrightarrow>
     stable R P \<and> (\<forall>ty p. keeps P (p_append R ty p)) \<and> (\<forall>s a. P s \<longrightarrow> P (s\<lparr>p_adv := a\<rparr>)) \<and>
     (\<forall>s h. P s \<longrightarrow> P (s\<lparr>p_history := h\<rparr>))"

lemma robustD:
  assumes "robust R P"
  shows robust_stable: "stable R P"
    and robust_append: "keeps P (p_append R ty p)"
    and robust_adv: "P s \<Longrightarrow> P (s\<lparr>p_adv := a\<rparr>)"
    and robust_history: "P s \<Longrightarrow> P (s\<lparr>p_history := h\<rparr>)"
  using assms by (auto simp: robust_def)

lemma keeps_moves:
  assumes "robust R P"
  shows "keeps P (record_moves R m)"
proof -
  have "keeps P (p_append_all R recs)" for recs
    by (induction recs) (auto intro!: keeps_intros robust_append [OF assms])
  then show ?thesis unfolding record_moves_def
    by (intro keeps_bind) (auto intro!: keeps_intros split: prod.split)
qed

lemma keeps_stop_accepting: "robust R P \<Longrightarrow> keeps P stop_accepting"
  unfolding stop_accepting_def by (rule keeps_modify) (rule robust_adv)

lemma keeps_end_cancelled: "robust R P \<Longrightarrow> keeps P (end_cancelled R r)"
  unfolding end_cancelled_def by (intro keeps_intros keeps_moves robust_append)

lemma keeps_finish: "robust R P \<Longrightarrow> keeps P m \<Longrightarrow> keeps P (finish R r m)"
  unfolding finish_def
  by (intro keeps_intros keeps_observe_cancel [OF robust_stable] keeps_end_cancelled keeps_stop_accepting)

lemma keeps_finish_cancelled: "robust R P \<Longrightarrow> keeps P (finish_cancelled R r)"
  unfolding finish_cancelled_def by (intro keeps_finish keeps_intros)

lemma keeps_keep: "robust R P \<Longrightarrow> keeps P m \<Longrightarrow> keeps P (keep R r m)"
  unfolding keep_def by (intro keeps_intros keeps_observe_cancel [OF robust_stable] keeps_finish_cancelled)

lemma keeps_complete: "robust R P \<Longrightarrow> keeps P (complete R a e)"
  unfolding complete_def by (intro keeps_intros keeps_result_of robust_stable robust_append)

lemma keeps_complete_approved: "robust R P \<Longrightarrow> keeps P (complete_approved R step p)"
  unfolding complete_approved_def Let_def by (intro keeps_intros robust_append)

lemma keeps_escalate: "robust R P \<Longrightarrow> keeps P (escalate R op r a e why)"
  unfolding escalate_def Let_def by (intro keeps_intros keeps_result_of robust_stable keeps_moves)

lemma keeps_fail_step: "robust R P \<Longrightarrow> keeps P (fail_step R r a)"
  unfolding fail_step_def Let_def
  by (auto split: option.split outcome.split intro!: keeps_intros robust_append keeps_moves)

lemma keeps_stop_for_budget: "robust R P \<Longrightarrow> keeps P (stop_for_budget R r step m d)"
  unfolding stop_for_budget_def by (intro keeps_intros keeps_moves)

lemma keeps_complete_run: "robust R P \<Longrightarrow> keeps P (complete_run R r)"
  unfolding complete_run_def by (intro keeps_intros keeps_moves)

lemma keeps_fail_accounting: "robust R P \<Longrightarrow> keeps P (fail_accounting R r m)"
  unfolding fail_accounting_def by (intro keeps_intros keeps_moves)

lemmas keeps_driver =
  keeps_intros keeps_moves keeps_finish keeps_finish_cancelled keeps_keep keeps_complete keeps_complete_approved
  keeps_escalate keeps_fail_step keeps_stop_for_budget keeps_complete_run keeps_fail_accounting robust_append

lemma keeps_advance_end: "robust R P \<Longrightarrow> keeps P (advance_end R r tracker spent)"
  unfolding advance_end_def
  by (rule keeps_bind) (auto split: option.split intro!: keeps_driver keeps_check_boundary [OF robust_stable])

lemma keeps_finish_step: "robust R P \<Longrightarrow> keeps P (finish_step R op r step tracker a)"
  unfolding finish_step_def
  by (auto split: option.split outcome.split gate_outcome.split prod.split
      intro!: keeps_driver keeps_consume_boundary robust_stable)

lemma keeps_start_step:
  assumes "robust R P"
  shows "keeps P (start_step R op r retries step tracker)"
proof -
  have set_up: "keeps P (modify (\<lambda>s. s\<lparr>p_adv := (p_adv s)\<lparr>adv_attempt := Some a\<rparr>\<rparr>))" for a
    by (rule keeps_modify) (rule robust_adv [OF assms])
  show ?thesis
    unfolding start_step_def run_step_def
    using assms robust_stable [OF assms]
    by (intro keeps_bind keeps_check_boundary)
       (auto split: option.split
          intro!: keeps_driver keeps_resolve set_up keeps_run_attempt keeps_observe_cancel keeps_the_attempt keeps_finish_step)
qed

lemma keeps_advance_steps:
  assumes "robust R P"
  shows "keeps P (advance_steps R op r completed retries tracker spent steps)"
proof (induction steps arbitrary: tracker spent)
  case Nil
  then show ?case using assms by (simp add: keeps_advance_end)
next
  case (Cons step steps)
  have approved: "keeps P (bind (keep R r (complete_approved R step p)) (\<lambda>stopped. case stopped of Some st \<Rightarrow> ret st
      | None \<Rightarrow> advance_steps R op r completed retries tracker (Some (step_name step)) steps))" for p
    using assms Cons by (intro keeps_driver)
  have started: "keeps P (bind (start_step R op r retries step tracker) (\<lambda>next. case next of Inl st \<Rightarrow> ret st
      | Inr tr \<Rightarrow> advance_steps R op r completed retries tr (Some (step_name step)) steps))"
    using assms Cons by (intro keeps_bind keeps_start_step) (auto split: sum.split intro: keeps_intros)
  show ?case
    using assms Cons approved started
    by (auto intro!: keeps_bind keeps_observe_cancel [OF robust_stable] keeps_finish_cancelled keeps_pure split: option.split)
qed

lemma keeps_advance:
  assumes "robust R P"
  shows "keeps P (advance R op)"
proof -
  have accept: "keeps P begin_accepting"
    unfolding begin_accepting_def by (rule keeps_modify) (rule robust_adv [OF assms])
  have tracked: "keeps P (catch (bind (start_tracker R) (\<lambda>t. ret (Inr t)))
             (\<lambda>x. case x of UsageUnavailable m \<Rightarrow> ret (Inl m) | _ \<Rightarrow> raise x))"
    using robust_stable [OF assms] by (intro keeps_catch keeps_bind keeps_start_tracker) (auto split: exn.split intro: keeps_intros)
  have from_run: "keeps P (advance_from R op r)" for r
    unfolding advance_from_def
    using assms tracked by (intro keeps_bind keeps_pure) (auto split: sum.split intro!: keeps_driver keeps_advance_steps)
  show ?thesis
    unfolding advance_def using assms accept from_run by (intro keeps_driver keeps_need)
qed

text \<open>And so does every body a host call runs under its claim.\<close>

lemma keeps_load: "robust R P \<Longrightarrow> keeps P (load R)"
  unfolding load_def by (intro keeps_intros keeps_modify) (rule robust_history)

lemma keeps_submit_body: "robust R P \<Longrightarrow> keeps P (submit_body R op)"
  unfolding submit_body_def by (intro keeps_driver keeps_load keeps_advance)

lemma keeps_retry_body: "robust R P \<Longrightarrow> keeps P (retry_body R)"
  unfolding retry_body_def by (intro keeps_driver keeps_load keeps_advance)

lemma keeps_decide_body: "robust R P \<Longrightarrow> keeps P (decide_body R escalation actor verdict findings)"
  unfolding decide_body_def by (intro keeps_driver keeps_load keeps_advance)

lemma keeps_cancel_body: "robust R P \<Longrightarrow> keeps P (cancel_body R actor)"
  unfolding cancel_body_def by (intro keeps_driver keeps_load)

lemma keeps_interrupt_body: "robust R P \<Longrightarrow> keeps P (interrupt_body R)"
  unfolding interrupt_body_def by (intro keeps_driver keeps_load)

lemmas keeps_bodies =
  keeps_submit_body keeps_retry_body keeps_decide_body keeps_cancel_body keeps_interrupt_body

end
