(* ===== verification/RunnerProofs.thy ===== *)
theory RunnerProofs
  imports RunnerStable
begin

section \<open>The driver keeps the run and its Track in step\<close>

text \<open>
  \<open>at_run R sound r s\<close>: the store is sound, the pass's history is the run's Track as it would
  be read now, and that Track replays to \<open>r\<close>.  The driver starts at some run and, however it
  returns, is at a run whose state is what it returned; if a cancel was taken that state is
  \<open>CANCELLED\<close>, and if it is \<open>COMPLETED\<close> every step of the Op has a recorded completion.
\<close>

definition pass_ok :: "'s runner \<Rightarrow> ('s \<Rightarrow> bool) \<Rightarrow> 's pass \<Rightarrow> bool" where
  "pass_ok R sound s \<longleftrightarrow> sound (p_track s) \<and> read_track R (p_track s) (p_run s) = p_history s"

definition at_run :: "'s runner \<Rightarrow> ('s \<Rightarrow> bool) \<Rightarrow> run \<Rightarrow> 's pass \<Rightarrow> bool" where
  "at_run R sound r s \<longleftrightarrow> pass_ok R sound s \<and> replay (p_history s) = Inr (Some r)"

definition step_done :: "track_event list \<Rightarrow> string \<Rightarrow> bool" where
  "step_done h n \<longleftrightarrow> (\<exists>e\<in>set h. event_type e = ''step_completed'' \<and> map_of (payload e) ''step'' = Some (PStr n))"

text \<open>Between steps: at the run, with these steps done, and this one in flight if any.\<close>

definition going :: "'s runner \<Rightarrow> ('s \<Rightarrow> bool) \<Rightarrow> run \<Rightarrow> string set \<Rightarrow> op_step option \<Rightarrow> 's pass \<Rightarrow> bool" where
  "going R sound r D st s \<longleftrightarrow>
     at_run R sound r s \<and> (\<forall>n\<in>D. step_done (p_history s) n) \<and>
     (st \<noteq> None \<longrightarrow> map_option a_step (adv_attempt (p_adv s)) = st)"

text \<open>What the driver returns with.\<close>

definition arrived :: "'s runner \<Rightarrow> ('s \<Rightarrow> bool) \<Rightarrow> string set \<Rightarrow> run_state \<Rightarrow> 's pass \<Rightarrow> bool" where
  "arrived R sound D st s \<longleftrightarrow>
     (\<exists>r. at_run R sound r s \<and> run_state r = st) \<and> (cancelled_by (p_adv s) \<noteq> None \<longrightarrow> st = CANCELLED) \<and>
     (st = COMPLETED \<longrightarrow> (\<forall>n\<in>D. step_done (p_history s) n)) \<and> st \<noteq> RUNNING \<and> st \<noteq> SUBMITTED"

definition somewhere :: "'s runner \<Rightarrow> ('s \<Rightarrow> bool) \<Rightarrow> 's pass \<Rightarrow> bool" where
  "somewhere R sound s \<longleftrightarrow> (\<exists>r. at_run R sound r s \<and> run_state r \<noteq> COMPLETED)"

lemma step_done_append: "step_done h n \<Longrightarrow> step_done (h @ [e]) n"
  by (auto simp: step_done_def)

lemma upgrade_written [simp]: "schema e = SCHEMA_VERSION \<Longrightarrow> map upgrade [e] = [e]"
  by simp

lemma bind_ret_Inl_iff: "bind m (\<lambda>x. ret (f x)) s = (Inl e, t) \<longleftrightarrow> m s = (Inl e, t)"
  by (simp add: bind_def sx_apply split: prod.splits sum.splits)

context track_store
begin

lemma p_append_outcome:
  assumes "r_ops R = ops" and "pass_ok R inv s" and "p_append R ty p s = (res, s')"
  shows "pass_ok R inv s' \<and> p_adv s' = p_adv s \<and> p_run s' = p_run s \<and> p_calls s' = p_calls s \<and>
    (case res of
       Inl _ \<Rightarrow> p_history s' = p_history s
     | Inr _ \<Rightarrow> \<exists>e. p_history s' = p_history s @ [e] \<and> event_type e = ty \<and> payload e = p \<and> run_id e = p_run s)"
proof -
  let ?e = "new_event R s ty p"
  have i: "inv (p_track s)" and h: "map upgrade (log_of ops (p_track s) (p_run s)) = p_history s"
    using assms(1,2) by (simp_all add: pass_ok_def read_track_def log_of_def)
  obtain r t where a: "t_append ops (p_track s) ?e = (r, t)" by (cases "t_append ops (p_track s) ?e")
  show ?thesis
  proof (cases r)
    case (Inl x)
    then have "t = p_track s" using append_refuses [OF i] a by simp
    with assms Inl a show ?thesis by (auto simp: p_append_def pass_ok_def)
  next
    case (Inr e)
    from append_stores [OF i, of ?e e t] a Inr obtain n where n: "e = ?e\<lparr>sequence := Some n\<rparr>"
      "log_of ops t (run_id ?e) = log_of ops (p_track s) (run_id ?e) @ [e]" by auto
    have e: "run_id ?e = p_run s" "event_type e = ty" "payload e = p" "run_id e = p_run s" "upgrade e = e"
      by (simp_all add: n(1) new_event_def)
    have "inv t" using append_inv [OF i a] .
    with assms Inr a n(2) e h show ?thesis
      by (auto simp: p_append_def pass_ok_def read_track_def log_of_def)
  qed
qed

lemma stable_going:
  assumes "r_ops R = ops" and "run_state r = RUNNING"
  shows "stable R (going R inv r D st)"
proof -
  have app: "keeps (going R inv r D st) (p_append R ty p)" if "ty \<in> set RUN_FACTS" for ty p
  proof (rule keepsI)
    fix s assume s: "going R inv r D st s"
    obtain res s' where a: "p_append R ty p s = (res, s')" by (cases "p_append R ty p s")
    from s have ok: "pass_ok R inv s" and rp: "replay (p_history s) = Inr (Some r)"
      by (simp_all add: going_def at_run_def)
    note out = p_append_outcome [OF assms(1) ok a]
    show "going R inv r D st (snd (p_append R ty p s))"
    proof (cases res)
      case (Inl x)
      with out s a show ?thesis by (simp add: going_def at_run_def)
    next
      case (Inr u)
      with out obtain e where e: "p_history s' = p_history s @ [e]" "event_type e = ty" by auto
      have "replay (p_history s') = Inr (Some r)"
        unfolding e(1) by (rule replay_append_fact [OF rp]) (use that e assms in auto)
      with out s a e show ?thesis by (simp add: going_def at_run_def step_done_append)
    qed
  qed
  have put: "inv t \<Longrightarrow> inv (t_put_payload ops t r k v) \<and> t_replay ops (t_put_payload ops t r k v) r' 0 = t_replay ops t r' 0"
    for t r k v r' using put_keeps [of t r k v r'] by (simp add: log_of_def)
  show ?thesis unfolding stable_def
  proof (intro conjI allI impI app)
    fix s r' k v assume "going R inv r D st s"
    then show "going R inv r D st (s\<lparr>p_track := t_put_payload (r_ops R) (p_track s) r' k v\<rparr>)"
      using put by (simp add: going_def at_run_def pass_ok_def read_track_def assms(1))
  qed (auto simp: going_def at_run_def pass_ok_def same_step_def)
qed

lemma going_unused: "going R inv r D st s \<Longrightarrow> going R inv r D None s"
  by (simp add: going_def)

text \<open>A move of the run, recorded: the pass is at the run after it.\<close>

lemma triple_run_move:
  assumes "r_ops R = ops" and "live_call call"
  shows "triple (going R inv r D st) (record_moves R (run_dispatch r call))
    (\<lambda>r' s. run_handler r call \<noteq> Inl UndeclaredTransition \<and> (\<exists>recs. run_handler r call = Inr (r', recs)) \<and> going R inv r' D st s)
    (\<lambda>_. going R inv r D st)"
proof (rule tripleI)
  fix s r' s'
  assume s: "going R inv r D st s" and m: "record_moves R (run_dispatch r call) s = (Inr r', s')"
  then obtain recs where recs: "run_handler r call = Inr (r', recs)"
    by (auto simp: record_moves_def bind_eq_Inr_iff andthen_eq_Inr_iff sx_apply)
  then obtain ty p where one: "recs = [Record ty p]" using run_handler_one_record by blast
  with m recs have a: "p_append R ty p s = (Inr (), s')"
    by (auto simp: record_moves_def bind_eq_Inr_iff andthen_eq_Inr_iff sx_apply)
  have ok: "pass_ok R inv s" and rp: "replay (p_history s) = Inr (Some r)" using s by (simp_all add: going_def at_run_def)
  from p_append_outcome [OF assms(1) ok a] obtain e where
    e: "p_history s' = p_history s @ [e]" "event_type e = ty" "payload e = p" "pass_ok R inv s'" "p_adv s' = p_adv s"
    by auto
  have "replay (p_history s') = Inr (Some r')"
    unfolding e(1) by (rule replay_append_live [OF rp]) (use recs one assms(2) e in auto)
  with s e recs show "run_handler r call \<noteq> Inl UndeclaredTransition \<and> (\<exists>recs. run_handler r call = Inr (r', recs)) \<and> going R inv r' D st s'"
    by (auto simp: going_def at_run_def step_done_append)
next
  fix s x s'
  assume s: "going R inv r D st s" and m: "record_moves R (run_dispatch r call) s = (Inl x, s')"
  show "going R inv r D st s'"
  proof (cases "run_handler r call")
    case (Inl y)
    with m s show ?thesis by (simp add: record_moves_def bind_def sx_apply)
  next
    case (Inr t)
    obtain r' recs where t: "t = (r', recs)" by (cases t)
    then obtain ty p where one: "recs = [Record ty p]" using run_handler_one_record Inr by blast
    with m Inr t have a: "p_append R ty p s = (Inl x, s')"
      by (auto simp: record_moves_def bind_def andthen_def sx_apply split: prod.splits sum.splits)
    have ok: "pass_ok R inv s" using s by (simp add: going_def at_run_def)
    from p_append_outcome [OF assms(1) ok a] s show ?thesis by (simp add: going_def at_run_def)
  qed
qed

subsection \<open>Ending the run\<close>

lemma opt_str_truthy: "live_call (Cancel v)" by simp

text \<open>The pass after a cancel was looked for: whether one was taken is what the look said.\<close>

lemma triple_observe:
  assumes "r_ops R = ops" and "run_state r = RUNNING"
  shows "triple (going R inv r D st) (observe_cancel R)
    (\<lambda>c s. going R inv r D st s \<and> c = (cancelled_by (p_adv s) \<noteq> None)) (\<lambda>_. going R inv r D st)"
proof (rule tripleI)
  fix s c s' assume s: "going R inv r D st s" and o: "observe_cancel R s = (Inr c, s')"
  have "going R inv r D st (snd (observe_cancel R s))"
    using s keeps_observe_cancel [OF stable_going [OF assms]] by (rule keepsD [rotated])
  moreover have "c = (cancelled_by (p_adv s') \<noteq> None)"
    using o by (auto simp: observe_cancel_def bind_eq_Inr_iff andthen_eq_Inr_iff sx_apply)
  ultimately show "going R inv r D st s' \<and> c = (cancelled_by (p_adv s') \<noteq> None)" using o by simp
next
  fix s e s' assume s: "going R inv r D st s" and o: "observe_cancel R s = (Inl e, s')"
  then show "going R inv r D st s'"
    using keepsD [OF keeps_observe_cancel [OF stable_going [OF assms, of D st]] s] by simp
qed

lemma triple_stable:
  assumes "r_ops R = ops" and "run_state r = RUNNING" and "\<And>P. stable R P \<Longrightarrow> keeps P m"
  shows "triple (going R inv r D st) m (\<lambda>_. going R inv r D st) (\<lambda>_. going R inv r D st)"
  using assms(3) [OF stable_going [OF assms(1,2)]] by (rule triple_keeps)

text \<open>An end of the run: a move of the machine to a state the run can end a pass in.\<close>

definition ends_run :: "run \<Rightarrow> run_call \<Rightarrow> bool" where
  "ends_run r call \<longleftrightarrow> live_call call \<and>
     (\<forall>r' recs. run_handler r call = Inr (r', recs) \<longrightarrow> run_state r' \<notin> {SUBMITTED, RUNNING})"

lemma run_move_keeps_adv:
  assumes "r_ops R = ops" and "pass_ok R inv s" and "record_moves R (run_dispatch r call) s = (Inr r', s')"
  shows "p_adv s' = p_adv s"
proof -
  from assms(3) obtain recs where recs: "run_handler r call = Inr (r', recs)"
    by (auto simp: record_moves_def bind_eq_Inr_iff andthen_eq_Inr_iff sx_apply)
  then obtain ty p where "recs = [Record ty p]" using run_handler_one_record by blast
  with assms(3) recs have "p_append R ty p s = (Inr (), s')"
    by (auto simp: record_moves_def bind_eq_Inr_iff andthen_eq_Inr_iff sx_apply)
  with p_append_outcome [OF assms(1,2)] show ?thesis by blast
qed

lemma cancel_lands: "run_handler r (Cancel v) = Inr (r', recs) \<Longrightarrow> run_state r' = CANCELLED"
  by (auto simp: run_cancel_def run_refuse_def split: if_splits)

lemma going_somewhere: "run_state r = RUNNING \<Longrightarrow> going R inv r D st s \<Longrightarrow> somewhere R inv s"
  by (auto simp: going_def somewhere_def)

lemma pickup_lands: "run_handler r Pickup = Inr (r', recs) \<Longrightarrow> run_state r' = RUNNING"
  by (auto simp: run_pickup_def run_refuse_def split: run_state.splits)

lemma triple_end_move:
  assumes "r_ops R = ops" and "ends_run r call" and "run_state r = RUNNING"
    and "D \<subseteq> D0 \<or> (\<forall>r' recs. run_handler r call = Inr (r', recs) \<longrightarrow> run_state r' \<noteq> COMPLETED)"
  shows "triple (\<lambda>s. going R inv r D0 st s \<and> (cancelled_by (p_adv s) = None \<or> (\<exists>v. call = Cancel v)))
    (bind (record_moves R (run_dispatch r call)) (\<lambda>r'. ret (run_state r'))) (arrived R inv D) (\<lambda>_. somewhere R inv)"
    (is "triple ?P ?m ?Q ?E")
proof -
  have live: "live_call call" using assms(2) by (simp add: ends_run_def)
  note mv = triple_run_move [OF assms(1) live, of r D0 st]
  show ?thesis
  proof (rule tripleI)
    fix s x s' assume s: "?P s" and m: "?m s = (Inr x, s')"
    from m obtain r' where r': "record_moves R (run_dispatch r call) s = (Inr r', s')" "x = run_state r'"
      by (auto simp: bind_eq_Inr_iff sx_apply)
    with tripleD(1) [OF mv] s obtain recs where g: "going R inv r' D0 st s'" and h: "run_handler r call = Inr (r', recs)"
      by blast
    have "p_adv s' = p_adv s" using s by (intro run_move_keeps_adv [OF assms(1) _ r'(1)]) (simp add: going_def at_run_def)
    then have "cancelled_by (p_adv s') \<noteq> None \<Longrightarrow> x = CANCELLED"
      using s h r'(2) by (metis cancel_lands)
    moreover have "x = COMPLETED \<longrightarrow> (\<forall>n\<in>D. step_done (p_history s') n)"
      using assms(4) h g r'(2) by (auto simp: going_def)
    moreover have "x \<noteq> RUNNING \<and> x \<noteq> SUBMITTED" using assms(2) h r'(2) by (auto simp: ends_run_def)
    ultimately show "?Q x s'" using g r'(2) by (auto simp: arrived_def going_def)
  next
    fix s e s' assume s: "?P s" and m: "?m s = (Inl e, s')"
    then have "record_moves R (run_dispatch r call) s = (Inl e, s')" by (auto simp: bind_ret_Inl_iff)
    from tripleD(2) [OF mv conjunct1 [OF s] this] show "?E e s'" by (rule going_somewhere [OF assms(3)])
  qed
qed

lemma ends_run_calls:
  "ends_run r (Cancel v)" "ends_run r Complete" "ends_run r (ExhaustBudget a b c)"
  "is_str e \<Longrightarrow> map_of (rev d) ''error'' = None \<Longrightarrow> ends_run r (Fail e f g d)"
  "is_str a \<Longrightarrow> is_str c \<Longrightarrow> map_of (rev d) ''step'' = None \<Longrightarrow> map_of (rev d) ''escalation'' = None \<Longrightarrow> ends_run r (Escalate a b c d)"
  by (auto simp: ends_run_def run_handler_defs Let_def bind_result_Inr_iff split: if_splits run_state.splits)

lemma not_completed:
  "run_handler r (Cancel v) = Inr (r', recs) \<Longrightarrow> run_state r' \<noteq> COMPLETED"
  "run_handler r (ExhaustBudget a b c) = Inr (r', recs) \<Longrightarrow> run_state r' \<noteq> COMPLETED"
  "run_handler r (Fail e f g d) = Inr (r', recs) \<Longrightarrow> run_state r' \<noteq> COMPLETED"
  "run_handler r (Escalate a b c' d) = Inr (r', recs) \<Longrightarrow> run_state r' \<noteq> COMPLETED"
  by (auto simp: run_handler_defs Let_def bind_result_Inr_iff split: if_splits run_state.splits)

text \<open>Facts of the pass that survive any stable computation, with no cancel yet or one for sure.\<close>

lemma p_append_keeps_claim:
  assumes "r_ops R = ops" and "run_state r = RUNNING" and "ty \<in> set RUN_FACTS"
  shows "keeps (\<lambda>s. going R inv r D st s \<and> Q (p_adv s)) (p_append R ty p)"
proof (rule keepsI)
  fix s assume s: "going R inv r D st s \<and> Q (p_adv s)"
  have "pass_ok R inv s" using s by (simp add: going_def at_run_def)
  from p_append_outcome [OF assms(1) this, of ty p "fst (p_append R ty p s)" "snd (p_append R ty p s)"]
  have "p_adv (snd (p_append R ty p s)) = p_adv s" by simp
  with s keepsD [OF stable_append [OF stable_going [OF assms(1,2)] assms(3)]]
  show "going R inv r D st (snd (p_append R ty p s)) \<and> Q (p_adv (snd (p_append R ty p s)))" by simp
qed

definition ending :: "'s runner \<Rightarrow> run \<Rightarrow> string set \<Rightarrow> string set \<Rightarrow> ('s pass, exn, run_state) sx \<Rightarrow> bool" where
  "ending R r D0 D m \<longleftrightarrow>
     (\<forall>st. triple (\<lambda>s. going R inv r D0 st s \<and> cancelled_by (p_adv s) = None) m (arrived R inv D) (\<lambda>_. somewhere R inv))"

lemma triple_end_cancelled:
  assumes "r_ops R = ops" and "run_state r = RUNNING"
  shows "triple (going R inv r D0 st) (end_cancelled R r) (arrived R inv D) (\<lambda>_. somewhere R inv)"
  unfolding end_cancelled_def
proof (rule triple_bind)
  show "triple (going R inv r D0 st) (gets p_adv) (\<lambda>adv s. going R inv r D0 st s) (\<lambda>_. somewhere R inv)"
    by (rule triple_gets)
  fix adv
  show "triple (going R inv r D0 st)
     (andthen (case adv_attempt adv of None \<Rightarrow> ret ()
        | Some a \<Rightarrow> (case teardown_error a of None \<Rightarrow> ret ()
            | Some te \<Rightarrow> p_append R ''step_failed'' (AList.update ''teardown_error'' (PStr te)
                (step_failed_payload (a_step a) (a_number a) (a_key a) ''TeardownFailed''
                   (Some (te @ '': the worker could not be torn down'')) None))))
       (bind (record_moves R (run_dispatch r (Cancel (opt_str (cancelled_by adv))))) (\<lambda>run. ret (run_state run))))
     (arrived R inv D) (\<lambda>_. somewhere R inv)"
  proof (rule triple_andthen)
    show "triple (going R inv r D0 st)
       (case adv_attempt adv of None \<Rightarrow> ret ()
        | Some a \<Rightarrow> (case teardown_error a of None \<Rightarrow> ret ()
            | Some te \<Rightarrow> p_append R ''step_failed'' (AList.update ''teardown_error'' (PStr te)
                (step_failed_payload (a_step a) (a_number a) (a_key a) ''TeardownFailed''
                   (Some (te @ '': the worker could not be torn down'')) None))))
       (\<lambda>_. going R inv r D0 st) (\<lambda>_. somewhere R inv)"
      by (rule triple_weaken [OF triple_stable [OF assms]], intro keeps_basic) (auto intro: going_somewhere [OF assms(2)])
    show "triple (going R inv r D0 st)
       (bind (record_moves R (run_dispatch r (Cancel (opt_str (cancelled_by adv))))) (\<lambda>run. ret (run_state run)))
       (arrived R inv D) (\<lambda>_. somewhere R inv)"
      by (rule triple_weaken [OF triple_end_move [OF assms(1) ends_run_calls(1) assms(2) disjI2]]) (use not_completed(1) in blast)+
  qed
qed

lemma triple_finish:
  assumes "r_ops R = ops" and "run_state r = RUNNING" and "ending R r D0 D m"
  shows "triple (going R inv r D0 st) (finish R r m) (arrived R inv D) (\<lambda>_. somewhere R inv)"
  unfolding finish_def
proof (rule triple_bind)
  show "triple (going R inv r D0 st) (observe_cancel R)
      (\<lambda>c s. going R inv r D0 st s \<and> c = (cancelled_by (p_adv s) \<noteq> None)) (\<lambda>_. somewhere R inv)"
    by (rule triple_weaken [OF triple_observe [OF assms(1,2)]]) (auto intro: going_somewhere [OF assms(2)])
  fix c
  have stop: "triple (arrived R inv D x) (andthen stop_accepting (ret x)) (arrived R inv D) (\<lambda>_. somewhere R inv)" for x
    unfolding stop_accepting_def
    by (intro triple_andthen [where Q = "arrived R inv D x"] triple_modify triple_ret)
       (auto simp: arrived_def at_run_def pass_ok_def)
  show "triple (\<lambda>s. going R inv r D0 st s \<and> c = (cancelled_by (p_adv s) \<noteq> None))
      (bind (if c then end_cancelled R r else m) (\<lambda>x. andthen stop_accepting (ret x))) (arrived R inv D) (\<lambda>_. somewhere R inv)"
  proof (rule triple_bind [OF _ stop])
    show "triple (\<lambda>s. going R inv r D0 st s \<and> c = (cancelled_by (p_adv s) \<noteq> None))
        (if c then end_cancelled R r else m) (arrived R inv D) (\<lambda>_. somewhere R inv)"
    proof (cases c)
      case True
      then show ?thesis by (simp) (rule triple_weaken [OF triple_end_cancelled [OF assms(1,2)]], auto)
    next
      case False
      then show ?thesis using assms(3) by (simp add: ending_def)
    qed
  qed
qed

lemma ending_move:
  assumes "r_ops R = ops" and "run_state r = RUNNING" and "ends_run r call"
    and "\<And>r' recs. run_handler r call = Inr (r', recs) \<Longrightarrow> run_state r' \<noteq> COMPLETED"
  shows "ending R r D0 D (bind (record_moves R (run_dispatch r call)) (\<lambda>r'. ret (run_state r')))"
  unfolding ending_def
  by (intro allI, rule triple_weaken [OF triple_end_move [OF assms(1,3,2) disjI2]]) (use assms(4) in blast)+

lemma ending_complete:
  assumes "r_ops R = ops" and "run_state r = RUNNING" and "D \<subseteq> D0"
  shows "ending R r D0 D (complete_run R r)"
  unfolding ending_def complete_run_def
  by (intro allI, rule triple_weaken [OF triple_end_move [OF assms(1) ends_run_calls(2) assms(2) disjI1]]) (use assms(3) in auto)

lemma ending_budget:
  assumes "r_ops R = ops" and "run_state r = RUNNING"
  shows "ending R r D0 D (stop_for_budget R r step m d)"
  unfolding stop_for_budget_def by (rule ending_move [OF assms ends_run_calls(3) not_completed(2)])

lemma ending_raise: "run_state r = RUNNING \<Longrightarrow> ending R r D0 D (raise x)"
  unfolding ending_def by (auto intro!: triple_raise intro: going_somewhere)

text \<open>Facts first, then the end.\<close>

lemma ending_after_fact:
  assumes "r_ops R = ops" and "run_state r = RUNNING" and "ty \<in> set RUN_FACTS" and "ending R r D0 D m"
  shows "ending R r D0 D (andthen (p_append R ty p) m)"
  unfolding ending_def
proof
  fix st
  let ?P = "\<lambda>s. going R inv r D0 st s \<and> cancelled_by (p_adv s) = None"
  have "keeps ?P (p_append R ty p)"
    using p_append_keeps_claim [OF assms(1-3), where Q = "\<lambda>a. cancelled_by a = None"] by simp
  from triple_keeps [OF this] have "triple ?P (p_append R ty p) (\<lambda>_. ?P) (\<lambda>_. somewhere R inv)"
    by (rule triple_weaken) (auto intro: going_somewhere [OF assms(2)])
  moreover have "triple ?P m (arrived R inv D) (\<lambda>_. somewhere R inv)" using assms(4) by (simp add: ending_def)
  ultimately show "triple ?P (andthen (p_append R ty p) m) (arrived R inv D) (\<lambda>_. somewhere R inv)"
    by (rule triple_andthen)
qed

lemma map_of_recorded: "map_of (rev (recorded e)) ''error'' = None"
  by (auto simp: recorded_def split: option.splits)

lemma ending_fail_step:
  assumes "r_ops R = ops" and "run_state r = RUNNING"
  shows "ending R r D0 D (fail_step R r a)"
proof -
  note fact = ending_after_fact [OF assms facts_in(6)]
  have fail: "is_str e \<Longrightarrow> map_of (rev d) ''error'' = None \<Longrightarrow>
      ending R r D0 D (bind (record_moves R (run_dispatch r (Fail e f g d))) (\<lambda>r'. ret (run_state r')))" for e f g d
    by (rule ending_move [OF assms ends_run_calls(4) not_completed(3)])
  show ?thesis
    unfolding fail_step_def Let_def
    by (auto split: option.split outcome.split intro!: fact fail ending_raise [OF assms(2)] simp: map_of_recorded simp del: run_dispatch_eq)
qed

lemma ending_fail_accounting: "r_ops R = ops \<Longrightarrow> run_state r = RUNNING \<Longrightarrow> ending R r D0 D (fail_accounting R r reason)"
  unfolding fail_accounting_def by (rule ending_move [OF _ _ ends_run_calls(4) not_completed(3)]) auto

text \<open>Keeping a payload does not touch the claim.\<close>

lemma result_of_keeps_claim:
  assumes "r_ops R = ops" and "run_state r = RUNNING"
  shows "keeps (\<lambda>s. going R inv r D st s \<and> Q (p_adv s)) (result_of R key v rendered)"
  unfolding result_of_def
proof (intro keeps_intros keeps_modify)
  fix s assume s: "going R inv r D st s \<and> Q (p_adv s)"
  with stable_put [OF stable_going [OF assms, of D st], of s]
  show "going R inv r D st (s\<lparr>p_track := t_put_payload (r_ops R) (p_track s) (p_run s) key
            (case rendered of None \<Rightarrow> PNone | Some v \<Rightarrow> v)\<rparr>) \<and> Q (p_adv (s\<lparr>p_track := t_put_payload (r_ops R) (p_track s)
            (p_run s) key (case rendered of None \<Rightarrow> PNone | Some v \<Rightarrow> v)\<rparr>))" by simp
qed

lemma result_of_payload:
  "result_of R key v rendered s = (Inr p, t) \<Longrightarrow> p = [(''payload_ref'', PStr key)] \<or> p = [(''payload'', v)]"
  by (auto simp: result_of_def andthen_eq_Inr_iff sx_apply split: if_splits)

lemma map_of_details:
  assumes "p = [(''payload_ref'', PStr key)] \<or> p = [(''payload'', v)]"
  shows "map_of (rev (escalation_details R a e p)) ''step'' = None"
    "map_of (rev (escalation_details R a e p)) ''escalation'' = None"
  using assms by (auto simp: escalation_details_def dict_merge_def)

lemma ending_escalate:
  assumes "r_ops R = ops" and "run_state r = RUNNING"
  shows "ending R r D0 D (escalate R op r a e why)"
  unfolding ending_def
proof
  fix st
  let ?P = "\<lambda>s. going R inv r D0 st s \<and> cancelled_by (p_adv s) = None"
  let ?v = "env_payload e"
  have k: "keeps ?P (result_of R (a_key a) ?v (a_rendered a))"
    using result_of_keeps_claim [OF assms, where Q = "\<lambda>a. cancelled_by a = None"] by simp
  show "triple ?P (escalate R op r a e why) (arrived R inv D) (\<lambda>_. somewhere R inv)"
    unfolding escalate_def Let_def
  proof (rule triple_bind)
    show "triple ?P (result_of R (a_key a) ?v (a_rendered a))
        (\<lambda>p s. ?P s \<and> (p = [(''payload_ref'', PStr (a_key a))] \<or> p = [(''payload'', ?v)])) (\<lambda>_. somewhere R inv)"
      using k by (intro tripleI) (auto simp: keeps_def dest: result_of_payload intro: going_somewhere [OF assms(2)], (metis snd_conv going_somewhere [OF assms(2)])+)
    fix p
    show "triple (\<lambda>s. ?P s \<and> (p = [(''payload_ref'', PStr (a_key a))] \<or> p = [(''payload'', ?v)]))
        (bind (record_moves R (run_dispatch r (Escalate (PStr (step_name (a_step a))) (opt_str why)
           (PStr (escalation_id (w_sha256 (r_world R)) (op_run_id op) (step_name (a_step a)) (a_number a) e))
           (escalation_details R a e p)))) (\<lambda>run. ret (run_state run))) (arrived R inv D) (\<lambda>_. somewhere R inv)"
    proof (rule triple_pre)
      assume "p = [(''payload_ref'', PStr (a_key a))] \<or> p = [(''payload'', ?v)]"
      note d = map_of_details [OF this, of R a e]
      have "ending R r D0 D (bind (record_moves R (run_dispatch r (Escalate (PStr (step_name (a_step a))) (opt_str why)
           (PStr (escalation_id (w_sha256 (r_world R)) (op_run_id op) (step_name (a_step a)) (a_number a) e))
           (escalation_details R a e p)))) (\<lambda>run. ret (run_state run)))"
        by (rule ending_move [OF assms ends_run_calls(5) not_completed(4)]) (use d in auto)
      then have "triple ?P (bind (record_moves R (run_dispatch r (Escalate (PStr (step_name (a_step a))) (opt_str why)
           (PStr (escalation_id (w_sha256 (r_world R)) (op_run_id op) (step_name (a_step a)) (a_number a) e))
           (escalation_details R a e p)))) (\<lambda>run. ret (run_state run))) (arrived R inv D) (\<lambda>_. somewhere R inv)"
        unfolding ending_def by blast
      then show ?thesis by (rule triple_weaken) auto
    qed auto
  qed
qed

subsection \<open>Completing a step\<close>

lemma map_of_step_completed:
  "map_of (rev result) ''step'' = None \<Longrightarrow>
   map_of (step_completed_payload step n e u result esc) ''step'' = Some (PStr (step_name step))"
  by (auto simp: step_completed_payload_def recorded_def Let_def split: option.splits)

lemma triple_mark_done:
  assumes "r_ops R = ops" and "run_state r = RUNNING" and "map_of p ''step'' = Some (PStr n)"
  shows "triple (going R inv r D st) (p_append R ''step_completed'' p)
    (\<lambda>_. going R inv r (insert n D) st) (\<lambda>_. somewhere R inv)"
proof (rule tripleI)
  fix s x s' assume s: "going R inv r D st s" and a: "p_append R ''step_completed'' p s = (Inr x, s')"
  have "going R inv r D st s'"
    using keepsD [OF stable_append [OF stable_going [OF assms(1,2)] facts_in(5)] s, of p] a by simp
  moreover have "step_done (p_history s') n"
    using p_append_outcome [OF assms(1) _ a] s assms(3) by (auto simp: going_def at_run_def step_done_def)
  ultimately show "going R inv r (insert n D) st s'" by (auto simp: going_def)
next
  fix s e s' assume s: "going R inv r D st s" and a: "p_append R ''step_completed'' p s = (Inl e, s')"
  then show "somewhere R inv s'"
    using keepsD [OF stable_append [OF stable_going [OF assms(1,2)] facts_in(5)] s, of p] by (auto intro: going_somewhere [OF assms(2)])
qed

lemma triple_complete:
  assumes "r_ops R = ops" and "run_state r = RUNNING"
  shows "triple (going R inv r D st) (complete R a e)
    (\<lambda>_. going R inv r (insert (step_name (a_step a)) D) st) (\<lambda>_. somewhere R inv)"
  unfolding complete_def
proof (rule triple_bind)
  let ?p = "\<lambda>p. p = [(''payload_ref'', PStr (a_key a))] \<or> p = [(''payload'', env_payload e)]"
  have k: "keeps (going R inv r D st) (result_of R (a_key a) (env_payload e) (a_rendered a))"
    using stable_going [OF assms] by (rule keeps_result_of)
  show "triple (going R inv r D st) (result_of R (a_key a) (env_payload e) (a_rendered a))
      (\<lambda>p s. going R inv r D st s \<and> ?p p) (\<lambda>_. somewhere R inv)"
    using k by (intro tripleI) (auto simp: keeps_def dest: result_of_payload, (metis snd_conv going_somewhere [OF assms(2)])+)
  fix p
  show "triple (\<lambda>s. going R inv r D st s \<and> ?p p)
      (p_append R ''step_completed'' (step_completed_payload (a_step a) (PInt (a_number a)) e (opt_payload (a_usage a)) p PNone))
      (\<lambda>_. going R inv r (insert (step_name (a_step a)) D) st) (\<lambda>_. somewhere R inv)"
  proof (rule triple_pre)
    assume p: "?p p"
    then have "map_of (rev p) ''step'' = None" by auto
    from triple_mark_done [OF assms map_of_step_completed [OF this]] show ?thesis
      by (rule triple_weaken) auto
  qed auto
qed

lemma triple_complete_approved:
  assumes "r_ops R = ops" and "run_state r = RUNNING"
  shows "triple (going R inv r D st) (complete_approved R step approved)
    (\<lambda>_. going R inv r (insert (step_name step) D) st) (\<lambda>_. somewhere R inv)"
  unfolding complete_approved_def Let_def
  by (intro triple_bind [where Q = "\<lambda>_. going R inv r D st"] triple_lift triple_mark_done [OF assms] map_of_step_completed)
     (auto intro: going_somewhere [OF assms(2)])

definition kept_or_ended ::
  "'s runner \<Rightarrow> run \<Rightarrow> string set \<Rightarrow> string set \<Rightarrow> op_step option \<Rightarrow> run_state option \<Rightarrow> 's pass \<Rightarrow> bool" where
  "kept_or_ended R r D0 D st x s =
     (case x of Some fin \<Rightarrow> arrived R inv D fin s | None \<Rightarrow> going R inv r D0 st s)"

lemma triple_keep:
  assumes "r_ops R = ops" and "run_state r = RUNNING"
    and "triple (going R inv r D0 st) write (\<lambda>_. going R inv r D1 st) (\<lambda>_. somewhere R inv)"
  shows "triple (going R inv r D0 st) (keep R r write) (kept_or_ended R r D1 D st) (\<lambda>_. somewhere R inv)"
  unfolding keep_def
proof (rule triple_bind)
  show "triple (going R inv r D0 st) (observe_cancel R) (\<lambda>c. going R inv r D0 st) (\<lambda>_. somewhere R inv)"
    by (rule triple_weaken [OF triple_observe [OF assms(1,2)]]) (auto intro: going_somewhere [OF assms(2)])
  fix c
  have "triple (going R inv r D0 st) (bind (finish_cancelled R r) (\<lambda>st. ret (Some st)))
      (kept_or_ended R r D1 D st) (\<lambda>_. somewhere R inv)"
    unfolding finish_cancelled_def
    by (rule triple_bind [OF triple_finish [OF assms(1,2) ending_raise [OF assms(2)]]], rule triple_ret) (simp add: kept_or_ended_def)
  moreover have "triple (going R inv r D0 st) (andthen write (ret None))
      (kept_or_ended R r D1 D st) (\<lambda>_. somewhere R inv)"
    by (rule triple_andthen [OF assms(3)], rule triple_ret) (simp add: kept_or_ended_def)
  ultimately show "triple (going R inv r D0 st)
      (if c then bind (finish_cancelled R r) (\<lambda>st. ret (Some st)) else andthen write (ret None))
      (kept_or_ended R r D1 D st) (\<lambda>_. somewhere R inv)" by simp
qed

definition step_or_end ::
  "'s runner \<Rightarrow> run \<Rightarrow> string set \<Rightarrow> string set \<Rightarrow> (run_state + budget_tracker option) \<Rightarrow> 's pass \<Rightarrow> bool" where
  "step_or_end R r D1 D x s =
     (case x of Inl fin \<Rightarrow> arrived R inv D fin s | Inr _ \<Rightarrow> going R inv r D1 None s)"

lemma triple_finish_Inl:
  assumes "r_ops R = ops" and "run_state r = RUNNING" and "ending R r D0 D m"
  shows "triple (going R inv r D0 st) (bind (finish R r m) (\<lambda>x. ret (Inl x)))
    (step_or_end R r D1 D) (\<lambda>_. somewhere R inv)"
  by (rule triple_bind [OF triple_finish [OF assms]], rule triple_ret) (simp add: step_or_end_def)

lemma triple_finish_step:
  assumes "r_ops R = ops" and "run_state r = RUNNING" and "a_step a = step"
  shows "triple (going R inv r D0 st) (finish_step R op r step tracker a)
    (step_or_end R r (insert (step_name step) D0) D) (\<lambda>_. somewhere R inv)"
proof -
  note fin = triple_finish_Inl [OF assms(1,2)]
  have consume: "triple (going R inv r D0 st) (consume_boundary R tracker u) (\<lambda>_. going R inv r D0 st) (\<lambda>_. somewhere R inv)" for u
    by (rule triple_weaken [OF triple_stable [OF assms(1,2)]]) (auto intro: keeps_consume_boundary going_somewhere [OF assms(2)])
  have completed: "triple (going R inv r D0 st)
      (bind (keep R r (complete R a e)) (\<lambda>stopped. case stopped of
          Some st \<Rightarrow> ret (Inl st)
        | None \<Rightarrow> (case stop of None \<Rightarrow> ret (Inr tr)
            | Some (m, d) \<Rightarrow> bind (finish R r (stop_for_budget R r (step_name step) m d)) (\<lambda>st. ret (Inl st)))))
      (step_or_end R r (insert (step_name step) D0) D) (\<lambda>_. somewhere R inv)" for e stop tr
  proof (rule triple_bind [OF triple_keep [OF assms(1,2) triple_complete [OF assms(1,2)], where D = D]])
    fix stopped
    show "triple (kept_or_ended R r (insert (step_name (a_step a)) D0) D st stopped)
        (case stopped of Some st \<Rightarrow> ret (Inl st)
          | None \<Rightarrow> (case stop of None \<Rightarrow> ret (Inr tr)
            | Some (m, d) \<Rightarrow> bind (finish R r (stop_for_budget R r (step_name step) m d)) (\<lambda>st. ret (Inl st))))
        (step_or_end R r (insert (step_name step) D0) D) (\<lambda>_. somewhere R inv)"
    proof (cases stopped)
      case None
      have "triple (kept_or_ended R r (insert (step_name step) D0) D st None)
          (bind (finish R r (stop_for_budget R r (step_name step) m d)) (\<lambda>st. ret (Inl st)))
          (step_or_end R r (insert (step_name step) D0) D) (\<lambda>_. somewhere R inv)" for m d
        by (rule triple_weaken [OF fin [OF ending_budget [OF assms(1,2)]]]) (auto simp: kept_or_ended_def)
      moreover have "triple (kept_or_ended R r (insert (step_name step) D0) D st None) (ret (Inr tr))
          (step_or_end R r (insert (step_name step) D0) D) (\<lambda>_. somewhere R inv)"
        by (rule triple_ret) (auto simp: kept_or_ended_def step_or_end_def going_def)
      ultimately show ?thesis using None by (auto simp: assms(3) split: option.split)
    next
      case (Some x)
      then show ?thesis by (auto intro!: triple_ret simp: kept_or_ended_def step_or_end_def)
    qed
  qed
  show ?thesis
  proof (cases "teardown_error a = None \<and> (\<exists>e. a_outcome a = Ok e)")
    case True
    then obtain e where e: "teardown_error a = None" "a_outcome a = Ok e" by blast
    show ?thesis unfolding finish_step_def e prod.case option.case outcome.case
    proof (rule triple_bind [OF consume], clarify)
      fix tr stop
      show "triple (going R inv r D0 st)
          (case gate_evaluate (step_gate step) e of
             (ESCALATE, why) \<Rightarrow> bind (finish R r (escalate R op r a e why)) (\<lambda>st. ret (Inl st))
           | _ \<Rightarrow> bind (keep R r (complete R a e)) (\<lambda>stopped. case stopped of
               Some st \<Rightarrow> ret (Inl st)
             | None \<Rightarrow> (case stop of None \<Rightarrow> ret (Inr tr)
                 | Some (m, d) \<Rightarrow> bind (finish R r (stop_for_budget R r (step_name step) m d)) (\<lambda>st. ret (Inl st)))))
          (step_or_end R r (insert (step_name step) D0) D) (\<lambda>_. somewhere R inv)"
        using completed [where e = e and stop = stop and tr = tr] fin [OF ending_escalate [OF assms(1,2)]]
        by (auto split: prod.split gate_outcome.split)
    qed
  next
    case False
    have f: "finish_step R op r step tracker a = bind (finish R r (fail_step R r a)) (\<lambda>st. ret (Inl st))"
      using False by (auto simp: finish_step_def split: option.split outcome.split)
    show ?thesis unfolding f by (rule fin [OF ending_fail_step [OF assms(1,2)]])
  qed
qed

subsection \<open>The driver\<close>

lemma triple_start_step:
  assumes "r_ops R = ops" and "run_state r = RUNNING"
  shows "triple (going R inv r D0 None) (start_step R op r retries step tracker)
    (step_or_end R r (insert (step_name step) D0) D) (\<lambda>_. somewhere R inv)"
  unfolding start_step_def run_step_def
proof (rule triple_bind)
  note stable = triple_stable [OF assms]
  show "triple (going R inv r D0 None) (check_boundary R tracker) (\<lambda>_. going R inv r D0 None) (\<lambda>_. somewhere R inv)"
    by (rule triple_weaken [OF stable]) (auto intro: keeps_check_boundary going_somewhere [OF assms(2)])
  fix stop
  have resolved: "triple (going R inv r D0 None) (resolve R op step r retries)
      (\<lambda>a s. going R inv r D0 None s \<and> a_step a = step) (\<lambda>_. somewhere R inv)"
  proof (rule tripleI)
    fix s a s' assume s: "going R inv r D0 None s" and m: "resolve R op step r retries s = (Inr a, s')"
    then have "a_step a = step"
      by (auto simp: resolve_def Let_def andthen_eq_Inr_iff sx_apply new_step_attempt_def)
    with keepsD [OF keeps_resolve [OF stable_going [OF assms]] s] m
    show "going R inv r D0 None s' \<and> a_step a = step" by (metis snd_conv)
  next
    fix s e s' assume s: "going R inv r D0 None s" and m: "resolve R op step r retries s = (Inl e, s')"
    then show "somewhere R inv s'"
      using keepsD [OF keeps_resolve [OF stable_going [OF assms]] s] by (metis snd_conv going_somewhere [OF assms(2)])
  qed
  have attempt: "triple (\<lambda>s. going R inv r D0 None s \<and> a_step a = step)
      (andthen (modify (\<lambda>s. s\<lparr>p_adv := (p_adv s)\<lparr>adv_attempt := Some a\<rparr>\<rparr>)) (andthen (run_attempt R op)
        (bind (observe_cancel R) (\<lambda>c. if c then bind (finish_cancelled R r) (\<lambda>st. ret (Inl st))
           else bind the_attempt (finish_step R op r step tracker)))))
      (step_or_end R r (insert (step_name step) D0) D) (\<lambda>_. somewhere R inv)" for a
  proof (rule triple_andthen)
    let ?G = "going R inv r D0 (Some step)"
    show "triple (\<lambda>s. going R inv r D0 None s \<and> a_step a = step)
        (modify (\<lambda>s. s\<lparr>p_adv := (p_adv s)\<lparr>adv_attempt := Some a\<rparr>\<rparr>)) (\<lambda>_. ?G) (\<lambda>_. somewhere R inv)"
      by (rule triple_modify) (auto simp: going_def at_run_def pass_ok_def)
    show "triple ?G (andthen (run_attempt R op)
        (bind (observe_cancel R) (\<lambda>c. if c then bind (finish_cancelled R r) (\<lambda>st. ret (Inl st))
           else bind the_attempt (finish_step R op r step tracker))))
        (step_or_end R r (insert (step_name step) D0) D) (\<lambda>_. somewhere R inv)"
    proof (rule triple_andthen)
      show "triple ?G (run_attempt R op) (\<lambda>_. ?G) (\<lambda>_. somewhere R inv)"
        by (rule triple_weaken [OF stable]) (auto intro: keeps_run_attempt going_somewhere [OF assms(2)])
      have obs: "triple ?G (observe_cancel R) (\<lambda>c. ?G) (\<lambda>_. somewhere R inv)"
        by (rule triple_weaken [OF stable]) (auto intro: keeps_observe_cancel going_somewhere [OF assms(2)])
      have cancelled: "triple ?G (bind (finish_cancelled R r) (\<lambda>st. ret (Inl st)))
          (step_or_end R r (insert (step_name step) D0) D) (\<lambda>_. somewhere R inv)"
        unfolding finish_cancelled_def by (rule triple_finish_Inl [OF assms ending_raise [OF assms(2)]])
      have read: "triple ?G the_attempt (\<lambda>a s. ?G s \<and> a_step a = step) (\<lambda>_. somewhere R inv)"
        by (rule tripleI) (auto simp: the_attempt_def going_def somewhere_def split: option.splits)
      have "triple ?G (bind the_attempt (finish_step R op r step tracker))
          (step_or_end R r (insert (step_name step) D0) D) (\<lambda>_. somewhere R inv)"
      proof (rule triple_bind [OF read])
        fix x
        show "triple (\<lambda>s. ?G s \<and> a_step x = step) (finish_step R op r step tracker x)
            (step_or_end R r (insert (step_name step) D0) D) (\<lambda>_. somewhere R inv)"
        proof (rule triple_pre)
          assume "a_step x = step"
          then show ?thesis by (intro triple_weaken [OF triple_finish_step [OF assms]]) auto
        qed auto
      qed
      with cancelled show "triple ?G (bind (observe_cancel R) (\<lambda>c. if c then bind (finish_cancelled R r) (\<lambda>st. ret (Inl st))
           else bind the_attempt (finish_step R op r step tracker)))
          (step_or_end R r (insert (step_name step) D0) D) (\<lambda>_. somewhere R inv)"
        by (intro triple_bind [OF obs]) simp
    qed
  qed
  show "triple (going R inv r D0 None)
      (case stop of
         Some (m, d) \<Rightarrow> bind (finish R r (stop_for_budget R r (step_name step) m d)) (\<lambda>st. ret (Inl st))
       | None \<Rightarrow> bind (resolve R op step r retries) (\<lambda>a.
           andthen (modify (\<lambda>s. s\<lparr>p_adv := (p_adv s)\<lparr>adv_attempt := Some a\<rparr>\<rparr>)) (andthen (run_attempt R op)
             (bind (observe_cancel R) (\<lambda>c. if c then bind (finish_cancelled R r) (\<lambda>st. ret (Inl st))
                else bind the_attempt (finish_step R op r step tracker))))))
      (step_or_end R r (insert (step_name step) D0) D) (\<lambda>_. somewhere R inv)"
    using triple_bind [OF resolved attempt] triple_finish_Inl [OF assms ending_budget [OF assms(1,2)]]
    by (auto split: option.split)
qed

lemma triple_advance_end:
  assumes "r_ops R = ops" and "run_state r = RUNNING" and "D \<subseteq> D0"
  shows "triple (going R inv r D0 None) (advance_end R r tracker spent) (arrived R inv D) (\<lambda>_. somewhere R inv)"
  unfolding advance_end_def
proof (rule triple_bind)
  show "triple (going R inv r D0 None) (case spent of None \<Rightarrow> ret None | Some _ \<Rightarrow> check_boundary R tracker)
      (\<lambda>_. going R inv r D0 None) (\<lambda>_. somewhere R inv)"
    by (rule triple_weaken [OF triple_stable [OF assms(1,2)]], intro keeps_intros keeps_check_boundary) (auto intro: going_somewhere [OF assms(2)])
  fix stop
  show "triple (going R inv r D0 None)
      (case (stop, spent) of (Some (m, d), Some step) \<Rightarrow> finish R r (stop_for_budget R r step m d)
       | _ \<Rightarrow> finish R r (complete_run R r)) (arrived R inv D) (\<lambda>_. somewhere R inv)"
    using triple_finish [OF assms(1,2) ending_budget [OF assms(1,2)]]
      triple_finish [OF assms(1,2) ending_complete [OF assms(1,2,3)]]
    by (auto split: option.split)
qed

lemma triple_advance_steps:
  assumes "r_ops R = ops" and "run_state r = RUNNING"
    and "\<forall>n. PStr n \<in> set completed \<longrightarrow> n \<in> D0" and "D \<subseteq> D0 \<union> step_name ` set steps"
  shows "triple (going R inv r D0 None) (advance_steps R op r completed retries tracker spent steps)
    (arrived R inv D) (\<lambda>_. somewhere R inv)"
  using assms(3,4)
proof (induction steps arbitrary: D0 tracker spent)
  case Nil
  then show ?case using triple_advance_end [OF assms(1,2)] by simp
next
  case (Cons step steps)
  let ?D1 = "insert (step_name step) D0"
  show ?case
  proof (cases "PStr (step_name step) \<in> set completed")
    case True
    with Cons.prems have "D \<subseteq> D0 \<union> step_name ` set steps" by auto
    with Cons.IH [OF Cons.prems(1)] True show ?thesis by simp
  next
    case False
    have rest: "triple (going R inv r ?D1 None) (advance_steps R op r completed retries tr sp steps)
        (arrived R inv D) (\<lambda>_. somewhere R inv)" for tr sp
      using Cons.prems by (intro Cons.IH) auto
    have obs: "triple (going R inv r D0 None) (observe_cancel R) (\<lambda>c. going R inv r D0 None) (\<lambda>_. somewhere R inv)"
      by (rule triple_weaken [OF triple_observe [OF assms(1,2)]]) (auto intro: going_somewhere [OF assms(2)])
    have cancelled: "triple (going R inv r D0 None) (finish_cancelled R r) (arrived R inv D) (\<lambda>_. somewhere R inv)"
      unfolding finish_cancelled_def by (rule triple_finish [OF assms(1,2) ending_raise [OF assms(2)]])
    have ap: "triple (going R inv r D0 None) (gets (\<lambda>s. approved_of (p_history s) (step_name step)))
        (\<lambda>_. going R inv r D0 None) (\<lambda>_. somewhere R inv)" by (rule triple_gets)
    have kept: "triple (going R inv r D0 None) (bind (keep R r (complete_approved R step p)) (\<lambda>stopped.
        case stopped of Some st \<Rightarrow> ret st
        | None \<Rightarrow> advance_steps R op r completed retries tracker (Some (step_name step)) steps))
        (arrived R inv D) (\<lambda>_. somewhere R inv)" for p
    proof (rule triple_bind [OF triple_keep [OF assms(1,2) triple_complete_approved [OF assms(1,2)], where D = D]])
      fix stopped
      show "triple (kept_or_ended R r ?D1 D None stopped) (case stopped of Some st \<Rightarrow> ret st
          | None \<Rightarrow> advance_steps R op r completed retries tracker (Some (step_name step)) steps)
          (arrived R inv D) (\<lambda>_. somewhere R inv)"
        by (cases stopped) (auto simp: kept_or_ended_def intro!: triple_ret triple_weaken [OF rest])
    qed
    have started: "triple (going R inv r D0 None) (bind (start_step R op r retries step tracker) (\<lambda>next.
        case next of Inl st \<Rightarrow> ret st
        | Inr tr \<Rightarrow> advance_steps R op r completed retries tr (Some (step_name step)) steps))
        (arrived R inv D) (\<lambda>_. somewhere R inv)"
    proof (rule triple_bind [OF triple_start_step [OF assms(1,2), where D = D]])
      fix x
      show "triple (step_or_end R r ?D1 D x) (case x of Inl st \<Rightarrow> ret st
          | Inr tr \<Rightarrow> advance_steps R op r completed retries tr (Some (step_name step)) steps)
          (arrived R inv D) (\<lambda>_. somewhere R inv)"
        by (cases x) (auto simp: step_or_end_def intro!: triple_ret triple_weaken [OF rest])
    qed
    have choice: "triple (going R inv r D0 None) (case approved of
          Some p \<Rightarrow> bind (keep R r (complete_approved R step p)) (\<lambda>stopped. case stopped of Some st \<Rightarrow> ret st
            | None \<Rightarrow> advance_steps R op r completed retries tracker (Some (step_name step)) steps)
        | None \<Rightarrow> bind (start_step R op r retries step tracker) (\<lambda>next. case next of Inl st \<Rightarrow> ret st
            | Inr tr \<Rightarrow> advance_steps R op r completed retries tr (Some (step_name step)) steps))
        (arrived R inv D) (\<lambda>_. somewhere R inv)" for approved
      using kept started by (cases approved) auto
    show ?thesis
      using False triple_bind [OF obs, of "\<lambda>c. if c then finish_cancelled R r else
          bind (gets (\<lambda>s. approved_of (p_history s) (step_name step))) (\<lambda>approved. case approved of
            Some p \<Rightarrow> bind (keep R r (complete_approved R step p)) (\<lambda>stopped. case stopped of Some st \<Rightarrow> ret st
              | None \<Rightarrow> advance_steps R op r completed retries tracker (Some (step_name step)) steps)
          | None \<Rightarrow> bind (start_step R op r retries step tracker) (\<lambda>next. case next of Inl st \<Rightarrow> ret st
              | Inr tr \<Rightarrow> advance_steps R op r completed retries tr (Some (step_name step)) steps))"]
        cancelled triple_bind [OF ap choice] by simp
  qed
qed

lemma completed_steps_done:
  assumes "completed_steps h = Inr completed" and "PStr n \<in> set completed"
  shows "step_done h n"
proof -
  let ?f = "\<lambda>e. case map_of (payload e) ''step'' of None \<Rightarrow> Inl KeyError
      | Some v \<Rightarrow> if hashable v then Inr v else Inl TypeError"
  have "map_result ?f es = Inr vs \<Longrightarrow> PStr n \<in> set vs \<Longrightarrow> \<exists>e\<in>set es. map_of (payload e) ''step'' = Some (PStr n)"
    for es :: "track_event list" and vs
  proof (induction es arbitrary: vs)
    case (Cons e es)
    then obtain v ws where v: "?f e = Inr v" "map_result ?f es = Inr ws" "vs = v # ws"
      by (auto simp: bind_result_Inr_iff)
    show ?case
    proof (cases "PStr n \<in> set ws")
      case True
      with Cons.IH [OF v(2)] show ?thesis by auto
    next
      case False
      with Cons.prems v have "v = PStr n" by auto
      with v(1) show ?thesis by (auto split: option.splits if_splits)
    qed
  qed simp
  from this [OF assms [unfolded completed_steps_def]] show ?thesis by (auto simp: step_done_def)
qed

lemma triple_advance_from:
  assumes "r_ops R = ops" and "run_state r = RUNNING"
  shows "triple (going R inv r {} None) (advance_from R op r) (arrived R inv (step_name ` set (op_steps op)))
    (\<lambda>_. somewhere R inv)"
  unfolding advance_from_def
proof (rule triple_bind)
  let ?D = "step_name ` set (op_steps op)"
  show "triple (going R inv r {} None) (gets p_history) (\<lambda>h s. going R inv r {} None s \<and> h = p_history s) (\<lambda>_. somewhere R inv)"
    by (rule triple_gets) simp
  fix h
  show "triple (\<lambda>s. going R inv r {} None s \<and> h = p_history s)
      (bind (lift (completed_steps h)) (\<lambda>completed.
        bind (catch (bind (start_tracker R) (\<lambda>t. ret (Inr t)))
               (\<lambda>x. case x of UsageUnavailable m \<Rightarrow> ret (Inl m) | _ \<Rightarrow> raise x)) (\<lambda>tracker.
        case tracker of Inl reason \<Rightarrow> finish R r (fail_accounting R r reason)
        | Inr t \<Rightarrow> advance_steps R op r completed (retry_count h) t None (op_steps op))))
      (arrived R inv ?D) (\<lambda>_. somewhere R inv)"
  proof (rule triple_bind)
    let ?done = "\<lambda>completed. {n. PStr n \<in> set completed}"
    show "triple (\<lambda>s. going R inv r {} None s \<and> h = p_history s) (lift (completed_steps h))
        (\<lambda>completed. going R inv r (?done completed) None) (\<lambda>_. somewhere R inv)"
      by (rule triple_lift) (auto simp: going_def dest: completed_steps_done intro: going_somewhere [OF assms(2)])
    fix completed
    let ?G = "going R inv r (?done completed) None"
    have tracked: "triple ?G (catch (bind (start_tracker R) (\<lambda>t. ret (Inr t)))
               (\<lambda>x. case x of UsageUnavailable m \<Rightarrow> ret (Inl m) | _ \<Rightarrow> raise x)) (\<lambda>_. ?G) (\<lambda>_. somewhere R inv)"
    proof (rule triple_weaken [OF triple_stable [OF assms]])
      fix P assume "stable R P"
      then show "keeps P (catch (bind (start_tracker R) (\<lambda>t. ret (Inr t)))
               (\<lambda>x. case x of UsageUnavailable m \<Rightarrow> ret (Inl m) | _ \<Rightarrow> raise x))"
        by (intro keeps_catch keeps_bind keeps_start_tracker) (auto split: exn.split intro: keeps_intros)
    qed (auto intro: going_somewhere [OF assms(2)])
    show "triple ?G (bind (catch (bind (start_tracker R) (\<lambda>t. ret (Inr t)))
               (\<lambda>x. case x of UsageUnavailable m \<Rightarrow> ret (Inl m) | _ \<Rightarrow> raise x)) (\<lambda>tracker.
        case tracker of Inl reason \<Rightarrow> finish R r (fail_accounting R r reason)
        | Inr t \<Rightarrow> advance_steps R op r completed (retry_count h) t None (op_steps op)))
      (arrived R inv ?D) (\<lambda>_. somewhere R inv)"
    proof (rule triple_bind [OF tracked])
      fix tracker :: "string + budget_tracker option"
      show "triple ?G (case tracker of Inl reason \<Rightarrow> finish R r (fail_accounting R r reason)
          | Inr t \<Rightarrow> advance_steps R op r completed (retry_count h) t None (op_steps op)) (arrived R inv ?D) (\<lambda>_. somewhere R inv)"
        using triple_finish [OF assms ending_fail_accounting [OF assms]]
          triple_advance_steps [OF assms, of completed "?done completed" ?D "op_steps op"]
        by (cases tracker) auto
    qed
  qed
qed

lemma triple_advance:
  assumes "r_ops R = ops" and "run_state r \<in> {SUBMITTED, RUNNING}"
  shows "triple (at_run R inv r) (advance R op) (arrived R inv (step_name ` set (op_steps op))) (\<lambda>_. somewhere R inv)"
  unfolding advance_def
proof (rule triple_andthen)
  show "triple (at_run R inv r) begin_accepting (\<lambda>_. at_run R inv r) (\<lambda>_. somewhere R inv)"
    unfolding begin_accepting_def by (rule triple_modify) (simp add: at_run_def pass_ok_def)
  let ?there = "arrived R inv (step_name ` set (op_steps op))"
  have picked: "triple (at_run R inv r) (if run_state r = SUBMITTED then record_moves R (run_dispatch r Pickup) else ret r)
      (\<lambda>r' s. going R inv r' {} None s \<and> run_state r' = RUNNING) (\<lambda>_. somewhere R inv)"
  proof (cases "run_state r = SUBMITTED")
    case True
    have "triple (going R inv r {} None) (record_moves R (run_dispatch r Pickup))
      (\<lambda>r' s. going R inv r' {} None s \<and> run_state r' = RUNNING) (\<lambda>_. somewhere R inv)"
      by (rule triple_weaken [OF triple_run_move [OF assms(1)]])
         (use True in \<open>auto simp: going_def somewhere_def dest: pickup_lands simp del: run_handler.simps\<close>)
    then have "triple (at_run R inv r) (record_moves R (run_dispatch r Pickup))
      (\<lambda>r' s. going R inv r' {} None s \<and> run_state r' = RUNNING) (\<lambda>_. somewhere R inv)"
      by (rule triple_weaken) (simp add: going_def)
    then show ?thesis using True by simp
  next
    case False
    then show ?thesis using assms(2) by (auto intro!: triple_ret simp: going_def)
  qed
  show "triple (at_run R inv r) (bind (gets p_history) (\<lambda>h. bind (lift (replay h)) (\<lambda>run. bind (need run) (\<lambda>run.
      bind (if run_state run = SUBMITTED then record_moves R (run_dispatch run Pickup) else ret run) (advance_from R op)))))
      ?there (\<lambda>_. somewhere R inv)"
  proof (rule triple_bind)
    show "triple (at_run R inv r) (gets p_history) (\<lambda>h s. at_run R inv r s \<and> replay h = Inr (Some r)) (\<lambda>_. somewhere R inv)"
      by (rule triple_gets) (simp add: at_run_def)
    fix h
    show "triple (\<lambda>s. at_run R inv r s \<and> replay h = Inr (Some r)) (bind (lift (replay h)) (\<lambda>run. bind (need run) (\<lambda>run.
      bind (if run_state run = SUBMITTED then record_moves R (run_dispatch run Pickup) else ret run) (advance_from R op))))
      ?there (\<lambda>_. somewhere R inv)"
    proof (rule triple_pre)
      assume h: "replay h = Inr (Some r)"
      have from_run: "triple (\<lambda>s. going R inv r' {} None s \<and> run_state r' = RUNNING) (advance_from R op r') ?there (\<lambda>_. somewhere R inv)" for r'
        by (rule triple_pre [of _ "run_state r' = RUNNING"]) (auto intro: triple_weaken [OF triple_advance_from [OF assms(1)]])
      have eq: "bind (lift (replay h)) (\<lambda>run. bind (need run) f) = f r" for f :: "run \<Rightarrow> ('s pass, exn, run_state) sx"
        by (rule ext) (simp add: h bind_def need_def sx_apply)
      show ?thesis unfolding eq
        by (rule triple_weaken [OF triple_bind [OF picked from_run]]) auto
    qed auto
  qed
qed

end

end
