(* ===== verification/RunnerCalls.thy ===== *)
theory RunnerCalls
  imports RunnerProofs
begin

section \<open>The calls of a host: what they return, and what they leave on the Track\<close>

text \<open>
  The theorems about the host's calls, proved once for any store that keeps the contract
  \<open>track_store\<close>.  \<open>call_sound\<close> is what every body run under a claim guarantees of the pass
  it ends in, whether it returned or raised; \<open>host_call\<close> is any call of the host, so that
  sequences of them are lists.
\<close>

text \<open>A Track that says the run completed has a completion for every step of the recorded Op.\<close>

definition steps_recorded :: "track_event list \<Rightarrow> bool" where
  "steps_recorded h \<longleftrightarrow>
     (\<exists>op. submitted_definition h = Inr op \<and> (\<forall>step\<in>set (op_steps op). step_done h (step_name step)))"

definition completed_soundly :: "track_event list \<Rightarrow> bool" where
  "completed_soundly h \<longleftrightarrow> (\<forall>r. replay h = Inr (Some r) \<longrightarrow> run_state r = COMPLETED \<longrightarrow> steps_recorded h)"

lemma find_append:
  "List.find P (xs @ ys) = (case List.find P xs of None \<Rightarrow> List.find P ys | Some x \<Rightarrow> Some x)"
  by (induction xs) auto

lemma submitted_definition_extends: "submitted_definition h = Inr op \<Longrightarrow> submitted_definition (h @ h') = Inr op"
  by (auto simp: submitted_definition_def find_append split: option.splits)

lemma canonical_step_names:
  assumes "json_sorted (serialize_op a) = json_sorted (serialize_op b)"
  shows "map step_name (op_steps a) = map step_name (op_steps b)"
proof -
  have step: "json_sorted (serialize_step s) = json_sorted (serialize_step t) \<Longrightarrow> step_name s = step_name t" for s t
    by (simp add: serialize_step_def)
  have steps: "map (\<lambda>s. json_sorted (serialize_step s)) (op_steps a) = map (\<lambda>s. json_sorted (serialize_step s)) (op_steps b)"
    using assms by (simp add: serialize_op_def comp_def)
  show ?thesis
  proof (rule nth_equalityI)
    show len: "length (map step_name (op_steps a)) = length (map step_name (op_steps b))"
      using map_eq_imp_length_eq [OF steps] by simp
    fix i assume "i < length (map step_name (op_steps a))"
    with len have i: "i < length (op_steps a)" "i < length (op_steps b)" by simp_all
    have "json_sorted (serialize_step (op_steps a ! i)) = json_sorted (serialize_step (op_steps b ! i))"
      using arg_cong [OF steps, of "\<lambda>xs. xs ! i"] i by simp
    from step [OF this] show "map step_name (op_steps a) ! i = map step_name (op_steps b) ! i" using i by simp
  qed
qed

lemma same_op_names:
  assumes "same_op h op = Inr ()"
  obtains d where "submitted_definition h = Inr d" and "map step_name (op_steps d) = map step_name (op_steps op)"
proof -
  from assms obtain d where "submitted_definition h = Inr d" "json_sorted (serialize_op d) = json_sorted (serialize_op op)"
    by (auto simp: same_op_def canonical_op_def bind_result_Inr_iff split: if_splits)
  with canonical_step_names that show thesis by blast
qed

text \<open>The pass after a call's body, from the pass before it.\<close>

definition call_sound :: "'s runner \<Rightarrow> ('s \<Rightarrow> bool) \<Rightarrow> 's pass \<Rightarrow> exn + run_state \<Rightarrow> 's pass \<Rightarrow> bool" where
  "call_sound R sound s res s' \<longleftrightarrow>
     sound (p_track s') \<and> p_run s' = p_run s \<and>
     (\<forall>r. extends (log_of (r_ops R) (p_track s) r) (log_of (r_ops R) (p_track s') r)) \<and>
     (\<forall>r. r \<noteq> p_run s \<longrightarrow> log_of (r_ops R) (p_track s') r = log_of (r_ops R) (p_track s) r) \<and>
     completed_soundly (read_track R (p_track s') (p_run s)) \<and>
     (\<forall>st. res = Inr st \<longrightarrow> observe R (p_track s') (p_run s) = Inr (Some st))"

text \<open>The parts every robust property gives.\<close>

definition grown :: "'s runner \<Rightarrow> ('s \<Rightarrow> bool) \<Rightarrow> 's \<Rightarrow> string \<Rightarrow> 's pass \<Rightarrow> bool" where
  "grown R sound t x s \<longleftrightarrow>
     sound (p_track s) \<and> p_run s = x \<and>
     (\<forall>r. extends (log_of (r_ops R) t r) (log_of (r_ops R) (p_track s) r)) \<and>
     (\<forall>r. r \<noteq> x \<longrightarrow> log_of (r_ops R) (p_track s) r = log_of (r_ops R) t r)"

lemma grown_refl: "sound (p_track s) \<Longrightarrow> grown R sound (p_track s) (p_run s) s"
  by (simp add: grown_def)

lemma record_moves_one:
  "record_moves R (Inr (c, [Record ty p])) s =
     (case p_append R ty p s of (Inl x, t) \<Rightarrow> (Inl x, t) | (Inr _, t) \<Rightarrow> (Inr c, t))"
  by (simp add: record_moves_def bind_def andthen_def sx_apply split: prod.split sum.split)

context track_store
begin

lemma robust_grown:
  assumes "r_ops R = ops"
  shows "robust R (grown R inv t x)"
proof -
  have app: "keeps (grown R inv t x) (p_append R ty p)" for ty p
  proof (rule keepsI)
    fix s assume s: "grown R inv t x s"
    let ?e = "new_event R s ty p"
    obtain res u where a: "t_append ops (p_track s) ?e = (res, u)" by (cases "t_append ops (p_track s) ?e")
    have i: "inv (p_track s)" and e: "run_id ?e = x" using s by (simp_all add: grown_def new_event_def)
    have u: "extends (log_of ops (p_track s) r) (log_of ops u r) \<and> (r \<noteq> x \<longrightarrow> log_of ops u r = log_of ops (p_track s) r)" for r
    proof (cases res)
      case (Inl y)
      with append_refuses [OF i] a have "u = p_track s" by metis
      then show ?thesis by simp
    next
      case (Inr e')
      with append_stores [OF i] a e have "log_of ops u r = (if r = x then log_of ops (p_track s) r @ [e'] else log_of ops (p_track s) r)"
        by metis
      then show ?thesis by (simp add: extends_iff)
    qed
    have "inv u" using append_inv [OF i a] .
    moreover have "p_track (snd (p_append R ty p s)) = u" "p_run (snd (p_append R ty p s)) = p_run s"
      using a assms by (cases res; simp add: p_append_def)+
    moreover have "extends (log_of ops t r) (log_of ops u r)" for r
      using s u [of r] assms extends_trans by (auto simp: grown_def)
    ultimately show "grown R inv t x (snd (p_append R ty p s))"
      using s u assms by (simp add: grown_def)
  qed
  have put: "grown R inv t x (s\<lparr>p_track := t_put_payload (r_ops R) (p_track s) r k v\<rparr>)" if "grown R inv t x s" for s r k v
    using that put_keeps [of "p_track s" r k v] by (simp add: grown_def assms)
  show ?thesis using app put by (auto simp: robust_def stable_def grown_def)
qed

lemma grown_history:
  assumes "r_ops R = ops" and "pass_ok R inv s" and "pass_ok R inv s'" and "grown R inv (p_track s) (p_run s) s'"
  shows "\<exists>zs. p_history s' = p_history s @ zs"
proof -
  from assms(4) obtain zs where "log_of ops (p_track s') (p_run s) = log_of ops (p_track s) (p_run s) @ zs"
    by (auto simp: grown_def extends_iff assms(1))
  moreover have "p_run s' = p_run s" using assms(4) by (simp add: grown_def)
  ultimately have "p_history s' = p_history s @ map upgrade zs" using assms(1-3)
    by (auto simp: pass_ok_def read_track_def log_of_def)
  then show ?thesis by blast
qed

text \<open>A move of the run by the driver or a call, as an outcome.\<close>

lemma move_outcome:
  assumes "r_ops R = ops" and "live_call call" and "at_run R inv r s"
    and "record_moves R (run_dispatch r call) s = (res, s')"
  shows "p_run s' = p_run s \<and> (case res of
      Inr r' \<Rightarrow> (\<exists>recs. run_handler r call = Inr (r', recs)) \<and> at_run R inv r' s'
    | Inl _ \<Rightarrow> at_run R inv r s' \<and> p_history s' = p_history s)"
proof -
  have ok: "pass_ok R inv s" using assms(3) by (simp add: at_run_def)
  have g: "going R inv r {} None s" using assms(3) by (simp add: going_def)
  show ?thesis
  proof (cases "run_handler r call")
    case (Inl y)
    with assms show ?thesis by (auto simp: record_moves_def bind_def sx_apply)
  next
    case (Inr t)
    obtain r' recs where t: "t = (r', recs)" by (cases t)
    then obtain ty p where one: "recs = [Record ty p]" using run_handler_one_record Inr by blast
    obtain u s1 where u: "p_append R ty p s = (u, s1)" by (cases "p_append R ty p s")
    have m: "record_moves R (Inr (r', [Record ty p])) s = (res, s')" using assms(4) Inr t one by simp
    have s1: "s1 = s'" using m u by (cases u) (simp_all add: record_moves_one)
    note out = p_append_outcome [OF assms(1) ok u]
    show ?thesis
    proof (cases res)
      case res: (Inl x)
      then have "u = Inl x" using m u by (cases u) (simp_all add: record_moves_one)
      with out assms(3) res s1 show ?thesis by (simp add: at_run_def)
    next
      case res: (Inr r1)
      from tripleD(1) [OF triple_run_move [OF assms(1,2)] g] assms(4) [unfolded res]
      have "(\<exists>recs. run_handler r call = Inr (r1, recs)) \<and> at_run R inv r1 s'" unfolding going_def by blast
      moreover have "p_run s' = p_run s" using out s1 by simp
      ultimately show ?thesis using res by simp
    qed
  qed
qed

end

context track_store
begin

lemma advance_outcome:
  assumes "r_ops R = ops" and "at_run R inv r s" and "run_state r \<in> {SUBMITTED, RUNNING}"
    and "submitted_definition (p_history s) = Inr d" and "map step_name (op_steps d) = map step_name (op_steps op)"
    and "advance R op s = (res, s')"
  shows "call_sound R inv s res s'"
proof -
  let ?D = "step_name ` set (op_steps op)"
  have ok: "pass_ok R inv s" using assms(2) by (simp add: at_run_def)
  have g: "grown R inv (p_track s) (p_run s) s'"
    using keepsD [OF keeps_advance [OF robust_grown [OF assms(1)]], of "p_track s" "p_run s" s op] ok assms(6)
    by (simp add: grown_refl pass_ok_def)
  have run: "p_run s' = p_run s" using g by (simp add: grown_def)
  have "\<exists>r'. at_run R inv r' s' \<and> (run_state r' = COMPLETED \<longrightarrow> (\<forall>n\<in>?D. step_done (p_history s') n)) \<and>
      (\<forall>st. res = Inr st \<longrightarrow> run_state r' = st)"
  proof (cases res)
    case (Inl e)
    with tripleD(2) [OF triple_advance [OF assms(1,3)] assms(2)] assms(6) show ?thesis
      by (fastforce simp: somewhere_def)
  next
    case (Inr st)
    with tripleD(1) [OF triple_advance [OF assms(1,3)] assms(2)] assms(6) have "arrived R inv ?D st s'" by blast
    with Inr show ?thesis by (auto simp: arrived_def)
  qed
  then obtain r' where r': "at_run R inv r' s'" "run_state r' = COMPLETED \<longrightarrow> (\<forall>n\<in>?D. step_done (p_history s') n)"
    "\<forall>st. res = Inr st \<longrightarrow> run_state r' = st" by blast
  have h: "read_track R (p_track s') (p_run s) = p_history s'" "replay (p_history s') = Inr (Some r')"
    using r'(1) run by (simp_all add: at_run_def pass_ok_def)
  have "pass_ok R inv s'" using r'(1) by (simp add: at_run_def)
  from grown_history [OF assms(1) ok this g] obtain zs where zs: "p_history s' = p_history s @ zs" by blast
  have names: "step_name ` set (op_steps d) = ?D" using arg_cong [OF assms(5), of set] by simp
  have "completed_soundly (p_history s')"
    unfolding completed_soundly_def steps_recorded_def
    using h(2) r'(2) [folded names] submitted_definition_extends [OF assms(4), of zs] zs by auto
  then show ?thesis using g h r'(3) by (auto simp: call_sound_def grown_def observe_def)
qed

text \<open>Reading the run's Track, and a body that changes nothing after it.\<close>

lemma load_outcome:
  assumes "inv (p_track s)"
  shows "\<exists>s1. load R s = (Inr (p_history s1), s1) \<and> pass_ok R inv s1 \<and> p_track s1 = p_track s \<and> p_run s1 = p_run s \<and>
    p_history s1 = read_track R (p_track s) (p_run s) \<and> p_calls s1 = p_calls s"
  using assms by (simp add: load_def andthen_def bind_def sx_apply pass_ok_def)

lemma unchanged_sound:
  assumes "pass_ok R inv s" and "completed_soundly (p_history s)"
    and "\<And>st. res = Inr st \<Longrightarrow> \<exists>r. replay (p_history s) = Inr (Some r) \<and> run_state r = st"
  shows "call_sound R inv s res s"
  using assms by (fastforce simp: call_sound_def pass_ok_def observe_def)

text \<open>A move that is recorded, or not, and does not complete the run.\<close>

lemma move_sound:
  assumes "r_ops R = ops" and "live_call call" and "at_run R inv r s" and "completed_soundly (p_history s)"
    and "\<And>r' recs. run_handler r call = Inr (r', recs) \<Longrightarrow> run_state r' \<noteq> COMPLETED"
    and "record_moves R (run_dispatch r call) s = (res, s')"
  shows "call_sound R inv s (case res of Inl e \<Rightarrow> Inl e | Inr r' \<Rightarrow> Inr (run_state r')) s'"
proof -
  have ok: "pass_ok R inv s" using assms(3) by (simp add: at_run_def)
  have g: "grown R inv (p_track s) (p_run s) s'"
    using keepsD [OF keeps_moves [OF robust_grown [OF assms(1)]], of "p_track s" "p_run s" s "run_dispatch r call"] ok assms(6)
    by (simp add: grown_refl pass_ok_def del: run_dispatch_eq)
  note out = move_outcome [OF assms(1-3,6)]
  have "\<exists>r'. at_run R inv r' s' \<and> completed_soundly (p_history s') \<and> (\<forall>x. res = Inr x \<longrightarrow> x = r')"
  proof (cases res)
    case (Inl e)
    with out assms(4) show ?thesis by auto
  next
    case (Inr r')
    with out assms(5) have "at_run R inv r' s'" "run_state r' \<noteq> COMPLETED" by auto
    then show ?thesis using Inr by (auto simp: completed_soundly_def at_run_def)
  qed
  then show ?thesis using g by (auto simp: call_sound_def grown_def at_run_def pass_ok_def observe_def split: sum.splits)
qed

lemma call_sound_trans:
  assumes "call_sound R inv s res1 s1" and "call_sound R inv s1 res s'"
  shows "call_sound R inv s res s'"
  using assms by (auto simp: call_sound_def intro: extends_trans)

lemma call_sound_cong:
  "p_track t = p_track s \<Longrightarrow> p_run t = p_run s \<Longrightarrow> call_sound R inv t res s' \<longleftrightarrow> call_sound R inv s res s'"
  by (simp add: call_sound_def)

end

text \<open>The bodies of the calls, from a pass that has read nothing yet.\<close>

context track_store
begin

lemma submission_outcome:
  assumes "r_ops R = ops" and "pass_ok R inv s" and "p_history s = []" and "op_ok op" and "p_run s = op_run_id op"
    and "record_moves R (Inr (run_submit (op_run_id op) (serialize_op op) None None)) s = (res, s')"
  shows "call_sound R inv s (Inl x) s' \<and> pass_ok R inv s' \<and> p_run s' = p_run s \<and>
    (\<forall>r. res = Inr r \<longrightarrow> at_run R inv (new_run (op_run_id op)) s' \<and> submitted_definition (p_history s') = Inr op)"
proof -
  have rec: "run_submit (op_run_id op) (serialize_op op) None None =
      (new_run (op_run_id op), [Record ''op_submitted'' [(''op'', serialize_op op)]])"
    by (simp add: run_submit_def)
  obtain u s1 where u: "p_append R ''op_submitted'' [(''op'', serialize_op op)] s = (u, s1)"
    by (cases "p_append R ''op_submitted'' [(''op'', serialize_op op)] s")
  have s1: "s1 = s'" "\<And>r. res = Inr r \<Longrightarrow> u = Inr ()" using assms(6) u by (cases u; simp add: rec record_moves_one)+
  note out = p_append_outcome [OF assms(1,2) u, unfolded s1(1)]
  have g: "grown R inv (p_track s) (p_run s) s'"
    using keepsD [OF robust_append [OF robust_grown [OF assms(1)]], of "p_track s" "p_run s" s] u s1(1) assms(2)
    by (metis grown_refl pass_ok_def snd_conv)
  have hist: "p_history s' = [] \<or> (\<exists>e. p_history s' = [e] \<and> event_type e = ''op_submitted'' \<and>
      payload e = [(''op'', serialize_op op)] \<and> run_id e = op_run_id op)"
    using out assms(3,5) by (cases u) auto
  then have "completed_soundly (p_history s')"
    by (auto simp: completed_soundly_def replay_submission SUBMISSIONS_def new_run_def) (simp add: replay_def)
  moreover have "read_track R (p_track s') (p_run s) = p_history s'" using out by (elim conjE) (simp add: pass_ok_def)
  ultimately have "call_sound R inv s (Inl x) s'" using g by (simp add: call_sound_def grown_def)
  moreover have "at_run R inv (new_run (op_run_id op)) s' \<and> submitted_definition (p_history s') = Inr op" if r: "res = Inr r" for r
  proof -
    obtain e where e: "p_history s' = [e]" "event_type e = ''op_submitted''" "payload e = [(''op'', serialize_op op)]" "run_id e = op_run_id op"
      using out s1(2) [OF r] assms(3,5) by auto
    then show ?thesis using out deserialize_serialize_op [OF assms(4)]
      by (simp add: at_run_def replay_submission SUBMISSIONS_def submitted_definition_def)
  qed
  ultimately show ?thesis using out by blast
qed

lemma submit_body_sound:
  assumes "r_ops R = ops" and "inv (p_track s)" and "p_run s = op_run_id op" and "op_ok op"
    and "completed_soundly (read_track R (p_track s) (p_run s))" and "submit_body R op s = (res, s')"
  shows "call_sound R inv s res s'"
proof -
  from load_outcome [OF assms(2), of R] obtain s1 where l: "load R s = (Inr (p_history s1), s1)" "pass_ok R inv s1"
    "p_track s1 = p_track s" "p_run s1 = p_run s" "p_history s1 = read_track R (p_track s) (p_run s)" by blast
  note cong = call_sound_cong [OF l(3,4)]
  have ok: "completed_soundly (p_history s1)" using assms(5) l(5) by simp
  have same: "call_sound R inv s1 r s1" if "\<And>st. r = Inr st \<Longrightarrow> \<exists>x. replay (p_history s1) = Inr (Some x) \<and> run_state x = st" for r
    using that by (rule unchanged_sound [OF l(2) ok])
  show ?thesis
  proof (cases "p_history s1 = []")
    case True
    obtain m s2 where m: "record_moves R (Inr (run_submit (op_run_id op) (serialize_op op) None None)) s1 = (m, s2)"
      by (cases "record_moves R (Inr (run_submit (op_run_id op) (serialize_op op) None None)) s1")
    note sub = submission_outcome [OF assms(1) l(2) True assms(4) _ m]
    show ?thesis
    proof (cases m)
      case (Inl x)
      then have "res = Inl x" "s' = s2" using assms(6) l(1) True m by (simp_all add: submit_body_def bind_def andthen_def)
      then show ?thesis using sub [of x] l(4) assms(3) cong by simp
    next
      case (Inr r)
      then have adv: "advance R op s2 = (res, s')" using assms(6) l(1) True m by (simp add: submit_body_def bind_def andthen_def)
      have "call_sound R inv s2 res s'"
        using sub Inr l(4) assms(3) by (intro advance_outcome [OF assms(1) _ _ _ refl adv, of "new_run (op_run_id op)"]) (auto simp: new_run_def)
      then show ?thesis using sub l(4) assms(3) cong call_sound_trans by metis
    qed
  next
    case False
    show ?thesis
    proof (cases "same_op (p_history s1) op")
      case (Inl x)
      then have "res = Inl x" "s' = s1" using assms(6) l(1) False by (simp_all add: submit_body_def bind_def andthen_def sx_apply)
      then show ?thesis using same [of "Inl x"] cong by simp
    next
      case (Inr u)
      then obtain d where d: "submitted_definition (p_history s1) = Inr d" "map step_name (op_steps d) = map step_name (op_steps op)"
        using same_op_names [of "p_history s1" op] by auto
      have b: "bind (lift (replay (p_history s1))) (\<lambda>run. case run of None \<Rightarrow> advance R op | Some r \<Rightarrow>
           if ended (run_state r) then ret (run_state r) else if run_state r \<noteq> SUBMITTED then ret (run_state r)
           else advance R op) s1 = (res, s')"
        using assms(6) l(1) False Inr by (simp add: submit_body_def bind_def andthen_def sx_apply)
      show ?thesis
      proof (cases "replay (p_history s1)")
        case (Inl x)
        then have "res = Inl x" "s' = s1" using b by (simp_all add: bind_def sx_apply)
        then show ?thesis using same [of "Inl x"] cong by simp
      next
        case rp: (Inr c)
        show ?thesis
        proof (cases c)
          case None
          then have "advance R op s1 = (res, s')" using b rp by (simp add: bind_def sx_apply)
          then have "res = Inl AttributeError \<and> (\<exists>a. s' = s1\<lparr>p_adv := a\<rparr>)"
            using rp None by (auto simp: advance_def begin_accepting_def andthen_def bind_def sx_apply need_def)
          then show ?thesis using same [of "Inl AttributeError", unfolded call_sound_def] l(3,4) by (auto simp: call_sound_def)
        next
          case (Some r)
          show ?thesis
          proof (cases "run_state r = SUBMITTED")
            case True
            then have "advance R op s1 = (res, s')" using b rp Some by (simp add: bind_def sx_apply)
            then have "call_sound R inv s1 res s'"
              using True rp Some l(2) by (intro advance_outcome [OF assms(1) _ _ d, of r]) (auto simp: at_run_def)
            then show ?thesis using cong by simp
          next
            case False
            then have "res = Inr (run_state r)" "s' = s1" using b rp Some by (auto simp: bind_def sx_apply split: if_splits)
            then show ?thesis using same [of res] rp Some cong by simp
          qed
        qed
      qed
    qed
  qed
qed

end

context track_store
begin

text \<open>A body that reads the run and needs one to be there.\<close>

lemma on_run_sound:
  assumes "r_ops R = ops" and "inv (p_track s)" and "completed_soundly (read_track R (p_track s) (p_run s))"
    and "bind (load R) (\<lambda>es. bind (lift (replay es)) (\<lambda>run. case run of None \<Rightarrow> raise x | Some r \<Rightarrow> f es r)) s = (res, s')"
    and "\<And>s1 r. at_run R inv r s1 \<Longrightarrow> completed_soundly (p_history s1) \<Longrightarrow> f (p_history s1) r s1 = (res, s') \<Longrightarrow>
      call_sound R inv s1 res s'"
  shows "call_sound R inv s res s'"
proof -
  from load_outcome [OF assms(2), of R] obtain s1 where l: "load R s = (Inr (p_history s1), s1)" "pass_ok R inv s1"
    "p_track s1 = p_track s" "p_run s1 = p_run s" "p_history s1 = read_track R (p_track s) (p_run s)" by blast
  have ok: "completed_soundly (p_history s1)" using assms(3) l(5) by simp
  have stay: "call_sound R inv s1 (Inl y) s1" for y using unchanged_sound [OF l(2) ok, of "Inl y"] by simp
  have "call_sound R inv s1 res s'"
  proof (cases "replay (p_history s1)")
    case (Inl y)
    with assms(4) l(1) have "res = Inl y \<and> s' = s1" by (auto simp: bind_def sx_apply)
    then show ?thesis using stay by simp
  next
    case (Inr c)
    show ?thesis
    proof (cases c)
      case None
      with Inr assms(4) l(1) have "res = Inl x \<and> s' = s1" by (auto simp: bind_def sx_apply)
      then show ?thesis using stay by simp
    next
      case (Some r)
      with Inr assms(4) l(1) have "f (p_history s1) r s1 = (res, s')" by (simp add: bind_def sx_apply)
      moreover have "at_run R inv r s1" using Inr Some l(2) by (simp add: at_run_def)
      ultimately show ?thesis using assms(5) ok by blast
    qed
  qed
  then show ?thesis using call_sound_cong [OF l(3,4)] by simp
qed

lemma raised_sound: "at_run R inv r s \<Longrightarrow> completed_soundly (p_history s) \<Longrightarrow> call_sound R inv s (Inl x) s"
  by (rule unchanged_sound) (auto simp: at_run_def)

text \<open>A move, then the driver if the run is running after it.\<close>

lemma move_then_advance:
  assumes "r_ops R = ops" and "live_call call" and "at_run R inv r s" and "completed_soundly (p_history s)"
    and "\<And>r' recs. run_handler r call = Inr (r', recs) \<Longrightarrow> run_state r' \<noteq> COMPLETED"
    and "submitted_definition (p_history s) = Inr op"
    and "bind (record_moves R (run_dispatch r call)) (\<lambda>r. if run_state r \<noteq> RUNNING then ret (run_state r) else advance R op) s = (res, s')"
  shows "call_sound R inv s res s'"
proof -
  obtain m s1 where m: "record_moves R (run_dispatch r call) s = (m, s1)" by (cases "record_moves R (run_dispatch r call) s")
  note ms = move_sound [OF assms(1-5) m] and mo = move_outcome [OF assms(1-3) m]
  show ?thesis
  proof (cases m)
    case (Inl x)
    with assms(7) m ms show ?thesis by (simp add: bind_def del: run_dispatch_eq)
  next
    case (Inr r')
    show ?thesis
    proof (cases "run_state r' = RUNNING")
      case False
      with Inr assms(7) m ms show ?thesis by (simp add: bind_def sx_apply del: run_dispatch_eq)
    next
      case True
      then have adv: "advance R op s1 = (res, s')" using assms(7) m Inr by (simp add: bind_def del: run_dispatch_eq)
      have at1: "at_run R inv r' s1" using mo Inr by simp
      have ok: "pass_ok R inv s" "pass_ok R inv s1" using assms(3) at1 by (simp_all add: at_run_def)
      have "grown R inv (p_track s) (p_run s) s1" using ms by (simp add: call_sound_def grown_def)
      then obtain zs where "p_history s1 = p_history s @ zs" using grown_history [OF assms(1) ok] by blast
      then have "submitted_definition (p_history s1) = Inr op" using submitted_definition_extends [OF assms(6)] by simp
      then have "call_sound R inv s1 res s'" using at1 True by (intro advance_outcome [OF assms(1) _ _ _ refl adv, of r']) auto
      with ms show ?thesis by (rule call_sound_trans)
    qed
  qed
qed

lemma not_completing:
  "run_handler r Retry = Inr (r', recs) \<Longrightarrow> run_state r' = RUNNING"
  "run_handler r (Decide a b c d e f) = Inr (r', recs) \<Longrightarrow> run_state r' \<noteq> COMPLETED"
  "run_handler r (HostStopped b) = Inr (r', recs) \<Longrightarrow> run_state r' = INTERRUPTED"
  by (auto simp: run_handler_defs Let_def bind_result_Inr_iff split: if_splits run_state.splits)

lemma retry_body_sound:
  assumes "r_ops R = ops" and "inv (p_track s)" and "completed_soundly (read_track R (p_track s) (p_run s))"
    and "retry_body R s = (res, s')"
  shows "call_sound R inv s res s'"
  using assms(1-3)
proof (rule on_run_sound [OF _ _ _ assms(4) [unfolded retry_body_def]])
  fix s1 :: "'s pass" and r
  let ?f = "if \<not> ended (run_state r) then raise ValueError
         else if run_state r = BUDGET_EXCEEDED then raise ValueError
         else if \<not> accepts run_edges (run_state r) ''retry'' then raise ValueError
         else bind (lift (submitted_definition (p_history s1))) (\<lambda>op.
              andthen (record_moves R (run_dispatch r Retry)) (advance R op))"
  assume at: "at_run R inv r s1" "completed_soundly (p_history s1)" and f: "?f s1 = (res, s')"
  show "call_sound R inv s1 res s'"
  proof (cases "\<not> ended (run_state r) \<or> run_state r = BUDGET_EXCEEDED \<or> \<not> accepts run_edges (run_state r) ''retry''")
    case True
    then have "res = Inl ValueError \<and> s' = s1" using f by (auto simp: sx_apply split: if_splits)
    then show ?thesis using raised_sound [OF at] by simp
  next
    case False
    show ?thesis
    proof (cases "submitted_definition (p_history s1)")
      case (Inl x)
      then have "res = Inl x \<and> s' = s1" using f False by (auto simp: bind_def sx_apply)
      then show ?thesis using raised_sound [OF at] by simp
    next
      case (Inr op)
      have moved: "run_state r' = RUNNING" if "record_moves R (run_dispatch r Retry) s1 = (Inr r', t)" for r' t
        using move_outcome [OF assms(1) _ at(1) that] by (auto dest: not_completing(1) simp del: run_handler.simps)
      have "andthen (record_moves R (run_dispatch r Retry)) (advance R op) s1 = (res, s')"
        using f False Inr by (simp add: bind_def sx_apply del: run_dispatch_eq)
      then have "bind (record_moves R (run_dispatch r Retry)) (\<lambda>r. if run_state r \<noteq> RUNNING then ret (run_state r) else advance R op) s1 = (res, s')"
        using moved by (auto simp: andthen_def bind_def split: prod.splits sum.splits simp del: run_dispatch_eq)
      then show ?thesis
        by (intro move_then_advance [OF assms(1) _ at _ Inr]) (auto dest: not_completing(1) simp del: run_handler.simps)
    qed
  qed
qed

lemma cancel_body_sound:
  assumes "r_ops R = ops" and "inv (p_track s)" and "completed_soundly (read_track R (p_track s) (p_run s))"
    and "cancel_body R actor s = (res, s')"
  shows "call_sound R inv s res s'"
  using assms(1-3)
proof (rule on_run_sound [OF _ _ _ assms(4) [unfolded cancel_body_def]])
  fix s1 :: "'s pass" and r
  assume at: "at_run R inv r s1" "completed_soundly (p_history s1)"
    and f: "bind (record_moves R (run_dispatch r (Cancel (PStr actor)))) (\<lambda>r. ret (run_state r)) s1 = (res, s')"
  obtain m t where m: "record_moves R (run_dispatch r (Cancel (PStr actor))) s1 = (m, t)"
    by (cases "record_moves R (run_dispatch r (Cancel (PStr actor))) s1")
  have "res = (case m of Inl e \<Rightarrow> Inl e | Inr r' \<Rightarrow> Inr (run_state r'))" "t = s'"
    using f m by (auto simp: bind_def sx_apply split: sum.splits simp del: run_dispatch_eq)
  then show "call_sound R inv s1 res s'"
    using move_sound [OF assms(1) _ at _ m] by (auto dest: not_completed(1) simp del: run_handler.simps)
qed

end

context track_store
begin

lemma lift_then_sound:
  assumes "at_run R inv r s" and "completed_soundly (p_history s)" and "bind (lift v) g s = (res, s')"
    and "\<And>x. v = Inr x \<Longrightarrow> g x s = (res, s') \<Longrightarrow> call_sound R inv s res s'"
  shows "call_sound R inv s res s'"
  using assms raised_sound [OF assms(1,2)] by (cases v) (auto simp: bind_def sx_apply)

lemma decide_body_sound:
  assumes "r_ops R = ops" and "inv (p_track s)" and "completed_soundly (read_track R (p_track s) (p_run s))"
    and "decide_body R escalation actor verdict findings s = (res, s')"
  shows "call_sound R inv s res s'"
  using assms(1-3)
proof (rule on_run_sound [OF _ _ _ assms(4) [unfolded decide_body_def]])
  fix s1 :: "'s pass" and r
  let ?call = "\<lambda>dig. Decide (PStr verdict) (opt_str escalation) (PList findings)
                 (case max_revisions R of None \<Rightarrow> PNone | Some n \<Rightarrow> PInt n) (PStr actor) dig"
  let ?f = "if run_state r \<noteq> WAITING_AT_GATE then raise ValueError
         else
           bind (lift (open_escalation_of (p_history s1) (Some r))) (\<lambda>waiting_on.
           if verdict = ''approve'' \<and> (case waiting_on of None \<Rightarrow> False | Some w \<Rightarrow> py_get w ''envelope'' = PNone)
           then raise ValueError
           else
             bind (lift (submitted_definition (p_history s1))) (\<lambda>op.
             bind (lift (decided_on R waiting_on)) (\<lambda>dig.
             bind (record_moves R (run_dispatch r (?call dig))) (\<lambda>r.
             if run_state r \<noteq> RUNNING then ret (run_state r) else advance R op))))"
  assume at: "at_run R inv r s1" "completed_soundly (p_history s1)" and f: "?f s1 = (res, s')"
  note raised = raised_sound [OF at] and lifted = lift_then_sound [OF at]
  show "call_sound R inv s1 res s'"
  proof (cases "run_state r = WAITING_AT_GATE")
    case False
    then have "res = Inl ValueError \<and> s' = s1" using f by (auto simp: sx_apply)
    then show ?thesis using raised by simp
  next
    case True
    with f have "bind (lift (open_escalation_of (p_history s1) (Some r))) (\<lambda>waiting_on.
           if verdict = ''approve'' \<and> (case waiting_on of None \<Rightarrow> False | Some w \<Rightarrow> py_get w ''envelope'' = PNone)
           then raise ValueError
           else
             bind (lift (submitted_definition (p_history s1))) (\<lambda>op.
             bind (lift (decided_on R waiting_on)) (\<lambda>dig.
             bind (record_moves R (run_dispatch r (?call dig))) (\<lambda>r.
             if run_state r \<noteq> RUNNING then ret (run_state r) else advance R op)))) s1 = (res, s')" by simp
    then show ?thesis
    proof (rule lifted)
      fix w
      assume g: "(if verdict = ''approve'' \<and> (case w of None \<Rightarrow> False | Some w \<Rightarrow> py_get w ''envelope'' = PNone)
           then raise ValueError
           else
             bind (lift (submitted_definition (p_history s1))) (\<lambda>op.
             bind (lift (decided_on R w)) (\<lambda>dig.
             bind (record_moves R (run_dispatch r (?call dig))) (\<lambda>r.
             if run_state r \<noteq> RUNNING then ret (run_state r) else advance R op)))) s1 = (res, s')"
      show ?thesis
      proof (cases "verdict = ''approve'' \<and> (case w of None \<Rightarrow> False | Some w \<Rightarrow> py_get w ''envelope'' = PNone)")
        case True
        then have "res = Inl ValueError \<and> s' = s1" using g by (auto simp: sx_apply)
        then show ?thesis using raised by simp
      next
        case False
        with g have "bind (lift (submitted_definition (p_history s1))) (\<lambda>op.
             bind (lift (decided_on R w)) (\<lambda>dig.
             bind (record_moves R (run_dispatch r (?call dig))) (\<lambda>r.
             if run_state r \<noteq> RUNNING then ret (run_state r) else advance R op))) s1 = (res, s')" by (simp only: if_False)
        then show ?thesis
        proof (rule lifted)
          fix op assume op: "submitted_definition (p_history s1) = Inr op"
            and g: "bind (lift (decided_on R w)) (\<lambda>dig.
             bind (record_moves R (run_dispatch r (?call dig))) (\<lambda>r.
             if run_state r \<noteq> RUNNING then ret (run_state r) else advance R op)) s1 = (res, s')"
          show ?thesis
          proof (rule lifted [OF g])
            fix dig
            assume "bind (record_moves R (run_dispatch r (?call dig))) (\<lambda>r.
             if run_state r \<noteq> RUNNING then ret (run_state r) else advance R op) s1 = (res, s')"
            then show ?thesis
              by (rule move_then_advance [OF assms(1) _ at _ op, rotated 2]) (auto dest: not_completing(2) simp del: run_handler.simps)
          qed
        qed
      qed
    qed
  qed
qed

text \<open>One run of \<open>start()\<close>'s loop.\<close>

definition interrupted_or_not :: "'s runner \<Rightarrow> 's pass \<Rightarrow> exn + bool \<Rightarrow> 's pass \<Rightarrow> bool" where
  "interrupted_or_not R s res s' \<longleftrightarrow>
     (res = Inr True \<longrightarrow> observe R (p_track s) (p_run s) \<in> {Inr (Some RUNNING), Inr (Some WAITING_AT_GATE)} \<and>
        observe R (p_track s') (p_run s) = Inr (Some INTERRUPTED)) \<and>
     (res = Inr False \<longrightarrow> p_track s' = p_track s \<and>
        observe R (p_track s) (p_run s) \<notin> {Inr (Some RUNNING), Inr (Some WAITING_AT_GATE)}) \<and>
     (\<forall>x. res = Inl x \<longrightarrow> (\<forall>r. log_of (r_ops R) (p_track s') r = log_of (r_ops R) (p_track s) r) \<and>
        (observe R (p_track s) (p_run s) = Inl x \<or> backend_name (r_backend R) \<noteq> ''none'' \<or>
         \<not> is_invalid_transition x \<and> x \<noteq> RunBusy))"

lemma move_refused:
  assumes "r_ops R = ops" and "inv (p_track s)" and "record_moves R (run_dispatch r call) s = (Inl x, s')"
  shows "p_track s' = p_track s \<and> (run_handler r call = Inl x \<or> \<not> is_invalid_transition x \<and> x \<noteq> RunBusy)"
proof (cases "run_handler r call")
  case (Inl y)
  with assms(3) show ?thesis by (auto simp: record_moves_def bind_def sx_apply)
next
  case (Inr t)
  obtain r' recs where t: "t = (r', recs)" by (cases t)
  then obtain ty p where one: "recs = [Record ty p]" using run_handler_one_record Inr by blast
  obtain u s1 where u: "p_append R ty p s = (u, s1)" by (cases "p_append R ty p s")
  have "record_moves R (Inr (r', [Record ty p])) s = (Inl x, s')" using assms(3) Inr t one by simp
  then have "s1 = s'" "u = Inl x" using u by (cases u; simp add: record_moves_one)+
  with u have a: "fst (t_append ops (p_track s) (new_event R s ty p)) = Inl x" "p_track s' = snd (t_append ops (p_track s) (new_event R s ty p))"
    using assms(1) by (auto simp: p_append_def split: prod.splits sum.splits)
  then have "t_append ops (p_track s) (new_event R s ty p) = (Inl x, p_track s')" by (metis prod.collapse)
  then show ?thesis using append_refuses [OF assms(2)] append_errors by metis
qed

lemma interrupt_body_outcome:
  assumes "r_ops R = ops" and "inv (p_track s)" and "completed_soundly (read_track R (p_track s) (p_run s))"
    and "interrupt_body R s = (res, s')"
  shows "call_sound R inv s (Inl x) s' \<and> interrupted_or_not R s res s'"
proof -
  from load_outcome [OF assms(2), of R] obtain s1 where l: "load R s = (Inr (p_history s1), s1)" "pass_ok R inv s1"
    "p_track s1 = p_track s" "p_run s1 = p_run s" "p_history s1 = read_track R (p_track s) (p_run s)" by blast
  have ok: "completed_soundly (p_history s1)" using assms(3) l(5) by simp
  have stay: "call_sound R inv s (Inl y) s1" for y using unchanged_sound [OF l(2) ok, of "Inl y"] call_sound_cong [OF l(3,4)] by simp
  have obs: "observe R (p_track s) (p_run s) = bind_result (replay (p_history s1)) (\<lambda>run. Inr (map_option run_state run))"
    by (simp add: observe_def l(5))
  consider (bad) y where "replay (p_history s1) = Inl y" | (none) "replay (p_history s1) = Inr None"
    | (other) r where "replay (p_history s1) = Inr (Some r)" "run_state r \<notin> {RUNNING, WAITING_AT_GATE}"
    | (active) r where "replay (p_history s1) = Inr (Some r)" "run_state r \<in> {RUNNING, WAITING_AT_GATE}"
  proof (cases "replay (p_history s1)")
    case (Inr c)
    then show ?thesis using none other active by (cases c) blast+
  qed (use bad in blast)
  then show ?thesis
  proof cases
    case bad
    then have "res = Inl y \<and> s' = s1" using assms(4) l(1) by (auto simp: interrupt_body_def bind_def sx_apply)
    then show ?thesis using stay obs bad l(3) by (simp add: interrupted_or_not_def)
  next
    case none
    then have "res = Inr False \<and> s' = s1" using assms(4) l(1) by (auto simp: interrupt_body_def bind_def sx_apply)
    then show ?thesis using stay obs none l(3) by (simp add: interrupted_or_not_def)
  next
    case other
    then have "res = Inr False \<and> s' = s1" using assms(4) l(1) by (auto simp: interrupt_body_def bind_def sx_apply)
    then show ?thesis using stay obs other l(3) by (simp add: interrupted_or_not_def)
  next
    case active
    let ?c = "HostStopped (PStr (backend_name (r_backend R)))"
    have at: "at_run R inv r s1" using active l(2) by (simp add: at_run_def)
    obtain m t where m: "record_moves R (run_dispatch r ?c) s1 = (m, t)" by (cases "record_moves R (run_dispatch r ?c) s1")
    have res: "res = (case m of Inl e \<Rightarrow> Inl e | Inr _ \<Rightarrow> Inr True)" "s' = t"
      using assms(4) l(1) active m
      by (auto simp: interrupt_body_def bind_def andthen_def sx_apply split: sum.splits simp del: run_dispatch_eq)
    have "call_sound R inv s1 (case m of Inl e \<Rightarrow> Inl e | Inr r' \<Rightarrow> Inr (run_state r')) t"
      by (rule move_sound [OF assms(1) _ at ok _ m]) (auto dest: not_completing(3) simp del: run_handler.simps)
    then have sound: "call_sound R inv s (case m of Inl e \<Rightarrow> Inl e | Inr r' \<Rightarrow> Inr (run_state r')) t"
      using call_sound_cong [OF l(3,4)] by simp
    have before: "observe R (p_track s) (p_run s) \<in> {Inr (Some RUNNING), Inr (Some WAITING_AT_GATE)}"
      using obs active by auto
    have "interrupted_or_not R s res s'"
    proof (cases m)
      case (Inl e)
      have "backend_name (r_backend R) = ''none'' \<Longrightarrow> run_handler r ?c \<noteq> Inl e" using active(2) by (auto simp: run_host_stopped_def)
      with move_refused [OF assms(1) _ m [unfolded Inl]] l(2,3) Inl res show ?thesis
        by (auto simp: interrupted_or_not_def pass_ok_def simp del: run_handler.simps)
    next
      case (Inr r')
      then have "run_state r' = INTERRUPTED"
        using move_outcome [OF assms(1) _ at m] by (auto dest: not_completing(3) simp del: run_handler.simps)
      with Inr sound res before show ?thesis by (simp add: interrupted_or_not_def call_sound_def)
    qed
    moreover have "call_sound R inv s (Inl x) s'" using sound res(2) by (simp add: call_sound_def)
    ultimately show ?thesis by simp
  qed
qed

end

end
