(* ===== verification/HostCalls.thy ===== *)
theory HostCalls
  imports RunnerCalls
begin

section \<open>A host and any sequence of its calls\<close>

text \<open>
  Any call a host takes is a \<open>host_call\<close>; \<open>host_do\<close> is the call with what it returns, and
  a list of calls is a history of the host, in the order their claims were taken.  The theorems
  are stated of the SQLite store, through the interpretation \<open>sqlite\<close> of the store contract.
\<close>

datatype host_call =
    Submit op_definition
  | RetryRun string
  | DecideRun string "string option" string string pyval
  | CancelRun string string
  | StartHost

fun call_run :: "host_call \<Rightarrow> string option" where
  "call_run (Submit op) = Some (op_run_id op)"
| "call_run (RetryRun r) = Some r"
| "call_run (DecideRun r _ _ _ _) = Some r"
| "call_run (CancelRun r _) = Some r"
| "call_run StartHost = None"

definition some_state :: "(exn + run_state) \<times> 's host \<Rightarrow> (exn + run_state option) \<times> 's host" where
  "some_state x = (case x of (Inl e, h) \<Rightarrow> (Inl e, h) | (Inr st, h) \<Rightarrow> (Inr (Some st), h))"

fun host_do :: "'s runner \<Rightarrow> host_call \<Rightarrow> 's host \<Rightarrow> (exn + run_state option) \<times> 's host" where
  "host_do R (Submit op) h = some_state (submit R op h)"
| "host_do R (RetryRun r) h = some_state (retry R r h)"
| "host_do R (DecideRun r e a v f) h = some_state (decide R r e a v f h)"
| "host_do R (CancelRun r a) h = cancel R r a h"
| "host_do R StartHost h = (case start R h of (Inl e, t) \<Rightarrow> (Inl e, t) | (Inr _, t) \<Rightarrow> (Inr None, t))"

definition host_step :: "'s runner \<Rightarrow> 's host \<Rightarrow> host_call \<Rightarrow> 's host" where
  "host_step R h c = snd (host_do R c h)"

text \<open>An Op is valid when its Gates are, which \<open>Gate.__post_init__\<close> sees to.\<close>

fun host_call_ok :: "host_call \<Rightarrow> bool" where
  "host_call_ok (Submit op) = op_ok op"
| "host_call_ok _ = True"

definition host_ok :: "'s runner \<Rightarrow> ('s \<Rightarrow> bool) \<Rightarrow> 's host \<Rightarrow> bool" where
  "host_ok R sound h \<longleftrightarrow> sound (h_track h) \<and> (\<forall>r. completed_soundly (read_track R (h_track h) r))"

text \<open>What one call may have done to a host: \<open>only\<close> says which runs' Tracks may have grown.\<close>

definition host_grown :: "'s runner \<Rightarrow> ('s \<Rightarrow> bool) \<Rightarrow> (string \<Rightarrow> bool) \<Rightarrow> 's host \<Rightarrow> 's host \<Rightarrow> bool" where
  "host_grown R sound only h h' \<longleftrightarrow>
     host_ok R sound h' \<and>
     (\<forall>r. extends (log_of (r_ops R) (h_track h) r) (log_of (r_ops R) (h_track h') r)) \<and>
     (\<forall>r. \<not> only r \<longrightarrow> log_of (r_ops R) (h_track h') r = log_of (r_ops R) (h_track h) r)"

lemma host_grown_refl: "host_ok R sound h \<Longrightarrow> host_grown R sound only h h"
  by (simp add: host_grown_def)

lemma host_grown_trans:
  "host_grown R sound only h h1 \<Longrightarrow> host_grown R sound only h1 h2 \<Longrightarrow> host_grown R sound only h h2"
  by (auto simp: host_grown_def intro: extends_trans)

lemma host_grown_mono:
  "host_grown R sound only h h' \<Longrightarrow> (\<And>r. only r \<Longrightarrow> only' r) \<Longrightarrow> host_grown R sound only' h h'"
  by (auto simp: host_grown_def)

lemma read_track_cong:
  "log_of (r_ops R) t r = log_of (r_ops R) u r \<Longrightarrow> read_track R t r = read_track R u r"
  by (simp add: read_track_def log_of_def)

lemma some_state_Inr_iff: "some_state x = (Inr y, h) \<longleftrightarrow> (\<exists>st. x = (Inr st, h) \<and> y = Some st)"
  by (auto simp: some_state_def split: prod.splits sum.splits)

lemma snd_some_state [simp]: "snd (some_state x) = snd x"
  by (auto simp: some_state_def split: prod.splits sum.splits)

lemma accept_cancel_track: "p_track (snd (accept_cancel R actor s)) = p_track s"
  by (auto simp: accept_cancel_def Let_def exec_teardown_def ask_def log_call_def set_attempt_def bind_def andthen_def sx_apply
      split: option.splits)

context track_store
begin

text \<open>A sound body under a claim is a sound call.\<close>

lemma sound_call:
  assumes "r_ops R = ops" and "host_ok R inv h" and "call_sound R inv (new_pass h x) res s"
  shows "host_grown R inv (\<lambda>r. r = x) h (after_pass h s) \<and>
    (\<forall>st. res = Inr st \<longrightarrow> observe R (h_track (after_pass h s)) x = Inr (Some st))"
proof -
  have c: "inv (p_track s)" "completed_soundly (read_track R (p_track s) x)"
    "\<And>r. extends (log_of (r_ops R) (h_track h) r) (log_of (r_ops R) (p_track s) r)"
    "\<And>r. r \<noteq> x \<Longrightarrow> log_of (r_ops R) (p_track s) r = log_of (r_ops R) (h_track h) r"
    "\<forall>st. res = Inr st \<longrightarrow> observe R (p_track s) x = Inr (Some st)"
    using assms(3) by (simp_all add: call_sound_def new_pass_def)
  have "completed_soundly (read_track R (p_track s) r)" for r
    using c(2) read_track_cong [OF c(4), of r] assms(2) by (cases "r = x") (simp_all add: host_ok_def)
  then show ?thesis using c by (simp add: host_grown_def host_ok_def after_pass_def)
qed

lemma claim_sound:
  assumes "r_ops R = ops" and "host_ok R inv h"
    and "\<And>res s. body (new_pass h x) = (res, s) \<Longrightarrow> call_sound R inv (new_pass h x) res s"
    and "with_claim x body h = (res, h')"
  shows "host_grown R inv (\<lambda>r. r = x) h h' \<and> (\<forall>st. res = Inr st \<longrightarrow> observe R (h_track h') x = Inr (Some st))"
proof (cases "map_of (h_claims h) x")
  case None
  obtain r s where b: "body (new_pass h x) = (r, s)" by (cases "body (new_pass h x)")
  with None assms(4) have "res = r" "h' = after_pass h s" by (simp_all add: with_claim_def)
  then show ?thesis using sound_call [OF assms(1,2) assms(3) [OF b]] by simp
next
  case (Some adv)
  with assms(2,4) show ?thesis by (auto simp: with_claim_def host_grown_refl)
qed

lemma fresh_pass:
  assumes "host_ok R inv h"
  shows "inv (p_track (new_pass h x))" "p_run (new_pass h x) = x"
    "completed_soundly (read_track R (p_track (new_pass h x)) (p_run (new_pass h x)))"
  using assms by (simp_all add: host_ok_def new_pass_def)

lemma submit_sound:
  assumes "r_ops R = ops" and "host_ok R inv h" and "op_ok op" and "submit R op h = (res, h')"
  shows "host_grown R inv (\<lambda>r. r = op_run_id op) h h' \<and> (\<forall>st. res = Inr st \<longrightarrow> observe R (h_track h') (op_run_id op) = Inr (Some st))"
proof -
  consider (dup) "\<not> distinct (map step_name (op_steps op))"
    | (busy) "distinct (map step_name (op_steps op))" "map_of (h_claims h) (op_run_id op) \<noteq> None"
    | (free) "distinct (map step_name (op_steps op))" "map_of (h_claims h) (op_run_id op) = None" by blast
  then show ?thesis
  proof cases
    case dup
    with assms(2,4) show ?thesis by (auto simp: submit_def host_grown_refl)
  next
    case busy
    have "observe R (h_track h) (op_run_id op) = Inr (Some st)" if "submitted_elsewhere R op h = Inr (Some st)" for st
      using that by (auto simp: submitted_elsewhere_def observe_def Let_def bind_result_Inr_iff split: if_splits option.splits)
    with busy assms(2,4) show ?thesis by (auto simp: submit_def host_grown_refl split: sum.splits option.splits)
  next
    case free
    then have w: "with_claim (op_run_id op) (submit_body R op) h = (res, h')" using assms(4) by (simp add: submit_def)
    show ?thesis
      using fresh_pass [OF assms(2)] assms(3)
      by (intro claim_sound [OF assms(1,2) _ w] submit_body_sound [OF assms(1)]) auto
  qed
qed

lemma refused_or_claimed:
  assumes "r_ops R = ops" and "host_ok R inv h"
    and "\<And>res s. body (new_pass h x) = (res, s) \<Longrightarrow> call_sound R inv (new_pass h x) res s"
    and "with_claim_or_refuse x body h = (res, h')"
  shows "host_grown R inv (\<lambda>r. r = x) h h' \<and> (\<forall>st. res = Inr st \<longrightarrow> observe R (h_track h') x = Inr (Some st))"
  using claim_sound [OF assms(1-3)] assms(2,4) host_grown_refl by (auto simp: with_claim_or_refuse_def split: if_splits)

lemma retry_sound:
  assumes "r_ops R = ops" and "host_ok R inv h" and "retry R x h = (res, h')"
  shows "host_grown R inv (\<lambda>r. r = x) h h' \<and> (\<forall>st. res = Inr st \<longrightarrow> observe R (h_track h') x = Inr (Some st))"
  using refused_or_claimed [OF assms(1,2) _ assms(3) [unfolded retry_def]]
    retry_body_sound [OF assms(1) fresh_pass(1,3) [OF assms(2)]] by blast

lemma decide_sound:
  assumes "r_ops R = ops" and "host_ok R inv h" and "decide R x escalation actor verdict findings h = (res, h')"
  shows "host_grown R inv (\<lambda>r. r = x) h h' \<and> (\<forall>st. res = Inr st \<longrightarrow> observe R (h_track h') x = Inr (Some st))"
proof -
  have body: "with_claim_or_refuse x (decide_body R escalation actor verdict fs) h = (res, h') \<Longrightarrow> ?thesis" for fs
    using refused_or_claimed [OF assms(1,2)] decide_body_sound [OF assms(1) fresh_pass(1,3) [OF assms(2)]] by blast
  show ?thesis using assms(2,3) body by (auto simp: decide_def host_grown_refl split: if_splits pyval.splits)
qed

lemma cancel_sound:
  assumes "r_ops R = ops" and "host_ok R inv h" and "cancel R x actor h = (res, h')"
  shows "host_grown R inv (\<lambda>r. r = x) h h' \<and> (\<forall>st. res = Inr st \<longrightarrow> observe R (h_track h') x = Inr st)"
proof -
  consider (nobody) "actor = []" | (taken) adv where "actor \<noteq> []" "map_of (h_claims h) x = Some adv" "accepting adv"
    | (busy) adv where "actor \<noteq> []" "map_of (h_claims h) x = Some adv" "\<not> accepting adv"
    | (free) "actor \<noteq> []" "map_of (h_claims h) x = None" by (cases "map_of (h_claims h) x") auto
  then show ?thesis
  proof cases
    case taken
    then have "res = observe R (h_track h) x" "h_track h' = h_track h"
      using assms(3) by (auto simp: cancel_def Let_def accept_cancel_track after_pass_def new_pass_def)
    then show ?thesis using assms(2) by (auto simp: host_grown_def host_ok_def)
  next
    case free
    obtain r t where w: "with_claim x (cancel_body R actor) h = (r, t)" by (cases "with_claim x (cancel_body R actor) h")
    then have t: "h' = t" "\<And>st. res = Inr st \<Longrightarrow> \<exists>y. r = Inr y \<and> st = Some y"
      using free assms(3) by (auto simp: cancel_def split: sum.splits)
    have "host_grown R inv (\<lambda>r. r = x) h t \<and> (\<forall>st. r = Inr st \<longrightarrow> observe R (h_track t) x = Inr (Some st))"
      by (rule claim_sound [OF assms(1,2) cancel_body_sound [OF assms(1) fresh_pass(1,3) [OF assms(2)]] w])
    with t show ?thesis by blast
  qed (use assms(2,3) in \<open>auto simp: cancel_def host_grown_refl\<close>)
qed

end

subsection \<open>Starting a host\<close>

text \<open>A run the host finds active, and nobody moving it.\<close>

definition found_active :: "'s runner \<Rightarrow> 's host \<Rightarrow> string \<Rightarrow> bool" where
  "found_active R h r \<longleftrightarrow>
     map_of (h_claims h) r = None \<and> observe R (h_track h) r \<in> {Inr (Some RUNNING), Inr (Some WAITING_AT_GATE)}"

lemma observe_cong: "log_of (r_ops R) t r = log_of (r_ops R) u r \<Longrightarrow> observe R t r = observe R u r"
  unfolding observe_def by (drule read_track_cong) simp

lemma found_active_cong:
  "h_claims h = h_claims h' \<Longrightarrow> log_of (r_ops R) (h_track h) r = log_of (r_ops R) (h_track h') r \<Longrightarrow>
   found_active R h r = found_active R h' r"
  unfolding found_active_def by (drule observe_cong) simp

context track_store
begin

lemma interrupt_claimed:
  assumes "r_ops R = ops" and "host_ok R inv h" and "backend_name (r_backend R) = ''none''"
    and "with_claim x (interrupt_body R) h = (res, h')"
  shows "host_grown R inv (\<lambda>r. r = x) h h' \<and> h_claims h' = h_claims h \<and>
    (res = Inr True \<longrightarrow> found_active R h x \<and> observe R (h_track h') x = Inr (Some INTERRUPTED)) \<and>
    (res = Inr False \<longrightarrow> h_track h' = h_track h \<and> \<not> found_active R h x) \<and>
    (\<forall>e. res = Inl e \<longrightarrow> (\<forall>r. log_of ops (h_track h') r = log_of ops (h_track h) r) \<and>
      (e = RunBusy \<or> is_invalid_transition e \<longrightarrow> \<not> found_active R h x))"
proof (cases "map_of (h_claims h) x")
  case (Some adv)
  with assms(2,4) show ?thesis by (auto simp: with_claim_def host_grown_refl found_active_def)
next
  case None
  obtain r s where b: "interrupt_body R (new_pass h x) = (r, s)" by (cases "interrupt_body R (new_pass h x)")
  with None assms(4) have res: "res = r" "h' = after_pass h s" by (simp_all add: with_claim_def)
  have out: "call_sound R inv (new_pass h x) (Inl RunBusy) s" "interrupted_or_not R (new_pass h x) r s"
    using interrupt_body_outcome [OF assms(1) fresh_pass(1,3) [OF assms(2)] b] by blast+
  have "p_track (new_pass h x) = h_track h" "p_run (new_pass h x) = x" "h_track h' = p_track s" "h_claims h' = h_claims h"
    by (simp_all add: new_pass_def res after_pass_def)
  then show ?thesis using sound_call [OF assms(1,2) out(1)] out(2) None res assms(1,3)
    by (auto simp: interrupted_or_not_def found_active_def)
qed

lemma start_runs_outcome:
  assumes "r_ops R = ops" and "backend_name (r_backend R) = ''none''" and "host_ok R inv h" and "distinct rs"
    and "start_runs R rs h = (res, h')"
  shows "host_grown R inv (\<lambda>r. r \<in> set rs \<and> found_active R h r) h h' \<and> h_claims h' = h_claims h \<and>
    (\<forall>ids. res = Inr ids \<longrightarrow> ids = filter (found_active R h) rs \<and> (\<forall>r\<in>set ids. observe R (h_track h') r = Inr (Some INTERRUPTED)))"
  using assms(3-5)
proof (induction rs arbitrary: h h' res)
  case Nil
  then show ?case by (auto simp: host_grown_refl)
next
  case (Cons x rs)
  obtain r1 h1 where w: "with_claim x (interrupt_body R) h = (r1, h1)" by (cases "with_claim x (interrupt_body R) h")
  note i = interrupt_claimed [OF assms(1) Cons.prems(1) assms(2) w]
  have ok1: "host_ok R inv h1" using i by (simp add: host_grown_def)
  have claims: "h_claims h1 = h_claims h" using i by simp
  have x: "x \<notin> set rs" "distinct rs" using Cons.prems(2) by simp_all
  have same: "log_of (r_ops R) (h_track h1) r = log_of (r_ops R) (h_track h) r" if "r \<noteq> x" for r
    using i that by (simp add: host_grown_def)
  have act: "found_active R h1 r = found_active R h r" if "r \<in> set rs" for r
    using that x(1) by (intro found_active_cong [OF claims] same) auto
  have one: "host_grown R inv (\<lambda>r. r \<in> set (x # rs) \<and> found_active R h r) h h1"
  proof -
    have "log_of (r_ops R) (h_track h1) x = log_of (r_ops R) (h_track h) x" if "\<not> found_active R h x"
    proof (cases r1)
      case (Inl e)
      then show ?thesis using i assms(1) by simp
    next
      case (Inr was)
      then show ?thesis using i that by (cases was) auto
    qed
    then have "\<not> (r \<in> set (x # rs) \<and> found_active R h r) \<Longrightarrow> log_of (r_ops R) (h_track h1) r = log_of (r_ops R) (h_track h) r" for r
      using same by (cases "r = x") auto
    then show ?thesis using i by (simp add: host_grown_def)
  qed
  have tail: "host_grown R inv (\<lambda>r. r \<in> set (x # rs) \<and> found_active R h r) h t \<and> h_claims t = h_claims h \<and>
      (\<forall>ids. r2 = Inr ids \<longrightarrow> ids = filter (found_active R h) rs \<and> (\<forall>r\<in>set ids. observe R (h_track t) r = Inr (Some INTERRUPTED))) \<and>
      log_of (r_ops R) (h_track t) x = log_of (r_ops R) (h_track h1) x"
    if s: "start_runs R rs h1 = (r2, t)" for r2 t
  proof -
    note ih = Cons.IH [OF ok1 x(2) s]
    have grown: "host_grown R inv (\<lambda>r. r \<in> set rs \<and> found_active R h1 r) h1 t" using ih by blast
    then have "host_grown R inv (\<lambda>r. r \<in> set (x # rs) \<and> found_active R h r) h1 t"
      by (rule host_grown_mono) (use act in auto)
    with one have all: "host_grown R inv (\<lambda>r. r \<in> set (x # rs) \<and> found_active R h r) h t" by (rule host_grown_trans)
    have filt: "filter (found_active R h1) rs = filter (found_active R h) rs" using act by (simp cong: filter_cong)
    have "log_of (r_ops R) (h_track t) x = log_of (r_ops R) (h_track h1) x" using grown x(1) by (simp add: host_grown_def)
    then show ?thesis using ih all claims by (simp add: filt)
  qed
  consider (raised) e where "r1 = Inl e" "\<not> (e = RunBusy \<or> is_invalid_transition e)"
    | (skipped) e where "r1 = Inl e" "e = RunBusy \<or> is_invalid_transition e" | (ran) was where "r1 = Inr was"
    by (cases r1) auto
  then show ?case
  proof cases
    case raised
    then have "res = Inl e" "h' = h1" using Cons.prems(3) w by auto
    then show ?thesis using one claims by simp
  next
    case skipped
    then have s: "start_runs R rs h1 = (res, h')" using Cons.prems(3) w by auto
    show ?thesis using tail [OF s] i skipped by auto
  next
    case ran
    obtain r2 t where s: "start_runs R rs h1 = (r2, t)" by (cases "start_runs R rs h1")
    have t: "h' = t" "\<And>ids. res = Inr ids \<Longrightarrow> \<exists>ys. r2 = Inr ys \<and> ids = (if was then [x] else []) @ ys"
      using Cons.prems(3) w s ran by (auto split: sum.splits)
    have "observe R (h_track t) x = observe R (h_track h1) x" using tail [OF s] by (intro observe_cong) simp
    then show ?thesis using tail [OF s] t i ran by (cases was) fastforce+
  qed
qed

text \<open>A run that replays has a submission, so the store lists it.\<close>

lemma observed_is_listed:
  assumes "r_ops R = ops" and "inv t" and "observe R t r = Inr (Some st)"
  shows "r \<in> set (t_run_ids ops t)"
proof (rule ccontr)
  assume "r \<notin> set (t_run_ids ops t)"
  then have none: "event_type e \<notin> set SUBMITTED_TYPES" if "e \<in> set (log_of ops t r)" for e
    using run_ids_are [OF assms(2)] that by auto
  have up: "event_type (upgrade e) \<notin> set SUBMISSIONS" if "event_type e \<notin> set SUBMITTED_TYPES" for e
    using that by (auto simp: upgrade_def RENAMED_def SUBMITTED_TYPES_def SUBMISSIONS_def split: if_splits)
  have step: "replay_step b None e \<noteq> Inr (Some y)" if "event_type e \<notin> set SUBMISSIONS" for b y and e :: track_event
    using that by (auto simp: replay_step_def run_refuse_def split: if_splits)
  have "fold_result (replay_step b) None es \<noteq> Inr (Some y)" if "\<forall>e\<in>set es. event_type e \<notin> set SUBMISSIONS" for b y and es :: "track_event list"
    using that
  proof (induction es)
    case (Cons e es)
    then show ?case using step [of e b] by (cases "replay_step b None e") auto
  qed simp
  then have "replay (read_track R t r) \<noteq> Inr (Some y)" for y
    unfolding replay_def read_track_def using none up assms(1) by (simp add: log_of_def)
  with assms(3) show False by (auto simp: observe_def bind_result_Inr_iff)
qed

end

subsection \<open>Any sequence of calls\<close>

context track_store
begin

lemma start_sound:
  assumes "r_ops R = ops" and "backend_name (r_backend R) = ''none''" and "host_ok R inv h" and "start R h = (res, h')"
  shows "host_grown R inv (found_active R h) h h' \<and>
    (\<forall>ids. res = Inr ids \<and> \<not> durable (r_backend R) \<longrightarrow>
       (\<forall>r. r \<in> set ids \<longleftrightarrow> found_active R h r) \<and> (\<forall>r\<in>set ids. observe R (h_track h') r = Inr (Some INTERRUPTED)))"
proof (cases "durable (r_backend R)")
  case True
  with assms(3,4) show ?thesis by (auto simp: start_def host_grown_refl)
next
  case False
  have i: "inv (h_track h)" using assms(3) by (simp add: host_ok_def)
  have s: "start_runs R (t_run_ids ops (h_track h)) h = (res, h')" using False assms(1,4) by (simp add: start_def)
  have listed: "r \<in> set (t_run_ids ops (h_track h))" if "found_active R h r" for r
    using that observed_is_listed [OF assms(1) i] by (auto simp: found_active_def)
  have "distinct (t_run_ids ops (h_track h))" using run_ids_are [OF i] by blast
  note out = start_runs_outcome [OF assms(1-3) this s]
  have "host_grown R inv (found_active R h) h h'" by (rule host_grown_mono [OF conjunct1 [OF out]]) simp
  then show ?thesis using out listed by auto
qed

lemma host_do_sound:
  assumes "r_ops R = ops" and "backend_name (r_backend R) = ''none''" and "host_ok R inv h" and "host_call_ok c"
    and "host_do R c h = (res, h')"
  shows "host_grown R inv (\<lambda>r. case call_run c of None \<Rightarrow> True | Some x \<Rightarrow> r = x) h h' \<and>
    (\<forall>st x. res = Inr st \<longrightarrow> call_run c = Some x \<longrightarrow> observe R (h_track h') x = Inr st)"
proof (cases c)
  case (Submit op)
  obtain r t where s: "submit R op h = (r, t)" by (cases "submit R op h")
  with submit_sound [OF assms(1,3) _ s] assms(4,5) Submit show ?thesis by (auto simp: some_state_def split: sum.splits)
next
  case (RetryRun x)
  obtain r t where s: "retry R x h = (r, t)" by (cases "retry R x h")
  with retry_sound [OF assms(1,3) s] assms(5) RetryRun show ?thesis by (auto simp: some_state_def split: sum.splits)
next
  case (DecideRun x e a v f)
  obtain r t where s: "decide R x e a v f h = (r, t)" by (cases "decide R x e a v f h")
  with decide_sound [OF assms(1,3) s] assms(5) DecideRun show ?thesis by (auto simp: some_state_def split: sum.splits)
next
  case (CancelRun x a)
  with cancel_sound [OF assms(1,3), of x a res h'] assms(5) show ?thesis by auto
next
  case StartHost
  obtain r t where s: "start R h = (r, t)" by (cases "start R h")
  have "host_grown R inv (\<lambda>r. True) h t"
    by (rule host_grown_mono [OF conjunct1 [OF start_sound [OF assms(1-3) s]]]) simp
  with s assms(5) StartHost show ?thesis by (auto split: sum.splits)
qed

lemma host_steps_sound:
  assumes "r_ops R = ops" and "backend_name (r_backend R) = ''none''" and "host_ok R inv h" and "list_all host_call_ok cs"
  shows "host_grown R inv (\<lambda>r. \<exists>c\<in>set cs. call_run c \<in> {None, Some r}) h (foldl (host_step R) h cs)"
  using assms(3,4)
proof (induction cs arbitrary: h)
  case Nil
  then show ?case by (simp add: host_grown_refl)
next
  case (Cons c cs)
  obtain res h1 where c: "host_do R c h = (res, h1)" by (cases "host_do R c h")
  have "host_grown R inv (\<lambda>r. case call_run c of None \<Rightarrow> True | Some x \<Rightarrow> r = x) h h1"
    using host_do_sound [OF assms(1,2) Cons.prems(1) _ c] Cons.prems(2) by simp
  then have one: "host_grown R inv (\<lambda>r. \<exists>c\<in>set (c # cs). call_run c \<in> {None, Some r}) h h1"
    by (rule host_grown_mono) (auto split: option.splits)
  have "host_grown R inv (\<lambda>r. \<exists>c\<in>set cs. call_run c \<in> {None, Some r}) h1 (foldl (host_step R) h1 cs)"
    using one Cons.prems(2) by (intro Cons.IH) (auto simp: host_grown_def)
  then have "host_grown R inv (\<lambda>r. \<exists>c\<in>set (c # cs). call_run c \<in> {None, Some r}) h1 (foldl (host_step R) h1 cs)"
    by (rule host_grown_mono) auto
  moreover have "host_step R h c = h1" using c by (simp add: host_step_def)
  ultimately show ?case using host_grown_trans [OF one] by simp
qed

end

subsection \<open>Calls that change nothing\<close>

lemma claimed_body:
  assumes "with_claim x body h = (res, h')" and "\<And>r s. body (new_pass h x) = (r, s) \<Longrightarrow> p_track s = h_track h \<and> p_calls s = h_calls h"
  shows "h_track h' = h_track h \<and> h_calls h' = h_calls h"
  using assms by (auto simp: with_claim_def after_pass_def split: if_splits prod.splits)

lemma claim_or_refuse_body:
  assumes "with_claim_or_refuse x body h = (res, h')"
    and "\<And>r s. body (new_pass h x) = (r, s) \<Longrightarrow> p_track s = h_track h \<and> p_calls s = h_calls h"
  shows "h_track h' = h_track h \<and> h_calls h' = h_calls h"
  using assms claimed_body by (fastforce simp: with_claim_or_refuse_def split: if_splits)

lemma new_pass_simps [simp]:
  "p_track (new_pass h x) = h_track h" "p_calls (new_pass h x) = h_calls h" "p_run (new_pass h x) = x"
  by (simp_all add: new_pass_def)

lemma load_new_pass:
  "load R (new_pass h x) = (Inr (read_track R (h_track h) x), (new_pass h x)\<lparr>p_history := read_track R (h_track h) x\<rparr>)"
  by (simp add: load_def andthen_def bind_def sx_apply)

lemma observed_run:
  assumes "observe R t x = Inr (Some st)"
  obtains r where "replay (read_track R t x) = Inr (Some r)" "run_state r = st"
  using assms by (auto simp: observe_def bind_result_Inr_iff)

lemma submit_unless_submitted:
  assumes "observe R (h_track h) (op_run_id op) = Inr (Some st)" and "st \<noteq> SUBMITTED" and "submit R op h = (res, h')"
  shows "h_track h' = h_track h \<and> h_calls h' = h_calls h \<and> (\<forall>x. res = Inr x \<longrightarrow> x = st)"
proof -
  obtain r where r: "replay (read_track R (h_track h) (op_run_id op)) = Inr (Some r)" "run_state r = st"
    using observed_run [OF assms(1)] .
  then have ne: "read_track R (h_track h) (op_run_id op) \<noteq> []" by (auto simp: replay_def)
  have body: "submit_body R op (new_pass h (op_run_id op)) = (y, s) \<Longrightarrow>
      p_track s = h_track h \<and> p_calls s = h_calls h \<and> (\<forall>x. y = Inr x \<longrightarrow> x = st)" for y s
    using r ne assms(2)
    by (cases "same_op (read_track R (h_track h) (op_run_id op)) op")
       (auto simp: submit_body_def load_new_pass bind_def andthen_def sx_apply split: if_splits)
  have else_where: "submitted_elsewhere R op h = Inr (Some x) \<Longrightarrow> x = st" for x
    using r ne by (auto simp: submitted_elsewhere_def bind_result_Inr_iff)
  show ?thesis
    using assms(3) body else_where
    by (auto simp: submit_def with_claim_def after_pass_def split: if_splits sum.splits option.splits prod.splits)
qed

lemma retry_refused:
  assumes "observe R (h_track h) x = Inr (Some st)" and "st \<notin> {FAILED, INTERRUPTED}" and "retry R x h = (res, h')"
  shows "h_track h' = h_track h \<and> h_calls h' = h_calls h \<and> res = Inl ValueError"
proof -
  obtain r where r: "replay (read_track R (h_track h) x) = Inr (Some r)" "run_state r = st"
    using observed_run [OF assms(1)] .
  have no: "\<not> ended st \<or> st = BUDGET_EXCEEDED \<or> \<not> accepts run_edges st ''retry''"
    using assms(2) by (cases st) (auto simp: accepts_def run_edges_def)
  have "retry_body R (new_pass h x) = (y, s) \<Longrightarrow> p_track s = h_track h \<and> p_calls s = h_calls h \<and> y = Inl ValueError" for y s
    using r no by (auto simp: retry_body_def load_new_pass bind_def sx_apply split: if_splits)
  then show ?thesis
    using assms(3)
    by (auto simp: retry_def with_claim_or_refuse_def with_claim_def after_pass_def split: if_splits prod.splits)
qed

text \<open>A computation that raises and leaves the pass as it was.\<close>

definition stops_at :: "'s \<Rightarrow> ('s, 'e, 'a) sx \<Rightarrow> bool" where
  "stops_at p m \<longleftrightarrow> (\<exists>e. m p = (Inl e, p))"

lemma stops_at_intros:
  "stops_at p (raise e)"
  "(\<And>x. v = Inr x \<Longrightarrow> stops_at p (g x)) \<Longrightarrow> stops_at p (bind (lift v) g)"
  "(b \<Longrightarrow> stops_at p m) \<Longrightarrow> (\<not> b \<Longrightarrow> stops_at p n) \<Longrightarrow> stops_at p (if b then m else n)"
  by (cases v; auto simp: stops_at_def bind_def sx_apply)+

text \<open>A decision lands only on the escalation the run waits at.\<close>

lemma decide_refused:
  assumes "replay (read_track R (h_track h) x) = Inr (Some r)"
    and "run_state r \<noteq> WAITING_AT_GATE \<or> \<not> py_eq (opt_str escalation) (open_escalation r)"
    and "decide R x escalation actor verdict findings h = (res, h')"
  shows "h_track h' = h_track h \<and> h_calls h' = h_calls h \<and> (\<exists>e. res = Inl e)"
proof -
  have refused: "\<exists>e. run_handler r (Decide (PStr verdict) (opt_str escalation) (PList fs) lim (PStr actor) dig) = Inl e" for fs lim dig
    using assms(2) by (auto simp: run_decide_def run_refuse_def bind_result_def in_names_def split: run_state.splits sum.splits)
  have body: "decide_body R escalation actor verdict fs (new_pass h x) = (y, s) \<Longrightarrow>
      p_track s = h_track h \<and> p_calls s = h_calls h \<and> (\<exists>e. y = Inl e)" for fs y s
  proof (cases "run_state r = WAITING_AT_GATE")
    case False
    then show "decide_body R escalation actor verdict fs (new_pass h x) = (y, s) \<Longrightarrow> ?thesis"
      using assms(1) by (auto simp: decide_body_def load_new_pass bind_def sx_apply)
  next
    case True
    let ?p = "(new_pass h x)\<lparr>p_history := read_track R (h_track h) x\<rparr>"
    have move: "stops_at ?p (bind (record_moves R (run_dispatch r (Decide (PStr verdict) (opt_str escalation) (PList fs) lim (PStr actor) dig))) g)"
      for lim dig and g :: "run \<Rightarrow> ('a pass, exn, run_state) sx"
      using refused [of fs lim dig] by (auto simp: stops_at_def record_moves_def bind_def sx_apply)
    have "stops_at ?p (bind (lift (replay (read_track R (h_track h) x))) (\<lambda>run. case run of
       None \<Rightarrow> raise ValueError
     | Some r \<Rightarrow>
         if run_state r \<noteq> WAITING_AT_GATE then raise ValueError
         else
           bind (lift (open_escalation_of (read_track R (h_track h) x) (Some r))) (\<lambda>waiting_on.
           if verdict = ''approve'' \<and> (case waiting_on of None \<Rightarrow> False | Some w \<Rightarrow> py_get w ''envelope'' = PNone)
           then raise ValueError
           else
             bind (lift (submitted_definition (read_track R (h_track h) x))) (\<lambda>op.
             bind (lift (decided_on R waiting_on)) (\<lambda>dig.
             bind (record_moves R (run_dispatch r (Decide (PStr verdict) (opt_str escalation) (PList fs)
                 (case max_revisions R of None \<Rightarrow> PNone | Some n \<Rightarrow> PInt n) (PStr actor) dig))) (\<lambda>r.
             if run_state r \<noteq> RUNNING then ret (run_state r) else advance R op))))))"
      unfolding assms(1) using True by (intro stops_at_intros) (auto intro!: stops_at_intros move simp del: run_dispatch_eq)
    then show "decide_body R escalation actor verdict fs (new_pass h x) = (y, s) \<Longrightarrow> ?thesis"
      unfolding decide_body_def bind_Inr [where m = "load R", OF load_new_pass] by (auto simp: stops_at_def)
  qed
  show ?thesis
    using assms(3) body
    by (auto simp: decide_def with_claim_or_refuse_def with_claim_def after_pass_def split: if_splits prod.splits pyval.splits)
qed

lemma cancel_refused:
  assumes "replay (read_track R (h_track h) x) = Inr (Some r)" and "run_state r \<notin> {SUBMITTED, RUNNING, WAITING_AT_GATE}"
    and "cancel R x actor h = (res, h')"
  shows "h_track h' = h_track h"
proof -
  have "\<exists>e. run_handler r (Cancel (PStr actor)) = Inl e" using assms(2) by (auto simp: run_cancel_def run_refuse_def)
  then obtain e where e: "record_moves R (run_dispatch r (Cancel (PStr actor))) p = (Inl e, p)" for p
    by (auto simp: record_moves_def bind_def sx_apply)
  have "cancel_body R actor (new_pass h x) = (y, s) \<Longrightarrow> p_track s = h_track h" for y s
    using assms(1) e by (auto simp: cancel_body_def load_new_pass bind_def sx_apply simp del: run_dispatch_eq)
  then show ?thesis
    using assms(3)
    by (auto simp: cancel_def accept_cancel_track with_claim_def after_pass_def Let_def split: if_splits prod.splits option.splits sum.splits)
qed

context track_store
begin

lemma final_step:
  assumes "r_ops R = ops" and "backend_name (r_backend R) = ''none''" and "host_ok R inv h" and "host_call_ok c"
    and "observe R (h_track h) r = Inr (Some st)" and "st \<in> {COMPLETED, REJECTED, CANCELLED, BUDGET_EXCEEDED}"
  shows "log_of ops (h_track (host_step R h c)) r = log_of ops (h_track h) r"
proof -
  obtain res h' where c: "host_do R c h = (res, h')" by (cases "host_do R c h")
  have h': "host_step R h c = h'" using c by (simp add: host_step_def)
  obtain x where x: "replay (read_track R (h_track h) r) = Inr (Some x)" "run_state x = st" using observed_run [OF assms(5)] .
  have states: "st \<noteq> SUBMITTED" "st \<notin> {FAILED, INTERRUPTED}" "run_state x \<noteq> WAITING_AT_GATE"
    "run_state x \<notin> {SUBMITTED, RUNNING, WAITING_AT_GATE}" using assms(6) x(2) by auto
  consider (other) y where "call_run c = Some y" "y \<noteq> r" | (own) "call_run c = Some r" | (all) "call_run c = None"
    by (cases "call_run c") auto
  then have "log_of ops (h_track h') r = log_of ops (h_track h) r"
  proof cases
    case other
    then show ?thesis using host_do_sound [OF assms(1-4) c] assms(1) by (auto simp: host_grown_def)
  next
    case own
    then have "h_track h' = h_track h"
    proof (cases c)
      case (Submit op)
      with own c have "op_run_id op = r" "snd (submit R op h) = h'" by (auto simp: some_state_def split: prod.splits sum.splits)
      then show ?thesis using submit_unless_submitted [of R h op st "fst (submit R op h)" h'] assms(5) states by auto
    next
      case (RetryRun y)
      with own c have "y = r" "snd (retry R y h) = h'" by (auto simp: some_state_def split: prod.splits sum.splits)
      then show ?thesis using retry_refused [OF assms(5) states(2), of "fst (retry R r h)" h'] by auto
    next
      case (DecideRun y e a v f)
      with own c have "y = r" "snd (decide R y e a v f h) = h'" by (auto simp: some_state_def split: prod.splits sum.splits)
      then show ?thesis using decide_refused [OF x(1) disjI1 [OF states(3)], of e a v f "fst (decide R r e a v f h)" h'] by auto
    next
      case (CancelRun y a)
      with own c have "cancel R r a h = (res, h')" by simp
      then show ?thesis by (rule cancel_refused [OF x(1) states(4)])
    qed simp
    then show ?thesis by simp
  next
    case all
    then have st: "snd (start R h) = h'" using c by (cases c) (auto split: prod.splits sum.splits)
    have "\<not> found_active R h r" using assms(5,6) by (auto simp: found_active_def)
    then show ?thesis using start_sound [OF assms(1-3), of "fst (start R h)" h'] st assms(1) by (auto simp: host_grown_def)
  qed
  then show ?thesis by (simp add: h')
qed

lemma final_steps:
  assumes "r_ops R = ops" and "backend_name (r_backend R) = ''none''" and "host_ok R inv h" and "list_all host_call_ok cs"
    and "observe R (h_track h) r = Inr (Some st)" and "st \<in> {COMPLETED, REJECTED, CANCELLED, BUDGET_EXCEEDED}"
  shows "log_of ops (h_track (foldl (host_step R) h cs)) r = log_of ops (h_track h) r \<and>
    observe R (h_track (foldl (host_step R) h cs)) r = Inr (Some st)"
  using assms(3-5)
proof (induction cs arbitrary: h)
  case (Cons c cs)
  let ?h1 = "host_step R h c"
  have same: "log_of ops (h_track ?h1) r = log_of ops (h_track h) r"
    using final_step [OF assms(1,2) Cons.prems(1) _ Cons.prems(3) assms(6)] Cons.prems(2) by simp
  have "host_grown R inv (\<lambda>r. case call_run c of None \<Rightarrow> True | Some x \<Rightarrow> r = x) h ?h1"
    using host_do_sound [OF assms(1,2) Cons.prems(1), of c "fst (host_do R c h)" ?h1] Cons.prems(2) by (simp add: host_step_def)
  then have "host_ok R inv ?h1" by (simp add: host_grown_def)
  moreover have "observe R (h_track ?h1) r = Inr (Some st)"
    using observe_cong [of R "h_track ?h1" r "h_track h"] same assms(1) Cons.prems(3) by simp
  ultimately show ?case using Cons.IH [of ?h1] Cons.prems(2) same by simp
qed simp

end

subsection \<open>The theorems\<close>

text \<open>A small host for the concrete instances: every worker answers 7 at once, nobody cancels.\<close>

definition small_world :: world where
  "small_world =
     \<lparr>w_uuid = show_nat, w_clock = int,
      w_materialize = (\<lambda>t cog r i. Inr \<lparr>cw_ref = cog, run_token_digest = None, cw_details = []\<rparr>),
      w_interact = (\<lambda>t w ep inp key sig. Inr (AnEnvelope (envelope_success (PInt 7) no_extras))),
      w_teardown = (\<lambda>t w. None), w_cancel = (\<lambda>t. None), w_sha256 = (\<lambda>_. ''0123456789abcdef0''),
      w_float_len = (\<lambda>_. 3), w_repr = (\<lambda>_. ''?''), w_show = (\<lambda>_. ''envelope'')\<rparr>"

definition small_runner :: "sqlite_store runner" where
  "small_runner = \<lparr>r_ops = sqlite_ops, r_budget = None, max_revisions = None, inline_max = PAYLOAD_INLINE_MAX_BYTES,
     r_backend = none_backend, r_world = small_world\<rparr>"

definition small_op :: "string \<Rightarrow> op_definition" where
  "small_op policy =
     \<lparr>op_run_id = ''r'', op_steps = [\<lparr>step_name = ''draft'', step_cog = ''writer'', entry_point = ''go'',
        step_input = PInt 1, step_digest = None, step_gate = \<lparr>gate_policy = policy, gate_approvers = []\<rparr>\<rparr>]\<rparr>"

definition small_host :: "sqlite_store host" where
  "small_host = \<lparr>h_track = sqlite_init, h_claims = [], h_tick = 0, h_calls = []\<rparr>"

lemma small_simps [simp]:
  "r_ops small_runner = sqlite_ops" "backend_name (r_backend small_runner) = ''none''" "\<not> durable (r_backend small_runner)"
  "r_backend small_runner = none_backend"
  by (simp_all add: small_runner_def none_backend_def)

lemma empty_host_ok: "r_ops R = sqlite_ops \<Longrightarrow> h_track h = sqlite_init \<Longrightarrow> host_ok R sqlite_inv h"
  by (simp add: host_ok_def sqlite_inv_init completed_soundly_def read_track_def sqlite_ops_def sqlite_select_def replay_def)
     (simp add: sqlite_init_def replay_def)

lemma small_host_ok: "host_ok small_runner sqlite_inv small_host"
  by (rule empty_host_ok) (simp_all add: small_host_def)

lemma small_op_ok: "policy \<in> set POLICIES \<Longrightarrow> op_ok (small_op policy)"
  by (simp add: op_ok_def small_op_def gate_ok_def)

text \<open>
  C4: a call never reports a state the Track does not tell: whatever state submit, retry, decide
  or cancel returns is the state \<open>observe\<close> replays from the Track the call left behind, so a
  caller, a restarted host and any other reader agree on it.
\<close>

theorem calls_return_recorded_state:
  assumes "r_ops R = sqlite_ops" and "r_backend R = none_backend" and "host_ok R sqlite_inv h" and "host_call_ok c"
    and "call_run c = Some r" and "host_do R c h = (Inr st, h')"
  shows "observe R (h_track h') r = Inr st"
  using sqlite.host_do_sound [OF assms(1) _ assms(3,4,6)] assms(2,5) by (simp add: none_backend_def)

theorem calls_return_recorded_state_witness:
  "\<exists>h'. host_do small_runner (Submit (small_op ''always'')) small_host = (Inr (Some WAITING_AT_GATE), h') \<and>
     observe small_runner (h_track h') ''r'' = Inr (Some WAITING_AT_GATE)"
proof -
  obtain res h' where c: "host_do small_runner (Submit (small_op ''always'')) small_host = (res, h')"
    by (cases "host_do small_runner (Submit (small_op ''always'')) small_host")
  have "fst (host_do small_runner (Submit (small_op ''always'')) small_host) = Inr (Some WAITING_AT_GATE)" by code_simp
  with c have r: "host_do small_runner (Submit (small_op ''always'')) small_host = (Inr (Some WAITING_AT_GATE), h')" by simp
  have "call_run (Submit (small_op ''always'')) = Some ''r''" "host_call_ok (Submit (small_op ''always''))"
    by (simp_all add: small_op_ok POLICIES_def) (simp add: small_op_def)
  then show ?thesis
    using calls_return_recorded_state [OF _ _ small_host_ok _ _ r] r by auto
qed

text \<open>
  C19: whatever calls a host takes, in any order, each run's Track only grows, and a call touches
  no Track but its own run's (starting the host is the one call that may touch any).
\<close>

theorem host_only_appends:
  assumes "r_ops R = sqlite_ops" and "r_backend R = none_backend" and "host_ok R sqlite_inv h" and "list_all host_call_ok cs"
  shows "host_ok R sqlite_inv (foldl (host_step R) h cs) \<and>
    extends (log_of sqlite_ops (h_track h) r) (log_of sqlite_ops (h_track (foldl (host_step R) h cs)) r) \<and>
    ((\<forall>c\<in>set cs. call_run c \<notin> {None, Some r}) \<longrightarrow>
       log_of sqlite_ops (h_track (foldl (host_step R) h cs)) r = log_of sqlite_ops (h_track h) r)"
  using sqlite.host_steps_sound [OF assms(1) _ assms(3,4)] assms(1,2) by (auto simp: host_grown_def none_backend_def)

theorem host_only_appends_witness:
  "log_of sqlite_ops (h_track (foldl (host_step small_runner) small_host [Submit (small_op ''error''), RetryRun ''r''])) ''other'' =
   log_of sqlite_ops (h_track small_host) ''other'' \<and>
   length (log_of sqlite_ops (h_track (foldl (host_step small_runner) small_host [Submit (small_op ''error''), RetryRun ''r''])) ''r'') = 11"
proof
  have "list_all host_call_ok [Submit (small_op ''error''), RetryRun ''r'']" by (simp add: small_op_ok POLICIES_def)
  from host_only_appends [OF _ _ small_host_ok this, of "''other''"]
  show "log_of sqlite_ops (h_track (foldl (host_step small_runner) small_host [Submit (small_op ''error''), RetryRun ''r''])) ''other'' =
   log_of sqlite_ops (h_track small_host) ''other''" by (simp add: small_op_def)
  show "length (log_of sqlite_ops (h_track (foldl (host_step small_runner) small_host [Submit (small_op ''error''), RetryRun ''r''])) ''r'') = 11"
    by code_simp
qed

text \<open>
  C1: a run a host says is completed has done all its work: after any sequence of calls on a new
  store, a run observed completed has, on its Track, the Op it was submitted with and a completed
  step for every step of that Op, however it was interrupted, retried, sent back or approved.
\<close>

theorem completed_means_every_step:
  assumes "r_ops R = sqlite_ops" and "r_backend R = none_backend" and "h_track h = sqlite_init" and "list_all host_call_ok cs"
    and "observe R (h_track (foldl (host_step R) h cs)) r = Inr (Some COMPLETED)"
  shows "steps_recorded (read_track R (h_track (foldl (host_step R) h cs)) r)"
proof -
  have "host_ok R sqlite_inv (foldl (host_step R) h cs)"
    using sqlite.host_steps_sound [OF assms(1) _ empty_host_ok [OF assms(1,3)] assms(4)] assms(2)
    by (simp add: host_grown_def none_backend_def)
  then show ?thesis using observed_run [OF assms(5)] by (metis completed_soundly_def host_ok_def)
qed

theorem completed_means_every_step_witness:
  "\<exists>cs. observe small_runner (h_track (foldl (host_step small_runner) small_host cs)) ''r'' = Inr (Some COMPLETED) \<and>
        steps_recorded (read_track small_runner (h_track (foldl (host_step small_runner) small_host cs)) ''r'')"
proof (intro exI conjI)
  let ?cs = "[Submit (small_op ''always''),
    DecideRun ''r'' (Some ''esc-0123456789abcdef'') ''ada'' ''approve'' PNone]"
  show o: "observe small_runner (h_track (foldl (host_step small_runner) small_host ?cs)) ''r'' = Inr (Some COMPLETED)"
    by code_simp
  have "list_all host_call_ok ?cs" by (simp add: small_op_ok POLICIES_def)
  from completed_means_every_step [OF _ _ _ this o]
  show "steps_recorded (read_track small_runner (h_track (foldl (host_step small_runner) small_host ?cs)) ''r'')"
    by (simp add: small_host_def)
qed

text \<open>
  C20: starting a host without durability records as interrupted exactly the runs it finds running
  or waiting at a Gate that nobody in this host is moving, answers with those, and leaves the
  Track of every other run as it was.
\<close>

theorem start_interrupts_exactly:
  assumes "r_ops R = sqlite_ops" and "r_backend R = none_backend" and "host_ok R sqlite_inv h" and "start R h = (Inr ids, h')"
  shows "(r \<in> set ids \<longleftrightarrow> found_active R h r) \<and>
    (found_active R h r \<longrightarrow> observe R (h_track h') r = Inr (Some INTERRUPTED)) \<and>
    (\<not> found_active R h r \<longrightarrow> log_of sqlite_ops (h_track h') r = log_of sqlite_ops (h_track h) r)"
proof -
  have b: "backend_name (r_backend R) = ''none''" "\<not> durable (r_backend R)" by (simp_all add: assms(2) none_backend_def)
  show ?thesis using sqlite.start_sound [OF assms(1) b(1) assms(3,4)] b(2) assms(1) by (auto simp: host_grown_def)
qed

theorem start_interrupts_exactly_witness:
  "\<exists>h h'. start small_runner h = (Inr [''r''], h') \<and> found_active small_runner h ''r'' \<and>
     observe small_runner (h_track h') ''r'' = Inr (Some INTERRUPTED)"
proof -
  let ?h = "host_step small_runner small_host (Submit (small_op ''always''))"
  obtain res h' where s: "start small_runner ?h = (res, h')" by (cases "start small_runner ?h")
  have "fst (start small_runner ?h) = Inr [''r'']" by code_simp
  with s have r: "start small_runner ?h = (Inr [''r''], h')" by simp
  have "list_all host_call_ok [Submit (small_op ''always'')]" by (simp add: small_op_ok POLICIES_def)
  from sqlite.host_steps_sound [OF small_simps(1,2) small_host_ok this]
  have ok: "host_ok small_runner sqlite_inv ?h" by (simp add: host_grown_def)
  from start_interrupts_exactly [OF _ _ ok r, of "''r''"] r show ?thesis by auto
qed

text \<open>
  C29: submitting again never resumes or restarts a run: once a run is past submission, whatever is
  submitted under its id leaves the Track and the executor untouched, and answers with the run's
  own state or an error.
\<close>

theorem resubmission_changes_nothing:
  assumes "observe R (h_track h) (op_run_id op) = Inr (Some st)" and "st \<noteq> SUBMITTED" and "submit R op h = (res, h')"
  shows "h_track h' = h_track h \<and> h_calls h' = h_calls h \<and> (\<forall>x. res = Inr x \<longrightarrow> x = st)"
  using assms by (rule submit_unless_submitted)

theorem resubmission_changes_nothing_witness:
  "\<exists>h h'. submit small_runner (small_op ''always'') h = (Inr WAITING_AT_GATE, h') \<and> h_track h' = h_track h \<and> h_calls h' = h_calls h"
proof -
  let ?h = "host_step small_runner small_host (Submit (small_op ''always''))"
  obtain res h' where s: "submit small_runner (small_op ''always'') ?h = (res, h')" by (cases "submit small_runner (small_op ''always'') ?h")
  have "fst (submit small_runner (small_op ''always'') ?h) = Inr WAITING_AT_GATE"
    "observe small_runner (h_track ?h) (op_run_id (small_op ''always'')) = Inr (Some WAITING_AT_GATE)" by code_simp+
  with resubmission_changes_nothing [of small_runner ?h "small_op ''always''", OF _ _ s] s show ?thesis by auto
qed

text \<open>
  C30: a decision lands only on the escalation the run is waiting at: an answer to any other one
  (stale, or repeated after it was answered), or to a run that waits at none, is refused, and
  neither the Track nor the executor sees anything of it.
\<close>

theorem stale_decision_is_refused:
  assumes "replay (read_track R (h_track h) x) = Inr (Some r)"
    and "run_state r \<noteq> WAITING_AT_GATE \<or> \<not> py_eq (opt_str escalation) (open_escalation r)"
    and "decide R x escalation actor verdict findings h = (res, h')"
  shows "h_track h' = h_track h \<and> h_calls h' = h_calls h \<and> (\<exists>e. res = Inl e)"
  using assms by (rule decide_refused)

theorem stale_decision_is_refused_witness:
  "\<exists>h h' e. decide small_runner ''r'' (Some ''esc-gone'') ''ada'' ''approve'' PNone h = (Inl e, h') \<and> h_track h' = h_track h \<and>
     observe small_runner (h_track h) ''r'' = Inr (Some WAITING_AT_GATE)"
proof -
  let ?h = "host_step small_runner small_host (Submit (small_op ''always''))"
  let ?d = "decide small_runner ''r'' (Some ''esc-gone'') ''ada'' ''approve'' PNone ?h"
  let ?w = "case replay (read_track small_runner (h_track ?h) ''r'') of Inr (Some r) \<Rightarrow> \<not> py_eq (opt_str (Some ''esc-gone'')) (open_escalation r) | _ \<Rightarrow> False"
  have o: "observe small_runner (h_track ?h) ''r'' = Inr (Some WAITING_AT_GATE)" and w: ?w by code_simp+
  from observed_run [OF o] obtain r where r: "replay (read_track small_runner (h_track ?h) ''r'') = Inr (Some r)" .
  with w have stale: "\<not> py_eq (opt_str (Some ''esc-gone'')) (open_escalation r)" by simp
  obtain res h' where d: "?d = (res, h')" by (cases ?d)
  from stale_decision_is_refused [OF r disjI2 [OF stale] d] d o show ?thesis by blast
qed

text \<open>
  C2: an ended run is immutable.  Once a run is observed completed, rejected, cancelled or over
  its budget, no sequence of calls, whatever they are and in whatever order, adds anything to its
  Track, so its state is the same for ever.
\<close>

theorem ended_runs_are_immutable:
  assumes "r_ops R = sqlite_ops" and "r_backend R = none_backend" and "host_ok R sqlite_inv h" and "list_all host_call_ok cs"
    and "observe R (h_track h) r = Inr (Some st)" and "st \<in> {COMPLETED, REJECTED, CANCELLED, BUDGET_EXCEEDED}"
  shows "log_of sqlite_ops (h_track (foldl (host_step R) h cs)) r = log_of sqlite_ops (h_track h) r \<and>
    observe R (h_track (foldl (host_step R) h cs)) r = Inr (Some st)"
  using sqlite.final_steps [OF assms(1) _ assms(3-6)] assms(2) by (simp add: none_backend_def)

theorem ended_runs_are_immutable_witness:
  "\<exists>h. observe small_runner (h_track h) ''r'' = Inr (Some COMPLETED) \<and>
     log_of sqlite_ops (h_track (foldl (host_step small_runner) h [RetryRun ''r'', CancelRun ''r'' ''ada'', StartHost])) ''r'' =
       log_of sqlite_ops (h_track h) ''r''"
proof (intro exI conjI)
  let ?h = "host_step small_runner small_host (Submit (small_op ''error''))"
  show o: "observe small_runner (h_track ?h) ''r'' = Inr (Some COMPLETED)" by code_simp
  have "list_all host_call_ok [Submit (small_op ''error'')]" by (simp add: small_op_ok POLICIES_def)
  from sqlite.host_steps_sound [OF small_simps(1,2) small_host_ok this]
  have ok: "host_ok small_runner sqlite_inv ?h" by (simp add: host_grown_def)
  have "list_all host_call_ok [RetryRun ''r'', CancelRun ''r'' ''ada'', StartHost]" by simp
  from ended_runs_are_immutable [OF _ _ ok this o]
  show "log_of sqlite_ops (h_track (foldl (host_step small_runner) ?h [RetryRun ''r'', CancelRun ''r'' ''ada'', StartHost])) ''r'' =
       log_of sqlite_ops (h_track ?h) ''r''" by simp
qed

end
