(* ===== verification/RunnerWorkers.thy ===== *)
theory RunnerWorkers
  imports HostCalls
begin

section \<open>Attempts, workers and cancels\<close>

text \<open>
  Three guarantees of one pass of the driver: the idempotency key of an attempt names its run,
  step and number; an attempt that returns has torn down every worker it materialized; a cancel
  that was accepted is what the run ends with.
\<close>

subsection \<open>Idempotency keys\<close>

definition escaped :: "char \<Rightarrow> string" where
  "escaped c = (if c = CHR ''%'' then ''%25'' else if c = CHR '':'' then ''%3A'' else [c])"

lemma key_component_simps [simp]:
  "key_component [] = []"
  "key_component (c # v) = escaped c @ key_component v"
  by (simp_all add: key_component_def replace_char_def escaped_def)

lemma key_component_no_colon: "CHR '':'' \<notin> set (key_component v)"
  by (induction v) (auto simp: escaped_def)

lemma key_component_inject: "key_component v = key_component w \<Longrightarrow> v = w"
proof (induction v arbitrary: w)
  case Nil
  then show ?case by (cases w) (auto simp: escaped_def split: if_splits)
next
  case (Cons c v)
  then obtain d w' where w: "w = d # w'" by (cases w) (auto simp: escaped_def split: if_splits)
  with Cons.prems have eq: "escaped c @ key_component v = escaped d @ key_component w'" by simp
  then have "c = d" by (auto simp: escaped_def split: if_splits)
  with eq Cons.IH w show ?case by simp
qed

lemma split_at_colon:
  assumes "xs @ CHR '':'' # ys = xs' @ CHR '':'' # ys'" and "CHR '':'' \<notin> set xs" and "CHR '':'' \<notin> set xs'"
  shows "xs = xs' \<and> ys = ys'"
  using assms
proof (induction xs arbitrary: xs')
  case Nil
  then show ?case by (cases xs') auto
next
  case (Cons x xs)
  then show ?case by (cases xs') auto
qed

lemma resolve_key:
  assumes "resolve R op step run retries s = (Inr a, s')"
  shows "a_key a = key_component (op_run_id op) @ CHR '':'' # key_component (step_name step) @ CHR '':'' # show_int (a_number a)"
  using assms by (auto simp: resolve_def Let_def andthen_eq_Inr_iff sx_apply new_step_attempt_def)

text \<open>
  C28: idempotency keys are injective: two attempts, of whatever runs, steps and hosts, have the same
  key only if they are the same attempt of the same step of the same run, even where the ids
  contain the delimiter or its escape.
\<close>

theorem idempotency_keys_are_unique:
  assumes "resolve R op step run retries s = (Inr a, s')" and "resolve R' op' step' run' retries' t = (Inr a', t')"
    and "a_key a = a_key a'"
  shows "op_run_id op = op_run_id op' \<and> step_name step = step_name step' \<and> a_number a = a_number a'"
proof -
  note k = assms(3) [unfolded resolve_key [OF assms(1)] resolve_key [OF assms(2)]]
  from split_at_colon [OF k] have run: "key_component (op_run_id op) = key_component (op_run_id op')"
    and rest: "key_component (step_name step) @ CHR '':'' # show_int (a_number a) =
      key_component (step_name step') @ CHR '':'' # show_int (a_number a')" using key_component_no_colon by blast+
  from split_at_colon [OF rest] have "key_component (step_name step) = key_component (step_name step')"
    "show_int (a_number a) = show_int (a_number a')" using key_component_no_colon by blast+
  then show ?thesis using run key_component_inject inj_show_int by (metis injD)
qed

definition keyed_op :: "string \<Rightarrow> op_definition" where
  "keyed_op i = \<lparr>op_run_id = i, op_steps = []\<rparr>"

definition keyed_step :: "string \<Rightarrow> op_step" where
  "keyed_step n = \<lparr>step_name = n, step_cog = ''c'', entry_point = ''go'', step_input = PNone, step_digest = None, step_gate = default_gate\<rparr>"

definition key_of :: "string \<Rightarrow> string \<Rightarrow> string" where
  "key_of i n = (case resolve small_runner (keyed_op i) (keyed_step n) (new_run i) 0 (new_pass small_host i) of
     (Inr a, _) \<Rightarrow> a_key a | _ \<Rightarrow> [])"

theorem idempotency_keys_are_unique_witness:
  "key_of ''a:b'' ''c'' = ''a%3Ab:c:0'' \<and> key_of ''a'' ''b:c'' = ''a:b%3Ac:0'' \<and> key_of ''a:b'' ''c'' \<noteq> key_of ''a'' ''b:c''"
proof -
  have "is_ok (fst (resolve small_runner (keyed_op ''a:b'') (keyed_step ''c'') (new_run ''a:b'') 0 (new_pass small_host ''a:b'')))" by code_simp
  then obtain x s where x: "resolve small_runner (keyed_op ''a:b'') (keyed_step ''c'') (new_run ''a:b'') 0 (new_pass small_host ''a:b'') = (Inr x, s)"
    by (cases "resolve small_runner (keyed_op ''a:b'') (keyed_step ''c'') (new_run ''a:b'') 0 (new_pass small_host ''a:b'')"; cases "fst (resolve small_runner (keyed_op ''a:b'') (keyed_step ''c'') (new_run ''a:b'') 0 (new_pass small_host ''a:b''))") auto
  have "is_ok (fst (resolve small_runner (keyed_op ''a'') (keyed_step ''b:c'') (new_run ''a'') 0 (new_pass small_host ''a'')))" by code_simp
  then obtain y t where y: "resolve small_runner (keyed_op ''a'') (keyed_step ''b:c'') (new_run ''a'') 0 (new_pass small_host ''a'') = (Inr y, t)"
    by (cases "resolve small_runner (keyed_op ''a'') (keyed_step ''b:c'') (new_run ''a'') 0 (new_pass small_host ''a'')"; cases "fst (resolve small_runner (keyed_op ''a'') (keyed_step ''b:c'') (new_run ''a'') 0 (new_pass small_host ''a''))") auto
  have "a_key x \<noteq> a_key y" using idempotency_keys_are_unique [OF x y] by (auto simp: keyed_op_def)
  moreover have "key_of ''a:b'' ''c'' = ''a%3Ab:c:0''" "key_of ''a'' ''b:c'' = ''a:b%3Ac:0''" by code_simp+
  ultimately show ?thesis using x y by (simp add: key_of_def)
qed

subsection \<open>Workers\<close>

text \<open>What an attempt has asked of the executor so far, after the calls \<open>c0\<close>.\<close>

definition called :: "exec_call list \<Rightarrow> attempt \<Rightarrow> exec_call list \<Rightarrow> bool" where
  "called c0 a cs \<longleftrightarrow>
     (case a_worker a of
        None \<Rightarrow> cs = c0 \<and> \<not> released a
      | Some w \<Rightarrow> \<exists>rest. cs = c0 @ Materialized w # rest \<and> set rest \<subseteq> {TornDownCall w} \<and> (released a \<longrightarrow> rest \<noteq> []))"

definition worker_calls :: "exec_call list \<Rightarrow> 's pass \<Rightarrow> bool" where
  "worker_calls c0 s \<longleftrightarrow> (\<exists>a. adv_attempt (p_adv s) = Some a \<and> called c0 a (p_calls s))"

lemma called_cong: "a_worker b = a_worker a \<Longrightarrow> released b = released a \<Longrightarrow> called c0 b cs = called c0 a cs"
  by (simp add: called_def split: option.split)

text \<open>Every worker of the attempt is torn down.\<close>

definition all_torn_down :: "exec_call list \<Rightarrow> 's pass \<Rightarrow> bool" where
  "all_torn_down c0 s \<longleftrightarrow>
     p_calls s = c0 \<or> (\<exists>w rest. p_calls s = c0 @ Materialized w # rest \<and> rest \<noteq> [] \<and> set rest \<subseteq> {TornDownCall w})"

lemma p_append_keeps_calls:
  "p_calls (snd (p_append R ty p s)) = p_calls s" "p_adv (snd (p_append R ty p s)) = p_adv s"
  by (auto simp: p_append_def split: prod.splits sum.splits)

lemma keeps_worker_append: "keeps (worker_calls c0) (p_append R ty p)"
  by (simp add: keeps_def worker_calls_def p_append_keeps_calls)

lemma keeps_worker_moves: "keeps (worker_calls c0) (record_moves R m)"
proof -
  have "keeps (worker_calls c0) (p_append_all R recs)" for recs
    by (induction recs) (auto intro!: keeps_intros keeps_worker_append)
  then show ?thesis unfolding record_moves_def
    by (intro keeps_bind) (auto intro!: keeps_intros split: prod.split)
qed

lemma keeps_worker_ask: "keeps (worker_calls c0) ask"
  by (simp add: keeps_def worker_calls_def ask_def)

lemma keeps_worker_set:
  assumes "\<And>a. a_worker (f a) = a_worker a \<and> released (f a) = released a"
  shows "keeps (worker_calls c0) (set_attempt f)"
proof -
  have "called c0 (f a) cs = called c0 a cs" for a cs using assms [of a] by (intro called_cong) auto
  then show ?thesis by (auto simp: keeps_def worker_calls_def set_attempt_def sx_apply)
qed

lemma keeps_worker_observe: "keeps (worker_calls c0) (observe_cancel R)"
proof -
  have "keeps (worker_calls c0) (accept_cancel R actor)" for actor
  proof (rule keepsI)
    fix s :: "'a pass" assume "worker_calls c0 s"
    then show "worker_calls c0 (snd (accept_cancel R actor s))"
      by (auto simp: worker_calls_def called_def accept_cancel_def Let_def exec_teardown_def ask_def log_call_def set_attempt_def
          bind_def andthen_def sx_apply split: option.splits)
  qed
  then show ?thesis unfolding observe_cancel_def by (intro keeps_intros keeps_worker_ask)
qed

lemmas keeps_worker =
  keeps_intros keeps_worker_append keeps_worker_moves keeps_worker_ask keeps_worker_set keeps_worker_observe
  keeps_the_attempt keeps_need

lemma keeps_worker_interact: "keeps (worker_calls c0) (interact R)"
  unfolding interact_def Let_def by (intro keeps_worker) auto

lemma keeps_worker_read: "keeps (worker_calls c0) (read_envelope R)"
  unfolding read_envelope_def Let_def
  by (intro keeps_worker) (auto split: option.split answer.split intro!: keeps_worker)

lemma keeps_worker_failed: "keeps (worker_calls c0) (attempt_failed R x)"
  unfolding attempt_failed_def by (intro keeps_worker) (cases x; auto intro!: keeps_worker)

text \<open>Materializing: the worker is the attempt's before anything can raise.\<close>

definition no_worker_yet :: "exec_call list \<Rightarrow> 's pass \<Rightarrow> bool" where
  "no_worker_yet c0 s \<longleftrightarrow>
     (\<exists>a. adv_attempt (p_adv s) = Some a \<and> a_worker a = None \<and> \<not> released a) \<and> p_calls s = c0"

lemma no_worker_yet_calls: "no_worker_yet c0 s \<Longrightarrow> worker_calls c0 s"
  by (auto simp: no_worker_yet_def worker_calls_def called_def)

lemma keeps_no_worker_observe: "keeps (no_worker_yet c0) (observe_cancel R)"
proof -
  have "keeps (no_worker_yet c0) (accept_cancel R actor)" for actor
    by (auto simp: keeps_def no_worker_yet_def accept_cancel_def Let_def split: option.splits)
  moreover have "keeps (no_worker_yet c0) ask" by (simp add: keeps_def no_worker_yet_def ask_def)
  ultimately show ?thesis unfolding observe_cancel_def by (intro keeps_intros)
qed

lemma triple_worker_materialize:
  "triple (no_worker_yet c0) (materialize R op) (\<lambda>_. worker_calls c0) (\<lambda>_. worker_calls c0)"
  unfolding materialize_def
proof (rule triple_bind)
  show "triple (no_worker_yet c0) the_attempt (\<lambda>_. no_worker_yet c0) (\<lambda>_. worker_calls c0)"
    by (rule triple_weaken [OF triple_keeps [where P = "no_worker_yet c0", OF keeps_the_attempt]]) (auto intro: no_worker_yet_calls)
  fix a :: attempt
  let ?st = "a_step a"
  have rest: "keeps (worker_calls c0) (bind (record_moves R (worker_materialize (step_cog ?st) (Some (step_name ?st)) (step_digest ?st) None)) (\<lambda>cw.
     andthen (set_attempt (\<lambda>a. a\<lparr>a_cog_worker := Some cw\<rparr>)) (
     andthen (case run_token_digest w of
                None \<Rightarrow> ret ()
              | Some d \<Rightarrow>
                  andthen (p_append R ''worker_started''
                      (dict_merge (dict_merge
                         [(''step'', PStr (step_name ?st)), (''attempt'', PInt (a_number a)),
                          (''instance'', PStr (a_instance a))] (cw_details w))
                         [(''run_token_sha256'', PStr d)]))
                    (set_attempt (\<lambda>a. a\<lparr>worker_was_started := True\<rparr>))) (
     bind (record_moves R (worker_dispatch cw Ready)) (\<lambda>cw.
     set_attempt (\<lambda>a. a\<lparr>a_cog_worker := Some cw\<rparr>))))))" for w :: cog_worker
    by (intro keeps_worker) auto
  have tick: "triple (no_worker_yet c0) ask (\<lambda>_. no_worker_yet c0) (\<lambda>_. worker_calls c0)"
    by (rule triple_weaken [OF triple_keeps [of "no_worker_yet c0"]]) (auto simp: keeps_def no_worker_yet_def ask_def worker_calls_def called_def)
  have up: "triple (no_worker_yet c0) (lift m) (\<lambda>_. no_worker_yet c0) (\<lambda>_. worker_calls c0)" for m :: "exn + cog_worker"
    by (rule triple_lift) (auto intro: no_worker_yet_calls)
  have logged: "triple (no_worker_yet c0) (log_call (Materialized w)) (\<lambda>_. no_worker_yet (c0 @ [Materialized w])) (\<lambda>_. worker_calls c0)" for w
    unfolding log_call_def by (rule triple_modify) (simp add: no_worker_yet_def)
  have seen: "triple (no_worker_yet (c0 @ [Materialized w])) (observe_cancel R) (\<lambda>_. no_worker_yet (c0 @ [Materialized w])) (\<lambda>_. worker_calls c0)" for w
  proof (rule tripleI)
    fix s x t assume "no_worker_yet (c0 @ [Materialized w]) s" "observe_cancel R s = (Inr x, t)"
    then show "no_worker_yet (c0 @ [Materialized w]) t"
      using keepsD [OF keeps_no_worker_observe, of "c0 @ [Materialized w]" s R] by simp
  qed (auto simp: observe_cancel_def accept_cancel_def exec_teardown_def ask_def log_call_def set_attempt_def bind_def andthen_def
        sx_apply Let_def split: option.splits if_splits)
  have owned: "triple (no_worker_yet (c0 @ [Materialized w])) (set_attempt (\<lambda>a. a\<lparr>a_worker := Some w\<rparr>)) (\<lambda>_. worker_calls c0) (\<lambda>_. worker_calls c0)" for w
    unfolding set_attempt_def by (rule triple_modify) (auto simp: no_worker_yet_def worker_calls_def called_def)
  show "triple (no_worker_yet c0) (let step = ?st in bind ask (\<lambda>t.
     bind (lift (w_materialize (r_world R) t (step_cog step) (op_run_id op) (a_instance a))) (\<lambda>w.
     andthen (log_call (Materialized w)) (
     andthen (observe_cancel R) (
     andthen (set_attempt (\<lambda>a. a\<lparr>a_worker := Some w\<rparr>)) (
     bind (record_moves R (worker_materialize (step_cog step) (Some (step_name step)) (step_digest step) None)) (\<lambda>cw.
     andthen (set_attempt (\<lambda>a. a\<lparr>a_cog_worker := Some cw\<rparr>)) (
     andthen (case run_token_digest w of
                None \<Rightarrow> ret ()
              | Some d \<Rightarrow>
                  andthen (p_append R ''worker_started''
                      (dict_merge (dict_merge
                         [(''step'', PStr (step_name step)), (''attempt'', PInt (a_number a)),
                          (''instance'', PStr (a_instance a))] (cw_details w))
                         [(''run_token_sha256'', PStr d)]))
                    (set_attempt (\<lambda>a. a\<lparr>worker_was_started := True\<rparr>))) (
     bind (record_moves R (worker_dispatch cw Ready)) (\<lambda>cw.
     set_attempt (\<lambda>a. a\<lparr>a_cog_worker := Some cw\<rparr>))))))))))) (\<lambda>_. worker_calls c0) (\<lambda>_. worker_calls c0)"
    unfolding Let_def
    by (rule triple_bind [OF tick], rule triple_bind [OF up], rule triple_andthen [OF logged], rule triple_andthen [OF seen],
        rule triple_andthen [OF owned], rule triple_keeps [OF rest])
qed

text \<open>Tearing down: on every path that returns, the executor was asked to.\<close>

definition calls_are :: "exec_call list \<Rightarrow> 's pass \<Rightarrow> bool" where
  "calls_are cs s \<longleftrightarrow> p_calls s = cs"

lemma keeps_calls_moves: "keeps (calls_are cs) (record_moves R m)"
proof -
  have one: "keeps (calls_are cs) (p_append R ty p)" for ty p
    by (simp add: keeps_def calls_are_def p_append_keeps_calls)
  have "keeps (calls_are cs) (p_append_all R recs)" for recs
    by (induction recs) (auto intro!: keeps_intros one)
  then show ?thesis unfolding record_moves_def
    by (intro keeps_bind) (auto intro!: keeps_intros split: prod.split)
qed

lemma triple_any: "keeps P m \<Longrightarrow> triple P m (\<lambda>_. P) (\<lambda>_ _. True)"
  by (rule triple_weaken [OF triple_keeps]) auto

lemma triple_exec_teardown:
  "triple (calls_are cs) (exec_teardown R w) (\<lambda>_. calls_are (cs @ [TornDownCall w])) (\<lambda>_ _. True)"
  by (rule tripleI) (auto simp: exec_teardown_def ask_def log_call_def bind_def andthen_def sx_apply calls_are_def)

lemma triple_tear_down_own:
  "triple (calls_are cs) (tear_down_own R a w) (\<lambda>_. calls_are (cs @ [TornDownCall w])) (\<lambda>_ _. True)"
proof -
  have moves: "triple (calls_are ds) (record_moves R m) (\<lambda>_. calls_are ds) (\<lambda>_ _. True)" for ds and m :: "exn + worker transition"
    by (rule triple_any [OF keeps_calls_moves])
  have failed: "triple (calls_are ds) (case e of None \<Rightarrow> ret None
      | Some x \<Rightarrow> andthen (record_moves R (worker_dispatch cw (WorkerFail x))) (ret (Some x))) (\<lambda>_. calls_are ds) (\<lambda>_ _. True)" for ds e cw
    by (cases e) (auto intro!: triple_ret triple_andthen [OF moves])
  show ?thesis
    unfolding tear_down_own_def
    by (auto split: option.split intro!: triple_exec_teardown triple_bind [OF moves] triple_andthen [OF moves]
        triple_bind [OF triple_exec_teardown] failed triple_ret)
qed

lemma triple_tear_down_cancelled:
  "triple (\<lambda>s. \<exists>rest. rest \<noteq> [] \<and> set rest \<subseteq> {TornDownCall w} \<and> calls_are (cs @ rest) s) (tear_down_cancelled R a w)
     (\<lambda>_ s. \<exists>rest. rest \<noteq> [] \<and> set rest \<subseteq> {TornDownCall w} \<and> calls_are (cs @ rest) s) (\<lambda>_ _. True)"
    (is "triple ?P _ _ _")
proof -
  have moves: "keeps ?P (record_moves R m)" for m :: "exn + worker transition"
    using keeps_calls_moves [of "cs @ _" R m] unfolding keeps_def by blast
  have again: "keeps ?P (exec_teardown R w)"
  proof (rule keepsI)
    fix s :: "'a pass" assume "?P s"
    then obtain rest where rest: "rest \<noteq> []" "set rest \<subseteq> {TornDownCall w}" "p_calls s = cs @ rest" by (auto simp: calls_are_def)
    have "p_calls (snd (exec_teardown R w s)) = cs @ (rest @ [TornDownCall w])"
      using rest(3) by (simp add: exec_teardown_def ask_def log_call_def bind_def andthen_def sx_apply)
    moreover have "rest @ [TornDownCall w] \<noteq> []" "set (rest @ [TornDownCall w]) \<subseteq> {TornDownCall w}" using rest(2) by auto
    ultimately show "?P (snd (exec_teardown R w s))" unfolding calls_are_def by blast
  qed
  show ?thesis
    unfolding tear_down_cancelled_def
    by (rule triple_any, intro keeps_intros moves again keeps_the_attempt)
qed

lemma triple_tear_down:
  "triple (\<lambda>s. worker_calls c0 s \<and> map_option a_worker (adv_attempt (p_adv s)) = Some (Some w)) (tear_down R w)
     (\<lambda>_. all_torn_down c0) (\<lambda>_ _. True)"
  (is "triple ?P _ _ _")
  unfolding tear_down_def
proof (rule triple_bind)
  show "triple ?P (observe_cancel R) (\<lambda>_. ?P) (\<lambda>_ _. True)"
  proof (rule tripleI)
    fix s x t assume s: "?P s" and o: "observe_cancel R s = (Inr x, t)"
    have "map_option a_worker (adv_attempt (p_adv t)) = map_option a_worker (adv_attempt (p_adv s))"
      using o by (auto simp: observe_cancel_def accept_cancel_def exec_teardown_def ask_def log_call_def set_attempt_def
          bind_def andthen_def sx_apply Let_def split: option.splits if_splits)
    then show "?P t" using s o keepsD [OF keeps_worker_observe, of c0 s R] by simp
  qed simp
  fix c
  show "triple ?P (bind the_attempt (\<lambda>a. andthen (set_attempt (\<lambda>a. a\<lparr>released := True\<rparr>))
       (if released a then tear_down_cancelled R a w else tear_down_own R a w))) (\<lambda>_. all_torn_down c0) (\<lambda>_ _. True)"
  proof (rule triple_bind)
    show "triple ?P the_attempt (\<lambda>a s. a_worker a = Some w \<and> called c0 a (p_calls s)) (\<lambda>_ _. True)"
      by (rule tripleI) (auto simp: the_attempt_def worker_calls_def split: option.splits)
    fix a
    let ?Q = "\<lambda>s. a_worker a = Some w \<and> called c0 a (p_calls s)"
    have set: "triple ?Q (set_attempt (\<lambda>a. a\<lparr>released := True\<rparr>)) (\<lambda>_. ?Q) (\<lambda>_ _. True)"
      unfolding set_attempt_def by (rule triple_modify) simp
    have own: "triple ?Q (tear_down_own R a w) (\<lambda>_. all_torn_down c0) (\<lambda>_ _. True)"
    proof (rule tripleI)
      fix s x t assume "?Q s" "tear_down_own R a w s = (Inr x, t)"
      then show "all_torn_down c0 t"
        using tripleD(1) [OF triple_tear_down_own, of "p_calls s" s R a w x t] by (auto simp: calls_are_def called_def all_torn_down_def)
    qed simp
    have cancelled: "triple ?Q (tear_down_cancelled R a w) (\<lambda>_. all_torn_down c0) (\<lambda>_ _. True)" if "released a"
      by (rule triple_weaken [OF triple_tear_down_cancelled [of w "c0 @ [Materialized w]"]])
         (use that in \<open>auto simp: called_def calls_are_def all_torn_down_def\<close>)
    show "triple ?Q (andthen (set_attempt (\<lambda>a. a\<lparr>released := True\<rparr>))
       (if released a then tear_down_cancelled R a w else tear_down_own R a w)) (\<lambda>_. all_torn_down c0) (\<lambda>_ _. True)"
      by (rule triple_andthen [OF set]) (use own cancelled in auto)
  qed
qed

lemma keeps_torn_down_append: "keeps (all_torn_down c0) (p_append R ty p)"
  by (simp add: keeps_def all_torn_down_def p_append_keeps_calls)

lemma triple_run_attempt:
  "triple (no_worker_yet c0) (run_attempt R op) (\<lambda>_. all_torn_down c0) (\<lambda>_ _. True)"
proof -
  have body: "triple (no_worker_yet c0) (attempt_body R op) (\<lambda>_. worker_calls c0) (\<lambda>_. worker_calls c0)"
  proof -
    have seen: "triple (no_worker_yet c0) (observe_cancel R) (\<lambda>_. no_worker_yet c0) (\<lambda>_. worker_calls c0)"
      by (rule triple_weaken [OF triple_keeps [where P = "no_worker_yet c0", OF keeps_no_worker_observe]]) (auto intro: no_worker_yet_calls)
    have after: "keeps (worker_calls c0) (bind (observe_cancel R) (\<lambda>c.
       if c then raise (RunCancelled ''the run was cancelled before its worker was invoked'')
       else andthen (interact R) (read_envelope R)))"
      by (intro keeps_worker keeps_worker_interact keeps_worker_read)
    have go: "triple (no_worker_yet c0) (if c then raise (RunCancelled ''the run was cancelled before its worker was materialized'')
       else andthen (materialize R op) (bind (observe_cancel R) (\<lambda>c.
       if c then raise (RunCancelled ''the run was cancelled before its worker was invoked'')
       else andthen (interact R) (read_envelope R)))) (\<lambda>_. worker_calls c0) (\<lambda>_. worker_calls c0)" for c
      using triple_andthen [OF triple_worker_materialize triple_keeps [OF after]]
      by (auto intro!: triple_raise no_worker_yet_calls)
    show ?thesis unfolding attempt_body_def run_step_def by (rule triple_bind [OF seen go])
  qed
  have caught: "triple (no_worker_yet c0) (catch (attempt_body R op) (attempt_failed R)) (\<lambda>_. worker_calls c0) (\<lambda>_. worker_calls c0)"
    by (rule triple_catch [OF body]) (rule triple_keeps [OF keeps_worker_failed])
  have last: "triple (worker_calls c0) (teardown_if_worker R op) (\<lambda>_. all_torn_down c0) (\<lambda>_ _. True)"
    unfolding teardown_if_worker_def run_step_def
  proof (rule triple_bind)
    show "triple (worker_calls c0) the_attempt
        (\<lambda>a s. worker_calls c0 s \<and> adv_attempt (p_adv s) = Some a) (\<lambda>_ _. True)"
      by (rule tripleI) (auto simp: the_attempt_def worker_calls_def split: option.splits)
    fix a :: attempt
    have td: "triple (\<lambda>s. worker_calls c0 s \<and> map_option a_worker (adv_attempt (p_adv s)) = Some (Some w)) (teardown R w)
        (\<lambda>_. all_torn_down c0) (\<lambda>_ _. True)" for w
      unfolding teardown_def
      by (rule triple_bind [OF triple_tear_down], rule triple_any, intro keeps_intros keeps_the_attempt keeps_torn_down_append)
    have set: "triple (all_torn_down c0) (set_attempt f) (\<lambda>_. all_torn_down c0) (\<lambda>_ _. True)" for f
      unfolding set_attempt_def by (rule triple_modify) (simp add: all_torn_down_def)
    show "triple (\<lambda>s. worker_calls c0 s \<and> adv_attempt (p_adv s) = Some a) (case a_worker a of None \<Rightarrow> ret ()
       | Some w \<Rightarrow> bind (teardown R w) (\<lambda>e. set_attempt (\<lambda>a. a\<lparr>teardown_error := e\<rparr>))) (\<lambda>_. all_torn_down c0) (\<lambda>_ _. True)"
    proof (cases "a_worker a")
      case None
      then show ?thesis by (auto intro!: triple_ret simp: worker_calls_def called_def all_torn_down_def)
    next
      case (Some w)
      then show ?thesis by simp (rule triple_weaken [OF triple_bind [OF td [of w] set]], auto)
    qed
  qed
  show ?thesis
  proof (rule tripleI)
    fix s x t assume s: "no_worker_yet c0 s" and r: "run_attempt R op s = (Inr x, t)"
    obtain y u where y: "catch (attempt_body R op) (attempt_failed R) s = (y, u)" by (cases "catch (attempt_body R op) (attempt_failed R) s")
    have "worker_calls c0 u" using tripleD [OF caught s] y by (cases y) auto
    moreover have "\<exists>z. teardown_if_worker R op u = (Inr z, t)" using r y by (auto simp: run_attempt_def ensure_def split: prod.splits sum.splits)
    ultimately show "all_torn_down c0 t" using tripleD(1) [OF last] by blast
  qed simp
qed

definition fresh_attempt :: "'s pass \<Rightarrow> bool" where
  "fresh_attempt s \<longleftrightarrow>
     (case adv_attempt (p_adv s) of None \<Rightarrow> False | Some a \<Rightarrow> a_worker a = None \<and> \<not> released a)"

text \<open>
  C11: no attempt leaves a worker behind.  Whatever the worker answers or raises, and whenever a
  cancel lands, an attempt that returns to the driver asked the executor for at most one worker,
  and if it got one, everything it asked after that was to tear that worker down, at least once.
\<close>

theorem attempts_leave_no_worker:
  assumes "fresh_attempt s" and "run_attempt R op s = (Inr (), s')"
  shows "\<exists>new. p_calls s' = p_calls s @ new \<and>
    (new = [] \<or> (\<exists>w rest. new = Materialized w # rest \<and> rest \<noteq> [] \<and> set rest \<subseteq> {TornDownCall w}))"
proof -
  have "no_worker_yet (p_calls s) s" using assms(1) by (auto simp: fresh_attempt_def no_worker_yet_def split: option.splits)
  from tripleD(1) [OF triple_run_attempt this assms(2)] show ?thesis by (auto simp: all_torn_down_def)
qed

text \<open>A worker whose interaction raises, in a run that is cancelled while it is being materialized.\<close>

definition troubled_world :: "nat \<Rightarrow> world" where
  "troubled_world n = small_world\<lparr>w_interact := (\<lambda>t w ep inp key sig. Inl (Raised ''Timeout'' ''late'')),
     w_cancel := (\<lambda>t. if t = n then Some ''ada'' else None)\<rparr>"

definition troubled_runner :: "nat \<Rightarrow> sqlite_store runner" where
  "troubled_runner n = small_runner\<lparr>r_world := troubled_world n\<rparr>"

definition troubled_pass :: "sqlite_store pass" where
  "troubled_pass = (new_pass small_host ''r'')\<lparr>p_adv :=
     \<lparr>adv_attempt = Some (new_step_attempt (hd (op_steps (small_op ''error''))) 0 ''draft:0'' ''r:draft:0''),
      cancelled_by = None, accepting = True\<rparr>\<rparr>"

theorem attempts_leave_no_worker_witness:
  "\<exists>w rest. p_calls (snd (run_attempt (troubled_runner 2) (small_op ''error'') troubled_pass)) = Materialized w # rest \<and>
     rest \<noteq> [] \<and> set rest \<subseteq> {TornDownCall w}"
proof -
  let ?m = "run_attempt (troubled_runner 2) (small_op ''error'') troubled_pass"
  have "is_ok (fst ?m)" and some: "p_calls (snd ?m) \<noteq> []" by code_simp+
  then obtain s' where s': "?m = (Inr (), s')" by (cases ?m; cases "fst ?m") auto
  have "fresh_attempt troubled_pass" "p_calls troubled_pass = []" by code_simp+
  with attempts_leave_no_worker [OF _ s'] some s' show ?thesis by auto
qed

subsection \<open>Cancels\<close>

text \<open>
  C5: an accepted cancel is never lost: wherever in a pass a cancel is taken (before a worker, while
  it is materialized or interacting, during teardown, before the end is written), a pass that
  returns reports the run cancelled, and so does its Track.
\<close>

theorem accepted_cancel_ends_the_run:
  assumes "r_ops R = sqlite_ops" and "at_run R sqlite_inv r s" and "run_state r \<in> {SUBMITTED, RUNNING}"
    and "advance R op s = (Inr st, s')" and "cancelled_by (p_adv s') \<noteq> None"
  shows "st = CANCELLED \<and> observe R (p_track s') (p_run s') = Inr (Some CANCELLED)"
proof -
  from tripleD(1) [OF sqlite.triple_advance [OF assms(1,3)] assms(2,4)]
  show ?thesis using assms(5) by (auto simp: arrived_def at_run_def pass_ok_def observe_def)
qed

definition submitted_pass :: "nat \<Rightarrow> sqlite_store pass" where
  "submitted_pass n = snd (andthen (load (troubled_runner n))
     (record_moves (troubled_runner n) (Inr (run_submit ''r'' (serialize_op (small_op ''error'')) None None))) (new_pass small_host ''r''))"

theorem accepted_cancel_ends_the_run_witness:
  "\<exists>s'. advance (troubled_runner 6) (small_op ''error'') (submitted_pass 6) = (Inr CANCELLED, s') \<and>
     cancelled_by (p_adv s') = Some ''ada'' \<and> observe (troubled_runner 6) (p_track s') (p_run s') = Inr (Some CANCELLED)"
proof -
  let ?R = "troubled_runner 6" and ?s = "submitted_pass 6"
  let ?m = "advance ?R (small_op ''error'') ?s"
  obtain res s' where m: "?m = (res, s')" by (cases ?m)
  have "fst ?m = Inr CANCELLED" and "cancelled_by (p_adv (snd ?m)) = Some ''ada''" by code_simp+
  with m have res: "?m = (Inr CANCELLED, s')" and by_ada: "cancelled_by (p_adv s') = Some ''ada''" by simp_all
  obtain l where l: "load ?R (new_pass small_host ''r'') = (Inr (p_history l), l)" "pass_ok ?R sqlite_inv l" "p_history l = []" "p_run l = ''r''"
    using sqlite.load_outcome [of "new_pass small_host ''r''" ?R] small_host_ok
    by (auto simp: troubled_runner_def host_ok_def read_track_def small_host_def sqlite_ops_def sqlite_select_def sqlite_init_def)
  have ops: "r_ops ?R = sqlite_ops" by (simp add: troubled_runner_def)
  have id: "op_run_id (small_op ''error'') = ''r''" by (simp add: small_op_def)
  have "is_ok (fst (record_moves ?R (Inr (run_submit ''r'' (serialize_op (small_op ''error'')) None None))
      (snd (load ?R (new_pass small_host ''r'')))))" by code_simp
  moreover have "?s = snd (record_moves ?R (Inr (run_submit ''r'' (serialize_op (small_op ''error'')) None None)) l)"
    by (simp add: submitted_pass_def andthen_def bind_def l(1))
  ultimately obtain y where y: "record_moves ?R (Inr (run_submit ''r'' (serialize_op (small_op ''error'')) None None)) l = (Inr y, ?s)"
    using l(1) by (metis is_ok_simps(1) obj_sumE prod.collapse snd_conv)
  have "at_run ?R sqlite_inv (new_run ''r'') ?s"
    using sqlite.submission_outcome [OF ops l(2,3) small_op_ok, of "''error''" "Inr y" ?s] y id l(4) by (simp add: POLICIES_def)
  from accepted_cancel_ends_the_run [OF ops this _ res] by_ada res show ?thesis by (simp add: new_run_def)
qed

end
