(* ===== verification/Intents.thy ===== *)
theory Intents
  imports Ops TrackStores RunTokens
begin

section \<open>What a client asks of a run, and what its Track says (intents.py)\<close>

text \<open>
  The API's side of a run: a submission, a request to cancel and a turn are written to the Track
  and nothing else; a run's status is read from it.  The store is a \<open>track_ops\<close>; the clock and
  the fresh id an event is built with are the argument \<open>stamp\<close>.  A value read from a payload may
  be of any type, so the views carry Python values where the code does not check one.
\<close>

subsection \<open>Submitting\<close>

record stamp =
  st_at :: int
  st_id :: string

definition intent_event :: "string \<Rightarrow> string \<Rightarrow> payload \<Rightarrow> stamp \<Rightarrow> track_event" where
  "intent_event r ty p stamp =
     \<lparr>run_id = r, event_type = ty, payload = p, occurred_at = st_at stamp, event_id = st_id stamp,
      sequence = None, schema = SCHEMA_VERSION\<rparr>"

definition intent_append ::
  "'s track_ops \<Rightarrow> 's \<Rightarrow> string \<Rightarrow> string \<Rightarrow> payload \<Rightarrow> stamp \<Rightarrow> (exn + unit) \<times> 's" where
  "intent_append ops t r ty p stamp =
     (case t_append ops t (intent_event r ty p stamp) of (Inl x, u) \<Rightarrow> (Inl x, u) | (Inr _, u) \<Rightarrow> (Inr (), u))"

text \<open>\<open>Run.submit\<close> reports one record, so the loop over its records is one append.\<close>

definition submit_intent ::
  "'s track_ops \<Rightarrow> 's \<Rightarrow> op_definition \<Rightarrow> payload \<Rightarrow> string option \<Rightarrow> stamp \<Rightarrow> (exn + unit) \<times> 's" where
  "submit_intent ops t op submitter name stamp =
     (let rec = hd (snd (run_submit (op_run_id op) (serialize_op op) (Some submitter) name))
      in intent_append ops t (op_run_id op) (rec_type rec) (rec_payload rec) stamp)"

subsection \<open>Views\<close>

definition CANCEL_REQUESTED :: string where
  "CANCEL_REQUESTED = ''cancel_requested''"

definition cancel_request :: "track_event list \<Rightarrow> pyval" where
  "cancel_request es =
     foldl (\<lambda>actor e. if event_type e = CANCEL_REQUESTED then py_or actor (py_get (payload e) ''actor'')
                      else if event_type e = ''retry_requested'' then PNone else actor) PNone es"

record step_view =
  sv_name :: string
  sv_cog :: string
  sv_state :: string
  sv_attempt :: pyval
  sv_error :: pyval
  sv_output :: pyval
  sv_output_ref :: pyval

record run_view =
  v_run_id :: string
  v_state :: run_state
  v_op :: op_definition
  v_steps :: "step_view list"
  v_submitted_by :: payload
  v_submitted_at :: int
  v_updated_at :: int
  cancel_requested_by :: pyval
  v_error :: pyval
  v_reason :: pyval
  v_name :: pyval

definition pending_step :: "op_step \<Rightarrow> step_view" where
  "pending_step s =
     \<lparr>sv_name = step_name s, sv_cog = step_cog s, sv_state = ''pending'', sv_attempt = PNone, sv_error = PNone,
      sv_output = PNone, sv_output_ref = PNone\<rparr>"

text \<open>The loop's variables: the steps by name, \<open>error\<close>, \<open>reason\<close>, and the open steps.\<close>

record view_acc =
  va_steps :: "(string, step_view) dict"
  va_error :: pyval
  va_reason :: pyval
  va_open :: "string list"

definition view_step :: "view_acc \<Rightarrow> track_event \<Rightarrow> view_acc" where
  "view_step a e =
     (let p = payload e; ty = event_type e;
          a1 = (if ty = ''failed'' \<or> ty = ''budget_exceeded'' then
                  a\<lparr>va_error := py_or (py_get p ''error'') (PStr ty), va_reason := py_get p ''reason''\<rparr>
                else if ty = ''retry_requested'' then a\<lparr>va_error := PNone, va_reason := PNone\<rparr> else a)
      in case py_get p ''step'' of
           PStr n \<Rightarrow>
             (case map_of (va_steps a1) n of
                None \<Rightarrow> a1
              | Some v \<Rightarrow>
                  if ty = ''step_started'' then
                    a1\<lparr>va_steps := AList.update n (v\<lparr>sv_state := ''running'', sv_attempt := py_get p ''attempt'',
                                                     sv_error := PNone\<rparr>) (va_steps a1),
                       va_open := List.insert n (va_open a1)\<rparr>
                  else if ty = ''gate_escalated'' then
                    a1\<lparr>va_steps := AList.update n (v\<lparr>sv_state := ''waiting_at_gate''\<rparr>) (va_steps a1),
                       va_open := List.insert n (va_open a1)\<rparr>
                  else if ty = ''step_completed'' then
                    a1\<lparr>va_steps := AList.update n (v\<lparr>sv_state := ''completed'', sv_output := py_get p ''payload'',
                                                     sv_output_ref := py_get p ''payload_ref''\<rparr>) (va_steps a1),
                       va_open := removeAll n (va_open a1)\<rparr>
                  else if ty = ''step_failed'' then
                    a1\<lparr>va_steps := AList.update n (v\<lparr>sv_state := ''failed'', sv_error := py_get p ''error''\<rparr>) (va_steps a1),
                       va_open := removeAll n (va_open a1)\<rparr>
                  else a1)
         | _ \<Rightarrow> a1)"

definition start_acc :: "op_definition \<Rightarrow> view_acc" where
  "start_acc op =
     \<lparr>va_steps = foldl (\<lambda>d s. AList.update (step_name s) (pending_step s) d) [] (op_steps op),
      va_error = PNone, va_reason = PNone, va_open = []\<rparr>"

text \<open>The steps left open when the run ended take the run's state as theirs.\<close>

definition close_open :: "run_state \<Rightarrow> view_acc \<Rightarrow> (string, step_view) dict" where
  "close_open st a =
     (if ended st then
        foldl (\<lambda>d n. case map_of d n of None \<Rightarrow> d | Some v \<Rightarrow> AList.update n (v\<lparr>sv_state := run_state_value st\<rparr>) d)
          (va_steps a) (va_open a)
      else va_steps a)"

text \<open>The view of one step of the Op: its own name and Cog, and the state kept under its name.\<close>

definition step_of :: "(string, step_view) dict \<Rightarrow> op_step \<Rightarrow> step_view" where
  "step_of d s =
     (case map_of d (step_name s) of
        None \<Rightarrow> pending_step s
      | Some v \<Rightarrow> v\<lparr>sv_name := step_name s, sv_cog := step_cog s\<rparr>)"

definition view_of :: "string \<Rightarrow> track_event list \<Rightarrow> exn + run_view option" where
  "view_of r es =
     bind_result (replay es) (\<lambda>run.
     case run of
       None \<Rightarrow> Inr None
     | Some run \<Rightarrow>
         (case List.find (\<lambda>e. event_type e = ''op_submitted'') es of
            None \<Rightarrow> Inl StopIteration
          | Some sub \<Rightarrow>
              bind_result (case map_of (payload sub) ''op'' of None \<Rightarrow> Inl KeyError | Some v \<Rightarrow> deserialize_op v) (\<lambda>op.
              bind_result (let b = py_get (payload sub) ''submitted_by'' in if py_truthy b then dict_of b else Inr []) (\<lambda>b.
              let a = foldl view_step (start_acc op) es; d = close_open (run_state run) a in
              Inr (Some \<lparr>v_run_id = r, v_state = run_state run, v_op = op, v_steps = map (step_of d) (op_steps op),
                         v_submitted_by = b, v_submitted_at = occurred_at sub, v_updated_at = occurred_at (last es),
                         cancel_requested_by = cancel_request es, v_error = va_error a, v_reason = va_reason a,
                         v_name = py_get (payload sub) ''name''\<rparr>)))))"

definition describe :: "'s track_ops \<Rightarrow> 's \<Rightarrow> string \<Rightarrow> exn + run_view option" where
  "describe ops t r = view_of r (map upgrade (t_replay ops t r 0))"

subsection \<open>Asking for a cancel\<close>

definition still_wanted :: "track_event list \<Rightarrow> exn + bool" where
  "still_wanted es =
     (let es = map upgrade es
      in bind_result (replay es) (\<lambda>run.
           case run of
             None \<Rightarrow> Inr False
           | Some r \<Rightarrow> Inr (\<not> ended (run_state r) \<and> cancel_request es = PNone)))"

definition request_cancel ::
  "'s track_ops \<Rightarrow> 's \<Rightarrow> string \<Rightarrow> string \<Rightarrow> stamp \<Rightarrow> (exn + run_view) \<times> 's" where
  "request_cancel ops t r actor stamp =
     (case t_append_if ops t (intent_event r CANCEL_REQUESTED [(''actor'', PStr actor)] stamp) still_wanted of
        (Inl x, u) \<Rightarrow> (Inl x, u)
      | (Inr recorded, u) \<Rightarrow>
          (case describe ops u r of
             Inl x \<Rightarrow> (Inl x, u)
           | Inr None \<Rightarrow> (Inl LookupError, u)
           | Inr (Some v) \<Rightarrow>
               if recorded = None \<and> ended (v_state v) then (Inl (RunEnded (run_state_name (v_state v)) CANCEL_REQUESTED), u)
               else (Inr v, u)))"

subsection \<open>Turns\<close>

definition TURN_REQUESTED :: string where "TURN_REQUESTED = ''turn_requested''"
definition TURN_ANSWERED :: string where "TURN_ANSWERED = ''turn_answered''"
definition TURN_FAILED :: string where "TURN_FAILED = ''turn_failed''"

definition MAX_TURN_TEXT :: nat where
  "MAX_TURN_TEXT = 64 * 1024"

record turn_view =
  tv_turn :: pyval
  tv_text :: pyval
  tv_actor :: pyval
  tv_state :: string
  tv_answer :: pyval
  tv_error :: pyval

definition key_get :: "(pyval, 'v) dict \<Rightarrow> pyval \<Rightarrow> 'v option" where
  "key_get d k = map_option snd (List.find (\<lambda>(k', v). py_eq k' k) d)"

definition turn_step :: "(pyval, turn_view) dict \<Rightarrow> track_event \<Rightarrow> exn + (pyval, turn_view) dict" where
  "turn_step asked e =
     (let p = payload e; turn = py_get p ''turn'';
          update = (\<lambda>f. if \<not> hashable turn then Inl TypeError
                        else case key_get asked turn of None \<Rightarrow> Inr asked | Some v \<Rightarrow> Inr (key_put asked turn (f v)))
      in if event_type e = TURN_REQUESTED then
           (if hashable turn then
              Inr (key_put asked turn \<lparr>tv_turn = turn, tv_text = py_get_default p ''text'' (PStr []), tv_actor = py_get p ''actor'',
                     tv_state = ''pending'', tv_answer = PNone, tv_error = PNone\<rparr>)
            else Inl TypeError)
         else if event_type e = TURN_ANSWERED then
           update (\<lambda>v. v\<lparr>tv_state := ''answered'', tv_answer := py_get p ''text''\<rparr>)
         else if event_type e = TURN_FAILED then
           update (\<lambda>v. v\<lparr>tv_state := ''failed'', tv_error := py_get p ''error''\<rparr>)
         else Inr asked)"

text \<open>A turn still waiting when its run ended will never be answered.\<close>

definition end_turn :: "run_state \<Rightarrow> turn_view \<Rightarrow> turn_view" where
  "end_turn st v =
     (if ended st \<and> tv_state v = ''pending'' then
        v\<lparr>tv_state := ''failed'', tv_error := PStr (''the run ended '' @ run_state_name st)\<rparr>
      else v)"

definition turns :: "track_event list \<Rightarrow> exn + (pyval, turn_view) dict" where
  "turns es =
     (let es = map upgrade es
      in bind_result (fold_result turn_step [] es) (\<lambda>asked.
         bind_result (replay es) (\<lambda>run.
         case run of
           None \<Rightarrow> Inr asked
         | Some r \<Rightarrow> Inr (map (\<lambda>(k, v). (k, end_turn (run_state r) v)) asked))))"

definition takes_turns :: "track_event list \<Rightarrow> exn + bool" where
  "takes_turns es =
     bind_result (replay (map upgrade es)) (\<lambda>run.
       case run of
         None \<Rightarrow> Inr False
       | Some r \<Rightarrow> Inr (\<not> ended (run_state r) \<and> run_state r \<noteq> WAITING_AT_GATE))"

text \<open>\<open>request_turn\<close>; \<open>turn\<close> is the fresh id the code makes.\<close>

definition request_turn ::
  "'s track_ops \<Rightarrow> 's \<Rightarrow> string \<Rightarrow> string \<Rightarrow> string \<Rightarrow> string \<Rightarrow> stamp \<Rightarrow> (exn + turn_view) \<times> 's" where
  "request_turn ops t r text actor turn stamp =
     (if MAX_TURN_TEXT < utf8_len text then (Inl ValueError, t)
      else
        case t_append_if ops t (intent_event r TURN_REQUESTED
               [(''turn'', PStr turn), (''text'', PStr text), (''actor'', PStr actor)] stamp) takes_turns of
          (Inl x, u) \<Rightarrow> (Inl x, u)
        | (Inr None, u) \<Rightarrow>
            (case describe ops u r of
               Inl x \<Rightarrow> (Inl x, u)
             | Inr None \<Rightarrow> (Inl LookupError, u)
             | Inr (Some v) \<Rightarrow> (Inl (RunEnded (run_state_name (v_state v)) TURN_REQUESTED), u))
        | (Inr (Some _), u) \<Rightarrow>
            (bind_result (turns (t_replay ops u r 0)) (\<lambda>asked.
               case key_get asked (PStr turn) of None \<Rightarrow> Inl KeyError | Some v \<Rightarrow> Inr v), u))"

definition answer_turn ::
  "'s track_ops \<Rightarrow> 's \<Rightarrow> string \<Rightarrow> pyval \<Rightarrow> string option \<Rightarrow> string option \<Rightarrow> stamp \<Rightarrow> (exn + unit) \<times> 's" where
  "answer_turn ops t r turn text error stamp =
     (if (text = None) = (error = None) then (Inl ValueError, t)
      else case text of
        Some x \<Rightarrow> intent_append ops t r TURN_ANSWERED [(''turn'', turn), (''text'', PStr x)] stamp
      | None \<Rightarrow> intent_append ops t r TURN_FAILED [(''turn'', turn), (''error'', opt_str error)] stamp)"

subsection \<open>What a request leaves on the Track\<close>

lemma cancel_request_snoc:
  "event_type e = CANCEL_REQUESTED \<Longrightarrow> cancel_request (es @ [e]) = py_or (cancel_request es) (py_get (payload e) ''actor'')"
  by (simp add: cancel_request_def)

lemma view_of_run:
  assumes "view_of r es = Inr v" and "replay es = Inr (Some run)"
  shows "\<exists>w. v = Some w \<and> v_state w = run_state run \<and> cancel_requested_by w = cancel_request es \<and> v_run_id w = r"
proof (cases "List.find (\<lambda>e. event_type e = ''op_submitted'') es")
  case None
  with assms show ?thesis by (simp add: view_of_def)
next
  case (Some sub)
  with assms show ?thesis by (auto simp: view_of_def Let_def bind_result_Inr_iff simp del: py_get_simps)
qed

lemma view_of_Some:
  assumes "view_of r es = Inr (Some v)"
  obtains run where "replay es = Inr (Some run)" "v_state v = run_state run" "cancel_requested_by v = cancel_request es" "v_run_id v = r"
proof (cases "replay es")
  case (Inl x)
  with assms show ?thesis by (simp add: view_of_def)
next
  case (Inr c)
  with assms obtain run where "replay es = Inr (Some run)" by (cases c) (auto simp: view_of_def)
  with view_of_run [OF assms] that show ?thesis by auto
qed

lemma key_get_put: "py_eq k k \<Longrightarrow> key_get (key_put d k v) k = Some v"
  by (induction d) (auto simp: key_get_def)

lemma key_get_map: "key_get (map (\<lambda>(k, v). (k, f v)) d) k = map_option f (key_get d k)"
  by (induction d) (auto simp: key_get_def)

lemma intent_event_simps [simp]:
  "run_id (intent_event r ty p st) = r" "event_type (intent_event r ty p st) = ty" "payload (intent_event r ty p st) = p"
  "sequence (intent_event r ty p st) = None" "schema (intent_event r ty p st) = SCHEMA_VERSION"
  by (simp_all add: intent_event_def)

context track_store
begin

lemma append_if_outcome:
  assumes "inv t" and "t_append_if ops t (intent_event r ty p st) c = (Inr y, u)"
  shows "(case y of
      None \<Rightarrow> u = t \<and> c (log_of ops t r) = Inr False
    | Some e \<Rightarrow> inv u \<and> c (log_of ops t r) = Inr True \<and> log_of ops u r = log_of ops t r @ [e] \<and>
        event_type e = ty \<and> payload e = p \<and> upgrade e = e)"
proof (cases y)
  case None
  with assms show ?thesis
    by (auto simp: append_if_is checked_append_def log_of_def split: sum.splits bool.splits prod.splits)
next
  case (Some e)
  with append_if_atomic [OF assms(1), of "intent_event r ty p st" c e u] assms(2)
  have "c (log_of ops t r) = Inr True" "log_of ops u r = log_of ops t r @ [e]" and e: "\<exists>n. e = (intent_event r ty p st)\<lparr>sequence := Some n\<rparr>"
    by auto
  moreover have "inv u" by (rule append_if_inv [OF assms(1) _ assms(2)]) simp
  moreover have "event_type e = ty" "payload e = p" "upgrade e = e" using e by auto
  ultimately show ?thesis using Some by simp
qed

lemma request_cancel_outcome:
  assumes "inv t" and "actor \<noteq> []" and "request_cancel ops t r actor stamp = (Inr v, u)"
  shows "inv u \<and> describe ops u r = Inr (Some v) \<and> \<not> ended (v_state v) \<and> cancel_requested_by v \<noteq> PNone \<and>
    (u = t \<or> (\<exists>e. log_of ops u r = log_of ops t r @ [e] \<and> event_type e = CANCEL_REQUESTED \<and> cancel_requested_by v = PStr actor))"
proof -
  from assms(3) obtain y where a: "t_append_if ops t (intent_event r CANCEL_REQUESTED [(''actor'', PStr actor)] stamp) still_wanted = (Inr y, u)"
    and d: "describe ops u r = Inr (Some v)" and e: "\<not> (y = None \<and> ended (v_state v))"
    by (auto simp: request_cancel_def split: prod.splits sum.splits option.splits if_splits)
  note out = append_if_outcome [OF assms(1) a]
  have dv: "describe ops u r = view_of r (map upgrade (log_of ops u r))" by (simp add: describe_def log_of_def)
  from d dv obtain run where run: "replay (map upgrade (log_of ops u r)) = Inr (Some run)" "v_state v = run_state run"
    "cancel_requested_by v = cancel_request (map upgrade (log_of ops u r))" by (metis view_of_Some)
  show ?thesis
  proof (cases y)
    case None
    with out e run d assms(1) show ?thesis by (auto simp: still_wanted_def Let_def)
  next
    case (Some x)
    with out have x: "log_of ops u r = log_of ops t r @ [x]" "event_type x = CANCEL_REQUESTED" "payload x = [(''actor'', PStr actor)]"
      "upgrade x = x" "still_wanted (log_of ops t r) = Inr True" "inv u" by auto
    from x(5) obtain r0 where r0: "replay (map upgrade (log_of ops t r)) = Inr (Some r0)" "\<not> ended (run_state r0)"
      "cancel_request (map upgrade (log_of ops t r)) = PNone"
      by (auto simp: still_wanted_def Let_def bind_result_Inr_iff split: option.splits)
    have "replay (map upgrade (log_of ops t r) @ [x]) = Inr (Some r0)"
      by (rule replay_append_fact [OF r0(1)]) (simp_all add: x(2) CANCEL_REQUESTED_def RUN_FACTS_def)
    with run(1) x(1,4) have "run = r0" by simp
    moreover have "cancel_requested_by v = PStr actor"
      using run(3) x r0(3) assms(2) by (simp add: cancel_request_snoc py_or_def)
    ultimately show ?thesis using run(2) r0(2) x d by auto
  qed
qed

lemma request_cancel_again:
  assumes "inv t" and "describe ops t r = Inr (Some v)" and "\<not> ended (v_state v)" and "cancel_requested_by v \<noteq> PNone"
  shows "request_cancel ops t r actor stamp = (Inr v, t)"
proof -
  obtain run where run: "replay (map upgrade (log_of ops t r)) = Inr (Some run)"
    "cancel_requested_by v = cancel_request (map upgrade (log_of ops t r))"
    using assms(2) view_of_Some [of r "map upgrade (log_of ops t r)" v] by (auto simp: describe_def log_of_def)
  then have "still_wanted (log_of ops t r) = Inr False" using assms(4) by (auto simp: still_wanted_def Let_def)
  then have "t_append_if ops t (intent_event r CANCEL_REQUESTED [(''actor'', PStr actor)] stamp) still_wanted = (Inr None, t)"
    using assms(1) by (simp add: append_if_is checked_append_def log_of_def)
  then show ?thesis using assms(2,3) by (simp add: request_cancel_def)
qed

lemma requests_on_ended:
  assumes "inv t" and "describe ops t r = Inr (Some v)" and "ended (v_state v)"
  shows "request_cancel ops t r actor stamp = (Inl (RunEnded (run_state_name (v_state v)) CANCEL_REQUESTED), t)"
    and "utf8_len text \<le> MAX_TURN_TEXT \<Longrightarrow>
      request_turn ops t r text actor turn stamp = (Inl (RunEnded (run_state_name (v_state v)) TURN_REQUESTED), t)"
proof -
  obtain run where run: "replay (map upgrade (log_of ops t r)) = Inr (Some run)" "v_state v = run_state run"
    using assms(2) view_of_Some [of r "map upgrade (log_of ops t r)" v] by (auto simp: describe_def log_of_def)
  then have "still_wanted (log_of ops t r) = Inr False" "takes_turns (log_of ops t r) = Inr False"
    using assms(3) by (auto simp: still_wanted_def takes_turns_def Let_def)
  then have a: "t_append_if ops t (intent_event r CANCEL_REQUESTED p stamp) still_wanted = (Inr None, t)"
    "t_append_if ops t (intent_event r TURN_REQUESTED p stamp) takes_turns = (Inr None, t)" for p
    using assms(1) by (simp_all add: append_if_is checked_append_def log_of_def)
  show "request_cancel ops t r actor stamp = (Inl (RunEnded (run_state_name (v_state v)) CANCEL_REQUESTED), t)"
    using a assms(2,3) by (simp add: request_cancel_def)
  show "utf8_len text \<le> MAX_TURN_TEXT \<Longrightarrow>
      request_turn ops t r text actor turn stamp = (Inl (RunEnded (run_state_name (v_state v)) TURN_REQUESTED), t)"
    using a assms(2) by (simp add: request_turn_def)
qed

lemma request_turn_outcome:
  assumes "inv t" and "request_turn ops t r text actor turn stamp = (Inr v, u)"
  shows "utf8_len text \<le> MAX_TURN_TEXT \<and> tv_state v = ''pending'' \<and> tv_turn v = PStr turn \<and> tv_text v = PStr text \<and>
    tv_actor v = PStr actor \<and>
    (\<exists>e run. log_of ops u r = log_of ops t r @ [e] \<and> event_type e = TURN_REQUESTED \<and>
       replay (map upgrade (log_of ops t r)) = Inr (Some run) \<and> \<not> ended (run_state run) \<and> run_state run \<noteq> WAITING_AT_GATE)"
proof -
  let ?p = "[(''turn'', PStr turn), (''text'', PStr text), (''actor'', PStr actor)]"
  from assms(2) obtain x where len: "utf8_len text \<le> MAX_TURN_TEXT"
    and a: "t_append_if ops t (intent_event r TURN_REQUESTED ?p stamp) takes_turns = (Inr (Some x), u)"
    and v: "bind_result (turns (log_of ops u r)) (\<lambda>asked. case key_get asked (PStr turn) of None \<Rightarrow> Inl KeyError | Some v \<Rightarrow> Inr v) = Inr v"
    by (auto simp: request_turn_def log_of_def split: if_splits prod.splits sum.splits option.splits)
  from append_if_outcome [OF assms(1) a] have x: "log_of ops u r = log_of ops t r @ [x]" "event_type x = TURN_REQUESTED" "payload x = ?p"
    "upgrade x = x" "takes_turns (log_of ops t r) = Inr True" by auto
  from x(5) obtain run where run: "replay (map upgrade (log_of ops t r)) = Inr (Some run)" "\<not> ended (run_state run)" "run_state run \<noteq> WAITING_AT_GATE"
    by (auto simp: takes_turns_def bind_result_Inr_iff split: option.splits)
  have rp: "replay (map upgrade (log_of ops t r) @ [x]) = Inr (Some run)"
    by (rule replay_append_fact [OF run(1)]) (simp_all add: x(2) TURN_REQUESTED_def RUN_FACTS_def)
  let ?v = "\<lparr>tv_turn = PStr turn, tv_text = PStr text, tv_actor = PStr actor, tv_state = ''pending'', tv_answer = PNone, tv_error = PNone\<rparr>"
  have "turn_step asked x = Inr (key_put asked (PStr turn) ?v)" for asked by (simp add: turn_step_def Let_def x)
  then have "v = end_turn (run_state run) ?v"
    using v rp x(1,4) by (auto simp: turns_def Let_def fold_result_snoc bind_result_Inr_iff key_get_map key_get_put split: option.splits)
  then show ?thesis using len x run by (auto simp: end_turn_def)
qed

end

subsection \<open>What a submission reads as\<close>

lemma pending_kept:
  "map_of (foldl (\<lambda>d s. AList.update (step_name s) (pending_step s) d) [] steps) n = Some v \<Longrightarrow> \<exists>s. v = pending_step s"
  by (induction steps rule: rev_induct) (auto split: if_splits)

lemma steps_start_pending: "step_of (va_steps (start_acc op)) s = pending_step s"
proof (cases "map_of (va_steps (start_acc op)) (step_name s)")
  case (Some v)
  then obtain s' where "v = pending_step s'" using pending_kept [of "op_steps op" "step_name s" v] by (auto simp: start_acc_def)
  with Some show ?thesis by (simp add: step_of_def pending_step_def)
qed (simp add: step_of_def)

text \<open>What the Track of a run nobody wrote to reads after its submission.\<close>

lemma view_of_submission:
  assumes "event_type e = ''op_submitted''" and "payload e = [(''op'', serialize_op op), (''submitted_by'', PDict who)] @ extra" and "op_ok op"
    and "\<forall>v. (''step'', v) \<notin> set extra"
  shows "\<exists>v. view_of r [e] = Inr (Some v) \<and> v_state v = SUBMITTED \<and> cancel_requested_by v = PNone \<and> v_op v = op \<and>
    v_submitted_by v = who \<and> v_run_id v = r \<and> v_steps v = map pending_step (op_steps op)"
proof -
  have "replay [e] = Inr (Some (new_run (run_id e)))" using assms(1) by (simp add: replay_submission SUBMISSIONS_def)
  moreover have "py_get (payload e) ''step'' = PNone" using assms(2,4) by (auto split: option.splits dest: map_of_SomeD)
  then have "view_step (start_acc op) e = start_acc op" using assms(1) by (simp add: view_step_def Let_def del: py_get_simps)
  ultimately show ?thesis using assms(1-3) deserialize_serialize_op [OF assms(3)]
    by (auto simp: view_of_def Let_def dict_of_def new_run_def cancel_request_def CANCEL_REQUESTED_def close_open_def steps_start_pending)
qed

context track_store
begin

lemma submission_described:
  assumes "inv t" and "op_ok op" and "log_of ops t (op_run_id op) = []" and "submit_intent ops t op who name st = (Inr (), u)"
  shows "inv u \<and> (\<forall>x. extends (log_of ops t x) (log_of ops u x)) \<and>
    (\<exists>e. event_type e = ''op_submitted'' \<and> (\<forall>x. log_of ops u x = (if x = op_run_id op then [e] else log_of ops t x))) \<and>
    (\<exists>v. describe ops u (op_run_id op) = Inr (Some v) \<and> v_state v = SUBMITTED \<and> cancel_requested_by v = PNone \<and>
      v_op v = op \<and> v_submitted_by v = who \<and> v_run_id v = op_run_id op \<and> v_steps v = map pending_step (op_steps op))"
proof -
  define extra where "extra = (case name of None \<Rightarrow> [] | Some n \<Rightarrow> [(''name'', PStr n)])"
  let ?e = "intent_event (op_run_id op) ''op_submitted'' ([(''op'', serialize_op op), (''submitted_by'', PDict who)] @ extra) st"
  obtain e where a: "t_append ops t ?e = (Inr e, u)"
    using assms(4) by (auto simp: submit_intent_def run_submit_def intent_append_def extra_def Let_def split: prod.splits sum.splits)
  obtain n where e: "e = ?e\<lparr>sequence := Some n\<rparr>"
    and l: "\<forall>x. log_of ops u x = (if x = op_run_id op then log_of ops t x @ [e] else log_of ops t x)"
    using append_stores [OF assms(1) a] by auto
  have "map upgrade (t_replay ops u (op_run_id op) 0) = [e]" using l assms(3) by (simp add: e log_of_def)
  then have d: "describe ops u (op_run_id op) = view_of (op_run_id op) [e]" by (simp add: describe_def)
  have e': "event_type e = ''op_submitted''" "payload e = [(''op'', serialize_op op), (''submitted_by'', PDict who)] @ extra"
    by (simp_all add: e)
  have "\<forall>v. (''step'', v) \<notin> set extra" by (auto simp: extra_def split: option.splits)
  from view_of_submission [OF e' assms(2) this, of "op_run_id op"] show ?thesis
    using d e'(1) append_inv [OF assms(1) a] l assms(3) by (auto simp: extends_iff)
qed

lemma submission_refused:
  assumes "inv t" and "submit_intent ops t op who name st = (Inl x, u)"
  shows "u = t"
proof -
  obtain p where "t_append ops t (intent_event (op_run_id op) ''op_submitted'' p st) = (Inl x, u)"
    using assms(2) by (auto simp: submit_intent_def run_submit_def intent_append_def Let_def split: prod.splits sum.splits)
  then show ?thesis using append_refuses [OF assms(1)] by blast
qed

end

subsection \<open>The theorems\<close>

definition asked_op :: op_definition where
  "asked_op = \<lparr>op_run_id = ''r'', op_steps = [\<lparr>step_name = ''talk'', step_cog = ''hello'', entry_point = ''session'',
     step_input = PNone, step_digest = None, step_gate = default_gate\<rparr>]\<rparr>"

definition asked_store :: sqlite_store where
  "asked_store = snd (submit_intent sqlite_ops sqlite_init asked_op [(''user'', PStr ''ada''), (''org_id'', PStr ''o1'')] None
     \<lparr>st_at = 1, st_id = ''e1''\<rparr>)"

lemma asked_store_inv: "sqlite_inv asked_store"
proof -
  have "asked_store = snd (t_append sqlite_ops sqlite_init (intent_event ''r'' ''op_submitted''
      [(''op'', serialize_op asked_op), (''submitted_by'', PDict [(''user'', PStr ''ada''), (''org_id'', PStr ''o1'')])] \<lparr>st_at = 1, st_id = ''e1''\<rparr>))"
    by (auto simp: asked_store_def submit_intent_def run_submit_def intent_append_def asked_op_def Let_def split: prod.splits sum.splits)
  then show ?thesis using sqlite.append_inv [OF sqlite_inv_init] by (metis prod.collapse)
qed

text \<open>
  A request to cancel that is answered with a view stands: the run has not ended, the view names
  who asked, and the Track holds exactly one request for this attempt, the caller's own if none
  stood before.  Asking again, by anyone, answers the same view and writes nothing.
\<close>

theorem cancel_request_stands:
  assumes "sqlite_inv t" and "actor \<noteq> []" and "request_cancel sqlite_ops t r actor stamp = (Inr v, u)"
  shows "\<not> ended (v_state v) \<and> cancel_requested_by v \<noteq> PNone \<and>
    (u = t \<or> (\<exists>e. log_of sqlite_ops u r = log_of sqlite_ops t r @ [e] \<and> event_type e = CANCEL_REQUESTED \<and>
       cancel_requested_by v = PStr actor)) \<and>
    request_cancel sqlite_ops u r actor' stamp' = (Inr v, u)"
  using sqlite.request_cancel_outcome [OF assms] sqlite.request_cancel_again by blast

theorem cancel_request_stands_witness:
  "\<exists>v u. request_cancel sqlite_ops asked_store ''r'' ''ada'' \<lparr>st_at = 2, st_id = ''e2''\<rparr> = (Inr v, u) \<and>
     cancel_requested_by v \<noteq> PNone \<and> request_cancel sqlite_ops u ''r'' ''bob'' \<lparr>st_at = 3, st_id = ''e3''\<rparr> = (Inr v, u)"
proof -
  let ?c = "request_cancel sqlite_ops asked_store ''r'' ''ada'' \<lparr>st_at = 2, st_id = ''e2''\<rparr>"
  have "is_ok (fst ?c)" by code_simp
  then obtain v u where c: "?c = (Inr v, u)" by (cases ?c; cases "fst ?c") auto
  from cancel_request_stands [OF asked_store_inv _ c] c show ?thesis by auto
qed

text \<open>
  C31: a run that has ended takes no more requests: a cancel or a turn asked of it is refused with the
  run's status, and the Track is left as it was.
\<close>

theorem ended_runs_take_no_requests:
  assumes "sqlite_inv t" and "describe sqlite_ops t r = Inr (Some v)" and "ended (v_state v)" and "utf8_len text \<le> MAX_TURN_TEXT"
  shows "request_cancel sqlite_ops t r actor stamp = (Inl (RunEnded (run_state_name (v_state v)) CANCEL_REQUESTED), t) \<and>
    request_turn sqlite_ops t r text actor turn stamp = (Inl (RunEnded (run_state_name (v_state v)) TURN_REQUESTED), t)"
  using sqlite.requests_on_ended [OF assms(1-3)] assms(4) by blast

definition ended_store :: sqlite_store where
  "ended_store = snd (t_append sqlite_ops asked_store (intent_event ''r'' ''cancelled'' [(''actor'', PStr ''ada'')] \<lparr>st_at = 2, st_id = ''e2''\<rparr>))"

lemma ended_store_inv: "sqlite_inv ended_store"
  unfolding ended_store_def using sqlite.append_inv [OF asked_store_inv] by (metis prod.collapse)

theorem ended_runs_take_no_requests_witness:
  "request_cancel sqlite_ops ended_store ''r'' ''bob'' \<lparr>st_at = 3, st_id = ''e3''\<rparr> =
     (Inl (RunEnded ''CANCELLED'' CANCEL_REQUESTED), ended_store)"
proof -
  have "case describe sqlite_ops ended_store ''r'' of Inr (Some v) \<Rightarrow> v_state v = CANCELLED | _ \<Rightarrow> False" by code_simp
  then obtain v where v: "describe sqlite_ops ended_store ''r'' = Inr (Some v)" "v_state v = CANCELLED"
    by (auto split: sum.splits option.splits)
  have "utf8_len ''hi'' \<le> MAX_TURN_TEXT" by code_simp
  from ended_runs_take_no_requests [OF ended_store_inv v(1) _ this] v(2) show ?thesis by simp
qed

text \<open>
  A turn that is accepted is at most \<open>MAX_TURN_TEXT\<close> bytes long, is asked of a run that is
  advancing, and is the last event of its Track, waiting with the caller's own text.
\<close>

theorem accepted_turn_is_bounded_and_waiting:
  assumes "sqlite_inv t" and "request_turn sqlite_ops t r text actor turn stamp = (Inr v, u)"
  shows "utf8_len text \<le> MAX_TURN_TEXT \<and> tv_state v = ''pending'' \<and> tv_turn v = PStr turn \<and> tv_text v = PStr text \<and>
    tv_actor v = PStr actor \<and>
    (\<exists>e run. log_of sqlite_ops u r = log_of sqlite_ops t r @ [e] \<and> event_type e = TURN_REQUESTED \<and>
       replay (map upgrade (log_of sqlite_ops t r)) = Inr (Some run) \<and> run_state run \<in> {SUBMITTED, RUNNING})"
proof -
  have "\<not> ended st \<and> st \<noteq> WAITING_AT_GATE \<Longrightarrow> st \<in> {SUBMITTED, RUNNING}" for st by (cases st) auto
  with sqlite.request_turn_outcome [OF assms] show ?thesis by blast
qed

theorem accepted_turn_is_bounded_and_waiting_witness:
  "\<exists>v u. request_turn sqlite_ops asked_store ''r'' ''hello?'' ''ada'' ''0a1b'' \<lparr>st_at = 2, st_id = ''e2''\<rparr> = (Inr v, u) \<and>
     tv_state v = ''pending'' \<and> tv_text v = PStr ''hello?''"
proof -
  let ?c = "request_turn sqlite_ops asked_store ''r'' ''hello?'' ''ada'' ''0a1b'' \<lparr>st_at = 2, st_id = ''e2''\<rparr>"
  have "is_ok (fst ?c)" by code_simp
  then obtain v u where c: "?c = (Inr v, u)" by (cases ?c; cases "fst ?c") auto
  from accepted_turn_is_bounded_and_waiting [OF asked_store_inv c] c show ?thesis by auto
qed

lemma turn_states:
  assumes "fold_result turn_step d es = Inr d'" and "\<forall>(k, v)\<in>set d. tv_state v \<in> {''pending'', ''answered'', ''failed''}"
  shows "\<forall>(k, v)\<in>set d'. tv_state v \<in> {''pending'', ''answered'', ''failed''}"
  using assms
proof (induction es arbitrary: d)
  case (Cons e es)
  from Cons.prems(1) obtain d1 where d1: "turn_step d e = Inr d1" "fold_result turn_step d1 es = Inr d'"
    by (auto simp: bind_result_Inr_iff)
  have "\<forall>(k, v)\<in>set d1. tv_state v \<in> {''pending'', ''answered'', ''failed''}"
    using d1(1) Cons.prems(2) by (auto simp: turn_step_def Let_def dest!: key_put_cases split: if_splits option.splits)
  with Cons.IH [OF d1(2)] show ?case by blast
qed simp

text \<open>
  Nobody waits for ever on a run that is over: once the Track says the run ended, every turn ever
  asked of it reads answered or failed.
\<close>

theorem no_turn_waits_after_the_end:
  assumes "turns es = Inr d" and "replay (map upgrade es) = Inr (Some r)" and "ended (run_state r)" and "(k, v) \<in> set d"
  shows "tv_state v \<in> {''answered'', ''failed''}"
proof -
  from assms(1,2) obtain asked where a: "fold_result turn_step [] (map upgrade es) = Inr asked"
    "d = map (\<lambda>(k, v). (k, end_turn (run_state r) v)) asked" by (auto simp: turns_def Let_def bind_result_Inr_iff)
  from a(2) assms(4) obtain w where w: "(k, w) \<in> set asked" "v = end_turn (run_state r) w" by auto
  have "tv_state w \<in> {''pending'', ''answered'', ''failed''}" using turn_states [OF a(1)] w(1) by auto
  then show ?thesis using w(2) assms(3) by (auto simp: end_turn_def)
qed

theorem no_turn_waits_after_the_end_witness:
  "\<exists>es d v. turns es = Inr d \<and> (PStr ''0a1b'', v) \<in> set d \<and> tv_state v \<in> {''answered'', ''failed''}"
proof -
  let ?e = "\<lambda>n ty p. intent_event ''r'' ty p \<lparr>st_at = n, st_id = show_int n\<rparr>"
  let ?es = "[?e 1 ''op_submitted'' [], ?e 2 TURN_REQUESTED [(''turn'', PStr ''0a1b''), (''text'', PStr ''hi'')], ?e 3 ''cancelled'' [(''actor'', PStr ''ada'')]]"
  have t: "(case turns ?es of Inr d \<Rightarrow> map fst d = [PStr ''0a1b''] | _ \<Rightarrow> False)" and
    r: "(case replay (map upgrade ?es) of Inr (Some r) \<Rightarrow> ended (run_state r) | _ \<Rightarrow> False)" by code_simp+
  from t obtain d where d: "turns ?es = Inr d" "map fst d = [PStr ''0a1b'']" by (cases "turns ?es") auto
  then obtain v where v: "(PStr ''0a1b'', v) \<in> set d" by (cases d) auto
  from r obtain x where x: "replay (map upgrade ?es) = Inr (Some x)" "ended (run_state x)" by (auto split: sum.splits option.splits)
  from no_turn_waits_after_the_end [OF d(1) x v] d(1) v show ?thesis by blast
qed

end
