(* ===== verification/RunViews.thy ===== *)
theory RunViews
  imports Intents
begin

section \<open>Views kept current by reading what a Track gained (intents.py)\<close>

text \<open>
  \<open>RunViews\<close>: per run, what was read so far and the view built from it.  A refresh reads the
  events after the last one it holds, rebuilds the view only when there are any, and lets the
  events of an ended run go.  The theorems say that this cache is never seen: whatever it held,
  what it answers is what replaying the whole Track answers.
\<close>

record kept =
  k_events :: "track_event list option"
  last_sequence :: int
  built_at :: int
  k_view :: "run_view option"
  k_turns :: "(pyval, turn_view) dict option"
  unreadable :: bool

type_synonym views = "(string, kept) dict"

definition new_kept :: kept where
  "new_kept = \<lparr>k_events = Some [], last_sequence = 0, built_at = -1, k_view = None, k_turns = None, unreadable = False\<rparr>"

text \<open>\<open>except (InvalidTransition, LookupError, KeyError, TypeError, ValueError)\<close>, with their subclasses.\<close>

fun reads_as_unreadable :: "exn \<Rightarrow> bool" where
  "reads_as_unreadable (InvalidTransition _ _) = True"
| "reads_as_unreadable (StaleEscalation _ _) = True"
| "reads_as_unreadable (RunEnded _ _) = True"
| "reads_as_unreadable LookupError = True"
| "reads_as_unreadable KeyError = True"
| "reads_as_unreadable TypeError = True"
| "reads_as_unreadable ValueError = True"
| "reads_as_unreadable (EnvelopeInvalid _) = True"
| "reads_as_unreadable (UsageUnavailable _) = True"
| "reads_as_unreadable RunUnreadable = True"
| "reads_as_unreadable OneSubmissionPerRun = True"
| "reads_as_unreadable _ = False"

text \<open>The kept events and what was just read; \<open>max(event.sequence or 0 ...)\<close>.\<close>

definition take_in :: "track_event list \<Rightarrow> kept \<Rightarrow> kept" where
  "take_in fresh k =
     (if fresh = [] then k
      else k\<lparr>k_events := map_option (\<lambda>es. es @ map upgrade fresh) (k_events k),
             last_sequence := Max (set (map seq_of fresh))\<rparr>)"

text \<open>Rebuilding the view, if the run moved since it was built.\<close>

definition rebuild :: "string \<Rightarrow> kept \<Rightarrow> (exn + unit) \<times> kept" where
  "rebuild r k =
     (if built_at k = last_sequence k then (Inr (), k)
      else
        let k1 = k\<lparr>built_at := last_sequence k, k_turns := None\<rparr>;
            read = (case k_events k of None \<Rightarrow> Inl TypeError | Some es \<Rightarrow> view_of r es)
        in case read of
             Inl x \<Rightarrow> if reads_as_unreadable x then (Inr (), k1\<lparr>k_view := None, unreadable := True\<rparr>) else (Inl x, k1)
           | Inr v \<Rightarrow>
               let k2 = k1\<lparr>k_view := v, unreadable := False\<rparr>
               in if (case v of None \<Rightarrow> False | Some w \<Rightarrow> ended (v_state w)) then
                    (case turns (case k_events k of None \<Rightarrow> [] | Some es \<Rightarrow> es) of
                       Inl x \<Rightarrow> (Inl x, k2)
                     | Inr ts \<Rightarrow> (Inr (), k2\<lparr>k_turns := Some ts, k_events := None\<rparr>))
                  else (Inr (), k2))"

text \<open>\<open>_refresh\<close>.\<close>

definition keep_in :: "string \<Rightarrow> views \<Rightarrow> kept \<Rightarrow> (exn + kept) \<times> views" where
  "keep_in r vs k =
     (case rebuild r k of
        (Inl x, k') \<Rightarrow> (Inl x, AList.update r k' vs)
      | (Inr _, k') \<Rightarrow> (Inr k', AList.update r k' vs))"

definition refresh :: "'s track_ops \<Rightarrow> 's \<Rightarrow> views \<Rightarrow> string \<Rightarrow> (exn + kept) \<times> views" where
  "refresh ops t vs r =
     (case map_of vs r of
        None \<Rightarrow>
          (let fresh = t_replay ops t r 0
           in if fresh = [] then (Inr new_kept, vs) else keep_in r vs (take_in fresh new_kept))
      | Some k \<Rightarrow>
          (let fresh = t_replay ops t r (last_sequence k)
           in if fresh \<noteq> [] \<and> k_events k = None then keep_in r vs (take_in (t_replay ops t r 0) (k\<lparr>k_events := Some []\<rparr>))
              else keep_in r vs (take_in fresh k)))"

definition forget :: "views \<Rightarrow> string \<Rightarrow> views" where
  "forget vs r = AList.delete r vs"

definition rv_events :: "'s track_ops \<Rightarrow> 's \<Rightarrow> views \<Rightarrow> string \<Rightarrow> (exn + track_event list) \<times> views" where
  "rv_events ops t vs r =
     (case refresh ops t vs r of
        (Inl x, vs') \<Rightarrow> (Inl x, vs')
      | (Inr k, vs') \<Rightarrow>
          (Inr (case k_events k of None \<Rightarrow> map upgrade (t_replay ops t r 0) | Some es \<Rightarrow> es), vs'))"

definition rv_view :: "'s track_ops \<Rightarrow> 's \<Rightarrow> views \<Rightarrow> string \<Rightarrow> (exn + run_view option) \<times> views" where
  "rv_view ops t vs r =
     (case refresh ops t vs r of
        (Inl x, vs') \<Rightarrow> (Inl x, vs')
      | (Inr k, vs') \<Rightarrow> (if unreadable k then Inl RunUnreadable else Inr (k_view k), vs'))"

text \<open>The turns are built when first asked for, and kept with the run.\<close>

definition rv_turns :: "'s track_ops \<Rightarrow> 's \<Rightarrow> views \<Rightarrow> string \<Rightarrow> (exn + (pyval, turn_view) dict) \<times> views" where
  "rv_turns ops t vs r =
     (case refresh ops t vs r of
        (Inl x, vs') \<Rightarrow> (Inl x, vs')
      | (Inr k, vs') \<Rightarrow>
          (case k_turns k of
             Some ts \<Rightarrow> (Inr ts, vs')
           | None \<Rightarrow>
               (case turns (case k_events k of None \<Rightarrow> [] | Some es \<Rightarrow> es) of
                  Inl x \<Rightarrow> (Inl x, vs')
                | Inr ts \<Rightarrow>
                    (Inr ts, if map_of vs' r = None then vs' else AList.update r (k\<lparr>k_turns := Some ts\<rparr>) vs'))))"

text \<open>\<open>views()\<close>: each run the store lists, in turn; newest submission first.\<close>

fun rv_collect ::
  "'s track_ops \<Rightarrow> 's \<Rightarrow> pyval option \<Rightarrow> string option \<Rightarrow> string list \<Rightarrow> views \<Rightarrow> (exn + run_view list) \<times> views" where
  "rv_collect ops t org status [] vs = (Inr [], vs)"
| "rv_collect ops t org status (r # rs) vs =
     (case refresh ops t vs r of
        (Inl x, vs') \<Rightarrow> (Inl x, vs')
      | (Inr k, vs') \<Rightarrow>
          (case rv_collect ops t org status rs vs' of
             (Inl x, vs2) \<Rightarrow> (Inl x, vs2)
           | (Inr found, vs2) \<Rightarrow>
               (Inr ((case k_view k of
                        None \<Rightarrow> []
                      | Some v \<Rightarrow>
                          if (case org of None \<Rightarrow> False | Some o' \<Rightarrow> \<not> py_eq (py_get (v_submitted_by v) ''org_id'') o') then []
                          else if (case status of None \<Rightarrow> False | Some st \<Rightarrow> run_state_name (v_state v) \<noteq> st) then []
                          else [v]) @ found), vs2)))"

definition rv_views ::
  "'s track_ops \<Rightarrow> 's \<Rightarrow> pyval option \<Rightarrow> string option \<Rightarrow> views \<Rightarrow> (exn + run_view list) \<times> views" where
  "rv_views ops t org status vs =
     (case rv_collect ops t org status (t_run_ids ops t) vs of
        (Inl x, vs') \<Rightarrow> (Inl x, vs')
      | (Inr found, vs') \<Rightarrow> (Inr (sort_key (\<lambda>v. - v_submitted_at v) found), vs'))"

text \<open>\<open>list_runs\<close>: every readable run of the Track, read once.\<close>

definition intents_list_runs :: "'s track_ops \<Rightarrow> 's \<Rightarrow> exn + run_view list" where
  "intents_list_runs ops t = fst (rv_views ops t None None [])"

subsection \<open>The cache is never seen\<close>

text \<open>What is kept of a run whose events up to now are \<open>seen\<close>.\<close>

definition kept_at :: "string \<Rightarrow> track_event list \<Rightarrow> kept \<Rightarrow> bool" where
  "kept_at r seen k \<longleftrightarrow>
     last_sequence k = seq_of (last seen) \<and> built_at k \<le> last_sequence k \<and>
     (\<forall>es. k_events k = Some es \<longrightarrow> es = map upgrade seen) \<and>
     (k_events k = None \<longrightarrow> built_at k = last_sequence k \<and> k_turns k \<noteq> None) \<and>
     (built_at k = last_sequence k \<longrightarrow>
        (\<forall>ts. k_turns k = Some ts \<longrightarrow> turns seen = Inr ts) \<and>
        (\<forall>v. view_of r (map upgrade seen) = Inr v \<longrightarrow> k_view k = v \<and> \<not> unreadable k) \<and>
        (\<forall>x. view_of r (map upgrade seen) = Inl x \<longrightarrow> reads_as_unreadable x \<longrightarrow> k_view k = None \<and> unreadable k))"

definition views_ok :: "'s track_ops \<Rightarrow> 's \<Rightarrow> views \<Rightarrow> bool" where
  "views_ok ops t vs \<longleftrightarrow>
     (\<forall>r k. map_of vs r = Some k \<longrightarrow> (\<exists>seen. seen \<noteq> [] \<and> extends seen (log_of ops t r) \<and> kept_at r seen k))"

lemma views_ok_empty: "views_ok ops t []"
  by (simp add: views_ok_def)

lemma views_ok_later:
  "views_ok ops t vs \<Longrightarrow> (\<And>r. extends (log_of ops t r) (log_of ops u r)) \<Longrightarrow> views_ok ops u vs"
  by (fastforce simp: views_ok_def intro: extends_trans)

lemma views_ok_put:
  assumes "views_ok ops t vs" and "log_of ops t r \<noteq> []" and "kept_at r (log_of ops t r) k"
  shows "views_ok ops t (AList.update r k vs)"
  unfolding views_ok_def
proof (intro allI impI)
  fix x k' assume m: "map_of (AList.update r k vs) x = Some k'"
  show "\<exists>seen. seen \<noteq> [] \<and> extends seen (log_of ops t x) \<and> kept_at x seen k'"
  proof (cases "x = r")
    case True
    with m assms(2,3) show ?thesis by (auto intro!: exI [of _ "log_of ops t r"])
  next
    case False
    with m assms(1) show ?thesis by (simp add: views_ok_def)
  qed
qed

lemma views_ok_forget: "views_ok ops t vs \<Longrightarrow> views_ok ops t (forget vs r)"
  by (simp add: views_ok_def forget_def)

lemma turns_upgraded: "turns (map upgrade es) = turns es"
  by (simp add: turns_def comp_def)

text \<open>Why a refresh raises: the view raises what does not read as unreadable, or the turns of an ended run do.\<close>

definition raised_at :: "string \<Rightarrow> track_event list \<Rightarrow> exn \<Rightarrow> bool" where
  "raised_at r seen x \<longleftrightarrow>
     view_of r (map upgrade seen) = Inl x \<and> \<not> reads_as_unreadable x \<or>
     turns seen = Inl x \<and> (\<exists>v. view_of r (map upgrade seen) = Inr (Some v) \<and> ended (v_state v))"

lemma rebuild_kept:
  assumes "kept_at r seen k" and "rebuild r k = (res, k')"
  shows "kept_at r seen k' \<and> (res = Inr () \<longrightarrow> built_at k' = last_sequence k') \<and>
    (\<forall>x. res = Inl x \<longrightarrow> raised_at r seen x)"
proof (cases "built_at k = last_sequence k")
  case True
  with assms show ?thesis by (auto simp: rebuild_def)
next
  case False
  with assms(1) have ev: "k_events k = Some (map upgrade seen)" by (cases "k_events k") (auto simp: kept_at_def)
  have last: "last_sequence k = seq_of (last seen)" using assms(1) by (simp add: kept_at_def)
  show ?thesis
  proof (cases "view_of r (map upgrade seen)")
    case (Inl x)
    with False ev assms(2) last show ?thesis by (auto simp: rebuild_def kept_at_def raised_at_def Let_def split: if_splits)
  next
    case (Inr v)
    show ?thesis
    proof (cases "case v of None \<Rightarrow> False | Some w \<Rightarrow> ended (v_state w)")
      case True
      with False ev Inr assms(2) last show ?thesis
        by (cases "turns seen") (auto simp: rebuild_def kept_at_def turns_upgraded raised_at_def Let_def split: option.splits)
    next
      case no: False
      with False ev Inr assms(2) last show ?thesis by (auto simp: rebuild_def kept_at_def Let_def)
    qed
  qed
qed

lemma keep_in_outcome:
  assumes "views_ok ops t vs" and "log_of ops t r \<noteq> []" and "kept_at r (log_of ops t r) k" and "keep_in r vs k = (res, vs')"
  shows "views_ok ops t vs' \<and>
    (\<forall>k'. res = Inr k' \<longrightarrow> kept_at r (log_of ops t r) k' \<and> built_at k' = last_sequence k' \<and> map_of vs' r = Some k') \<and>
    (\<forall>x. res = Inl x \<longrightarrow> raised_at r (log_of ops t r) x)"
proof -
  obtain x k' where b: "rebuild r k = (x, k')" by (cases "rebuild r k")
  note kept = rebuild_kept [OF assms(3) b]
  have vs: "vs' = AList.update r k' vs" "\<And>y. res = Inr y \<Longrightarrow> x = Inr () \<and> y = k'" "\<And>y. res = Inl y \<Longrightarrow> x = Inl y"
    using assms(4) b by (auto simp: keep_in_def split: sum.splits)
  show ?thesis using views_ok_put [OF assms(1,2) conjunct1 [OF kept]] kept vs by auto
qed

lemma Max_seq_last:
  assumes "sorted_wrt (\<lambda>a b. seq_of a < seq_of b) xs" and "xs \<noteq> []"
  shows "Max (seq_of ` set xs) = seq_of (last xs)"
proof -
  obtain ys y where xs: "xs = ys @ [y]" using assms(2) by (metis rev_exhaust)
  with assms(1) show ?thesis by (intro Max_eqI) (auto simp: sorted_wrt_append less_imp_le)
qed

context track_store
begin

lemma take_in_all:
  assumes "inv t" and "log_of ops t r \<noteq> []" and "k_events k = Some []" and "built_at k < seq_of (last (log_of ops t r))"
  shows "kept_at r (log_of ops t r) (take_in (log_of ops t r) k)"
  using assms Max_seq_last [OF log_sorted [OF assms(1)] assms(2)] by (simp add: take_in_def kept_at_def)

lemma last_positive:
  assumes "inv t" and "log_of ops t r \<noteq> []"
  shows "0 < seq_of (last (log_of ops t r))"
  using log_events [OF assms(1) last_in_set [OF assms(2)]] by simp

lemma refresh_outcome:
  assumes "inv t" and "views_ok ops t vs" and "refresh ops t vs r = (res, vs')"
  shows "views_ok ops t vs' \<and> (\<forall>k. res = Inr k \<longrightarrow>
    (if log_of ops t r = [] then k = new_kept \<and> map_of vs' r = None
     else kept_at r (log_of ops t r) k \<and> built_at k = last_sequence k \<and> map_of vs' r = Some k)) \<and>
    (\<forall>x. res = Inl x \<longrightarrow> raised_at r (log_of ops t r) x)"
proof (cases "map_of vs r")
  case None
  show ?thesis
  proof (cases "log_of ops t r = []")
    case True
    with None assms show ?thesis by (auto simp: refresh_def log_of_def)
  next
    case False
    then have k: "keep_in r vs (take_in (log_of ops t r) new_kept) = (res, vs')"
      using None assms(3) by (simp add: refresh_def log_of_def)
    have "kept_at r (log_of ops t r) (take_in (log_of ops t r) new_kept)"
      using last_positive [OF assms(1) False] by (intro take_in_all [OF assms(1) False]) (simp_all add: new_kept_def)
    from keep_in_outcome [OF assms(2) False this k] show ?thesis using False by simp
  qed
next
  case (Some k)
  with assms(2) obtain seen new where seen: "seen \<noteq> []" "log_of ops t r = seen @ new" "kept_at r seen k"
    unfolding views_ok_def extends_iff by blast
  have ne: "log_of ops t r \<noteq> []" using seen by simp
  have fresh: "t_replay ops t r (last_sequence k) = new"
    using cursor_complete [OF assms(1) seen(2,1)] seen(3) by (simp add: kept_at_def)
  have sorted: "sorted_wrt (\<lambda>a b. seq_of a < seq_of b) (seen @ new)" using log_sorted [OF assms(1), of r] seen(2) by simp
  have gap: "new \<noteq> [] \<Longrightarrow> last_sequence k < seq_of (last new)"
    using sorted seen(1,3) by (auto simp: sorted_wrt_append kept_at_def)
  have built: "built_at k \<le> last_sequence k" using seen(3) by (simp add: kept_at_def)
  consider (same) "new = []" | (again) "new \<noteq> []" "k_events k = None" | (more) es where "new \<noteq> []" "k_events k = Some es"
    by (cases "k_events k") auto
  then obtain k1 where k1: "keep_in r vs k1 = (res, vs')" "kept_at r (log_of ops t r) k1"
  proof cases
    case same
    with Some assms(3) fresh have "keep_in r vs k = (res, vs')" by (simp add: refresh_def take_in_def)
    then show ?thesis using that [of k] seen same by simp
  next
    case again
    with Some assms(3) fresh have "keep_in r vs (take_in (log_of ops t r) (k\<lparr>k_events := Some []\<rparr>)) = (res, vs')"
      by (simp add: refresh_def log_of_def)
    moreover have "kept_at r (log_of ops t r) (take_in (log_of ops t r) (k\<lparr>k_events := Some []\<rparr>))"
      using gap [OF again(1)] built seen(2) again(1) by (intro take_in_all [OF assms(1) ne]) auto
    ultimately show ?thesis by (rule that)
  next
    case more
    with Some assms(3) fresh have "keep_in r vs (take_in new k) = (res, vs')" by (simp add: refresh_def)
    moreover have "kept_at r (log_of ops t r) (take_in new k)"
    proof -
      have "es = map upgrade seen" using more seen(3) by (simp add: kept_at_def)
      moreover have "Max (seq_of ` set new) = seq_of (last new)" using sorted more(1) by (intro Max_seq_last) (simp_all add: sorted_wrt_append)
      ultimately show ?thesis using more gap [OF more(1)] built seen(2) by (simp add: take_in_def kept_at_def)
    qed
    ultimately show ?thesis by (rule that)
  qed
  from keep_in_outcome [OF assms(2) ne k1(2,1)] show ?thesis using ne by simp
qed

lemma view_current:
  assumes "inv t" and "views_ok ops t vs" and "rv_view ops t vs r = (Inr v, vs')"
    and "\<And>x. describe ops t r = Inl x \<Longrightarrow> reads_as_unreadable x"
  shows "describe ops t r = Inr v"
proof -
  obtain res vs1 where f: "refresh ops t vs r = (res, vs1)" by (cases "refresh ops t vs r")
  with assms(3) obtain k where k: "res = Inr k" "\<not> unreadable k" "v = k_view k"
    by (cases res) (auto simp: rv_view_def split: if_splits)
  have d: "describe ops t r = view_of r (map upgrade (log_of ops t r))" by (simp add: describe_def log_of_def)
  note out = refresh_outcome [OF assms(1,2) f]
  show ?thesis
  proof (cases "log_of ops t r = []")
    case True
    with out k show ?thesis unfolding d by (auto simp: view_of_def replay_def new_kept_def)
  next
    case False
    with out k have kept: "kept_at r (log_of ops t r) k" "built_at k = last_sequence k" by auto
    show ?thesis using kept k assms(4) unfolding d by (cases "view_of r (map upgrade (log_of ops t r))") (auto simp: kept_at_def)
  qed
qed

end

context track_store
begin

lemma unreadable_current:
  assumes "inv t" and "views_ok ops t vs" and "refresh ops t vs r = (Inr k, vs')" and "unreadable k"
  shows "\<exists>x. describe ops t r = Inl x"
proof -
  have d: "describe ops t r = view_of r (map upgrade (log_of ops t r))" by (simp add: describe_def log_of_def)
  note out = refresh_outcome [OF assms(1-3)]
  show ?thesis
  proof (cases "log_of ops t r = []")
    case True
    with out assms(4) show ?thesis by (auto simp: new_kept_def)
  next
    case False
    with out assms(4) show ?thesis unfolding d by (cases "view_of r (map upgrade (log_of ops t r))") (auto simp: kept_at_def)
  qed
qed

lemma turns_current:
  assumes "inv t" and "views_ok ops t vs" and "rv_turns ops t vs r = (Inr ts, vs')"
  shows "turns (log_of ops t r) = Inr ts \<and> views_ok ops t vs'"
proof -
  obtain res vs1 where f: "refresh ops t vs r = (res, vs1)" by (cases "refresh ops t vs r")
  then obtain k where k: "res = Inr k" using assms(3) by (cases res) (auto simp: rv_turns_def)
  note out = refresh_outcome [OF assms(1,2) f, unfolded k]
  have ok: "views_ok ops t vs1" using out by blast
  show ?thesis
  proof (cases "log_of ops t r = []")
    case True
    with out k have "k = new_kept" "map_of vs1 r = None" by auto
    with True f k assms(3) ok show ?thesis by (auto simp: rv_turns_def new_kept_def turns_def replay_def Let_def)
  next
    case False
    with out have kept: "kept_at r (log_of ops t r) k" "built_at k = last_sequence k" "map_of vs1 r = Some k" by auto
    show ?thesis
    proof (cases "k_turns k")
      case (Some y)
      with kept f k assms(3) ok show ?thesis by (auto simp: rv_turns_def kept_at_def)
    next
      case None
      then obtain es where es: "k_events k = Some es" "es = map upgrade (log_of ops t r)"
        using kept(1) by (cases "k_events k") (auto simp: kept_at_def)
      with None f k assms(3) kept(3) have t: "turns (log_of ops t r) = Inr ts" "vs' = AList.update r (k\<lparr>k_turns := Some ts\<rparr>) vs1"
        by (auto simp: rv_turns_def turns_upgraded split: sum.splits)
      have "kept_at r (log_of ops t r) (k\<lparr>k_turns := Some ts\<rparr>)" using kept(1) t(1) by (simp add: kept_at_def)
      then show ?thesis using t views_ok_put [OF ok False] by simp
    qed
  qed
qed

text \<open>What a read leaves behind is good for the next one, whether it answered or raised.\<close>

lemma reads_keep:
  assumes "inv t" and "views_ok ops t vs"
  shows "views_ok ops t (snd (rv_view ops t vs r))" and "views_ok ops t (snd (rv_turns ops t vs r))"
proof -
  obtain res vs1 where f: "refresh ops t vs r = (res, vs1)" by (cases "refresh ops t vs r")
  have ok: "views_ok ops t vs1" using refresh_outcome [OF assms f] by blast
  then show "views_ok ops t (snd (rv_view ops t vs r))" using f by (cases res) (simp_all add: rv_view_def)
  obtain y vs2 where g: "rv_turns ops t vs r = (y, vs2)" by (cases "rv_turns ops t vs r")
  show "views_ok ops t (snd (rv_turns ops t vs r))"
  proof (cases y)
    case (Inl x)
    then have "vs2 = vs1" using f g by (auto simp: rv_turns_def split: sum.splits option.splits)
    then show ?thesis using ok g by simp
  next
    case (Inr ts)
    then show ?thesis using turns_current [OF assms] g by simp
  qed
qed

lemma live_view:
  assumes "inv t" and "views_ok ops t vs" and "describe ops t r = Inr (Some v)" and "\<not> ended (v_state v)"
  shows "\<exists>vs'. rv_view ops t vs r = (Inr (Some v), vs')"
proof -
  obtain res vs1 where f: "refresh ops t vs r = (res, vs1)" by (cases "refresh ops t vs r")
  have d: "view_of r (map upgrade (log_of ops t r)) = Inr (Some v)" using assms(3) by (simp add: describe_def log_of_def)
  have "res \<noteq> Inl x" for x using refresh_outcome [OF assms(1,2) f] d assms(4) by (auto simp: raised_at_def)
  then obtain k where k: "res = Inr k" by (cases res) auto
  have "\<not> unreadable k" using unreadable_current [OF assms(1,2) f [unfolded k]] assms(3) by auto
  then have w: "rv_view ops t vs r = (Inr (k_view k), vs1)" using f k by (simp add: rv_view_def)
  from view_current [OF assms(1,2) w] assms(3) have "k_view k = Some v" by auto
  with w show ?thesis by simp
qed

end




end
