(* ===== verification/Controller.thy ===== *)
theory Controller
  imports RunViews RunnerWorkers
begin

section \<open>The run controller (controller.py)\<close>

text \<open>
  \<open>RunController\<close> watches the Track and moves what it finds there on one lifecycle runner.  A
  pass reads each run's view and starts threads; a thread is a \<open>job\<close>, which is one call of the
  runner (\<open>_advance\<close>, \<open>_cancel\<close>) or the delivery of the run's waiting turns.  The record \<open>ctl\<close>
  has the controller's fields: for each kind of thread, whether the last one started for a run is
  alive, and in \<open>c_jobs\<close> the threads alive and what they are to do.  Log lines, \<open>main()\<close>'s
  argument parsing, and the lock file are not modelled.
\<close>

subsection \<open>The controller and its threads\<close>

datatype job = AdvanceJob string op_definition | CancelJob string pyval | TurnsJob string

record ctl =
  c_ended :: "string list"
  c_advancing :: "(string, bool) dict"
  c_cancelling :: "(string, bool) dict"
  c_turning :: "(string, bool) dict"
  first_refused :: "(pyval, int) dict"
  c_views :: views
  c_jobs :: "job list"

definition new_ctl :: ctl where
  "new_ctl = \<lparr>c_ended = [], c_advancing = [], c_cancelling = [], c_turning = [], first_refused = [], c_views = [], c_jobs = []\<rparr>"

text \<open>\<open>start\<close>: what a stopped controller left unfinished is recorded interrupted.\<close>

definition ctl_start :: "'s runner \<Rightarrow> 's host \<Rightarrow> (exn + string list) \<times> 's host" where
  "ctl_start R h = start R h"

definition alive :: "(string, bool) dict \<Rightarrow> string \<Rightarrow> bool" where
  "alive threads r = (case map_of threads r of None \<Rightarrow> False | Some living \<Rightarrow> living)"

text \<open>\<open>_spawn\<close> into the dictionary of the job's kind; and the thread's end.\<close>

fun set_thread :: "job \<Rightarrow> bool \<Rightarrow> ctl \<Rightarrow> ctl" where
  "set_thread (AdvanceJob r _) b c = c\<lparr>c_advancing := AList.update r b (c_advancing c)\<rparr>"
| "set_thread (CancelJob r _) b c = c\<lparr>c_cancelling := AList.update r b (c_cancelling c)\<rparr>"
| "set_thread (TurnsJob r) b c = c\<lparr>c_turning := AList.update r b (c_turning c)\<rparr>"

definition spawn :: "job \<Rightarrow> ctl \<Rightarrow> ctl" where
  "spawn j c = (set_thread j True c)\<lparr>c_jobs := c_jobs c @ [j]\<rparr>"

definition thread_ends :: "job \<Rightarrow> ctl \<Rightarrow> ctl" where
  "thread_ends j c = (set_thread j False c)\<lparr>c_jobs := remove1 j (c_jobs c)\<rparr>"

definition idle :: "ctl \<Rightarrow> bool" where
  "idle c \<longleftrightarrow> \<not> list_ex snd (c_advancing c @ c_cancelling c @ c_turning c)"

subsection \<open>A pass over the Track\<close>

text \<open>What \<open>_look_at\<close> does with a view of a run that has not ended: its request to cancel, or its start.\<close>

definition act_on :: "string \<Rightarrow> run_view \<Rightarrow> ctl \<Rightarrow> ctl" where
  "act_on r v c =
     (if cancel_requested_by v \<noteq> PNone then
        (if alive (c_cancelling c) r then c else spawn (CancelJob r (cancel_requested_by v)) c)
      else if v_state v = SUBMITTED \<and> \<not> alive (c_advancing c) r then spawn (AdvanceJob r (v_op v)) c
      else c)"

definition waiting_turns :: "(pyval, turn_view) dict \<Rightarrow> turn_view list" where
  "waiting_turns ts = filter (\<lambda>v. tv_state v = ''pending'') (map snd ts)"

definition look_at :: "'s track_ops \<Rightarrow> 's \<Rightarrow> string \<Rightarrow> ctl \<Rightarrow> (exn + unit) \<times> ctl" where
  "look_at ops t r c =
     (case rv_view ops t (c_views c) r of
        (Inl x, vs) \<Rightarrow> (Inl x, c\<lparr>c_views := vs\<rparr>)
      | (Inr None, vs) \<Rightarrow> (Inr (), c\<lparr>c_views := vs\<rparr>)
      | (Inr (Some v), vs) \<Rightarrow>
          if ended (v_state v) then (Inr (), c\<lparr>c_ended := List.insert r (c_ended c), c_views := forget vs r\<rparr>)
          else
            let c1 = act_on r v (c\<lparr>c_views := vs\<rparr>)
            in case rv_turns ops t (c_views c1) r of
                 (Inl x, vs) \<Rightarrow> (Inl x, c1\<lparr>c_views := vs\<rparr>)
               | (Inr ts, vs) \<Rightarrow>
                   let c2 = c1\<lparr>c_views := vs\<rparr>
                   in (Inr (), if waiting_turns ts \<noteq> [] \<and> \<not> alive (c_turning c2) r then spawn (TurnsJob r) c2 else c2))"

text \<open>\<open>tick\<close>: a run whose look raises is passed over.\<close>

fun tick_runs :: "'s track_ops \<Rightarrow> 's \<Rightarrow> string list \<Rightarrow> ctl \<Rightarrow> ctl" where
  "tick_runs ops t [] c = c"
| "tick_runs ops t (r # rs) c =
     tick_runs ops t rs (if r \<in> set (c_ended c) then c else snd (look_at ops t r c))"

definition tick :: "'s track_ops \<Rightarrow> 's \<Rightarrow> ctl \<Rightarrow> ctl" where
  "tick ops t c = tick_runs ops t (t_run_ids ops t) c"

subsection \<open>Delivering turns\<close>

text \<open>
  What a delivery meets at each of its ticks: the claims of the thread that advances the run
  (which say whether a worker is live), how the worker takes a turn, the monotonic clock, and the
  stamp of the event written.  \<open>TurnRaised\<close> carries the exception's \<open>status\<close>, if it has one, and
  the text \<open>type: message\<close> of it.
\<close>

datatype turn_outcome = TakesNoTurns | TurnAnswered string | TurnRaised "int option" string

record turn_world =
  tw_claims :: "nat \<Rightarrow> (string, advancing) dict"
  tw_turn :: "nat \<Rightarrow> cog_worker \<Rightarrow> pyval \<Rightarrow> pyval \<Rightarrow> turn_outcome"
  tw_monotonic :: "nat \<Rightarrow> int"
  tw_stamp :: "nat \<Rightarrow> stamp"

text \<open>\<open>_still_opening\<close>: the clock is read twice.\<close>

definition still_opening ::
  "turn_world \<Rightarrow> int \<Rightarrow> pyval \<Rightarrow> nat \<Rightarrow> (pyval, int) dict \<Rightarrow> bool \<times> (pyval, int) dict" where
  "still_opening tw grace turn n refused =
     (let now = tw_monotonic tw n;
          (first, refused1) = (case key_get refused turn of None \<Rightarrow> (now, key_put refused turn now) | Some f \<Rightarrow> (f, refused))
      in if tw_monotonic tw (Suc n) - first < grace then (True, refused1) else (False, key_pop refused1 turn))"

text \<open>
  One round of \<open>_deliver_turns\<close>'s loop: \<open>Inr False\<close> where the code returns, \<open>Inr True\<close> where it
  goes round again.
\<close>

definition deliver_once ::
  "turn_world \<Rightarrow> 's track_ops \<Rightarrow> int \<Rightarrow> string \<Rightarrow> nat \<Rightarrow> 's \<Rightarrow> ctl \<Rightarrow> (exn + bool) \<times> 's \<times> ctl" where
  "deliver_once tw ops grace r n t c =
     (case rv_turns ops t (c_views c) r of
        (Inl x, vs) \<Rightarrow> (Inl x, t, c\<lparr>c_views := vs\<rparr>)
      | (Inr ts, vs) \<Rightarrow>
          (let c1 = c\<lparr>c_views := vs\<rparr>;
               answer = (\<lambda>v text error c.
                 case answer_turn ops t r (tv_turn v) text error (tw_stamp tw n) of
                   (Inl x, u) \<Rightarrow> (Inl x, u, c)
                 | (Inr _, u) \<Rightarrow> (Inr True, u, c))
           in case waiting_turns ts of
                [] \<Rightarrow> (Inr False, t, c1)
              | v # _ \<Rightarrow>
                  (case live_worker \<lparr>h_track = t, h_claims = tw_claims tw n, h_tick = n, h_calls = []\<rparr> r of
                     None \<Rightarrow> (Inr False, t, c1)
                   | Some w \<Rightarrow>
                       (case tw_turn tw n w (tv_turn v) (tv_text v) of
                          TakesNoTurns \<Rightarrow> answer v None (Some ''this Cog's worker takes no turns'') c1
                        | TurnRaised status message \<Rightarrow>
                            (if status = Some 404 then
                               (case still_opening tw grace (tv_turn v) n (first_refused c1) of
                                  (True, refused) \<Rightarrow> (Inr False, t, c1\<lparr>first_refused := refused\<rparr>)
                                | (False, refused) \<Rightarrow> answer v None (Some (take 1024 message)) (c1\<lparr>first_refused := refused\<rparr>))
                             else answer v None (Some (take 1024 message)) c1)
                        | TurnAnswered text \<Rightarrow>
                            answer v (Some text) None (c1\<lparr>first_refused := key_pop (first_refused c1) (tv_turn v)\<rparr>)))))"

text \<open>\<open>while True\<close>, with fuel: \<open>None\<close> when it runs out.\<close>

fun deliver_turns ::
  "nat \<Rightarrow> turn_world \<Rightarrow> 's track_ops \<Rightarrow> int \<Rightarrow> string \<Rightarrow> nat \<Rightarrow> 's \<Rightarrow> ctl \<Rightarrow> ((exn + unit) \<times> 's \<times> ctl) option" where
  "deliver_turns 0 tw ops grace r n t c = None"
| "deliver_turns (Suc fuel) tw ops grace r n t c =
     (case deliver_once tw ops grace r n t c of
        (Inl x, u, c') \<Rightarrow> Some (Inl x, u, c')
      | (Inr False, u, c') \<Rightarrow> Some (Inr (), u, c')
      | (Inr True, u, c') \<Rightarrow> deliver_turns fuel tw ops grace r (n + 2) u c')"

subsection \<open>What a thread does\<close>

text \<open>\<open>_advance\<close>: whatever \<open>submit()\<close> raises is logged.\<close>

definition ctl_advance :: "'s runner \<Rightarrow> op_definition \<Rightarrow> 's host \<Rightarrow> 's host" where
  "ctl_advance R op h = snd (submit R op h)"

text \<open>\<open>_cancel\<close>; \<open>request_cancel\<close> writes the actor as a string, and nothing else is modelled to.\<close>

definition ctl_cancel :: "'s runner \<Rightarrow> string \<Rightarrow> pyval \<Rightarrow> 's host \<Rightarrow> 's host" where
  "ctl_cancel R r actor h = (case actor of PStr a \<Rightarrow> snd (cancel R r a h) | _ \<Rightarrow> h)"

fun run_job :: "nat \<Rightarrow> turn_world \<Rightarrow> 's runner \<Rightarrow> int \<Rightarrow> job \<Rightarrow> 's host \<times> ctl \<Rightarrow> 's host \<times> ctl" where
  "run_job fuel tw R grace (AdvanceJob r op) (h, c) = (ctl_advance R op h, thread_ends (AdvanceJob r op) c)"
| "run_job fuel tw R grace (CancelJob r actor) (h, c) = (ctl_cancel R r actor h, thread_ends (CancelJob r actor) c)"
| "run_job fuel tw R grace (TurnsJob r) (h, c) =
     (case deliver_turns fuel tw (r_ops R) grace r 0 (h_track h) c of
        None \<Rightarrow> (h, c)
      | Some (_, t, c') \<Rightarrow> (h\<lparr>h_track := t\<rparr>, thread_ends (TurnsJob r) c'))"

subsection \<open>One thread of a kind for a run\<close>

fun job_key :: "job \<Rightarrow> nat \<times> string" where
  "job_key (AdvanceJob r _) = (0, r)"
| "job_key (CancelJob r _) = (1, r)"
| "job_key (TurnsJob r) = (2, r)"

fun job_alive :: "job \<Rightarrow> ctl \<Rightarrow> bool" where
  "job_alive (AdvanceJob r _) c = alive (c_advancing c) r"
| "job_alive (CancelJob r _) c = alive (c_cancelling c) r"
| "job_alive (TurnsJob r) c = alive (c_turning c) r"

text \<open>The dictionaries say exactly which threads are alive, and no run has two of a kind.\<close>

definition threads_ok :: "ctl \<Rightarrow> bool" where
  "threads_ok c \<longleftrightarrow> distinct (map job_key (c_jobs c)) \<and> (\<forall>j. job_alive j c \<longleftrightarrow> job_key j \<in> job_key ` set (c_jobs c))"

lemma alive_update [simp]: "alive (AList.update r b ths) r' = (if r' = r then b else alive ths r')"
  by (simp add: alive_def)

lemma job_alive_set_thread [simp]:
  "job_alive j' (set_thread j b c) = (if job_key j' = job_key j then b else job_alive j' c)"
  by (cases j; cases j') auto

lemma set_thread_simps [simp]:
  "c_jobs (set_thread j b c) = c_jobs c" "c_views (set_thread j b c) = c_views c" "c_ended (set_thread j b c) = c_ended c"
  by (cases j; simp)+

lemma job_alive_cong [simp]:
  "job_alive j (c\<lparr>c_jobs := js\<rparr>) = job_alive j c" "job_alive j (c\<lparr>c_views := vs\<rparr>) = job_alive j c"
  "job_alive j (c\<lparr>c_ended := es\<rparr>) = job_alive j c" "job_alive j (c\<lparr>first_refused := fr\<rparr>) = job_alive j c"
  by (cases j; simp)+

lemma threads_ok_cong [simp]:
  "threads_ok (c\<lparr>c_views := vs\<rparr>) = threads_ok c" "threads_ok (c\<lparr>c_ended := es\<rparr>) = threads_ok c"
  "threads_ok (c\<lparr>first_refused := fr\<rparr>) = threads_ok c"
  by (simp_all add: threads_ok_def)

lemma spawn_simps [simp]:
  "c_jobs (spawn j c) = c_jobs c @ [j]" "c_views (spawn j c) = c_views c" "c_ended (spawn j c) = c_ended c"
  by (simp_all add: spawn_def)

lemma threads_ok_spawn: "threads_ok c \<Longrightarrow> \<not> job_alive j c \<Longrightarrow> threads_ok (spawn j c)"
  by (auto simp: threads_ok_def spawn_def)

lemma threads_ok_ends:
  assumes "threads_ok c" and "j \<in> set (c_jobs c)"
  shows "threads_ok (thread_ends j c)"
proof -
  obtain xs ys where js: "c_jobs c = xs @ j # ys" "j \<notin> set xs" using split_list_first [OF assms(2)] by blast
  then have rest: "remove1 j (xs @ j # ys) = xs @ ys" by (simp add: remove1_append)
  have "job_key j \<notin> job_key ` set (xs @ ys)" "distinct (map job_key (xs @ ys))"
    using assms(1) js by (auto simp: threads_ok_def)
  then show ?thesis using assms(1) js unfolding threads_ok_def thread_ends_def by (auto simp: rest)
qed

lemma threads_ok_act: "threads_ok c \<Longrightarrow> threads_ok (act_on r v c)"
  by (simp add: act_on_def threads_ok_spawn)

lemma act_on_simps [simp]: "c_views (act_on r v c) = c_views c" "c_ended (act_on r v c) = c_ended c"
  by (simp_all add: act_on_def)

lemma act_on_keeps_jobs: "set (c_jobs c) \<subseteq> set (c_jobs (act_on r v c))"
  by (auto simp: act_on_def)

text \<open>Every way through \<open>_look_at\<close>.\<close>

lemma look_at_cases:
  assumes "look_at ops t r c = (res, c')"
  obtains (quiet) vs where "vs = snd (rv_view ops t (c_views c) r)" "c' = c\<lparr>c_views := vs\<rparr>"
      "\<forall>v. fst (rv_view ops t (c_views c) r) \<noteq> Inr (Some v)"
  | (over) v vs where "rv_view ops t (c_views c) r = (Inr (Some v), vs)" "ended (v_state v)"
      "c' = c\<lparr>c_ended := List.insert r (c_ended c), c_views := forget vs r\<rparr>"
  | (live) v vs c1 where "rv_view ops t (c_views c) r = (Inr (Some v), vs)" "\<not> ended (v_state v)"
      "c1 = (act_on r v (c\<lparr>c_views := vs\<rparr>))\<lparr>c_views := snd (rv_turns ops t vs r)\<rparr>"
      "c' = c1 \<or> c' = spawn (TurnsJob r) c1 \<and> \<not> alive (c_turning c1) r"
proof -
  obtain u vs where v: "rv_view ops t (c_views c) r = (u, vs)" by (cases "rv_view ops t (c_views c) r")
  show ?thesis
  proof (cases "\<exists>w. u = Inr (Some w)")
    case False
    with v assms have "c' = c\<lparr>c_views := vs\<rparr>"
      by (auto simp: look_at_def split: sum.splits option.splits)
    then show ?thesis using v False by (intro quiet [of vs]) auto
  next
    case True
    then obtain w where w: "u = Inr (Some w)" by blast
    let ?c1 = "(act_on r w (c\<lparr>c_views := vs\<rparr>))\<lparr>c_views := snd (rv_turns ops t vs r)\<rparr>"
    show ?thesis
    proof (cases "ended (v_state w)")
      case True
      with v w assms show ?thesis by (intro over [of w vs]) (auto simp: look_at_def)
    next
      case False
      obtain y vs2 where y: "rv_turns ops t vs r = (y, vs2)" by (cases "rv_turns ops t vs r")
      have "c' = ?c1 \<or> c' = spawn (TurnsJob r) ?c1 \<and> \<not> alive (c_turning ?c1) r"
        using v w False assms y by (cases y) (auto simp: look_at_def Let_def)
      then show ?thesis using v w False by (intro live [of w vs ?c1]) auto
    qed
  qed
qed

lemma look_at_threads:
  assumes "threads_ok c" and "look_at ops t r c = (res, c')"
  shows "threads_ok c' \<and> set (c_jobs c) \<subseteq> set (c_jobs c') \<and> set (c_ended c') \<subseteq> insert r (set (c_ended c))"
  using assms(2)
proof (cases rule: look_at_cases)
  case (live v vs c1)
  have "threads_ok (act_on r v (c\<lparr>c_views := vs\<rparr>))" using assms(1) by (simp add: threads_ok_act)
  then have "threads_ok c1" "set (c_jobs c) \<subseteq> set (c_jobs c1)" "c_ended c1 = c_ended c"
    using act_on_keeps_jobs [of "c\<lparr>c_views := vs\<rparr>"] unfolding live(3) by simp_all
  then show ?thesis using live(4) threads_ok_spawn [of c1 "TurnsJob r"] by auto
qed (use assms(1) in auto)

context track_store
begin

lemma look_at_views:
  assumes "inv t" and "views_ok ops t (c_views c)" and "look_at ops t r c = (res, c')"
  shows "views_ok ops t (c_views c')"
  using assms(3)
proof (cases rule: look_at_cases)
  case (live v vs c1)
  have "views_ok ops t vs" using reads_keep(1) [OF assms(1,2), of r] live(1) by simp
  then have "views_ok ops t (c_views c1)" using reads_keep(2) [OF assms(1)] live(3) by simp
  then show ?thesis using live(4) by auto
next
  case (over v vs)
  then show ?thesis using reads_keep(1) [OF assms(1,2), of r] views_ok_forget by auto
qed (use reads_keep(1) [OF assms(1,2)] in auto)

end
subsection \<open>A pass reaches every run\<close>

lemma job_alive_spawn [simp]: "job_alive j (spawn k c) \<longleftrightarrow> job_key j = job_key k \<or> job_alive j c"
  by (simp add: spawn_def)

lemma act_on_others: "snd (job_key j) \<noteq> r \<Longrightarrow> job_alive j (act_on r v c) = job_alive j c"
  by (auto simp: act_on_def)

lemma look_at_others:
  assumes "look_at ops t r c = (res, c')" and "snd (job_key j) \<noteq> r"
  shows "job_alive j c' = job_alive j c"
  using assms(1)
proof (cases rule: look_at_cases)
  case (live v vs c1)
  then have "job_alive j c1 = job_alive j c" using act_on_others [OF assms(2)] by simp
  then show ?thesis using live(4) assms(2) by auto
qed auto

definition ctl_ok :: "'s track_ops \<Rightarrow> 's \<Rightarrow> ctl \<Rightarrow> bool" where
  "ctl_ok ops t c \<longleftrightarrow> threads_ok c \<and> views_ok ops t (c_views c)"

lemma new_ctl_ok: "ctl_ok ops t new_ctl"
proof -
  have "\<not> job_alive j new_ctl" for j by (cases j) (simp_all add: new_ctl_def alive_def)
  then have "threads_ok new_ctl" by (simp add: threads_ok_def) (simp add: new_ctl_def)
  moreover have "views_ok ops t (c_views new_ctl)" by (simp add: new_ctl_def views_ok_empty)
  ultimately show ?thesis by (simp add: ctl_ok_def)
qed

lemma described_observed:
  assumes "r_ops R = ops" and "describe ops t r = Inr (Some v)"
  shows "observe R t r = Inr (Some (v_state v))"
proof -
  obtain run where "replay (map upgrade (t_replay ops t r 0)) = Inr (Some run)" "v_state v = run_state run"
    using assms(2) view_of_Some unfolding describe_def by blast
  then show ?thesis using assms(1) by (simp add: observe_def read_track_def)
qed

context track_store
begin

lemma look_at_ok: "inv t \<Longrightarrow> ctl_ok ops t c \<Longrightarrow> ctl_ok ops t (snd (look_at ops t r c))"
  using look_at_threads look_at_views unfolding ctl_ok_def by (metis prod.collapse)

lemma tick_runs_ok:
  assumes "inv t" and "ctl_ok ops t c"
  shows "ctl_ok ops t (tick_runs ops t rs c) \<and> set (c_jobs c) \<subseteq> set (c_jobs (tick_runs ops t rs c))"
  using assms(2)
proof (induction rs arbitrary: c)
  case (Cons r rs)
  let ?c = "if r \<in> set (c_ended c) then c else snd (look_at ops t r c)"
  have "ctl_ok ops t ?c" using Cons.prems look_at_ok [OF assms(1)] by simp
  moreover have "set (c_jobs c) \<subseteq> set (c_jobs ?c)"
    using look_at_threads [of c ops t r] Cons.prems by (auto simp: ctl_ok_def) (metis prod.collapse subsetD)
  ultimately show ?case using Cons.IH [of ?c] by auto
qed simp

lemma tick_runs_reach:
  assumes "inv t" and "ctl_ok ops t c" and "r \<in> set rs" and "r \<notin> set (c_ended c)"
  shows "\<exists>c0. ctl_ok ops t c0 \<and> (\<forall>j. snd (job_key j) = r \<longrightarrow> job_alive j c0 = job_alive j c) \<and>
    set (c_jobs (snd (look_at ops t r c0))) \<subseteq> set (c_jobs (tick_runs ops t rs c))"
  using assms(2-4)
proof (induction rs arbitrary: c)
  case (Cons x rs)
  let ?c = "if x \<in> set (c_ended c) then c else snd (look_at ops t x c)"
  have ok: "ctl_ok ops t ?c" using Cons.prems(1) look_at_ok [OF assms(1)] by simp
  show ?case
  proof (cases "x = r")
    case True
    with Cons.prems tick_runs_ok [OF assms(1) ok, of rs] show ?thesis by (intro exI [of _ c]) auto
  next
    case False
    have "r \<notin> set (c_ended ?c)" "\<And>j. snd (job_key j) = r \<Longrightarrow> job_alive j ?c = job_alive j c"
      using look_at_threads [of c ops t x] look_at_others [of ops t x c] Cons.prems(1,3) False
      by (cases "look_at ops t x c"; auto simp: ctl_ok_def)+
    with Cons.IH [OF ok] Cons.prems(2) False show ?thesis by auto
  qed
qed simp

lemma looked_at_live:
  assumes "inv t" and "ctl_ok ops t c" and "describe ops t r = Inr (Some v)" and "\<not> ended (v_state v)"
  shows "\<exists>vs. set (c_jobs (act_on r v (c\<lparr>c_views := vs\<rparr>))) \<subseteq> set (c_jobs (snd (look_at ops t r c)))"
proof -
  obtain vs where w: "rv_view ops t (c_views c) r = (Inr (Some v), vs)"
    using live_view [OF assms(1) _ assms(3,4)] assms(2) by (auto simp: ctl_ok_def)
  obtain res c' where l: "look_at ops t r c = (res, c')" by (cases "look_at ops t r c")
  then show ?thesis
  proof (cases rule: look_at_cases)
    case (live v' vs' c1)
    with w l show ?thesis by (intro exI [of _ vs]) auto
  qed (use w assms(4) in auto)
qed

text \<open>A run that has not ended and asks for a thread nobody runs gets it in the next pass.\<close>

lemma tick_spawns:
  fixes R :: "'s runner"
  assumes "inv t" and "r_ops R = ops" and "ctl_ok ops t c" and "r \<notin> set (c_ended c)" and "describe ops t r = Inr (Some v)" and "\<not> ended (v_state v)"
    and "snd (job_key j) = r" and "\<not> job_alive j c"
    and j: "\<And>c0. \<not> job_alive j c0 \<Longrightarrow> j \<in> set (c_jobs (act_on r v c0))"
  shows "j \<in> set (c_jobs (tick ops t c))"
proof -
  have "r \<in> set (t_run_ids ops t)" using observed_is_listed [OF assms(2,1) described_observed [OF assms(2,5)]] .
  from tick_runs_reach [OF assms(1,3) this assms(4)] obtain c0 where c0: "ctl_ok ops t c0" "\<not> job_alive j c0"
    "set (c_jobs (snd (look_at ops t r c0))) \<subseteq> set (c_jobs (tick ops t c))" using assms(7,8) by (auto simp: tick_def)
  from looked_at_live [OF assms(1) c0(1) assms(5,6)] obtain vs
    where "set (c_jobs (act_on r v (c0\<lparr>c_views := vs\<rparr>))) \<subseteq> set (c_jobs (snd (look_at ops t r c0)))" by blast
  moreover have "j \<in> set (c_jobs (act_on r v (c0\<lparr>c_views := vs\<rparr>)))" using c0(2) by (intro j) simp
  ultimately show ?thesis using c0(3) by blast
qed

end
subsection \<open>What clients and deliveries write\<close>

text \<open>A fact between the run's own events changes nothing the run machine reads.\<close>

lemma replay_unmoved:
  assumes "event_type f \<in> set RUN_FACTS" and "event_type f \<noteq> ''step_started''"
  shows "replay (fs @ [f]) = replay fs"
proof -
  have "event_type f \<noteq> ''run_picked_up''" using assms(1) by (auto simp: RUN_FACTS_def)
  then have b: "before_pickups (fs @ [f]) = before_pickups fs" by (simp add: before_pickups_def)
  have "replay_step x None f = Inr None" for x
    using assms(1) by (auto simp: replay_step_def dest: not_a_fact)
  then have "replay fs = Inr None \<Longrightarrow> ?thesis" "replay fs = Inl x \<Longrightarrow> ?thesis" "replay fs = Inr (Some r) \<Longrightarrow> ?thesis" for x r
    using b assms replay_append_fact [of fs r f] by (simp_all add: replay_snoc)
  then show ?thesis by (metis not_None_eq sum.exhaust)
qed

lemma steps_recorded_append: "steps_recorded h \<Longrightarrow> steps_recorded (h @ es)"
  unfolding steps_recorded_def using submitted_definition_extends by (fastforce simp: step_done_def)

lemma completed_soundly_unmoved:
  "event_type f \<in> set RUN_FACTS \<Longrightarrow> event_type f \<noteq> ''step_started'' \<Longrightarrow> completed_soundly h \<Longrightarrow> completed_soundly (h @ [f])"
  by (simp add: completed_soundly_def replay_unmoved steps_recorded_append)

definition note_types :: "string list" where
  "note_types = [CANCEL_REQUESTED, TURN_REQUESTED, TURN_ANSWERED, TURN_FAILED]"

lemma note_types_facts: "ty \<in> set note_types \<Longrightarrow> ty \<in> set RUN_FACTS \<and> ty \<noteq> ''step_started''"
  by (auto simp: note_types_def RUN_FACTS_def CANCEL_REQUESTED_def TURN_REQUESTED_def TURN_ANSWERED_def TURN_FAILED_def)

text \<open>A store with a note added for one run: every other Track is as it was.\<close>

definition noted :: "'s track_ops \<Rightarrow> ('s \<Rightarrow> bool) \<Rightarrow> string \<Rightarrow> 's \<Rightarrow> track_event \<Rightarrow> 's \<Rightarrow> bool" where
  "noted ops sound r t e u \<longleftrightarrow>
     sound u \<and> event_type e \<in> set note_types \<and> upgrade e = e \<and>
     (\<forall>x. log_of ops u x = (if x = r then log_of ops t r @ [e] else log_of ops t x))"

lemma noted_extends: "noted ops sound r t e u \<Longrightarrow> extends (log_of ops t x) (log_of ops u x)"
  by (auto simp: noted_def extends_iff)

lemma noted_host:
  assumes "r_ops R = ops" and "host_ok R sound h" and "noted ops sound r (h_track h) e u"
  shows "host_ok R sound (h\<lparr>h_track := u\<rparr>)"
proof -
  have "read_track R u x = (if x = r then read_track R (h_track h) r @ [e] else read_track R (h_track h) x)" for x
    using assms(1,3) by (simp add: noted_def read_track_def log_of_def)
  then have "completed_soundly (read_track R u x)" for x
    using assms(2,3) note_types_facts completed_soundly_unmoved by (auto simp: host_ok_def noted_def)
  then show ?thesis using assms(3) by (simp add: host_ok_def noted_def)
qed

context track_store
begin

lemma note_append:
  assumes "inv t" and "ty \<in> set note_types" and "t_append ops t (intent_event r ty p st) = (Inr e, u)"
  shows "noted ops inv r t e u \<and> event_type e = ty \<and> payload e = p"
proof -
  obtain n where e: "e = (intent_event r ty p st)\<lparr>sequence := Some n\<rparr>"
    and l: "\<forall>x. log_of ops u x = (if x = r then log_of ops t x @ [e] else log_of ops t x)"
    using append_stores [OF assms(1,3)] by auto
  show ?thesis using append_inv [OF assms(1,3)] assms(2) l by (auto simp: noted_def e)
qed

lemma answer_noted:
  assumes "inv t" and "answer_turn ops t r turn text error st = (res, u)"
  shows "(\<exists>x. res = Inl x) \<and> u = t \<or>
    res = Inr () \<and> (\<exists>e. noted ops inv r t e u \<and> py_get (payload e) ''turn'' = turn \<and>
      event_type e = (if text = None then TURN_FAILED else TURN_ANSWERED))"
proof (cases "(text = None) = (error = None)")
  case True
  with assms(2) show ?thesis by (auto simp: answer_turn_def)
next
  case False
  define ty where "ty = (if text = None then TURN_FAILED else TURN_ANSWERED)"
  define p where "p = (''turn'', turn) # (case text of Some x \<Rightarrow> [(''text'', PStr x)] | None \<Rightarrow> [(''error'', opt_str error)])"
  have a: "intent_append ops t r ty p st = (res, u)"
    using assms(2) False by (auto simp: answer_turn_def ty_def p_def split: option.splits)
  have ty: "ty \<in> set note_types" by (simp add: ty_def note_types_def)
  obtain y u' where y: "t_append ops t (intent_event r ty p st) = (y, u')" by (cases "t_append ops t (intent_event r ty p st)")
  show ?thesis
  proof (cases y)
    case (Inl x)
    with a y append_refuses [OF assms(1)] show ?thesis by (auto simp: intent_append_def)
  next
    case (Inr e)
    with a y have "res = Inr ()" "u' = u" by (auto simp: intent_append_def)
    moreover have "py_get p ''turn'' = turn" by (simp add: p_def)
    ultimately show ?thesis using note_append [OF assms(1) ty y [unfolded Inr]] unfolding ty_def by auto
  qed
qed

lemma request_noted:
  assumes "inv t" and "ty \<in> set note_types" and "t_append_if ops t (intent_event r ty p st) k = (res, u)"
  shows "u = t \<or> (\<exists>e. noted ops inv r t e u)"
proof (cases "\<exists>e. res = Inr (Some e)")
  case True
  then obtain e where "t_append ops t (intent_event r ty p st) = (Inr e, u)"
    using assms by (auto simp: append_if_is checked_append_def split: sum.splits bool.splits prod.splits)
  then show ?thesis using note_append [OF assms(1,2)] by blast
next
  case False
  then show ?thesis using append_if_declined [OF assms(1) _ assms(3)] by auto
qed

lemma client_noted:
  assumes "inv t"
  shows "request_cancel ops t r actor st = (a, u) \<Longrightarrow> u = t \<or> (\<exists>e. noted ops inv r t e u)"
    and "request_turn ops t r text actor turn st = (b, u) \<Longrightarrow> u = t \<or> (\<exists>e. noted ops inv r t e u)"
proof -
  have ty: "CANCEL_REQUESTED \<in> set note_types" "TURN_REQUESTED \<in> set note_types" by (simp_all add: note_types_def)
  show "request_cancel ops t r actor st = (a, u) \<Longrightarrow> u = t \<or> (\<exists>e. noted ops inv r t e u)"
    using request_noted [OF assms ty(1)] by (auto simp: request_cancel_def split: prod.splits sum.splits option.splits if_splits)
  show "request_turn ops t r text actor turn st = (b, u) \<Longrightarrow> u = t \<or> (\<exists>e. noted ops inv r t e u)"
    using request_noted [OF assms ty(2)] by (auto simp: request_turn_def split: prod.splits sum.splits option.splits if_splits)
qed

end
subsection \<open>Deliveries end\<close>

text \<open>Every turn on the Track is named by a string, as \<open>request_turn\<close> names it.\<close>

definition named_turns :: "track_event list \<Rightarrow> bool" where
  "named_turns es \<longleftrightarrow> (\<forall>e\<in>set es. event_type (upgrade e) = TURN_REQUESTED \<longrightarrow> (\<exists>s. py_get (payload (upgrade e)) ''turn'' = PStr s))"

definition waiting_on :: "track_event list \<Rightarrow> turn_view list" where
  "waiting_on es = (case turns es of Inl _ \<Rightarrow> [] | Inr ts \<Rightarrow> waiting_turns ts)"

definition named_by_key :: "(pyval, turn_view) dict \<Rightarrow> bool" where
  "named_by_key d \<longleftrightarrow> distinct (map fst d) \<and> (\<forall>(k, v)\<in>set d. tv_turn v = k \<and> (\<exists>s. k = PStr s))"

lemma key_put_keys: "k \<in> fst ` set (key_put d (PStr s) v) \<Longrightarrow> k = PStr s \<or> k \<in> fst ` set d"
proof (induction d)
  case (Cons x d)
  then show ?case by (cases x) (simp split: if_splits; blast)
qed simp

lemma key_get_in: "key_get d k = Some v \<Longrightarrow> \<exists>k'. (k', v) \<in> set d \<and> py_eq k' k"
  by (auto simp: key_get_def find_Some_iff) (metis nth_mem)

lemma named_put: "named_by_key d \<Longrightarrow> tv_turn v = PStr s \<Longrightarrow> named_by_key (key_put d (PStr s) v)"
proof (induction d)
  case (Cons kv d)
  obtain k b where kv: "kv = (k, b)" by (cases kv)
  show ?case
  proof (cases "k = PStr s")
    case False
    with Cons kv key_put_keys [of k d s v] show ?thesis by (auto simp: named_by_key_def)
  qed (use Cons.prems kv in \<open>simp add: named_by_key_def\<close>)
qed (simp add: named_by_key_def)

lemma named_get: "named_by_key d \<Longrightarrow> key_get d k = Some v \<Longrightarrow> tv_turn v = k \<and> (\<exists>s. k = PStr s)"
  by (fastforce simp: named_by_key_def dest!: key_get_in)

lemma named_fold:
  assumes "fold_result turn_step d es = Inr d'" and "named_by_key d"
    and "\<forall>e\<in>set es. event_type e = TURN_REQUESTED \<longrightarrow> (\<exists>s. py_get (payload e) ''turn'' = PStr s)"
  shows "named_by_key d'"
  using assms
proof (induction es arbitrary: d)
  case (Cons e es)
  from Cons.prems(1) obtain d1 where d1: "turn_step d e = Inr d1" "fold_result turn_step d1 es = Inr d'"
    by (auto simp: bind_result_Inr_iff)
  have "named_by_key d1"
  proof (cases "event_type e = TURN_REQUESTED")
    case True
    with d1(1) Cons.prems(2,3) show ?thesis by (auto simp: turn_step_def Let_def intro!: named_put split: if_splits)
  next
    case False
    have put: "named_by_key (key_put d k w)" if "key_get d k = Some v" "tv_turn w = tv_turn v" for k v w
      using named_get [OF Cons.prems(2) that(1)] that(2) named_put [OF Cons.prems(2)] by auto
    from False d1(1) Cons.prems(2) show ?thesis
      by (auto simp: turn_step_def Let_def simp del: py_get_simps intro!: put split: if_splits option.splits)
  qed
  with Cons d1(2) show ?case by simp
qed simp

lemma waiting_put:
  assumes "waiting_turns d = w # ws" and "named_by_key d" and "tv_state w' \<noteq> ''pending''"
  shows "waiting_turns (key_put d (tv_turn w) w') = ws \<and> key_get d (tv_turn w) = Some w"
  using assms
proof (induction d)
  case (Cons kv d)
  obtain k v where kv: "kv = (k, v)" by (cases kv)
  show ?case
  proof (cases "tv_state v = ''pending''")
    case True
    with Cons.prems kv show ?thesis by (auto simp: waiting_turns_def named_by_key_def key_get_def)
  next
    case False
    with Cons kv have ih: "waiting_turns (key_put d (tv_turn w) w') = ws \<and> key_get d (tv_turn w) = Some w"
      by (auto simp: waiting_turns_def named_by_key_def)
    obtain k' where k': "(k', w) \<in> set d" using ih key_get_in [of d "tv_turn w" w] by blast
    then have "k' = tv_turn w" using Cons.prems(2) kv by (auto simp: named_by_key_def)
    then have "k \<noteq> tv_turn w" using k' Cons.prems(2) kv by (force simp: named_by_key_def)
    with ih kv False Cons.prems(2) show ?thesis by (auto simp: waiting_turns_def named_by_key_def key_get_def)
  qed
qed (simp add: waiting_turns_def)

lemma waiting_answered:
  assumes "waiting_on es = w # ws" and "named_turns es" and "upgrade e = e" and "event_type e \<in> {TURN_ANSWERED, TURN_FAILED}"
    and "py_get (payload e) ''turn'' = tv_turn w"
  shows "waiting_on (es @ [e]) = ws"
proof -
  from assms(1) obtain ts where ts: "turns es = Inr ts" "waiting_turns ts = w # ws" by (auto simp: waiting_on_def split: sum.splits)
  then obtain asked run where a: "fold_result turn_step [] (map upgrade es) = Inr asked" "replay (map upgrade es) = Inr run"
    and t: "(case run of None \<Rightarrow> Inr asked | Some r \<Rightarrow> Inr (map (\<lambda>(k, v). (k, end_turn (run_state r) v)) asked)) = (Inr ts :: exn + _)"
    unfolding turns_def Let_def bind_result_Inr_iff by blast
  have named: "named_by_key asked" by (rule named_fold [OF a(1)]) (use assms(2) in \<open>auto simp: named_by_key_def named_turns_def\<close>)
  have going: "map (\<lambda>(k, v). (k, end_turn (run_state r) v)) d = d" if "run = Some r" for r d
  proof -
    have "w \<in> set (waiting_turns ts)" using ts(2) by simp
    then have "\<not> ended (run_state r)" using t that by (auto simp: waiting_turns_def end_turn_def split: if_splits)
    then show ?thesis by (simp add: end_turn_def map_idI)
  qed
  have wa: "waiting_turns asked = w # ws" using ts(2) t going [of _ asked] by (cases run) auto
  have "w \<in> snd ` set asked" using wa by (auto simp: waiting_turns_def filter_eq_Cons_iff) (metis image_eqI list.set_intros(1) set_append Un_iff list.set_map)
  then obtain s where s: "tv_turn w = PStr s" using named by (auto simp: named_by_key_def)
  have get: "key_get asked (PStr s) = Some w" using waiting_put [OF wa named, of "w\<lparr>tv_state := []\<rparr>"] s by simp
  obtain w' where w': "turn_step asked e = Inr (key_put asked (tv_turn w) w')" "tv_state w' \<noteq> ''pending''"
  proof (cases "event_type e = TURN_ANSWERED")
    case True
    then show ?thesis
      using that [of "w\<lparr>tv_state := ''answered'', tv_answer := py_get (payload e) ''text''\<rparr>"] get s assms(5)
      by (simp add: turn_step_def Let_def TURN_ANSWERED_def TURN_REQUESTED_def del: py_get_simps)
  next
    case False
    then show ?thesis
      using that [of "w\<lparr>tv_state := ''failed'', tv_error := py_get (payload e) ''error''\<rparr>"] get s assms(4,5)
      by (simp add: turn_step_def Let_def TURN_ANSWERED_def TURN_FAILED_def TURN_REQUESTED_def del: py_get_simps)
  qed
  have "event_type e \<in> set note_types" using assms(4) by (auto simp: note_types_def)
  then have "replay (map upgrade es @ [e]) = Inr run" using a(2) note_types_facts replay_unmoved [of e "map upgrade es"] by simp
  then have "turns (es @ [e]) = Inr (key_put asked (tv_turn w) w')" 
    using a w'(1) assms(3) going by (auto simp: turns_def Let_def fold_result_snoc split: option.splits)
  then show ?thesis using waiting_put [OF wa named w'(2)] by (simp add: waiting_on_def)
qed
lemma ctl_ok_later:
  "ctl_ok ops t c \<Longrightarrow> (\<And>r. extends (log_of ops t r) (log_of ops u r)) \<Longrightarrow> ctl_ok ops u c"
  unfolding ctl_ok_def using views_ok_later [of ops t "c_views c" u] by blast

lemma named_turns_note: "named_turns es \<Longrightarrow> upgrade e = e \<Longrightarrow> event_type e \<noteq> TURN_REQUESTED \<Longrightarrow> named_turns (es @ [e])"
  by (auto simp: named_turns_def)

text \<open>What a delivery wrote: answers to the first of the waiting turns, in the order they were asked.\<close>

definition delivered :: "'s track_ops \<Rightarrow> ('s \<Rightarrow> bool) \<Rightarrow> string \<Rightarrow> 's \<Rightarrow> 's \<Rightarrow> turn_view list \<Rightarrow> bool" where
  "delivered ops sound r t u ws \<longleftrightarrow>
     sound u \<and> (\<forall>x. x \<noteq> r \<longrightarrow> log_of ops u x = log_of ops t x) \<and>
     (\<exists>new. log_of ops u r = log_of ops t r @ new \<and>
       (\<forall>e\<in>set new. upgrade e = e \<and> event_type e \<in> {TURN_ANSWERED, TURN_FAILED}) \<and>
       map (\<lambda>e. py_get (payload e) ''turn'') new = take (length new) (map tv_turn ws))"

lemma delivered_refl: "sound t \<Longrightarrow> delivered ops sound r t t ws"
  by (simp add: delivered_def)

lemma delivered_step:
  assumes "noted ops sound r t e u" and "event_type e \<in> {TURN_ANSWERED, TURN_FAILED}" and "py_get (payload e) ''turn'' = tv_turn w"
    and "delivered ops sound r u u' ws"
  shows "delivered ops sound r t u' (w # ws)"
proof -
  obtain new where new: "log_of ops u' r = log_of ops u r @ new" "\<forall>e\<in>set new. upgrade e = e \<and> event_type e \<in> {TURN_ANSWERED, TURN_FAILED}"
    "map (\<lambda>e. py_get (payload e) ''turn'') new = take (length new) (map tv_turn ws)"
    using assms(4) by (auto simp: delivered_def)
  have "log_of ops u' r = log_of ops t r @ (e # new)" using new(1) assms(1) by (simp add: noted_def)
  then show ?thesis unfolding delivered_def
    using assms new(2,3) by (intro conjI exI [of _ "e # new"]) (auto simp: noted_def delivered_def)
qed

lemma delivered_extends: "delivered ops sound r t u ws \<Longrightarrow> extends (log_of ops t x) (log_of ops u x)"
  by (cases "x = r") (auto simp: delivered_def extends_iff)

context track_store
begin

lemma answer_outcome:
  assumes "inv t" and "ctl_ok ops t c" and "(text = None) \<noteq> (error = None)"
    and "(case answer_turn ops t r turn text error st of (Inl x, u) \<Rightarrow> (Inl x, u, c) | (Inr _, u) \<Rightarrow> (Inr True, u, c)) = (res, u, c')"
  shows "c' = c \<and> ((\<exists>x. res = Inl x) \<and> u = t \<or>
    res = Inr True \<and> (\<exists>e. noted ops inv r t e u \<and> py_get (payload e) ''turn'' = turn \<and> event_type e \<in> {TURN_ANSWERED, TURN_FAILED}))"
proof -
  obtain y u' where y: "answer_turn ops t r turn text error st = (y, u')" by (cases "answer_turn ops t r turn text error st")
  from answer_noted [OF assms(1) y] show ?thesis using assms(4) y by (auto split: if_splits)
qed

lemma deliver_once_outcome:
  assumes "inv t" and "ctl_ok ops t c" and "deliver_once tw ops grace r n t c = (res, u, c')"
  shows "ctl_ok ops t c' \<and> c_jobs c' = c_jobs c \<and>
    (res \<noteq> Inr True \<and> u = t \<or>
     res = Inr True \<and> (\<exists>w ws e. waiting_on (log_of ops t r) = w # ws \<and> noted ops inv r t e u \<and>
       py_get (payload e) ''turn'' = tv_turn w \<and> event_type e \<in> {TURN_ANSWERED, TURN_FAILED}))"
proof -
  obtain y vs where y: "rv_turns ops t (c_views c) r = (y, vs)" by (cases "rv_turns ops t (c_views c) r")
  have vs: "views_ok ops t vs" using reads_keep(2) [OF assms(1), of "c_views c" r] assms(2) y by (simp add: ctl_ok_def)
  then have ok: "ctl_ok ops t (c\<lparr>c_views := vs\<rparr>)" "ctl_ok ops t (c\<lparr>c_views := vs, first_refused := fr\<rparr>)" for fr
    using assms(2) by (simp_all add: ctl_ok_def)
  show ?thesis
  proof (cases y)
    case (Inl x)
    with y assms(3) ok show ?thesis by (auto simp: deliver_once_def Let_def)
  next
    case (Inr ts)
    then have ts: "turns (log_of ops t r) = Inr ts" using turns_current [OF assms(1) _ y [unfolded Inr]] assms(2) by (simp add: ctl_ok_def)
    show ?thesis
    proof (cases "waiting_turns ts")
      case Nil
      with y Inr assms(3) ok show ?thesis by (auto simp: deliver_once_def Let_def)
    next
      case (Cons w ws)
      then have on: "waiting_on (log_of ops t r) = w # ws" using ts by (simp add: waiting_on_def)
      let ?c = "c\<lparr>c_views := vs\<rparr>"
      let ?ans = "\<lambda>text error c2. case answer_turn ops t r (tv_turn w) text error (tw_stamp tw n) of
        (Inl x, u) \<Rightarrow> (Inl x, u, c2) | (Inr _, u) \<Rightarrow> (Inr True, u, c2)"
      obtain b fr where b: "still_opening tw grace (tv_turn w) n (first_refused ?c) = (b, fr)"
        by (cases "still_opening tw grace (tv_turn w) n (first_refused ?c)")
      consider (stop) "res = Inr False" "u = t" "c' = ?c \<or> c' = ?c\<lparr>first_refused := fr\<rparr>"
        | (answer) tx er c2 where "(tx = None) \<noteq> (er = None)" "c2 = ?c \<or> (\<exists>fr. c2 = ?c\<lparr>first_refused := fr\<rparr>)"
            "?ans tx er c2 = (res, u, c')"
      proof (cases "live_worker \<lparr>h_track = t, h_claims = tw_claims tw n, h_tick = n, h_calls = []\<rparr> r")
        case None
        with assms(3) y Inr Cons show ?thesis by (intro stop) (auto simp: deliver_once_def Let_def)
      next
        case (Some cw)
        show ?thesis
        proof (cases "tw_turn tw n cw (tv_turn w) (tv_text w)")
          case TakesNoTurns
          with assms(3) y Inr Cons Some show ?thesis by (intro answer [of None "Some ''this Cog's worker takes no turns''" ?c]) (simp_all add: deliver_once_def Let_def)
        next
          case (TurnAnswered x)
          with assms(3) y Inr Cons Some show ?thesis
            by (intro answer [of "Some x" None "?c\<lparr>first_refused := key_pop (first_refused ?c) (tv_turn w)\<rparr>"])
               (auto simp: deliver_once_def Let_def)
        next
          case (TurnRaised status m)
          show ?thesis
          proof (cases "status = Some 404 \<and> b")
            case True
            with assms(3) y Inr Cons Some TurnRaised b show ?thesis by (intro stop) (simp_all add: deliver_once_def Let_def)
          next
            case False
            with assms(3) y Inr Cons Some TurnRaised b show ?thesis
              by (intro answer [of None "Some (take 1024 m)" "if status = Some 404 then ?c\<lparr>first_refused := fr\<rparr> else ?c"])
                 (auto simp: deliver_once_def Let_def)
          qed
        qed
      qed
      then show ?thesis
      proof cases
        case stop
        with ok show ?thesis by auto
      next
        case answer
        have "ctl_ok ops t c2" "c_jobs c2 = c_jobs c" using answer(2) ok by auto
        with answer_outcome [OF assms(1) _ answer(1,3)] on show ?thesis by auto
      qed
    qed
  qed
qed

text \<open>Fuel for one round more than there are turns waiting is enough, and the rounds answer them in order.\<close>

lemma deliver_turns_outcome:
  assumes "inv t" and "ctl_ok ops t c" and "named_turns (log_of ops t r)" and "length (waiting_on (log_of ops t r)) < fuel"
  shows "\<exists>res u c'. deliver_turns fuel tw ops grace r n t c = Some (res, u, c') \<and>
    delivered ops inv r t u (waiting_on (log_of ops t r)) \<and> ctl_ok ops u c' \<and> c_jobs c' = c_jobs c"
  using assms
proof (induction fuel arbitrary: t c n)
  case (Suc fuel)
  obtain res u c' where d: "deliver_once tw ops grace r n t c = (res, u, c')" by (cases "deliver_once tw ops grace r n t c")
  note out = deliver_once_outcome [OF Suc.prems(1,2) d]
  show ?case
  proof (cases "res = Inr True")
    case False
    then have d': "deliver_turns (Suc fuel) tw ops grace r n t c = Some (case res of Inl x \<Rightarrow> Inl x | Inr _ \<Rightarrow> Inr (), u, c')"
      using d by (cases res) auto
    have same: "u = t" "ctl_ok ops t c'" "c_jobs c' = c_jobs c" using False out by simp_all
    show ?thesis by (intro exI conjI, rule d') (use same delivered_refl [where sound = inv, OF Suc.prems(1)] in simp_all)
  next
    case True
    with out obtain w ws e where e: "waiting_on (log_of ops t r) = w # ws" "noted ops inv r t e u"
      "py_get (payload e) ''turn'' = tv_turn w" "event_type e \<in> {TURN_ANSWERED, TURN_FAILED}" by auto
    have log: "log_of ops u r = log_of ops t r @ [e]" "upgrade e = e" "inv u" using e(2) by (auto simp: noted_def)
    have ws: "waiting_on (log_of ops u r) = ws" using waiting_answered [OF e(1) Suc.prems(3) log(2) e(4,3)] log(1) by simp
    have "ctl_ok ops u c'" using ctl_ok_later [OF conjunct1 [OF out] noted_extends [OF e(2)]] .
    moreover have "named_turns (log_of ops u r)" unfolding log(1)
      using e(4) by (intro named_turns_note Suc.prems(3) log(2)) (auto simp: TURN_ANSWERED_def TURN_FAILED_def TURN_REQUESTED_def)
    ultimately obtain res' u' c2 where r: "deliver_turns fuel tw ops grace r (n + 2) u c' = Some (res', u', c2)"
      "delivered ops inv r u u' ws" "ctl_ok ops u' c2" "c_jobs c2 = c_jobs c'"
      using Suc.IH [of u c' "n + 2"] log(3) ws e(1) Suc.prems(4) by auto
    then have more: "deliver_turns (Suc fuel) tw ops grace r n t c = Some (res', u', c2)" using d True by simp
    have jobs: "c_jobs c2 = c_jobs c" using r(4) out by simp
    show ?thesis by (intro exI conjI, rule more) (use jobs r(3) delivered_step [OF e(2,4,3) r(2)] e(1) in simp_all)
  qed
qed simp

end

end
