(* ===== verification/ControllerSystem.thy ===== *)
theory ControllerSystem
  imports Controller
begin

section \<open>The controller, its clients and its threads together\<close>

text \<open>
  Clients write to the Track, the controller passes over it, and its threads call the runner, in
  any order.  The theorems are about every state such a system reaches.
\<close>

subsection \<open>The system: clients, passes and threads in any order\<close>

datatype client_call =
    SubmitOp op_definition payload "string option" stamp
  | AskCancel string string stamp
  | AskTurn string string string string stamp

fun client_do :: "'s track_ops \<Rightarrow> client_call \<Rightarrow> 's \<Rightarrow> 's" where
  "client_do ops (SubmitOp op who name st) t = snd (submit_intent ops t op who name st)"
| "client_do ops (AskCancel r actor st) t = snd (request_cancel ops t r actor st)"
| "client_do ops (AskTurn r words actor turn st) t = snd (request_turn ops t r words actor turn st)"

text \<open>
  A client writes, the controller looks at a run, or a thread does its work.  The work of a thread
  is one step: what another thread's cancel does in the middle of an advance is in \<open>observe_cancel\<close>.
\<close>

inductive ctl_step :: "'s runner \<Rightarrow> int \<Rightarrow> 's host \<times> ctl \<Rightarrow> 's host \<times> ctl \<Rightarrow> bool" for R grace where
  client: "ctl_step R grace (h, c) (h\<lparr>h_track := client_do (r_ops R) q (h_track h)\<rparr>, c)"
| look: "r \<notin> set (c_ended c) \<Longrightarrow> ctl_step R grace (h, c) (h, snd (look_at (r_ops R) (h_track h) r c))"
| thread: "j \<in> set (c_jobs c) \<Longrightarrow> ctl_step R grace (h, c) (run_job fuel tw R grace j (h, c))"

inductive_cases ctl_stepE: "ctl_step R grace s s'"

text \<open>The Ops the controller holds were read back from a Track, so their Gates are valid.\<close>

definition kept_ops :: "views \<Rightarrow> bool" where
  "kept_ops vs \<longleftrightarrow> (\<forall>r k v. map_of vs r = Some k \<longrightarrow> k_view k = Some v \<longrightarrow> op_ok (v_op v))"

definition jobs_ok :: "ctl \<Rightarrow> bool" where
  "jobs_ok c \<longleftrightarrow> kept_ops (c_views c) \<and> (\<forall>r op. AdvanceJob r op \<in> set (c_jobs c) \<longrightarrow> op_ok op)"

lemma view_of_op_ok:
  assumes "view_of r es = Inr (Some v)"
  shows "op_ok (v_op v)"
proof -
  obtain run where run: "replay es = Inr (Some run)" using assms view_of_Some by blast
  obtain sub where sub: "List.find (\<lambda>e. event_type e = ''op_submitted'') es = Some sub"
    using assms run by (cases "List.find (\<lambda>e. event_type e = ''op_submitted'') es") (simp_all add: view_of_def)
  obtain d where d: "map_of (payload sub) ''op'' = Some d"
    using assms run sub by (cases "map_of (payload sub) ''op''") (simp_all add: view_of_def)
  have "deserialize_op d = Inr (v_op v)"
    using assms run sub d by (auto simp: view_of_def Let_def bind_result_Inr_iff simp del: py_get_simps)
  then show ?thesis by (rule deserialize_op_ok)
qed

lemma rebuild_ops:
  assumes "\<forall>v. k_view k = Some v \<longrightarrow> op_ok (v_op v)" and "rebuild r k = (res, k')"
  shows "\<forall>v. k_view k' = Some v \<longrightarrow> op_ok (v_op v)"
proof (cases "built_at k = last_sequence k")
  case True
  with assms show ?thesis by (auto simp: rebuild_def)
next
  case False
  define got where "got = (case k_events k of None \<Rightarrow> Inl TypeError | Some es \<Rightarrow> view_of r es)"
  have ok: "got = Inr (Some v) \<Longrightarrow> op_ok (v_op v)" for v using view_of_op_ok by (auto simp: got_def split: option.splits)
  have b: "rebuild r k = (res, k')" "built_at k \<noteq> last_sequence k" using assms(2) False by blast+
  show ?thesis
  proof (cases got)
    case (Inl x)
    with b assms(1) show ?thesis by (auto simp: rebuild_def Let_def got_def [symmetric] split: if_splits)
  next
    case (Inr w)
    then have "k_view k' = w" using b by (auto simp: rebuild_def Let_def got_def [symmetric] split: if_splits sum.splits)
    then show ?thesis using ok Inr by simp
  qed
qed

lemma kept_ops_put: "kept_ops vs \<Longrightarrow> \<forall>v. k_view k = Some v \<longrightarrow> op_ok (v_op v) \<Longrightarrow> kept_ops (AList.update r k vs)"
  by (simp add: kept_ops_def)

lemma keep_in_ops:
  assumes "kept_ops vs" and "\<forall>v. k_view k = Some v \<longrightarrow> op_ok (v_op v)" and "keep_in r vs k = (res, vs')"
  shows "kept_ops vs' \<and> (\<forall>k' v. res = Inr k' \<longrightarrow> k_view k' = Some v \<longrightarrow> op_ok (v_op v))"
proof -
  obtain x k' where b: "rebuild r k = (x, k')" by (cases "rebuild r k")
  then have "vs' = AList.update r k' vs" "\<And>y. res = Inr y \<Longrightarrow> y = k'" using assms(3) by (auto simp: keep_in_def split: sum.splits)
  then show ?thesis using rebuild_ops [OF assms(2) b] kept_ops_put [OF assms(1)] by auto
qed

lemma take_in_view [simp]: "k_view (take_in es k) = k_view k"
  by (simp add: take_in_def)

lemma refresh_ops:
  assumes "kept_ops vs" and "refresh ops t vs r = (res, vs')"
  shows "kept_ops vs' \<and> (\<forall>k v. res = Inr k \<longrightarrow> k_view k = Some v \<longrightarrow> op_ok (v_op v))"
proof (cases "map_of vs r")
  case None
  show ?thesis
  proof (cases "t_replay ops t r 0 = []")
    case True
    with None assms show ?thesis by (auto simp: refresh_def Let_def new_kept_def)
  next
    case False
    with None assms(2) have "keep_in r vs (take_in (t_replay ops t r 0) new_kept) = (res, vs')" by (simp add: refresh_def Let_def)
    then show ?thesis by (rule keep_in_ops [OF assms(1), rotated]) (simp add: new_kept_def)
  qed
next
  case (Some k)
  then have k: "\<forall>v. k_view k = Some v \<longrightarrow> op_ok (v_op v)" using assms(1) by (simp add: kept_ops_def)
  obtain k1 where k1: "keep_in r vs k1 = (res, vs')" "k_view k1 = k_view k"
  proof (cases "t_replay ops t r (last_sequence k) \<noteq> [] \<and> k_events k = None")
    case True
    with Some assms(2) show ?thesis
      using that [of "take_in (t_replay ops t r 0) (k\<lparr>k_events := Some []\<rparr>)"] by (simp add: refresh_def Let_def)
  next
    case False
    with Some assms(2) show ?thesis
      using that [of "take_in (t_replay ops t r (last_sequence k)) k"] by (auto simp: refresh_def Let_def)
  qed
  show ?thesis by (rule keep_in_ops [OF assms(1) _ k1(1)]) (use k k1(2) in simp)
qed

lemma reads_ops:
  assumes "kept_ops vs"
  shows "kept_ops (snd (rv_turns ops t vs r))"
    and "rv_view ops t vs r = (res, vs') \<Longrightarrow> kept_ops vs' \<and> (\<forall>v. res = Inr (Some v) \<longrightarrow> op_ok (v_op v))"
proof -
  obtain y vs1 where y: "refresh ops t vs r = (y, vs1)" by (cases "refresh ops t vs r")
  note out = refresh_ops [OF assms y]
  show "kept_ops (snd (rv_turns ops t vs r))"
    using out y kept_ops_put [of vs1 _ r] by (auto simp: rv_turns_def split: sum.splits option.splits)
  show "rv_view ops t vs r = (res, vs') \<Longrightarrow> kept_ops vs' \<and> (\<forall>v. res = Inr (Some v) \<longrightarrow> op_ok (v_op v))"
    using out y by (cases y) (auto simp: rv_view_def split: if_splits)
qed

lemma look_at_jobs_ok:
  assumes "jobs_ok c" and "look_at ops t r c = (res, c')"
  shows "jobs_ok c'"
  using assms(2)
proof (cases rule: look_at_cases)
  case (quiet vs)
  with assms(1) reads_ops(2) [of "c_views c" ops t r "fst (rv_view ops t (c_views c) r)" vs] show ?thesis by (simp add: jobs_ok_def)
next
  case (over v vs)
  have "kept_ops vs" using reads_ops(2) [OF _ over(1)] assms(1) by (simp add: jobs_ok_def)
  then have "kept_ops (forget vs r)" by (simp add: kept_ops_def forget_def)
  then show ?thesis using over(3) assms(1) by (simp add: jobs_ok_def)
next
  case (live v vs c1)
  have v: "kept_ops vs" "op_ok (v_op v)" using reads_ops(2) [OF _ live(1)] assms(1) by (auto simp: jobs_ok_def)
  have "AdvanceJob x op \<in> set (c_jobs (act_on r v (c\<lparr>c_views := vs\<rparr>))) \<Longrightarrow> op_ok op" for x op
    using v assms(1) by (auto simp: act_on_def jobs_ok_def split: if_splits)
  then have "jobs_ok c1" using reads_ops(1) [OF v(1)] live(3) by (simp add: jobs_ok_def)
  then show ?thesis using live(4) by (auto simp: jobs_ok_def)
qed
subsection \<open>Every step keeps the system sound\<close>

definition sys_ok :: "'s runner \<Rightarrow> ('s \<Rightarrow> bool) \<Rightarrow> 's host \<times> ctl \<Rightarrow> bool" where
  "sys_ok R sound s \<longleftrightarrow> host_ok R sound (fst s) \<and> ctl_ok (r_ops R) (h_track (fst s)) (snd s) \<and> jobs_ok (snd s)"

text \<open>A submission written to a Track: the Track was empty of it, or the replay refuses it.\<close>

lemma completed_soundly_submitted:
  assumes "event_type f = ''op_submitted''"
  shows "completed_soundly (h @ [f])"
proof -
  have b: "before_pickups (h @ [f]) = before_pickups h" using assms by (simp add: before_pickups_def)
  have "replay (h @ [f]) = Inr (Some r) \<Longrightarrow> run_state r = SUBMITTED" for r
    using assms by (auto simp: replay_snoc [OF b] bind_result_Inr_iff replay_step_def SUBMISSIONS_def run_refuse_def new_run_def split: option.splits)
  then show ?thesis by (auto simp: completed_soundly_def)
qed

lemma deliver_once_views: "c_views (snd (snd (deliver_once tw ops grace r n t c))) = snd (rv_turns ops t (c_views c) r)"
  by (auto simp: deliver_once_def Let_def split: prod.splits sum.splits list.splits option.splits turn_outcome.splits bool.splits)

context track_store
begin

lemma submission_kept:
  fixes R :: "'s runner"
  assumes "r_ops R = ops" and "host_ok R inv h" and "submit_intent ops (h_track h) op who name st = (res, u)"
  shows "host_ok R inv (h\<lparr>h_track := u\<rparr>) \<and> (\<forall>x. extends (log_of ops (h_track h) x) (log_of ops u x))"
proof -
  obtain p where p: "intent_append ops (h_track h) (op_run_id op) ''op_submitted'' p st = (res, u)"
    using assms(3) by (auto simp: submit_intent_def run_submit_def Let_def)
  obtain y u' where y: "t_append ops (h_track h) (intent_event (op_run_id op) ''op_submitted'' p st) = (y, u')"
    by (cases "t_append ops (h_track h) (intent_event (op_run_id op) ''op_submitted'' p st)")
  then have u: "u' = u" using p by (auto simp: intent_append_def split: sum.splits)
  have inv: "inv (h_track h)" using assms(2) by (simp add: host_ok_def)
  show ?thesis
  proof (cases y)
    case (Inl x)
    then have "u = h_track h" using append_refuses [OF inv] y u by blast
    then show ?thesis using assms(2) by simp
  next
    case (Inr e)
    from append_stores [OF inv y [unfolded Inr]] u obtain n where
      e: "e = (intent_event (op_run_id op) ''op_submitted'' p st)\<lparr>sequence := Some n\<rparr>"
      and l: "\<forall>x. log_of ops u x = (if x = op_run_id op then log_of ops (h_track h) x @ [e] else log_of ops (h_track h) x)"
      by auto
    have "upgrade e = e" "event_type e = ''op_submitted''" by (simp_all add: e)
    then have "read_track R u x = (if x = op_run_id op then read_track R (h_track h) x @ [e] else read_track R (h_track h) x)" for x
      using l assms(1) by (simp add: read_track_def log_of_def)
    then have "completed_soundly (read_track R u x)" for x
      using assms(2) completed_soundly_submitted \<open>event_type e = _\<close> by (simp add: host_ok_def)
    moreover have "inv u" using append_inv [OF inv] y u by blast
    ultimately show ?thesis using l by (auto simp: host_ok_def extends_iff)
  qed
qed

lemma client_kept:
  fixes R :: "'s runner"
  assumes "r_ops R = ops" and "host_ok R inv h"
  shows "host_ok R inv (h\<lparr>h_track := client_do ops q (h_track h)\<rparr>) \<and>
    (\<forall>x. extends (log_of ops (h_track h) x) (log_of ops (client_do ops q (h_track h)) x))"
proof -
  have inv: "inv (h_track h)" using assms(2) by (simp add: host_ok_def)
  have noted: "host_ok R inv (h\<lparr>h_track := u\<rparr>) \<and> (\<forall>x. extends (log_of ops (h_track h) x) (log_of ops u x))"
    if "u = h_track h \<or> (\<exists>e. noted ops inv r (h_track h) e u)" for u r
    using that assms(2) noted_host [OF assms] noted_extends by (metis extends_refl host.surjective host.update_convs(1))
  show ?thesis
  proof (cases q)
    case (SubmitOp op who name st)
    then show ?thesis using submission_kept [OF assms] by (metis client_do.simps(1) prod.collapse)
  next
    case (AskCancel r actor st)
    then show ?thesis using client_noted(1) [OF inv, of r actor st] noted by (metis client_do.simps(2) prod.collapse)
  next
    case (AskTurn r words actor turn st)
    then show ?thesis using client_noted(2) [OF inv, of r words actor turn st] noted by (metis client_do.simps(3) prod.collapse)
  qed
qed

lemma deliver_kept:
  fixes R :: "'s runner"
  assumes "r_ops R = ops" and "sys_ok R inv (h, c)" and "deliver_turns fuel tw ops grace r n (h_track h) c = Some (res, u, c')"
  shows "sys_ok R inv (h\<lparr>h_track := u\<rparr>, c') \<and> c_jobs c' = c_jobs c \<and> (\<forall>x. extends (log_of ops (h_track h) x) (log_of ops u x))"
  using assms(2,3)
proof (induction fuel arbitrary: h c n)
  case (Suc fuel)
  obtain y u1 c1 where d: "deliver_once tw ops grace r n (h_track h) c = (y, u1, c1)" by (cases "deliver_once tw ops grace r n (h_track h) c")
  have inv: "inv (h_track h)" and ok: "ctl_ok ops (h_track h) c" and host: "host_ok R inv h" and jobs: "jobs_ok c"
    using Suc.prems(1) assms(1) by (simp_all add: sys_ok_def host_ok_def)
  note out = deliver_once_outcome [OF inv ok d]
  have "jobs_ok c1" using jobs out deliver_once_views [of tw ops grace r n "h_track h" c] reads_ops(1) [of "c_views c" ops "h_track h" r] d by (simp add: jobs_ok_def)
  show ?case
  proof (cases "y = Inr True")
    case False
    then have "u = u1" "c' = c1" "u1 = h_track h" using Suc.prems(2) d out by (auto split: sum.splits bool.splits)
    then show ?thesis using out host \<open>jobs_ok c1\<close> assms(1) by (simp add: sys_ok_def)
  next
    case True
    then obtain e where e: "noted ops inv r (h_track h) e u1" using out by auto
    have "sys_ok R inv (h\<lparr>h_track := u1\<rparr>, c1)"
      using noted_host [OF assms(1) host e] ctl_ok_later [OF conjunct1 [OF out] noted_extends [OF e]] \<open>jobs_ok c1\<close> assms(1)
      by (simp add: sys_ok_def)
    from Suc.IH [OF this, of "n + 2"] Suc.prems(2) d True out noted_extends [OF e]
    show ?thesis by (auto intro: extends_trans)
  qed
qed simp

lemma jobs_ok_ends: "jobs_ok c \<Longrightarrow> jobs_ok (thread_ends j c)"
  by (auto simp: jobs_ok_def thread_ends_def dest: notin_set_remove1 [THEN contrapos_pp] set_remove1_subset [THEN subsetD])

lemma ctl_ok_ends: "ctl_ok ops t c \<Longrightarrow> j \<in> set (c_jobs c) \<Longrightarrow> ctl_ok ops t (thread_ends j c)"
  by (auto simp: ctl_ok_def threads_ok_ends) (simp add: thread_ends_def)

lemma sys_ok_call:
  fixes R :: "'s runner"
  assumes "r_ops R = ops" and "sys_ok R inv (h, c)" and "host_grown R inv only h h'" and "j \<in> set (c_jobs c)"
  shows "sys_ok R inv (h', thread_ends j c) \<and> (\<forall>x. extends (log_of ops (h_track h) x) (log_of ops (h_track h') x))"
proof -
  have ext: "extends (log_of ops (h_track h) x) (log_of ops (h_track h') x)" for x using assms(1,3) by (simp add: host_grown_def)
  have "ctl_ok ops (h_track h') c" using ctl_ok_later [of ops "h_track h" c "h_track h'"] ext assms(1,2) by (simp add: sys_ok_def)
  then show ?thesis using ext assms jobs_ok_ends ctl_ok_ends by (simp add: sys_ok_def host_grown_def)
qed

lemma job_kept:
  fixes R :: "'s runner"
  assumes "r_ops R = ops" and "sys_ok R inv (h, c)" and "j \<in> set (c_jobs c)"
  shows "sys_ok R inv (run_job fuel tw R grace j (h, c)) \<and>
    (\<forall>x. extends (log_of ops (h_track h) x) (log_of ops (h_track (fst (run_job fuel tw R grace j (h, c)))) x))"
proof (cases j)
  case (AdvanceJob r op)
  obtain res h' where s: "submit R op h = (res, h')" by (cases "submit R op h")
  have "op_ok op" "host_ok R inv h" using assms(2,3) AdvanceJob by (auto simp: sys_ok_def jobs_ok_def)
  then have "host_grown R inv (\<lambda>x. x = op_run_id op) h h'" using submit_sound [OF assms(1) _ _ s] by blast
  from sys_ok_call [OF assms(1,2) this assms(3)] show ?thesis using AdvanceJob s by (simp add: ctl_advance_def)
next
  case (CancelJob r actor)
  have host: "host_ok R inv h" using assms(2) by (simp add: sys_ok_def)
  have "host_grown R inv (\<lambda>x. x = r) h (ctl_cancel R r actor h)"
    using cancel_sound [OF assms(1) host] host_grown_refl [OF host] by (auto simp: ctl_cancel_def split: pyval.splits) (metis prod.collapse)
  from sys_ok_call [OF assms(1,2) this assms(3)] show ?thesis using CancelJob by simp
next
  case (TurnsJob r)
  show ?thesis
  proof (cases "deliver_turns fuel tw (r_ops R) grace r 0 (h_track h) c")
    case None
    with TurnsJob assms(2) show ?thesis by simp
  next
    case (Some z)
    obtain res u c' where z: "z = (res, u, c')" by (cases z)
    have d: "sys_ok R inv (h\<lparr>h_track := u\<rparr>, c') \<and> c_jobs c' = c_jobs c \<and> (\<forall>x. extends (log_of ops (h_track h) x) (log_of ops u x))"
      using deliver_kept [OF assms(1,2)] Some z assms(1) by simp
    then have "ctl_ok ops u (thread_ends j c')" "jobs_ok (thread_ends j c')"
      using assms(1,3) ctl_ok_ends jobs_ok_ends by (simp_all add: sys_ok_def)
    then show ?thesis using TurnsJob Some z d assms(1) by (simp add: sys_ok_def)
  qed
qed

lemma step_kept:
  fixes R :: "'s runner"
  assumes "r_ops R = ops" and "ctl_step R grace s s'" and "sys_ok R inv s"
  shows "sys_ok R inv s' \<and> (\<forall>x. extends (log_of ops (h_track (fst s)) x) (log_of ops (h_track (fst s')) x))"
  using assms(2,3)
proof (cases rule: ctl_step.cases)
  case (client h c q)
  with assms(1,3) client_kept [OF assms(1), of h q] ctl_ok_later [of ops "h_track h" c "client_do ops q (h_track h)"]
  show ?thesis by (auto simp: sys_ok_def)
next
  case (look r c h)
  then show ?thesis using look_at_ok [of "h_track h" c r] look_at_jobs_ok [of c ops "h_track h" r] assms(1,3)
    by (auto simp: sys_ok_def host_ok_def) (metis prod.collapse)
next
  case (thread j c h fuel tw)
  then show ?thesis using job_kept [OF assms(1), of h c j fuel tw grace] assms(3) by simp
qed

lemma steps_kept:
  fixes R :: "'s runner"
  assumes "r_ops R = ops" and "(ctl_step R grace)\<^sup>*\<^sup>* s s'" and "sys_ok R inv s"
  shows "sys_ok R inv s' \<and> (\<forall>x. extends (log_of ops (h_track (fst s)) x) (log_of ops (h_track (fst s')) x))"
  using assms(2)
proof (induction rule: rtranclp_induct)
  case (step s1 s2)
  with step_kept [OF assms(1)] show ?case by (blast intro: extends_trans)
qed (use assms(3) in simp)

end
subsection \<open>A cancel is delivered, a submission is picked up\<close>

context track_store
begin

lemma tick_cancels:
  fixes R :: "'s runner"
  assumes "inv t" and "r_ops R = ops" and "ctl_ok ops t c" and "r \<notin> set (c_ended c)" and "\<not> alive (c_cancelling c) r"
    and "describe ops t r = Inr (Some v)" and "\<not> ended (v_state v)" and "cancel_requested_by v \<noteq> PNone"
  shows "CancelJob r (cancel_requested_by v) \<in> set (c_jobs (tick ops t c))"
  by (rule tick_spawns [OF assms(1-4,6,7)]) (use assms(5,8) in \<open>simp_all add: act_on_def\<close>)

lemma tick_advances:
  fixes R :: "'s runner"
  assumes "inv t" and "r_ops R = ops" and "ctl_ok ops t c" and "r \<notin> set (c_ended c)" and "\<not> alive (c_advancing c) r"
    and "describe ops t r = Inr (Some v)" and "v_state v = SUBMITTED" and "cancel_requested_by v = PNone"
  shows "AdvanceJob r (v_op v) \<in> set (c_jobs (tick ops t c))"
  by (rule tick_spawns [OF assms(1-4,6)]) (use assms(5,7,8) in \<open>simp_all add: act_on_def\<close>)

end

text \<open>Nothing but a repeated event id makes the SQLite store refuse a cancel of a run that has not ended.\<close>

lemma cancel_takes_hold:
  fixes R :: "sqlite_store runner"
  assumes "r_ops R = sqlite_ops" and "host_ok R sqlite_inv h" and "map_of (h_claims h) r = None" and "a \<noteq> []"
    and "observe R (h_track h) r = Inr (Some st)" and "\<not> ended st"
    and "w_uuid (r_world R) (h_tick h) \<notin> event_id ` set (rows (h_track h))"
  shows "observe R (h_track (ctl_cancel R r (PStr a) h)) r = Inr (Some CANCELLED)"
proof -
  obtain run where run: "replay (read_track R (h_track h) r) = Inr (Some run)" "run_state run = st"
    using observed_run [OF assms(5)] .
  let ?s = "(new_pass h r)\<lparr>p_history := read_track R (h_track h) r\<rparr>"
  let ?run' = "run\<lparr>run_state := CANCELLED, open_step := PNone, open_escalation := PNone\<rparr>"
  have live: "run_state run \<in> {SUBMITTED, RUNNING, WAITING_AT_GATE}" using run(2) assms(6) by (cases st) auto
  have d: "run_dispatch run (Cancel (PStr a)) = Inr (?run', [Record ''cancelled'' [(''actor'', PStr a)]])"
    using live assms(4) by (auto simp: run_cancel_def)
  have new: "\<forall>e\<in>set (rows (h_track h)). event_id e \<noteq> w_uuid (r_world R) (h_tick h)" using assms(7) by (metis imageI)
  have "fst (t_append sqlite_ops (h_track h) (new_event R ?s ''cancelled'' [(''actor'', PStr a)])) \<noteq> Inl x" for x
    using new by (auto simp: sqlite_ops_def sqlite_append_def sqlite_insert_def new_event_def new_pass_def list_ex_iff Let_def)
  then obtain e u where "t_append sqlite_ops (h_track h) (new_event R ?s ''cancelled'' [(''actor'', PStr a)]) = (Inr e, u)"
    by (metis prod.collapse sum.exhaust)
  then obtain s' where "p_append R ''cancelled'' [(''actor'', PStr a)] ?s = (Inr (), s')"
    using assms(1) by (simp add: p_append_def)
  then have "record_moves R (run_dispatch run (Cancel (PStr a))) ?s = (Inr ?run', s')" unfolding d by (simp add: record_moves_one)
  then have "cancel_body R a (new_pass h r) = (Inr CANCELLED, s')"
    using run by (simp add: cancel_body_def load_new_pass bind_def sx_apply del: run_dispatch_eq)
  then have "cancel R r a h = (Inr (Some CANCELLED), after_pass h s')" using assms(3,4) by (simp add: cancel_def with_claim_def)
  then show ?thesis using sqlite.cancel_sound [OF assms(1,2)] by (simp add: ctl_cancel_def)
qed


definition asked_host :: "sqlite_store host" where
  "asked_host = small_host\<lparr>h_track := asked_store, h_tick := 100\<rparr>"

lemma asked_host_ok: "host_ok small_runner sqlite_inv asked_host"
proof -
  have "submit_intent sqlite_ops (h_track small_host) asked_op [(''user'', PStr ''ada''), (''org_id'', PStr ''o1'')] None \<lparr>st_at = 1, st_id = ''e1''\<rparr> =
    (fst (submit_intent sqlite_ops sqlite_init asked_op [(''user'', PStr ''ada''), (''org_id'', PStr ''o1'')] None \<lparr>st_at = 1, st_id = ''e1''\<rparr>), asked_store)"
    by (simp add: asked_store_def small_host_def)
  from sqlite.submission_kept [OF _ small_host_ok this] have "host_ok small_runner sqlite_inv (small_host\<lparr>h_track := asked_store\<rparr>)" by simp
  then show ?thesis by (simp add: host_ok_def asked_host_def)
qed


text \<open>
  C10: a submission the API recorded is picked up: the controller's next pass starts a thread that
  advances the run with exactly the Op that was submitted, unless one is alive for it already.
\<close>

theorem submissions_are_picked_up:
  fixes R :: "sqlite_store runner"
  assumes "r_ops R = sqlite_ops" and "sqlite_inv t" and "ctl_ok sqlite_ops t c" and "op_ok op" and "log_of sqlite_ops t (op_run_id op) = []"
    and "submit_intent sqlite_ops t op who name st = (Inr (), u)"
    and "op_run_id op \<notin> set (c_ended c)" and "\<not> alive (c_advancing c) (op_run_id op)"
  shows "AdvanceJob (op_run_id op) op \<in> set (c_jobs (tick sqlite_ops u c))"
proof -
  obtain v where v: "describe sqlite_ops u (op_run_id op) = Inr (Some v)" "v_state v = SUBMITTED" "cancel_requested_by v = PNone" "v_op v = op"
    and u: "sqlite_inv u" "\<And>x. extends (log_of sqlite_ops t x) (log_of sqlite_ops u x)"
    using sqlite.submission_described [OF assms(2,4-6)] by blast
  show ?thesis
    using sqlite.tick_advances [OF u(1) assms(1) ctl_ok_later [OF assms(3) u(2)] assms(7,8) v(1,2,3)] v(4) by simp
qed

theorem submissions_are_picked_up_witness:
  "AdvanceJob ''r'' asked_op \<in> set (c_jobs (tick sqlite_ops asked_store new_ctl))"
proof -
  let ?s = "submit_intent sqlite_ops sqlite_init asked_op [(''user'', PStr ''ada''), (''org_id'', PStr ''o1'')] None \<lparr>st_at = 1, st_id = ''e1''\<rparr>"
  have "is_ok (fst ?s)" by code_simp
  then have s: "?s = (Inr (), asked_store)" by (cases ?s; cases "fst ?s") (auto simp: asked_store_def)
  have op: "op_ok asked_op" "op_run_id asked_op = ''r''" by code_simp+
  have "log_of sqlite_ops sqlite_init ''r'' = []" by code_simp
  moreover have "''r'' \<notin> set (c_ended new_ctl)" "\<not> alive (c_advancing new_ctl) ''r''" by (simp_all add: new_ctl_def alive_def)
  ultimately show ?thesis
    using submissions_are_picked_up [OF _ sqlite_inv_init new_ctl_ok op(1) _ s, of small_runner] op(2) by simp
qed
text \<open>
  C23: delivering a run's turns ends, and keeps their order.  With fuel for one round more than there
  are turns waiting the loop returns, whatever the worker does; what it wrote answers or fails
  exactly the first of the waiting turns, one event each, in the order they were asked, and
  touches no other run.
\<close>

theorem deliveries_end_in_order:
  assumes "sqlite_inv t" and "ctl_ok sqlite_ops t c" and "named_turns (log_of sqlite_ops t r)"
    and "length (waiting_on (log_of sqlite_ops t r)) < fuel"
  shows "\<exists>res u c' new. deliver_turns fuel tw sqlite_ops grace r n t c = Some (res, u, c') \<and>
    log_of sqlite_ops u r = log_of sqlite_ops t r @ new \<and>
    (\<forall>e\<in>set new. event_type e \<in> {TURN_ANSWERED, TURN_FAILED}) \<and>
    map (\<lambda>e. py_get (payload e) ''turn'') new = take (length new) (map tv_turn (waiting_on (log_of sqlite_ops t r))) \<and>
    (\<forall>x. x \<noteq> r \<longrightarrow> log_of sqlite_ops u x = log_of sqlite_ops t x)"
proof -
  obtain res u c' where "deliver_turns fuel tw sqlite_ops grace r n t c = Some (res, u, c')"
    "delivered sqlite_ops sqlite_inv r t u (waiting_on (log_of sqlite_ops t r))"
    using sqlite.deliver_turns_outcome [OF assms] by blast
  then show ?thesis unfolding delivered_def by blast
qed

text \<open>Two turns waiting, and a worker that is live and answers the first and fails the second.\<close>

definition turn_asked :: "sqlite_store \<Rightarrow> string \<Rightarrow> int \<Rightarrow> sqlite_store" where
  "turn_asked t turn n = snd (t_append sqlite_ops t (intent_event ''r'' TURN_REQUESTED
     [(''turn'', PStr turn), (''text'', PStr ''hi''), (''actor'', PStr ''ada'')] \<lparr>st_at = n, st_id = turn\<rparr>))"

definition two_turns :: sqlite_store where
  "two_turns = turn_asked (turn_asked asked_store ''t1'' 2) ''t2'' 3"

definition talking :: advancing where
  "talking = new_claim\<lparr>adv_attempt := Some ((new_step_attempt (hd (op_steps asked_op)) 1 ''i'' ''k'')
     \<lparr>invoked := True, a_worker := Some \<lparr>cw_ref = ''hello'', run_token_digest = None, cw_details = []\<rparr>\<rparr>)\<rparr>"

definition talking_world :: turn_world where
  "talking_world =
     \<lparr>tw_claims = (\<lambda>_. [(''r'', talking)]),
      tw_turn = (\<lambda>n w turn words. if turn = PStr ''t1'' then TurnAnswered ''hello'' else TurnRaised (Some 500) ''TurnRefused: no''),
      tw_monotonic = int, tw_stamp = (\<lambda>n. \<lparr>st_at = int n, st_id = ''d'' @ show_nat n\<rparr>)\<rparr>"

lemma turn_asked_inv: "sqlite_inv t \<Longrightarrow> sqlite_inv (turn_asked t turn n)"
  unfolding turn_asked_def using sqlite.append_inv by (metis prod.collapse)

theorem deliveries_end_in_order_witness:
  "\<exists>res u c' new. deliver_turns 3 talking_world sqlite_ops 30 ''r'' 0 two_turns new_ctl = Some (res, u, c') \<and>
     log_of sqlite_ops u ''r'' = log_of sqlite_ops two_turns ''r'' @ new \<and>
     map (\<lambda>e. py_get (payload e) ''turn'') new = [PStr ''t1'', PStr ''t2'']"
proof -
  have inv: "sqlite_inv two_turns"
    unfolding two_turns_def by (intro turn_asked_inv asked_store_inv)
  have named: "named_turns (log_of sqlite_ops two_turns ''r'')"
  proof -
    have "list_all (\<lambda>e. event_type (upgrade e) = TURN_REQUESTED \<longrightarrow> is_str (py_get (payload (upgrade e)) ''turn'')) (log_of sqlite_ops two_turns ''r'')"
      by code_simp
    then show ?thesis by (simp add: named_turns_def list_all_iff is_str_iff del: py_get_simps)
  qed
  have w: "map tv_turn (waiting_on (log_of sqlite_ops two_turns ''r'')) = [PStr ''t1'', PStr ''t2'']" by code_simp
  then have "length (waiting_on (log_of sqlite_ops two_turns ''r'')) < 3" by (metis length_map length_Cons list.size(3) lessI numeral_3_eq_3)
  note ends = deliveries_end_in_order [OF inv new_ctl_ok named this, of talking_world 30 0, unfolded w]
  obtain res u c' new where
    d: "deliver_turns 3 talking_world sqlite_ops 30 ''r'' 0 two_turns new_ctl = Some (res, u, c')"
      "log_of sqlite_ops u ''r'' = log_of sqlite_ops two_turns ''r'' @ new"
      "map (\<lambda>e. py_get (payload e) ''turn'') new = take (length new) [PStr ''t1'', PStr ''t2'']"
    using ends by (elim exE conjE) (rule that)
  have "(case deliver_turns 3 talking_world sqlite_ops 30 ''r'' 0 two_turns new_ctl of Some (res, u, c') \<Rightarrow> length (log_of sqlite_ops u ''r'') = 5 | None \<Rightarrow> False)"
    by code_simp
  moreover have "length (log_of sqlite_ops two_turns ''r'') = 3" by code_simp
  ultimately have "length new = 2" using d(1,2) by simp
  then show ?thesis using d by (intro exI conjI) auto
qed

lemma first_sys_ok:
  fixes R :: "sqlite_store runner"
  assumes "r_ops R = sqlite_ops" and "h_track h = sqlite_init"
  shows "sys_ok R sqlite_inv (h, new_ctl)"
  using empty_host_ok [OF assms] new_ctl_ok by (simp add: sys_ok_def jobs_ok_def kept_ops_def) (simp add: new_ctl_def)

text \<open>
  C24: however clients, passes and threads interleave, a run has at most one thread of a kind: the
  controller never advances, cancels or talks to a run twice at once, and its dictionaries say
  exactly which threads are alive.
\<close>

theorem one_thread_per_run:
  fixes R :: "sqlite_store runner"
  assumes "r_ops R = sqlite_ops" and "h_track h = sqlite_init" and "(ctl_step R grace)\<^sup>*\<^sup>* (h, new_ctl) (h', c')"
  shows "distinct (map job_key (c_jobs c')) \<and> (\<forall>j. job_alive j c' \<longleftrightarrow> job_key j \<in> job_key ` set (c_jobs c'))"
  using sqlite.steps_kept [OF assms(1,3) first_sys_ok [OF assms(1,2)]] by (simp add: sys_ok_def ctl_ok_def threads_ok_def)


text \<open>A run of the whole system: a client submits, the controller looks, the thread it starts advances the run.\<close>

definition first_host :: "sqlite_store host" where
  "first_host = small_host\<lparr>h_tick := 100\<rparr>"

definition submitted_host :: "sqlite_store host" where
  "submitted_host = first_host\<lparr>h_track := client_do sqlite_ops
     (SubmitOp (small_op ''error'') [(''user'', PStr ''ada'')] None \<lparr>st_at = 1, st_id = ''e1''\<rparr>) (h_track first_host)\<rparr>"

definition looking :: ctl where
  "looking = snd (look_at sqlite_ops (h_track submitted_host) ''r'' new_ctl)"

definition advanced :: "sqlite_store host \<times> ctl" where
  "advanced = run_job 1 talking_world small_runner 30 (AdvanceJob ''r'' (small_op ''error'')) (submitted_host, looking)"

lemma system_run:
  "(ctl_step small_runner 30)\<^sup>*\<^sup>* (first_host, new_ctl) (submitted_host, looking)"
  "(ctl_step small_runner 30)\<^sup>*\<^sup>* (first_host, new_ctl) advanced"
proof -
  have 1: "ctl_step small_runner 30 (first_host, new_ctl) (submitted_host, new_ctl)"
    unfolding submitted_host_def using ctl_step.client [of small_runner 30 first_host new_ctl] by (simp del: client_do.simps)
  have 2: "ctl_step small_runner 30 (submitted_host, new_ctl) (submitted_host, looking)"
    unfolding looking_def using ctl_step.look [of "''r''" new_ctl small_runner 30 submitted_host] by (simp add: new_ctl_def)
  have "map job_key (c_jobs looking) = [(0, ''r'')]" "c_jobs looking = [AdvanceJob ''r'' (small_op ''error'')]" by code_simp+
  then have 3: "ctl_step small_runner 30 (submitted_host, looking) advanced"
    unfolding advanced_def by (intro ctl_step.thread) simp
  show "(ctl_step small_runner 30)\<^sup>*\<^sup>* (first_host, new_ctl) (submitted_host, looking)" by (rule converse_rtranclp_into_rtranclp [OF 1 r_into_rtranclp [where r = "ctl_step small_runner 30", OF 2]])
  then show "(ctl_step small_runner 30)\<^sup>*\<^sup>* (first_host, new_ctl) advanced" using 3 by (rule rtranclp.rtrancl_into_rtrancl)
qed

lemma first_host_track: "h_track first_host = sqlite_init"
  by (simp add: first_host_def small_host_def)

theorem one_thread_per_run_witness:
  "c_jobs looking = [AdvanceJob ''r'' (small_op ''error'')] \<and> job_alive (AdvanceJob ''r'' (small_op ''always'')) looking \<and>
   \<not> job_alive (CancelJob ''r'' PNone) looking"
proof -
  have j: "c_jobs looking = [AdvanceJob ''r'' (small_op ''error'')]" by code_simp
  then show ?thesis using one_thread_per_run [OF _ first_host_track system_run(1)] by simp
qed


end
