(* ===== verification/Packages.thy ===== *)
theory Packages
  imports PyValues
begin

section \<open>Cog packages and agent locations (locations/packages.py and the locations package)\<close>

text \<open>
  \<open>DirectoryPackageSource\<close> finds a Cog package by name under its roots.  The file system and what
  reads it are the record \<open>filesystem\<close>: \<open>Path.resolve\<close>, \<open>is_dir\<close>, \<open>is_file\<close> (which follow
  links), opening a file without following one, what the two \<open>glob\<close> patterns of \<open>names()\<close>
  find, the TOML reader, and SHA-256.  A path is its list of segments.  \<open>PackageRefused\<close> and
  \<open>PackageNotFound\<close> are exceptions of their own; their messages are not modelled.
\<close>

subsection \<open>Text\<close>

definition ascii_alnum :: "char \<Rightarrow> bool" where
  "ascii_alnum c =
     (let n = (of_char c :: nat) in 48 \<le> n \<and> n \<le> 57 \<or> 65 \<le> n \<and> n \<le> 90 \<or> 97 \<le> n \<and> n \<le> 122)"

fun split_on :: "char \<Rightarrow> string \<Rightarrow> string list" where
  "split_on d [] = [[]]"
| "split_on d (c # s) =
     (if c = d then [] # split_on d s
      else case split_on d s of [] \<Rightarrow> [[c]] | p # ps \<Rightarrow> (c # p) # ps)"

text \<open>\<open>str.strip()\<close>: white space, as Python has it for these characters.\<close>

definition py_space :: "char \<Rightarrow> bool" where
  "py_space c = (let n = (of_char c :: nat) in 9 \<le> n \<and> n \<le> 13 \<or> 28 \<le> n \<and> n \<le> 32 \<or> n = 133 \<or> n = 160)"

definition strip_where :: "(char \<Rightarrow> bool) \<Rightarrow> string \<Rightarrow> string" where
  "strip_where p s = rev (dropWhile p (rev (dropWhile p s)))"

definition py_strip :: "string \<Rightarrow> string" where
  "py_strip s = strip_where py_space s"

lemma length_strip_where: "length (strip_where p s) \<le> length s"
  using length_dropWhile_le [of p "rev (dropWhile p s)"] length_dropWhile_le [of p s] by (simp add: strip_where_def)

lemma set_strip_where: "set (strip_where p s) \<subseteq> set s"
  unfolding strip_where_def by (metis set_dropWhileD set_rev subsetI)

lemma strip_where_edges:
  assumes "strip_where p s \<noteq> []"
  shows "\<not> p (hd (strip_where p s))" and "\<not> p (last (strip_where p s))"
proof -
  let ?d = "dropWhile p s" and ?e = "dropWhile p (rev (dropWhile p s))"
  have e: "?e \<noteq> []" using assms by (simp add: strip_where_def)
  then show "\<not> p (last (strip_where p s))" unfolding strip_where_def by (simp add: last_rev hd_dropWhile)
  have d: "?d \<noteq> []" using e by (metis dropWhile.simps(1) rev.simps(1))
  obtain pre where "rev ?d = pre @ ?e" by (metis takeWhile_dropWhile_id)
  then have "?d = rev ?e @ rev pre" by (metis rev_append rev_rev_ident)
  then have "hd (rev ?e) = hd ?d" using e by (metis hd_append2 rev_is_Nil_conv)
  then show "\<not> p (hd (strip_where p s))" using hd_dropWhile [OF d] by (simp add: strip_where_def)
qed

lemma strip_where_idem: "strip_where p (strip_where p s) = strip_where p s"
proof (cases "strip_where p s")
  case (Cons c t)
  then have ne: "strip_where p s \<noteq> []" by simp
  have "dropWhile p (strip_where p s) = strip_where p s" "dropWhile p (rev (strip_where p s)) = rev (strip_where p s)"
    unfolding dropWhile_eq_self_iff using strip_where_edges [OF ne] ne by (simp_all add: hd_rev del: Cons)
  then show ?thesis by (simp add: strip_where_def [of p "strip_where p s"])
qed (simp add: strip_where_def [of p "[]"])

lemma dropWhile_fixed: "(\<And>c. c \<in> set s \<Longrightarrow> \<not> p c) \<Longrightarrow> dropWhile p s = s"
  by (cases s) auto

lemma strip_where_fixed: "(\<And>c. c \<in> set s \<Longrightarrow> \<not> p c) \<Longrightarrow> strip_where p s = s"
  using dropWhile_fixed [of s p] dropWhile_fixed [of "rev s" p] by (simp add: strip_where_def)

text \<open>\<open>str.lower()\<close> of one character; none of these grows when lowered.\<close>

definition lower_latin :: "char \<Rightarrow> char" where
  "lower_latin c =
     (let n = (of_char c :: nat)
      in if 65 \<le> n \<and> n \<le> 90 \<or> 192 \<le> n \<and> n \<le> 222 \<and> n \<noteq> 215 then char_of (n + 32) else c)"

text \<open>\<open>sorted\<close> of a set of strings.\<close>

fun insert_str :: "string \<Rightarrow> string list \<Rightarrow> string list" where
  "insert_str x [] = [x]"
| "insert_str x (y # ys) = (if x = y then y # ys else if char_le x y then x # y # ys else y # insert_str x ys)"

definition sorted_set :: "string list \<Rightarrow> string list" where
  "sorted_set xs = foldr insert_str xs []"

lemma set_insert_str [simp]: "set (insert_str x xs) = insert x (set xs)"
  by (induction xs) auto

lemma set_sorted_set [simp]: "set (sorted_set xs) = set xs"
  unfolding sorted_set_def by (induction xs) auto

subsection \<open>Names\<close>

definition MANIFEST :: string where "MANIFEST = ''pixi.toml''"
definition LOCK :: string where "LOCK = ''pixi.lock''"
definition SERVE_TASK :: string where "SERVE_TASK = ''serve''"

definition name_segment :: "string \<Rightarrow> bool" where
  "name_segment s =
     (case s of
        [] \<Rightarrow> False
      | c # r \<Rightarrow> ascii_alnum c \<and> list_all (\<lambda>x. ascii_alnum x \<or> x \<in> set ''_.-'') r \<and> length r \<le> 127)"

definition name_shape :: "string \<Rightarrow> bool" where
  "name_shape s = (let parts = split_on (CHR ''/'') s in length parts \<le> 2 \<and> list_all name_segment parts)"

text \<open>\<open>_NAME.match\<close>: the \<open>$\<close> of \<open>re\<close> also matches before a newline that ends the text.\<close>

definition name_matches :: "string \<Rightarrow> bool" where
  "name_matches s = (name_shape s \<or> s \<noteq> [] \<and> last s = char_of (10 :: nat) \<and> name_shape (butlast s))"

subsection \<open>The directory source\<close>

type_synonym path = "string list"

text \<open>\<open>os.open(O_NOFOLLOW)\<close>, then whether it is a file, then its bytes.\<close>

datatype opened = NoSuchFile | OpenFailed | Opened bool string

record filesystem =
  fs_resolve :: "path \<Rightarrow> path"
  fs_is_dir :: "path \<Rightarrow> bool"
  fs_is_file :: "path \<Rightarrow> bool"
  fs_open :: "path \<Rightarrow> opened"
  fs_globbed :: "path \<Rightarrow> path list"
  fs_toml :: "string \<Rightarrow> payload option"
  fs_sha256 :: "string \<Rightarrow> string"

record cog_package =
  pkg_name :: string
  pkg_directory :: path
  pkg_serve :: string
  pkg_digest :: string

record package_source =
  ps_roots :: "path list"
  ps_allow :: "string list option"

definition PackageRefused :: exn where "PackageRefused = Raised ''PackageRefused'' []"
definition PackageNotFound :: exn where "PackageNotFound = Raised ''PackageNotFound'' []"

definition new_source :: "filesystem \<Rightarrow> path list \<Rightarrow> string list option \<Rightarrow> exn + package_source" where
  "new_source fs roots allow =
     (if roots = [] then Inl ValueError
      else Inr \<lparr>ps_roots = map (fs_resolve fs) roots, ps_allow = allow\<rparr>)"

definition allowed :: "package_source \<Rightarrow> string \<Rightarrow> bool" where
  "allowed src name = (case ps_allow src of None \<Rightarrow> True | Some names \<Rightarrow> name \<in> set names)"

definition own_file :: "filesystem \<Rightarrow> path \<Rightarrow> string \<Rightarrow> exn + string" where
  "own_file fs directory file =
     (case fs_open fs (directory @ [file]) of
        NoSuchFile \<Rightarrow> Inl PackageRefused
      | OpenFailed \<Rightarrow> Inl PackageRefused
      | Opened isfile contents \<Rightarrow> if isfile then Inr contents else Inl PackageRefused)"

text \<open>\<open>document.get("tasks", {}).get("serve")\<close>: only a table has \<open>get\<close>.\<close>

definition serve_task :: "payload \<Rightarrow> exn + pyval" where
  "serve_task document =
     (case py_get_default document ''tasks'' (PDict []) of
        PDict tasks \<Rightarrow> Inr (case py_get tasks SERVE_TASK of PDict task \<Rightarrow> py_get task ''cmd'' | other \<Rightarrow> other)
      | _ \<Rightarrow> Inl AttributeError)"

definition read_package :: "filesystem \<Rightarrow> string \<Rightarrow> path \<Rightarrow> exn + cog_package" where
  "read_package fs name directory =
     bind_result (own_file fs directory MANIFEST) (\<lambda>manifest.
     bind_result (own_file fs directory LOCK) (\<lambda>lock.
     case fs_toml fs manifest of
       None \<Rightarrow> Inl PackageNotFound
     | Some document \<Rightarrow>
         bind_result (serve_task document) (\<lambda>command.
         case command of
           PStr c \<Rightarrow>
             if py_strip c = [] then Inl PackageNotFound
             else Inr \<lparr>pkg_name = name, pkg_directory = directory, pkg_serve = py_strip c,
                       pkg_digest = ''sha256:'' @ fs_sha256 fs (manifest @ [char_of (0 :: nat)] @ lock)\<rparr>
         | _ \<Rightarrow> Inl PackageNotFound)))"

fun resolve_under :: "filesystem \<Rightarrow> string \<Rightarrow> path list \<Rightarrow> exn + cog_package" where
  "resolve_under fs name [] = Inl PackageNotFound"
| "resolve_under fs name (base # bases) =
     (let directory = fs_resolve fs (base @ split_on (CHR ''/'') name)
      in if take (length base) directory \<noteq> base then Inl PackageRefused
         else if fs_is_file fs (directory @ [MANIFEST]) then read_package fs name directory
         else resolve_under fs name bases)"

definition resolve_package :: "filesystem \<Rightarrow> package_source \<Rightarrow> string \<Rightarrow> exn + cog_package" where
  "resolve_package fs src name =
     (if \<not> name_matches name \<or> ''..'' \<in> set (split_on (CHR ''/'') name) then Inl PackageRefused
      else if \<not> allowed src name then Inl PackageRefused
      else resolve_under fs name (ps_roots src))"

text \<open>\<open>names()\<close>; \<open>_resolves\<close> answers for the source's own two exceptions and lets any other through.\<close>

definition join_slash :: "path \<Rightarrow> string" where
  "join_slash parts = (case parts of [] \<Rightarrow> ''.'' | p # ps \<Rightarrow> p @ concat (map (\<lambda>q. CHR ''/'' # q) ps))"

definition found_names :: "filesystem \<Rightarrow> package_source \<Rightarrow> string list" where
  "found_names fs src =
     sorted_set (filter (\<lambda>name. allowed src name \<and> name_matches name)
       (concat (map (\<lambda>base. if fs_is_dir fs base then map join_slash (fs_globbed fs base) else []) (ps_roots src))))"

definition resolves :: "filesystem \<Rightarrow> package_source \<Rightarrow> string \<Rightarrow> exn + bool" where
  "resolves fs src name =
     (case resolve_package fs src name of
        Inr _ \<Rightarrow> Inr True
      | Inl x \<Rightarrow> if x = PackageRefused \<or> x = PackageNotFound then Inr False else Inl x)"

primrec filter_result :: "('a \<Rightarrow> 'e + bool) \<Rightarrow> 'a list \<Rightarrow> 'e + 'a list" where
  "filter_result p [] = Inr []"
| "filter_result p (x # xs) =
     bind_result (p x) (\<lambda>b. bind_result (filter_result p xs) (\<lambda>ys. Inr (if b then x # ys else ys)))"

definition package_names :: "filesystem \<Rightarrow> package_source \<Rightarrow> exn + string list" where
  "package_names fs src = filter_result (resolves fs src) (found_names fs src)"

subsection \<open>Agent locations\<close>

definition AGENT_LOCATIONS :: "string list" where "AGENT_LOCATIONS = [''local'', ''remote'']"
definition NOT_YET_LOCATIONS :: "string list" where "NOT_YET_LOCATIONS = [''remote'']"
definition ENVIRONMENTS :: "string list" where "ENVIRONMENTS = [''pixi'', ''host'']"

definition LocationNotImplemented :: exn where "LocationNotImplemented = Raised ''LocationNotImplemented'' []"

text \<open>What the \<open>local\<close> location builds: the source, the work directory, how a task is run.\<close>

record local_executor =
  lx_source :: package_source
  lx_work_dir :: path
  lx_environment :: string

definition new_local_executor :: "package_source \<Rightarrow> path \<Rightarrow> string \<Rightarrow> exn + local_executor" where
  "new_local_executor src work_dir environment =
     (if environment \<notin> set ENVIRONMENTS then Inl ValueError
      else Inr \<lparr>lx_source = src, lx_work_dir = work_dir, lx_environment = environment\<rparr>)"

definition select_executor ::
  "filesystem \<Rightarrow> string \<Rightarrow> path list \<Rightarrow> string list option \<Rightarrow> path option \<Rightarrow> string \<Rightarrow> exn + local_executor" where
  "select_executor fs location packages allow work_dir environment =
     (if location = ''local'' then
        (case work_dir of
           None \<Rightarrow> Inl ValueError
         | Some d \<Rightarrow> bind_result (new_source fs packages allow) (\<lambda>src. new_local_executor src d environment))
      else if location \<in> set NOT_YET_LOCATIONS then Inl LocationNotImplemented
      else Inl ValueError)"

subsection \<open>The theorems\<close>

lemma resolve_under_found:
  assumes "resolve_under fs name bases = Inr p"
  shows "\<exists>base\<in>set bases. \<exists>directory. directory = fs_resolve fs (base @ split_on (CHR ''/'') name) \<and>
    take (length base) directory = base \<and> read_package fs name directory = Inr p"
  using assms by (induction bases) (auto simp: Let_def split: if_splits)

text \<open>
  C36: a package is only ever resolved under a root.  Whatever links the file system has, a name that
  resolves is a well-formed and allowlisted name, its directory lies inside one of the roots, its
  manifest and its lock are files of that directory and no links, it has a command to serve, and
  its digest is that of exactly those two files.
\<close>

theorem resolved_packages_are_confined:
  assumes "resolve_package fs src name = Inr p"
  shows "name_matches name \<and> allowed src name \<and> pkg_name p = name \<and> pkg_serve p \<noteq> [] \<and>
    (\<exists>base\<in>set (ps_roots src). take (length base) (pkg_directory p) = base) \<and>
    (\<exists>manifest lock. fs_open fs (pkg_directory p @ [MANIFEST]) = Opened True manifest \<and>
       fs_open fs (pkg_directory p @ [LOCK]) = Opened True lock \<and>
       pkg_digest p = ''sha256:'' @ fs_sha256 fs (manifest @ [char_of (0 :: nat)] @ lock))"
proof -
  from assms have u: "name_matches name" "allowed src name" "resolve_under fs name (ps_roots src) = Inr p"
    by (auto simp: resolve_package_def split: if_splits)
  from resolve_under_found [OF u(3)] obtain base directory where base: "base \<in> set (ps_roots src)" "take (length base) directory = base"
    and r: "read_package fs name directory = Inr p" by blast
  from r obtain manifest lock document command where f: "own_file fs directory MANIFEST = Inr manifest" "own_file fs directory LOCK = Inr lock"
    and c: "(case command of PStr c \<Rightarrow> if py_strip c = [] then Inl PackageNotFound
       else Inr \<lparr>pkg_name = name, pkg_directory = directory, pkg_serve = py_strip c,
                 pkg_digest = ''sha256:'' @ fs_sha256 fs (manifest @ [char_of (0 :: nat)] @ lock)\<rparr>
     | _ \<Rightarrow> Inl PackageNotFound) = Inr p"
    unfolding read_package_def bind_result_Inr_iff by (auto simp: bind_result_Inr_iff split: option.splits simp del: append.simps)
  from c have own: "pkg_name p = name \<and> pkg_serve p \<noteq> [] \<and> pkg_directory p = directory \<and>
      pkg_digest p = ''sha256:'' @ fs_sha256 fs (manifest @ [char_of (0 :: nat)] @ lock)"
    by (cases command) (auto split: if_splits)
  have opened: "own_file fs d f = Inr x \<Longrightarrow> fs_open fs (d @ [f]) = Opened True x" for d f x
    by (auto simp: own_file_def split: opened.splits if_splits)
  show ?thesis using u(1,2) own base opened [OF f(1)] opened [OF f(2)] by blast
qed

text \<open>A disk with one package, \<open>demo/hello\<close>, and one directory that is a link out of the root.\<close>

definition small_fs :: filesystem where
  "small_fs =
     \<lparr>fs_resolve = (\<lambda>p. if p = [''srv'', ''out''] then [''etc''] else p), fs_is_dir = (\<lambda>p. p = [''srv'']),
      fs_is_file = (\<lambda>p. p \<in> {[''srv'', ''demo'', ''hello'', MANIFEST], [''etc'', MANIFEST]}),
      fs_open = (\<lambda>p. if p = [''srv'', ''demo'', ''hello'', MANIFEST] then Opened True ''m''
                     else if p = [''srv'', ''demo'', ''hello'', LOCK] then Opened True ''l'' else NoSuchFile),
      fs_globbed = (\<lambda>p. [[''out''], [''demo'', ''hello'']]),
      fs_toml = (\<lambda>s. Some [(''tasks'', PDict [(SERVE_TASK, PStr '' python serve.py '')])]),
      fs_sha256 = (\<lambda>s. ''d'' @ s)\<rparr>"

definition small_source :: package_source where
  "small_source = \<lparr>ps_roots = [[''srv'']], ps_allow = None\<rparr>"

theorem resolved_packages_are_confined_witness:
  "\<exists>p. resolve_package small_fs small_source ''demo/hello'' = Inr p \<and> pkg_serve p \<noteq> [] \<and>
     take 1 (pkg_directory p) = [''srv''] \<and> resolve_package small_fs small_source ''out'' = Inl PackageRefused"
proof -
  have "is_ok (resolve_package small_fs small_source ''demo/hello'')" by code_simp
  then obtain p where p: "resolve_package small_fs small_source ''demo/hello'' = Inr p"
    by (cases "resolve_package small_fs small_source ''demo/hello''") auto
  have "resolve_package small_fs small_source ''out'' = Inl PackageRefused" by code_simp
  then show ?thesis using resolved_packages_are_confined [OF p] p by (auto simp: small_source_def)
qed

lemma filter_result_Inr:
  assumes "filter_result p xs = Inr ys"
  shows "set ys = {x \<in> set xs. p x = Inr True}" and "\<forall>x\<in>set xs. is_ok (p x)"
  using assms by (induction xs arbitrary: ys) (auto simp: bind_result_Inr_iff split: if_splits)

text \<open>
  The packages \<open>names()\<close> lists are exactly those it found that \<open>resolve()\<close> returns: nothing
  listed is refused, and nothing found that would run is left out.
\<close>

theorem listed_packages_resolve:
  assumes "package_names fs src = Inr ns"
  shows "set ns = {n \<in> set (found_names fs src). is_ok (resolve_package fs src n)}"
proof -
  have "resolves fs src n = Inr True \<longleftrightarrow> is_ok (resolve_package fs src n)" for n
    by (auto simp: resolves_def split: sum.splits if_splits)
  then show ?thesis using filter_result_Inr(1) [OF assms [unfolded package_names_def]] by simp
qed

theorem listed_packages_resolve_witness:
  "\<exists>ns. package_names small_fs small_source = Inr ns \<and> ''demo/hello'' \<in> set ns \<and> ''out'' \<notin> set ns"
proof -
  have n: "package_names small_fs small_source = Inr [''demo/hello'']" by code_simp
  moreover have "\<not> is_ok (resolve_package small_fs small_source ''out'')" by code_simp
  ultimately show ?thesis using listed_packages_resolve [OF n] by auto
qed

text \<open>
  A manifest whose \<open>tasks\<close> is not a table is neither refused nor not found: reading it raises, and
  so does every listing that meets it.
\<close>

lemma tasks_not_a_table_raises:
  assumes "py_get_default document ''tasks'' (PDict []) = PList xs"
  shows "serve_task document = Inl AttributeError"
  using assms by (simp add: serve_task_def)

lemma one_raising_package_stops_the_listing:
  assumes "n \<in> set (found_names fs src)" and "resolve_package fs src n = Inl AttributeError"
  shows "\<not> is_ok (package_names fs src)"
proof
  assume "is_ok (package_names fs src)"
  then obtain ns where "package_names fs src = Inr ns" by (cases "package_names fs src") auto
  from filter_result_Inr(2) [OF this [unfolded package_names_def]] assms
  show False by (auto simp: resolves_def PackageRefused_def PackageNotFound_def)
qed

text \<open>
  Only the \<open>local\<close> location is reached: a location that is not built yet and one nobody knows are
  refused before anything is made, and what is returned has a root, a work directory and a known
  way of running a task.
\<close>

theorem only_built_locations_are_selected:
  assumes "select_executor fs location packages allow work_dir environment = Inr lx"
  shows "location = ''local'' \<and> work_dir = Some (lx_work_dir lx) \<and> ps_roots (lx_source lx) = map (fs_resolve fs) packages \<and>
    ps_roots (lx_source lx) \<noteq> [] \<and> ps_allow (lx_source lx) = allow \<and> lx_environment lx \<in> set ENVIRONMENTS"
  using assms
  by (auto simp: select_executor_def new_source_def new_local_executor_def bind_result_Inr_iff split: if_splits option.splits)

theorem only_built_locations_are_selected_witness:
  "\<exists>lx. select_executor small_fs ''local'' [[''srv'']] None (Some [''tmp'']) ''pixi'' = Inr lx \<and> lx_environment lx \<in> set ENVIRONMENTS"
proof -
  have "is_ok (select_executor small_fs ''local'' [[''srv'']] None (Some [''tmp'']) ''pixi'')" by code_simp
  then obtain lx where lx: "select_executor small_fs ''local'' [[''srv'']] None (Some [''tmp'']) ''pixi'' = Inr lx"
    by (cases "select_executor small_fs ''local'' [[''srv'']] None (Some [''tmp'']) ''pixi''") auto
  from only_built_locations_are_selected [OF lx] lx show ?thesis by blast
qed

end
