(* ===== verification/Kubernetes.thy ===== *)
theory Kubernetes
  imports Packages Envelope
begin

section \<open>Workers on Kubernetes, and the seam to a worker (kubernetes.py)\<close>

text \<open>
  \<open>KubernetesCogExecutor\<close> brings a worker up as a Deployment and a Service, with a NetworkPolicy
  unless that was explicitly declined, and \<open>_KubernetesWorker\<close> is the client side of the seam,
  which local workers share.  The API server, the worker's HTTP endpoint, the clock and SHA-1 are
  the record \<open>k8s_world\<close>: an answer is a status and a JSON body, or an exception.  A call is
  logged in the state.  \<open>raise_for_status\<close> of httpx raises for every status but a 2xx.
\<close>

subsection \<open>Names and labels\<close>

definition DEFAULT_NAMESPACE :: string where "DEFAULT_NAMESPACE = ''collab-hub''"
definition RUNNER_PORT :: int where "RUNNER_PORT = 8080"
definition MAX_DNS_LABEL :: nat where "MAX_DNS_LABEL = 63"
definition DIGEST_HEX :: nat where "DIGEST_HEX = 16"

definition cog_slug :: "string \<Rightarrow> string" where
  "cog_slug cog =
     (let raw = map lower_latin (last (split_on (CHR ''/'') cog));
          cleaned = strip_where (\<lambda>c. c = CHR ''-'') (map (\<lambda>c. if ascii_alnum c \<or> c = CHR ''-'' then c else CHR ''-'') raw);
          short = take 40 cleaned
      in if short = [] then ''cog'' else short)"

definition rstrip_where :: "(char \<Rightarrow> bool) \<Rightarrow> string \<Rightarrow> string" where
  "rstrip_where p s = rev (dropWhile p (rev s))"

definition nul :: string where "nul = [char_of (0 :: nat)]"

definition resource_name :: "(string \<Rightarrow> string) \<Rightarrow> string \<Rightarrow> string \<Rightarrow> string \<Rightarrow> string" where
  "resource_name sha1 cog r inst =
     (let digest = take DIGEST_HEX (sha1 (cog @ nul @ r @ nul @ inst))
      in rstrip_where (\<lambda>c. c = CHR ''-'') (take MAX_DNS_LABEL (''cog-'' @ cog_slug cog @ ''-'' @ digest)))"

definition label_edge :: "char \<Rightarrow> bool" where
  "label_edge c = (c \<in> set ''-_.'')"

definition label_value :: "string \<Rightarrow> string" where
  "label_value v =
     (let cleaned = map (\<lambda>c. if ascii_alnum c \<or> label_edge c then c else CHR ''-'') v;
          short = strip_where label_edge (take 63 (strip_where label_edge cleaned))
      in if short = [] then ''unknown'' else short)"

subsection \<open>The executor\<close>

definition selector_ok :: "payload \<Rightarrow> bool" where
  "selector_ok sel =
     (sel \<noteq> [] \<and> list_all (\<lambda>(k, v). k \<noteq> [] \<and> (case v of PStr s \<Rightarrow> s \<noteq> [] | _ \<Rightarrow> False)) sel)"

record k8s_executor =
  runner_image :: string
  kx_namespace :: string
  allow_ingress_from :: "payload option"
  allow_ingress_from_namespace :: "payload option"
  kx_ready_timeout :: int

definition new_k8s_executor ::
  "string \<Rightarrow> string \<Rightarrow> payload option \<Rightarrow> payload option \<Rightarrow> bool \<Rightarrow> int \<Rightarrow> exn + k8s_executor" where
  "new_k8s_executor img ns from_pods from_namespace insecure_skip ready_timeout =
     (if from_pods = None \<and> \<not> insecure_skip then Inl ValueError
      else if from_pods \<noteq> None \<and> insecure_skip then Inl ValueError
      else if (case from_pods of None \<Rightarrow> False | Some sel \<Rightarrow> \<not> selector_ok sel) then Inl ValueError
      else if from_namespace \<noteq> None \<and> from_pods = None then Inl ValueError
      else if (case from_namespace of None \<Rightarrow> False | Some sel \<Rightarrow> \<not> selector_ok sel) then Inl ValueError
      else Inr \<lparr>runner_image = img, kx_namespace = ns, allow_ingress_from = from_pods,
                allow_ingress_from_namespace = from_namespace, kx_ready_timeout = ready_timeout\<rparr>)"

definition service_url :: "k8s_executor \<Rightarrow> string \<Rightarrow> string" where
  "service_url x name = ''http://'' @ name @ ''.'' @ kx_namespace x @ ''.svc.cluster.local:'' @ show_int RUNNER_PORT"

definition worker_labels :: "string \<Rightarrow> string \<Rightarrow> string \<Rightarrow> pyval" where
  "worker_labels cog r name =
     PDict [(''app'', PStr name), (''collab-hub/cog'', PStr (cog_slug cog)), (''collab-hub/run'', PStr (label_value r)),
            (''app.kubernetes.io/managed-by'', PStr ''collab-hub-executor'')]"

definition object_metadata :: "k8s_executor \<Rightarrow> string \<Rightarrow> string \<Rightarrow> string \<Rightarrow> pyval" where
  "object_metadata x cog r name =
     PDict [(''name'', PStr name), (''namespace'', PStr (kx_namespace x)), (''labels'', worker_labels cog r name),
            (''annotations'', PDict [(''collab-hub/run-id'', PStr r)])]"

definition deployment_manifest :: "k8s_executor \<Rightarrow> string \<Rightarrow> string \<Rightarrow> string \<Rightarrow> pyval" where
  "deployment_manifest x cog r name =
     PDict [(''apiVersion'', PStr ''apps/v1''), (''kind'', PStr ''Deployment''),
       (''metadata'', object_metadata x cog r name),
       (''spec'', PDict [
          (''replicas'', PInt 1),
          (''selector'', PDict [(''matchLabels'', PDict [(''app'', PStr name)])]),
          (''template'', PDict [
             (''metadata'', PDict [(''labels'', worker_labels cog r name),
                (''annotations'', PDict [(''collab-hub/run-id'', PStr r)])]),
             (''spec'', PDict [
                (''automountServiceAccountToken'', PBool False),
                (''containers'', PList [PDict [
                   (''name'', PStr ''runner''), (''image'', PStr (runner_image x)),
                   (''imagePullPolicy'', PStr ''IfNotPresent''),
                   (''ports'', PList [PDict [(''containerPort'', PInt RUNNER_PORT)]]),
                   (''env'', PList [PDict [(''name'', PStr ''COG_ID''), (''value'', PStr cog)]]),
                   (''readinessProbe'', PDict [
                      (''httpGet'', PDict [(''path'', PStr ''/healthz''), (''port'', PInt RUNNER_PORT)]),
                      (''initialDelaySeconds'', PInt 1), (''periodSeconds'', PInt 1)]),
                   (''resources'', PDict [
                      (''requests'', PDict [(''cpu'', PStr ''50m''), (''memory'', PStr ''64Mi'')]),
                      (''limits'', PDict [(''cpu'', PStr ''500m''), (''memory'', PStr ''256Mi'')])])]])])])])]"

definition service_manifest :: "k8s_executor \<Rightarrow> string \<Rightarrow> string \<Rightarrow> string \<Rightarrow> pyval" where
  "service_manifest x cog r name =
     PDict [(''apiVersion'', PStr ''v1''), (''kind'', PStr ''Service''), (''metadata'', object_metadata x cog r name),
       (''spec'', PDict [(''selector'', PDict [(''app'', PStr name)]),
          (''ports'', PList [PDict [(''port'', PInt RUNNER_PORT), (''targetPort'', PInt RUNNER_PORT)]])])]"

definition policy_peer :: "k8s_executor \<Rightarrow> pyval" where
  "policy_peer x =
     PDict ([(''podSelector'', PDict [(''matchLabels'', (case allow_ingress_from x of None \<Rightarrow> PNone | Some sel \<Rightarrow> PDict sel))])] @
       (case allow_ingress_from_namespace x of
          None \<Rightarrow> [] | Some sel \<Rightarrow> [(''namespaceSelector'', PDict [(''matchLabels'', PDict sel)])]))"

definition network_policy :: "k8s_executor \<Rightarrow> string \<Rightarrow> string \<Rightarrow> string \<Rightarrow> pyval" where
  "network_policy x cog r name =
     PDict [(''apiVersion'', PStr ''networking.k8s.io/v1''), (''kind'', PStr ''NetworkPolicy''),
       (''metadata'', object_metadata x cog r name),
       (''spec'', PDict [
          (''podSelector'', PDict [(''matchLabels'', PDict [(''app'', PStr name)])]),
          (''policyTypes'', PList [PStr ''Ingress'']),
          (''ingress'', PList [PDict [(''from'', PList [policy_peer x]),
             (''ports'', PList [PDict [(''protocol'', PStr ''TCP''), (''port'', PInt RUNNER_PORT)]])]])])]"

subsection \<open>Talking to the API server\<close>

datatype k8s_call = KPost string pyval | KPatch string pyval | KGet string | KDelete string

type_synonym http_answer = "int \<times> pyval option"

record k8s_world =
  kw_api :: "nat \<Rightarrow> k8s_call \<Rightarrow> exn + http_answer"
  kw_worker :: "nat \<Rightarrow> string \<Rightarrow> pyval \<Rightarrow> exn + http_answer"
  kw_monotonic :: "nat \<Rightarrow> int"
  kw_sha1 :: "string \<Rightarrow> string"
  kw_repr :: "pyval \<Rightarrow> string"

record k8s_state =
  ks_tick :: nat
  ks_calls :: "k8s_call list"

definition api_call :: "k8s_world \<Rightarrow> k8s_call \<Rightarrow> (k8s_state, exn, http_answer) sx" where
  "api_call w c s = (kw_api w (ks_tick s) c, s\<lparr>ks_tick := Suc (ks_tick s), ks_calls := ks_calls s @ [c]\<rparr>)"

definition is_success :: "int \<Rightarrow> bool" where
  "is_success status \<longleftrightarrow> 200 \<le> status \<and> status < 300"

definition raise_for_status :: "int \<Rightarrow> ('s, exn, unit) sx" where
  "raise_for_status status = (if is_success status then ret () else raise (Raised ''HTTPStatusError'' []))"

definition apply_object :: "k8s_world \<Rightarrow> string \<Rightarrow> string \<Rightarrow> pyval \<Rightarrow> bool \<Rightarrow> (k8s_state, exn, unit) sx" where
  "apply_object w collection name body replaceable =
     bind (api_call w (KPost collection body)) (\<lambda>(status, _).
     if status = 409 then
       (if \<not> replaceable then ret ()
        else bind (api_call w (KPatch (collection @ ''/'' @ name) body)) (\<lambda>(status, _). raise_for_status status))
     else raise_for_status status)"

text \<open>\<open>(response.json().get("status") or {}).get("readyReplicas") or 0\<close>, and \<open>>= 1\<close> of it.\<close>

definition ready_replicas :: "pyval option \<Rightarrow> exn + bool" where
  "ready_replicas body =
     (case body of
        None \<Rightarrow> Inl ValueError
      | Some (PDict d) \<Rightarrow>
          (case py_or (py_get d ''status'') (PDict []) of
             PDict st \<Rightarrow>
               (case py_or (py_get st ''readyReplicas'') (PInt 0) of
                  PInt n \<Rightarrow> Inr (1 \<le> n)
                | PBool b \<Rightarrow> Inr b
                | PFloat f \<Rightarrow> Inr (case f of Fin q \<Rightarrow> 1 \<le> q | PosInf \<Rightarrow> True | _ \<Rightarrow> False)
                | _ \<Rightarrow> Inl TypeError)
           | _ \<Rightarrow> Inl AttributeError)
      | Some _ \<Rightarrow> Inl AttributeError)"

definition deployments_path :: "k8s_executor \<Rightarrow> string" where
  "deployments_path x = ''/apis/apps/v1/namespaces/'' @ kx_namespace x @ ''/deployments''"

definition services_path :: "k8s_executor \<Rightarrow> string" where
  "services_path x = ''/api/v1/namespaces/'' @ kx_namespace x @ ''/services''"

definition network_policy_collection :: "k8s_executor \<Rightarrow> string" where
  "network_policy_collection x = ''/apis/networking.k8s.io/v1/namespaces/'' @ kx_namespace x @ ''/networkpolicies''"

text \<open>\<open>_wait_ready\<close>, with fuel for its loop; the clock is read once before it and once per look.\<close>

fun wait_ready :: "nat \<Rightarrow> k8s_world \<Rightarrow> string \<Rightarrow> int \<Rightarrow> k8s_state \<Rightarrow> ((exn + unit) \<times> k8s_state) option" where
  "wait_ready 0 w path deadline s = None"
| "wait_ready (Suc fuel) w path deadline s =
     (case bind (api_call w (KGet path)) (\<lambda>(status, body). andthen (raise_for_status status) (lift (ready_replicas body))) s of
        (Inl x, t) \<Rightarrow> Some (Inl x, t)
      | (Inr True, t) \<Rightarrow> Some (Inr (), t)
      | (Inr False, t) \<Rightarrow>
          if deadline \<le> kw_monotonic w (ks_tick t) then Some (Inl (Raised ''TimeoutError'' []), t)
          else wait_ready fuel w path deadline (t\<lparr>ks_tick := Suc (ks_tick t)\<rparr>))"

definition resource_paths :: "k8s_executor \<Rightarrow> string \<Rightarrow> string list" where
  "resource_paths x name =
     [deployments_path x @ ''/'' @ name, services_path x @ ''/'' @ name] @
     (if allow_ingress_from x = None then [] else [network_policy_collection x @ ''/'' @ name])"

text \<open>\<open>_cleanup\<close>: every path is asked to be deleted, whatever the answers.\<close>

fun cleanup :: "k8s_world \<Rightarrow> string list \<Rightarrow> k8s_state \<Rightarrow> k8s_state" where
  "cleanup w [] s = s"
| "cleanup w (p # ps) s = cleanup w ps (snd (api_call w (KDelete p) s))"

fun delete_all :: "k8s_world \<Rightarrow> string list \<Rightarrow> (k8s_state, exn, unit) sx" where
  "delete_all w [] = ret ()"
| "delete_all w (p # ps) =
     bind (api_call w (KDelete p)) (\<lambda>(status, _).
     andthen (if status \<in> {200, 202, 404} then ret () else raise_for_status status) (delete_all w ps))"

record k8s_worker =
  kwk_cog :: string
  kwk_name :: string
  kwk_url :: string

definition k8s_teardown :: "k8s_world \<Rightarrow> k8s_executor \<Rightarrow> k8s_worker \<Rightarrow> (k8s_state, exn, unit) sx" where
  "k8s_teardown w x worker = delete_all w (resource_paths x (kwk_name worker))"

definition apply_all :: "k8s_world \<Rightarrow> k8s_executor \<Rightarrow> string \<Rightarrow> string \<Rightarrow> string \<Rightarrow> (k8s_state, exn, unit) sx" where
  "apply_all w x cog r name =
     andthen (if allow_ingress_from x = None then ret ()
              else apply_object w (network_policy_collection x) name (network_policy x cog r name) True) (
     andthen (apply_object w (deployments_path x) name (deployment_manifest x cog r name) True)
       (apply_object w (services_path x) name (service_manifest x cog r name) False))"

definition k8s_materialize ::
  "nat \<Rightarrow> k8s_world \<Rightarrow> k8s_executor \<Rightarrow> string \<Rightarrow> string \<Rightarrow> string \<Rightarrow> k8s_state \<Rightarrow> ((exn + k8s_worker) \<times> k8s_state) option" where
  "k8s_materialize fuel w x cog r inst s =
     (let name = resource_name (kw_sha1 w) cog r inst
      in case apply_all w x cog r name s of
           (Inl e, t) \<Rightarrow> Some (Inl e, cleanup w (resource_paths x name) t)
         | (Inr _, t) \<Rightarrow>
             (case wait_ready fuel w (deployments_path x @ ''/'' @ name) (kw_monotonic w (ks_tick t) + kx_ready_timeout x)
                     (t\<lparr>ks_tick := Suc (ks_tick t)\<rparr>) of
                None \<Rightarrow> None
              | Some (Inl e, u) \<Rightarrow> Some (Inl e, cleanup w (resource_paths x name) u)
              | Some (Inr _, u) \<Rightarrow> Some (Inr \<lparr>kwk_cog = cog, kwk_name = name, kwk_url = service_url x name\<rparr>, u)))"

subsection \<open>The seam\<close>

definition RETRIED :: "string list" where "RETRIED = [''ConnectError'', ''ConnectTimeout'']"

text \<open>\<open>_post_with_retry\<close>: only a connection that was not made is tried again.\<close>

fun post_with_retry :: "nat \<Rightarrow> exn \<Rightarrow> k8s_world \<Rightarrow> string \<Rightarrow> pyval \<Rightarrow> nat \<Rightarrow> exn + http_answer" where
  "post_with_retry 0 latest w url body n = Inl latest"
| "post_with_retry (Suc attempts) latest w url body n =
     (case kw_worker w n url body of
        Inr a \<Rightarrow> Inr a
      | Inl x \<Rightarrow> if exn_class x \<in> set RETRIED then post_with_retry attempts x w url body (Suc n) else Inl x)"

definition seam_request :: "string \<Rightarrow> pyval \<Rightarrow> string option \<Rightarrow> pyval option \<Rightarrow> pyval" where
  "seam_request entry inp key sig =
     PDict ([(''entry_point'', PStr entry), (''input'', inp), (''idempotency_key'', opt_str key)] @
            (case sig of None \<Rightarrow> [] | Some v \<Rightarrow> [(''signal'', v)]))"

text \<open>What an answer of \<open>/invoke\<close> is read as.\<close>

definition read_answer :: "(pyval \<Rightarrow> string) \<Rightarrow> http_answer \<Rightarrow> exn + result_envelope" where
  "read_answer rp answer =
     (let (status, decoded) = answer; body = (case decoded of None \<Rightarrow> PNone | Some v \<Rightarrow> v)
      in if status = 200 then parse_envelope rp body
         else case map_of CODE_FOR_STATUS status of
           Some code \<Rightarrow>
             (if (case body of PDict d \<Rightarrow> map_of d ''envelope'' \<noteq> None | _ \<Rightarrow> False) then
                bind_result (parse_envelope rp body) (\<lambda>e.
                  if env_ok e then Inl (EnvelopeInvalid (''HTTP '' @ show_int status @ '' carried an ok: true envelope'')) else Inr e)
              else envelope_failure rp code (''HTTP '' @ show_int status @ '' from the worker without an envelope'') no_extras)
         | None \<Rightarrow>
             if is_success status then Inl (EnvelopeInvalid (''unexpected HTTP '' @ show_int status @ '' from /invoke''))
             else Inl (Raised ''HTTPStatusError'' []))"

definition seam_interact ::
  "k8s_world \<Rightarrow> k8s_worker \<Rightarrow> string \<Rightarrow> pyval \<Rightarrow> string option \<Rightarrow> pyval option \<Rightarrow> nat \<Rightarrow> exn + result_envelope" where
  "seam_interact w worker entry inp key sig n =
     bind_result (post_with_retry 40 TypeError w (kwk_url worker @ ''/invoke'') (seam_request entry inp key sig) n)
       (read_answer (kw_repr w))"

subsection \<open>Names are valid\<close>

definition dns_char :: "char \<Rightarrow> bool" where
  "dns_char c = (let n = (of_char c :: nat) in 48 \<le> n \<and> n \<le> 57 \<or> 97 \<le> n \<and> n \<le> 122 \<or> n = 45)"

lemma dns_lower: "ascii_alnum (lower_latin c) \<Longrightarrow> dns_char (lower_latin c)"
proof -
  have "(of_char c :: nat) < 256" by (metis of_char_mod_256 mod_less_divisor zero_less_numeral)
  then show "ascii_alnum (lower_latin c) \<Longrightarrow> dns_char (lower_latin c)"
    by (auto simp: ascii_alnum_def lower_latin_def dns_char_def Let_def split: if_splits)
qed

lemma rstrip_where_id: "s \<noteq> [] \<Longrightarrow> \<not> p (last s) \<Longrightarrow> rstrip_where p s = s"
  by (cases s rule: rev_cases) (simp_all add: rstrip_where_def)

lemma cog_slug_chars: "cog_slug cog \<noteq> [] \<and> length (cog_slug cog) \<le> 40 \<and> list_all dns_char (cog_slug cog)"
proof -
  let ?raw = "map lower_latin (last (split_on (CHR ''/'') cog))"
  let ?clean = "map (\<lambda>c. if ascii_alnum c \<or> c = CHR ''-'' then c else CHR ''-'') ?raw"
  have "dns_char c" if "c \<in> set (take 40 (strip_where (\<lambda>c. c = CHR ''-'') ?clean))" for c
  proof -
    have "c \<in> set ?clean" using that set_strip_where [of _ ?clean] by (meson in_set_takeD subsetD)
    then show ?thesis using dns_lower by (auto simp: dns_char_def split: if_splits)
  qed
  then show ?thesis by (auto simp: cog_slug_def Let_def list_all_iff) (auto simp: dns_char_def)
qed

lemma label_value_valid:
  "label_value v \<noteq> [] \<and> length (label_value v) \<le> 63 \<and> list_all (\<lambda>c. ascii_alnum c \<or> label_edge c) (label_value v) \<and>
   ascii_alnum (hd (label_value v)) \<and> ascii_alnum (last (label_value v))"
proof -
  let ?clean = "map (\<lambda>c. if ascii_alnum c \<or> label_edge c then c else CHR ''-'') v"
  let ?short = "strip_where label_edge (take 63 (strip_where label_edge ?clean))"
  have sub: "set ?short \<subseteq> set ?clean" by (meson set_strip_where set_take_subset subset_trans)
  have chars: "c \<in> set ?short \<Longrightarrow> ascii_alnum c \<or> label_edge c" for c using sub by (auto simp: label_edge_def split: if_splits)
  have len: "length ?short \<le> 63" using length_strip_where [of label_edge "take 63 (strip_where label_edge ?clean)"] by simp
  show ?thesis
  proof (cases "?short = []")
    case True
    then have "label_value v = ''unknown''" by (simp add: label_value_def Let_def)
    then show ?thesis by (simp add: ascii_alnum_def)
  next
    case False
    then have l: "label_value v = ?short" by (simp add: label_value_def Let_def)
    have edges: "hd ?short \<in> set ?short" "last ?short \<in> set ?short" using False by simp_all
    have "ascii_alnum (hd ?short)" using chars [OF edges(1)] strip_where_edges(1) [OF False] by blast
    moreover have "ascii_alnum (last ?short)" using chars [OF edges(2)] strip_where_edges(2) [OF False] by blast
    moreover have "list_all (\<lambda>c. ascii_alnum c \<or> label_edge c) ?short" using chars by (simp only: list_all_iff) blast
    ultimately show ?thesis unfolding l using False len by blast
  qed
qed

text \<open>
  C37: the name of every materialization is a DNS label: at most 63 characters of \<open>a-z\<close>, \<open>0-9\<close> and
  \<open>-\<close>, starting with a letter and not ending in a hyphen, whatever the Cog, the run and the
  instance are called; and it carries the whole digest, so two names agree only if the digests do.
\<close>

theorem resource_names_are_dns_labels:
  assumes "\<And>s. 16 \<le> length (sha1 s)" and "\<And>s. list_all (\<lambda>c. dns_char c \<and> c \<noteq> CHR ''-'') (sha1 s)"
  shows "length (resource_name sha1 cog r inst) \<le> MAX_DNS_LABEL \<and> list_all dns_char (resource_name sha1 cog r inst) \<and>
    hd (resource_name sha1 cog r inst) = CHR ''c'' \<and> last (resource_name sha1 cog r inst) \<noteq> CHR ''-'' \<and>
    (resource_name sha1 cog r inst = resource_name sha1 cog' r' inst' \<longrightarrow>
       take DIGEST_HEX (sha1 (cog @ nul @ r @ nul @ inst)) = take DIGEST_HEX (sha1 (cog' @ nul @ r' @ nul @ inst')))"
proof -
  define full where "full c x i = ''cog-'' @ cog_slug c @ ''-'' @ take DIGEST_HEX (sha1 (c @ nul @ x @ nul @ i))" for c x i
  have last: "last (full c x i) \<noteq> CHR ''-''" and len: "length (full c x i) \<le> MAX_DNS_LABEL" for c x i
  proof -
    let ?d = "take DIGEST_HEX (sha1 (c @ nul @ x @ nul @ i))"
    have d: "?d \<noteq> []" "length ?d = 16" using assms(1) [of "c @ nul @ x @ nul @ i"] by (auto simp: DIGEST_HEX_def)
    have "last ?d \<in> set (sha1 (c @ nul @ x @ nul @ i))" using d(1) by (meson in_set_takeD last_in_set)
    then show "last (full c x i) \<noteq> CHR ''-''" using d(1) assms(2) by (auto simp: full_def list_all_iff)
    show "length (full c x i) \<le> MAX_DNS_LABEL" using cog_slug_chars [of c] d(2) by (simp add: full_def MAX_DNS_LABEL_def)
  qed
  have shape: "resource_name sha1 c x i = full c x i" for c x i
  proof -
    have "full c x i \<noteq> []" by (simp add: full_def)
    then have "rstrip_where (\<lambda>c. c = CHR ''-'') (full c x i) = full c x i" using last [of c x i] by (simp add: rstrip_where_id)
    then show ?thesis using len [of c x i] by (simp add: resource_name_def Let_def full_def)
  qed
  have "list_all dns_char (take DIGEST_HEX (sha1 s))" for s using assms(2) [of s] by (auto simp: list_all_iff dest: in_set_takeD)
  then have "list_all dns_char (resource_name sha1 cog r inst)"
    unfolding shape full_def using cog_slug_chars [of cog] by (simp add: dns_char_def)
  moreover have "take DIGEST_HEX (sha1 s) = take DIGEST_HEX (sha1 s')"
    if "''cog-'' @ u @ ''-'' @ take DIGEST_HEX (sha1 s) = ''cog-'' @ u' @ ''-'' @ take DIGEST_HEX (sha1 s')" for s s' u u'
  proof -
    have "length (take DIGEST_HEX (sha1 s)) = length (take DIGEST_HEX (sha1 s'))"
      using assms(1) [of s] assms(1) [of s'] by (simp add: DIGEST_HEX_def)
    moreover have "(''cog-'' @ u @ ''-'') @ take DIGEST_HEX (sha1 s) = (''cog-'' @ u' @ ''-'') @ take DIGEST_HEX (sha1 s')"
      using that by simp
    ultimately show ?thesis by (simp only: append_eq_append_conv [OF disjI2])
  qed
  then have "full cog r inst = full cog' r' inst' \<longrightarrow>
      take DIGEST_HEX (sha1 (cog @ nul @ r @ nul @ inst)) = take DIGEST_HEX (sha1 (cog' @ nul @ r' @ nul @ inst'))"
    unfolding full_def by blast
  moreover have "hd (full cog r inst) = CHR ''c''" by (simp add: full_def)
  ultimately show ?thesis using len [of cog r inst] last [of cog r inst] unfolding shape by blast
qed

theorem resource_names_are_dns_labels_witness:
  "length (resource_name (\<lambda>s. replicate 40 (CHR ''a'')) ''Acme/My Cog'' ''run/1'' ''draft:1'') \<le> MAX_DNS_LABEL \<and>
   list_all dns_char (resource_name (\<lambda>s. replicate 40 (CHR ''a'')) ''Acme/My Cog'' ''run/1'' ''draft:1'') \<and>
   resource_name (\<lambda>s. replicate 40 (CHR ''a'')) ''Acme/My Cog'' ''run/1'' ''draft:1'' = ''cog-my-cog-aaaaaaaaaaaaaaaa''"
proof -
  have "resource_name (\<lambda>s. replicate 40 (CHR ''a'')) ''Acme/My Cog'' ''run/1'' ''draft:1'' = ''cog-my-cog-aaaaaaaaaaaaaaaa''" by code_simp
  moreover have "list_all (\<lambda>c. dns_char c \<and> c \<noteq> CHR ''-'') (replicate 40 (CHR ''a''))" by code_simp
  ultimately show ?thesis
    using resource_names_are_dns_labels [of "\<lambda>s. replicate 40 (CHR ''a'')" "''Acme/My Cog''" "''run/1''" "''draft:1''"] by simp
qed
subsection \<open>What the API server is asked\<close>

lemma api_call_simps [simp]:
  "ks_calls (snd (api_call w c s)) = ks_calls s @ [c]" "fst (api_call w c s) = kw_api w (ks_tick s) c"
  "ks_tick (snd (api_call w c s)) = Suc (ks_tick s)"
  by (simp_all add: api_call_def)

text \<open>An object the server took: created, or patched where one of that name was there.\<close>

definition taken :: "k8s_world \<Rightarrow> nat \<Rightarrow> string \<Rightarrow> string \<Rightarrow> pyval \<Rightarrow> k8s_call list \<Rightarrow> bool" where
  "taken w n collection name body calls \<longleftrightarrow>
     (calls = [KPost collection body] \<and> (\<exists>st b. kw_api w n (KPost collection body) = Inr (st, b) \<and> is_success st)) \<or>
     (calls = [KPost collection body, KPatch (collection @ ''/'' @ name) body] \<and>
       (\<exists>b. kw_api w n (KPost collection body) = Inr (409, b)) \<and>
       (\<exists>st b. kw_api w (Suc n) (KPatch (collection @ ''/'' @ name) body) = Inr (st, b) \<and> is_success st))"

lemma apply_object_outcome:
  assumes "apply_object w collection name body replaceable s = (res, t)"
  shows "\<exists>new. ks_calls t = ks_calls s @ new \<and> set new \<subseteq> {KPost collection body, KPatch (collection @ ''/'' @ name) body} \<and>
    (res = Inr () \<longrightarrow> replaceable \<longrightarrow> taken w (ks_tick s) collection name body new)"
proof -
  obtain a s1 where a: "api_call w (KPost collection body) s = (a, s1)" by (cases "api_call w (KPost collection body) s")
  have s1: "ks_calls s1 = ks_calls s @ [KPost collection body]" "a = kw_api w (ks_tick s) (KPost collection body)" "ks_tick s1 = Suc (ks_tick s)"
    using a api_call_simps [of w "KPost collection body" s] by simp_all
  show ?thesis
  proof (cases a)
    case (Inl x)
    then show ?thesis using assms a s1(1) by (auto simp: apply_object_def bind_def)
  next
    case (Inr sb)
    obtain st b where sb: "sb = (st, b)" by (cases sb)
    have api: "kw_api w (ks_tick s) (KPost collection body) = Inr (st, b)" using s1(2) Inr sb by simp
    consider (fresh) "st \<noteq> 409" | (kept) "st = 409" "\<not> replaceable" | (patched) "st = 409" "replaceable" by blast
    then show ?thesis
    proof cases
      case fresh
      then have "t = s1" "res = Inr () \<longrightarrow> is_success st"
        using assms a Inr sb by (auto simp: apply_object_def bind_def raise_for_status_def sx_apply split: if_splits)
      then show ?thesis using s1(1) api by (intro exI [of _ "[KPost collection body]"]) (auto simp: taken_def)
    next
      case kept
      then have "t = s1" using assms a Inr sb by (auto simp: apply_object_def bind_def sx_apply)
      then show ?thesis using s1 kept by (intro exI [of _ "[KPost collection body]"]) simp
    next
      case patched
      let ?p = "KPatch (collection @ ''/'' @ name) body"
      obtain c s2 where c: "api_call w ?p s1 = (c, s2)" by (cases "api_call w ?p s1")
      have s2: "ks_calls s2 = ks_calls s @ [KPost collection body, ?p]" "c = kw_api w (Suc (ks_tick s)) ?p"
        using c api_call_simps [of w ?p s1] s1 by simp_all
      have "t = s2" "res = Inr () \<longrightarrow> (\<exists>st b. c = Inr (st, b) \<and> is_success st)"
        using assms a c Inr sb patched by (auto simp: apply_object_def bind_def raise_for_status_def sx_apply split: sum.splits if_splits)
      then show ?thesis using api s2 patched
        by (intro exI [of _ "[KPost collection body, ?p]"]) (auto simp: taken_def)
    qed
  qed
qed

lemma cleanup_calls: "ks_calls (cleanup w ps s) = ks_calls s @ map KDelete ps"
  by (induction ps arbitrary: s) simp_all

lemma wait_ready_calls:
  assumes "wait_ready fuel w path deadline s = Some (res, t)"
  shows "\<exists>new. ks_calls t = ks_calls s @ new \<and> set new \<subseteq> {KGet path}"
  using assms
proof (induction fuel arbitrary: s)
  case (Suc fuel)
  let ?look = "bind (api_call w (KGet path)) (\<lambda>(status, body). andthen (raise_for_status status) (lift (ready_replicas body)))"
  obtain y s1 where y: "?look s = (y, s1)" by (cases "?look s")
  have s1: "s1 = snd (api_call w (KGet path) s)"
    using y by (auto simp: bind_def andthen_def raise_for_status_def sx_apply api_call_def split: sum.splits if_splits)
  have calls: "ks_calls s1 = ks_calls s @ [KGet path]" using s1 by simp
  show ?case
  proof (cases "y = Inr False \<and> kw_monotonic w (ks_tick s1) < deadline")
    case True
    then have "wait_ready fuel w path deadline (s1\<lparr>ks_tick := Suc (ks_tick s1)\<rparr>) = Some (res, t)" using Suc.prems y by simp
    from Suc.IH [OF this] obtain new where "ks_calls t = ks_calls s @ KGet path # new" "set new \<subseteq> {KGet path}" using calls by auto
    then show ?thesis by (intro exI [of _ "KGet path # new"]) auto
  next
    case False
    then have "t = s1" using Suc.prems y by (auto split: sum.splits bool.splits if_splits)
    then show ?thesis using calls by (intro exI [of _ "[KGet path]"]) simp
  qed
qed simp

text \<open>Every way through the three applications: which objects were asked for, and what came first.\<close>

lemma andthen_cases:
  assumes "andthen m n s = (res, t)"
  obtains (first) x where "m s = (Inl x, t)" "res = Inl x" | (second) y u where "m s = (Inr y, u)" "n u = (res, t)"
  using assms by (cases "m s"; cases "fst (m s)") (auto simp: andthen_def bind_def)

lemma apply_all_outcome:
  assumes "apply_all w x cog r name s = (res, t)"
  shows "\<exists>new. ks_calls t = ks_calls s @ new \<and>
    (\<forall>collection body. KPost collection body \<in> set new \<longrightarrow> collection @ ''/'' @ name \<in> set (resource_paths x name)) \<and>
    (allow_ingress_from x \<noteq> None \<longrightarrow> (\<exists>body. KPost (deployments_path x) body \<in> set new) \<longrightarrow>
      (\<exists>pre rest. new = pre @ rest \<and>
         taken w (ks_tick s) (network_policy_collection x) name (network_policy x cog r name) pre))"
proof -
  let ?pol = "if allow_ingress_from x = None then ret () else apply_object w (network_policy_collection x) name (network_policy x cog r name) True"
  let ?dep = "apply_object w (deployments_path x) name (deployment_manifest x cog r name) True"
  let ?svc = "apply_object w (services_path x) name (service_manifest x cog r name) False"
  have differ: "network_policy_collection x \<noteq> deployments_path x" by (simp add: network_policy_collection_def deployments_path_def)
  have pol: "\<exists>new. ks_calls u = ks_calls s @ new \<and>
      (\<forall>c b. KPost c b \<in> set new \<longrightarrow> c = network_policy_collection x \<and> allow_ingress_from x \<noteq> None) \<and>
      (y = Inr () \<longrightarrow> allow_ingress_from x \<noteq> None \<longrightarrow> taken w (ks_tick s) (network_policy_collection x) name (network_policy x cog r name) new)"
    if "?pol s = (y, u)" for y u
  proof (cases "allow_ingress_from x = None")
    case True
    with that show ?thesis by (intro exI [of _ "[]"]) (auto simp: sx_apply)
  next
    case False
    with that apply_object_outcome [of w "network_policy_collection x" name "network_policy x cog r name" True s y u]
    show ?thesis by fastforce
  qed
  have later: "\<exists>new. ks_calls t = ks_calls u @ new \<and> (\<forall>c b. KPost c b \<in> set new \<longrightarrow> c \<in> {deployments_path x, services_path x})"
    if "andthen ?dep ?svc u = (z, t)" for u z t
    using that
  proof (cases rule: andthen_cases)
    case (first e)
    from apply_object_outcome [OF first(1)] show ?thesis by fastforce
  next
    case (second y u1)
    from apply_object_outcome [OF second(1)] apply_object_outcome [OF second(2)] obtain n1 n2 where
      n: "ks_calls u1 = ks_calls u @ n1" "ks_calls t = ks_calls u1 @ n2"
        "\<forall>c b. KPost c b \<in> set n1 \<longrightarrow> c = deployments_path x" "\<forall>c b. KPost c b \<in> set n2 \<longrightarrow> c = services_path x" by fastforce
    then show ?thesis by (intro exI [of _ "n1 @ n2"]) auto
  qed
  from assms [unfolded apply_all_def] show ?thesis
  proof (cases rule: andthen_cases)
    case (first e)
    from pol [OF first(1)] obtain new where "ks_calls t = ks_calls s @ new"
      "\<forall>c b. KPost c b \<in> set new \<longrightarrow> c = network_policy_collection x \<and> allow_ingress_from x \<noteq> None" by blast
    then show ?thesis using differ by (intro exI [of _ new]) (auto simp: resource_paths_def)
  next
    case (second y u)
    from pol [OF second(1)] obtain n1 where n1: "ks_calls u = ks_calls s @ n1"
      "\<forall>c b. KPost c b \<in> set n1 \<longrightarrow> c = network_policy_collection x \<and> allow_ingress_from x \<noteq> None"
      "allow_ingress_from x \<noteq> None \<longrightarrow> taken w (ks_tick s) (network_policy_collection x) name (network_policy x cog r name) n1"
      by (cases y) auto
    from later [OF second(2)] obtain n2 where n2: "ks_calls t = ks_calls u @ n2"
      "\<forall>c b. KPost c b \<in> set n2 \<longrightarrow> c \<in> {deployments_path x, services_path x}" by blast
    show ?thesis using n1 n2 by (intro exI [of _ "n1 @ n2"]) (auto simp: resource_paths_def)
  qed
qed

subsection \<open>The theorems\<close>

text \<open>
  C33: a materialization that fails is taken back: after whatever went wrong, the server is asked to
  delete every object this materialization may have created, by name, and nothing is asked after.
\<close>

theorem failed_materializations_are_taken_back:
  assumes "k8s_materialize fuel w x cog r inst s = Some (Inl e, u)"
  shows "\<exists>made. ks_calls u = ks_calls s @ made @ map KDelete (resource_paths x (resource_name (kw_sha1 w) cog r inst)) \<and>
    (\<forall>collection body. KPost collection body \<in> set made \<longrightarrow>
       KDelete (collection @ ''/'' @ resource_name (kw_sha1 w) cog r inst) \<in> set (ks_calls u))"
proof -
  let ?name = "resource_name (kw_sha1 w) cog r inst"
  obtain y t where y: "apply_all w x cog r ?name s = (y, t)" by (cases "apply_all w x cog r ?name s")
  from apply_all_outcome [OF y] obtain new where new: "ks_calls t = ks_calls s @ new"
    "\<forall>collection body. KPost collection body \<in> set new \<longrightarrow> collection @ ''/'' @ ?name \<in> set (resource_paths x ?name)" by blast
  show ?thesis
  proof (cases y)
    case (Inl e')
    then have "ks_calls u = ks_calls t @ map KDelete (resource_paths x ?name)"
      using assms y by (auto simp: k8s_materialize_def Let_def cleanup_calls)
    then show ?thesis using new by (intro exI [of _ new]) auto
  next
    case (Inr z)
    let ?path = "deployments_path x @ ''/'' @ ?name" and ?deadline = "kw_monotonic w (ks_tick t) + kx_ready_timeout x"
    obtain e' v where v: "wait_ready fuel w ?path ?deadline (t\<lparr>ks_tick := Suc (ks_tick t)\<rparr>) = Some (Inl e', v)"
      "u = cleanup w (resource_paths x ?name) v"
      using assms y Inr by (auto simp: k8s_materialize_def Let_def split: option.splits sum.splits)
    from wait_ready_calls [OF v(1)] obtain looks where looks: "ks_calls v = ks_calls t @ looks" "set looks \<subseteq> {KGet ?path}" by auto
    have "ks_calls u = ks_calls s @ (new @ looks) @ map KDelete (resource_paths x ?name)"
      using v(2) looks(1) new(1) by (simp add: cleanup_calls)
    then show ?thesis using new(2) looks(2) by (intro exI [of _ "new @ looks"]) auto
  qed
qed

definition small_k8s :: "int \<Rightarrow> k8s_world" where
  "small_k8s service_status =
     \<lparr>kw_api = (\<lambda>n c. case c of
          KPost p b \<Rightarrow> if p = ''/api/v1/namespaces/cogs/services'' then Inr (service_status, None) else Inr (201, None)
        | KGet p \<Rightarrow> Inr (200, Some (PDict [(''status'', PDict [(''readyReplicas'', PInt 1)])]))
        | _ \<Rightarrow> Inr (200, None)),
      kw_worker = (\<lambda>n url b. if n < 3 then Inl (Raised ''ConnectError'' []) else Inr (503, None)),
      kw_monotonic = int, kw_sha1 = (\<lambda>s. replicate 40 (CHR ''a'')), kw_repr = (\<lambda>_. ''?'')\<rparr>"

definition small_k8s_executor :: k8s_executor where
  "small_k8s_executor = \<lparr>runner_image = ''runner:1'', kx_namespace = ''cogs'', allow_ingress_from = Some [(''app'', PStr ''hub'')],
     allow_ingress_from_namespace = None, kx_ready_timeout = 60\<rparr>"

definition k8s_start :: k8s_state where
  "k8s_start = \<lparr>ks_tick = 0, ks_calls = []\<rparr>"

theorem failed_materializations_are_taken_back_witness:
  "\<exists>e u made. k8s_materialize 2 (small_k8s 500) small_k8s_executor ''acme/hello'' ''r'' ''i'' k8s_start = Some (Inl e, u) \<and>
     ks_calls u = made @ map KDelete (resource_paths small_k8s_executor (resource_name (kw_sha1 (small_k8s 500)) ''acme/hello'' ''r'' ''i'')) \<and>
     length made = 3"
proof -
  let ?m = "k8s_materialize 2 (small_k8s 500) small_k8s_executor ''acme/hello'' ''r'' ''i'' k8s_start"
  have "case ?m of Some (res, u) \<Rightarrow> \<not> is_ok res \<and> length (ks_calls u) = 6 | None \<Rightarrow> False" by code_simp
  then obtain res u where "?m = Some (res, u)" "\<not> is_ok res" "length (ks_calls u) = 6" by (auto split: option.splits)
  then obtain e where m: "?m = Some (Inl e, u)" "length (ks_calls u) = 6" by (cases res) auto
  moreover have "length (resource_paths small_k8s_executor n) = 3" for n by (simp add: resource_paths_def small_k8s_executor_def)
  ultimately show ?thesis using failed_materializations_are_taken_back [OF m(1)] by (auto simp: k8s_start_def)
qed

text \<open>
  C34: with an ingress selector a worker is never brought up unguarded: the Deployment is only ever
  posted after the server took the NetworkPolicy that admits the hub alone, by creating it or by
  patching the one that was there.
\<close>

theorem policy_precedes_the_worker:
  assumes "k8s_materialize fuel w x cog r inst s = Some (res, u)" and "ks_calls s = []" and "allow_ingress_from x \<noteq> None"
    and "KPost (deployments_path x) body \<in> set (ks_calls u)"
  shows "\<exists>pre rest. ks_calls u = pre @ rest \<and>
    taken w (ks_tick s) (network_policy_collection x) (resource_name (kw_sha1 w) cog r inst)
      (network_policy x cog r (resource_name (kw_sha1 w) cog r inst)) pre"
proof -
  let ?name = "resource_name (kw_sha1 w) cog r inst"
  obtain y t where y: "apply_all w x cog r ?name s = (y, t)" by (cases "apply_all w x cog r ?name s")
  from apply_all_outcome [OF y] assms(2,3) obtain new where new: "ks_calls t = new"
    "(\<exists>body. KPost (deployments_path x) body \<in> set new) \<longrightarrow> (\<exists>pre rest. new = pre @ rest \<and>
       taken w (ks_tick s) (network_policy_collection x) ?name (network_policy x cog r ?name) pre)" by auto
  have "\<exists>looks. ks_calls u = new @ looks \<and> (\<forall>c b. KPost c b \<notin> set looks)"
  proof (cases y)
    case (Inl e')
    then have "ks_calls u = new @ map KDelete (resource_paths x ?name)"
      using assms(1) y new(1) by (auto simp: k8s_materialize_def Let_def cleanup_calls)
    then show ?thesis by (intro exI [of _ "map KDelete (resource_paths x ?name)"]) auto
  next
    case (Inr z)
    let ?path = "deployments_path x @ ''/'' @ ?name" and ?deadline = "kw_monotonic w (ks_tick t) + kx_ready_timeout x"
    obtain e' v where v: "wait_ready fuel w ?path ?deadline (t\<lparr>ks_tick := Suc (ks_tick t)\<rparr>) = Some (e', v)"
      "u = cleanup w (resource_paths x ?name) v \<or> u = v"
      using assms(1) y Inr by (auto simp: k8s_materialize_def Let_def split: option.splits sum.splits)
    from wait_ready_calls [OF v(1)] new(1) obtain looks where looks: "ks_calls v = new @ looks" "set looks \<subseteq> {KGet ?path}" by auto
    from v(2) have "ks_calls u = new @ (looks @ (if u = v then [] else map KDelete (resource_paths x ?name)))"
      using looks(1) by (auto simp: cleanup_calls)
    then show ?thesis using looks(2) by (intro exI [of _ "looks @ (if u = v then [] else map KDelete (resource_paths x ?name))"]) auto
  qed
  then obtain looks where looks: "ks_calls u = new @ looks" "\<forall>c b. KPost c b \<notin> set looks" by blast
  then have "KPost (deployments_path x) body \<in> set new" using assms(4) by auto
  with new(2) obtain pre rest where "new = pre @ rest"
    "taken w (ks_tick s) (network_policy_collection x) ?name (network_policy x cog r ?name) pre" by blast
  then show ?thesis using looks(1) by (intro exI [of _ pre] exI [of _ "rest @ looks"]) simp
qed

theorem policy_precedes_the_worker_witness:
  "\<exists>res u pre rest. k8s_materialize 2 (small_k8s 500) small_k8s_executor ''acme/hello'' ''r'' ''i'' k8s_start = Some (res, u) \<and>
     ks_calls u = pre @ rest \<and> pre \<noteq> []"
proof -
  let ?m = "k8s_materialize 2 (small_k8s 500) small_k8s_executor ''acme/hello'' ''r'' ''i'' k8s_start"
  let ?name = "resource_name (kw_sha1 (small_k8s 500)) ''acme/hello'' ''r'' ''i''"
  have "case ?m of Some (res, u) \<Rightarrow>
      list_ex (\<lambda>c. case c of KPost p b \<Rightarrow> p = deployments_path small_k8s_executor | _ \<Rightarrow> False) (ks_calls u) | None \<Rightarrow> False" by code_simp
  then obtain res u where m: "?m = Some (res, u)" and
    d: "list_ex (\<lambda>c. case c of KPost p b \<Rightarrow> p = deployments_path small_k8s_executor | _ \<Rightarrow> False) (ks_calls u)"
    by (auto split: option.splits)
  from d obtain c where c: "c \<in> set (ks_calls u)" "case c of KPost p b \<Rightarrow> p = deployments_path small_k8s_executor | _ \<Rightarrow> False"
    by (auto simp: list_ex_iff)
  obtain body where "KPost (deployments_path small_k8s_executor) body \<in> set (ks_calls u)" by (cases c) (use c in auto)
  then obtain pre rest where "ks_calls u = pre @ rest"
    "taken (small_k8s 500) (ks_tick k8s_start) (network_policy_collection small_k8s_executor) ?name
       (network_policy small_k8s_executor ''acme/hello'' ''r'' ?name) pre"
    using policy_precedes_the_worker [OF m, of body] by (auto simp: k8s_start_def small_k8s_executor_def)
  then show ?thesis using m by (intro exI conjI) (auto simp: taken_def)
qed

lemma wait_ready_ends:
  assumes "\<And>n. kw_monotonic w n < kw_monotonic w (Suc n)" and "deadline \<le> kw_monotonic w (ks_tick s) + int k"
  shows "\<exists>res u. wait_ready (Suc k) w path deadline s = Some (res, u)"
  using assms(2)
proof (induction k arbitrary: s)
  case (Suc k)
  let ?look = "bind (api_call w (KGet path)) (\<lambda>(status, body). andthen (raise_for_status status) (lift (ready_replicas body)))"
  obtain y s1 where y: "?look s = (y, s1)" by (cases "?look s")
  have "ks_tick s1 = Suc (ks_tick s)"
    using y by (auto simp: bind_def andthen_def raise_for_status_def sx_apply api_call_def split: sum.splits if_splits)
  then have "deadline \<le> kw_monotonic w (ks_tick (s1\<lparr>ks_tick := Suc (ks_tick s1)\<rparr>)) + int k"
    using Suc.prems assms(1) [of "ks_tick s"] assms(1) [of "ks_tick s1"] by simp
  from Suc.IH [OF this] show ?case using y by (auto split: sum.split bool.split)
next
  case 0
  let ?look = "bind (api_call w (KGet path)) (\<lambda>(status, body). andthen (raise_for_status status) (lift (ready_replicas body)))"
  obtain y s1 where y: "?look s = (y, s1)" by (cases "?look s")
  have "ks_tick s1 = Suc (ks_tick s)"
    using y by (auto simp: bind_def andthen_def raise_for_status_def sx_apply api_call_def split: sum.splits if_splits)
  then have "deadline \<le> kw_monotonic w (ks_tick s1)" using 0 assms(1) [of "ks_tick s"] by simp
  then show ?case using y by (auto split: sum.split bool.split)
qed

text \<open>
  Waiting for a worker ends: as long as the clock advances between looks, the materialization
  returns within as many looks as the timeout has ticks, with a worker or with an exception.
\<close>

theorem materializing_ends:
  assumes "\<And>n. kw_monotonic w n < kw_monotonic w (Suc n)"
  shows "\<exists>res u. k8s_materialize (Suc (nat (kx_ready_timeout x))) w x cog r inst s = Some (res, u)"
proof -
  let ?name = "resource_name (kw_sha1 w) cog r inst"
  obtain y t where y: "apply_all w x cog r ?name s = (y, t)" by (cases "apply_all w x cog r ?name s")
  let ?path = "deployments_path x @ ''/'' @ ?name" and ?deadline = "kw_monotonic w (ks_tick t) + kx_ready_timeout x"
  have "?deadline \<le> kw_monotonic w (ks_tick (t\<lparr>ks_tick := Suc (ks_tick t)\<rparr>)) + int (nat (kx_ready_timeout x))"
    using assms [of "ks_tick t"] by simp
  from wait_ready_ends [OF assms this] obtain z u where
    z: "wait_ready (Suc (nat (kx_ready_timeout x))) w ?path ?deadline (t\<lparr>ks_tick := Suc (ks_tick t)\<rparr>) = Some (z, u)" by blast
  show ?thesis unfolding k8s_materialize_def Let_def y using z by (auto split: sum.split)
qed

theorem materializing_ends_witness:
  "\<exists>res u. k8s_materialize (Suc (nat (kx_ready_timeout small_k8s_executor))) (small_k8s 500) small_k8s_executor ''acme/hello'' ''r'' ''i'' k8s_start = Some (res, u)"
  by (rule materializing_ends) (simp add: small_k8s_def)

text \<open>
  An answer of a worker is only ever read as what the seam says: an envelope read from it obeys
  the version-1 contract, it is ok only if the answer was an HTTP 200, and an error status without
  an envelope still is the failure that status stands for.
\<close>

theorem answers_are_read_by_the_seam:
  assumes "read_answer rp (status, decoded) = Inr e"
  shows "envelope_ok e \<and> (env_ok e \<longrightarrow> status = 200) \<and>
    (status \<noteq> 200 \<longrightarrow> map_of CODE_FOR_STATUS status \<noteq> None \<and> env_error e \<noteq> None)"
proof (cases "status = 200")
  case True
  with assms parsed_envelope_ok show ?thesis by (auto simp: read_answer_def)
next
  case False
  define body where "body = (case decoded of None \<Rightarrow> PNone | Some v \<Rightarrow> v)"
  from assms False obtain code where code: "map_of CODE_FOR_STATUS status = Some code"
    by (auto simp: read_answer_def Let_def split: option.splits if_splits)
  have "envelope_ok e \<and> \<not> env_ok e"
  proof (cases "case body of PDict d \<Rightarrow> map_of d ''envelope'' \<noteq> None | _ \<Rightarrow> False")
    case True
    then have "parse_envelope rp body = Inr e \<and> \<not> env_ok e"
      using assms False code by (auto simp: read_answer_def Let_def body_def bind_result_Inr_iff split: if_splits)
    then show ?thesis using parsed_envelope_ok by blast
  next
    case no: False
    then have "envelope_failure rp code (''HTTP '' @ show_int status @ '' from the worker without an envelope'') no_extras = Inr e"
      using assms False code by (simp add: read_answer_def Let_def body_def)
    then show ?thesis
      by (auto simp: envelope_failure_def bind_result_Inr_iff envelope_ok_def mk_error_Inr_iff no_extras_def)
  qed
  then show ?thesis using False code by (auto simp: envelope_ok_def split: option.splits)
qed

theorem answers_are_read_by_the_seam_witness:
  "\<exists>e. read_answer (\<lambda>_. ''?'') (503, Some (PStr ''busy'')) = Inr e \<and> \<not> env_ok e \<and> envelope_ok e"
proof -
  have "is_ok (read_answer (\<lambda>_. ''?'') (503, Some (PStr ''busy'')))" by code_simp
  then obtain e where e: "read_answer (\<lambda>_. ''?'') (503, Some (PStr ''busy'')) = Inr e"
    by (cases "read_answer (\<lambda>_. ''?'') (503, Some (PStr ''busy''))") auto
  from answers_are_read_by_the_seam [OF e] e show ?thesis by auto
qed

text \<open>No executor is built without a choice about ingress, and a selector that is used is not empty.\<close>

lemma ingress_is_a_choice:
  assumes "new_k8s_executor img ns from_pods from_namespace insecure_skip timeout = Inr x"
  shows "(allow_ingress_from x = None) = insecure_skip \<and> allow_ingress_from x \<noteq> Some [] \<and> allow_ingress_from_namespace x \<noteq> Some [] \<and>
    (allow_ingress_from_namespace x \<noteq> None \<longrightarrow> allow_ingress_from x \<noteq> None)"
  using assms by (auto simp: new_k8s_executor_def selector_ok_def split: if_splits option.splits)

end
