(* ===== verification/LocalWorkers.thy ===== *)
theory LocalWorkers
  imports Kubernetes Controller
begin

section \<open>Workers on the controller's host (locations/local.py, controller.py)\<close>

text \<open>
  \<open>LocalProcessCogExecutor\<close> runs a package's serve task as a process behind a launcher.  What it
  asks of the host is the record \<open>local_world\<close>, functions of the tick: the controller's
  environment, a free port from the kernel, whether a launcher still runs, starting one and its
  first line, \<open>/healthz\<close>, the clock, \<open>which\<close>, \<open>shlex.split\<close>, SHA-256 and fresh tokens.  The
  state keeps the ports handed out and a log of what was started and stopped.  Log files, the
  launcher program and the signals it sends are not modelled.
\<close>

subsection \<open>Paths and turns\<close>

text \<open>\<open>_segment\<close>.\<close>

definition segment :: "(hashed \<Rightarrow> string) \<Rightarrow> string \<Rightarrow> string" where
  "segment sha256 v =
     (let prefix = strip_where (\<lambda>c. c = CHR ''.'') (take 40 (map (\<lambda>c. if ascii_alnum c \<or> label_edge c then c else CHR ''_'') v))
      in (if prefix = [] then ''_'' else prefix) @ ''-'' @ take 16 (sha256 (Plain v)))"

text \<open>\<open>_LocalWorker.turn\<close>: how \<open>POST /turn\<close> was answered.\<close>

definition local_turn :: "exn + http_answer \<Rightarrow> turn_outcome" where
  "local_turn answer =
     (case answer of
        Inl x \<Rightarrow> TurnRaised None (exn_class x @ '': '' @ exn_text x)
      | Inr (status, body) \<Rightarrow>
          if status \<noteq> 200 then
            TurnRaised (Some status) (''TurnRefused: the worker answered HTTP '' @ show_int status @
              (if status = 404 then '': it holds no session'' else []))
          else
            (case body of
               Some (PDict d) \<Rightarrow>
                 (case map_of d ''text'' of
                    Some (PStr words) \<Rightarrow> TurnAnswered words
                  | _ \<Rightarrow> TurnRaised None ''TurnRefused: the worker's answer to a turn is not {\"text\": ...}'')
             | _ \<Rightarrow> TurnRaised None ''TurnRefused: the worker's answer to a turn is not {\"text\": ...}''))"

text \<open>\<open>_LocalWorker.interact\<close>: one request, never tried again, whose answer the seam reads.\<close>

definition local_interact :: "(pyval \<Rightarrow> string) \<Rightarrow> exn + http_answer \<Rightarrow> exn + result_envelope" where
  "local_interact rp answer = bind_result answer (read_answer rp)"

subsection \<open>The environment of a worker\<close>

type_synonym env = "(string, string) dict"

definition INHERITED :: "string list" where
  "INHERITED = [''PATH'', ''HOME'', ''LANG'', ''LC_ALL'', ''TMPDIR'', ''TZ'', ''PIXI_HOME'', ''PIXI_CACHE_DIR'', ''XDG_CACHE_HOME'']"

definition LOOPBACK :: string where "LOOPBACK = ''127.0.0.1''"

text \<open>\<open>{name: environ[name] for name in names if name in environ}\<close>.\<close>

definition picked :: "string list \<Rightarrow> env \<Rightarrow> env" where
  "picked names environ =
     foldl (\<lambda>d n. case map_of environ n of None \<Rightarrow> d | Some v \<Rightarrow> AList.update n v d) [] names"

definition merged :: "env \<Rightarrow> env \<Rightarrow> env" where
  "merged d e = foldl (\<lambda>d (n, v). AList.update n v d) d e"

definition RUN_TOKEN_ENV :: string where "RUN_TOKEN_ENV = ''COLLAB_RUN_TOKEN''"

definition seam_variables :: "string \<Rightarrow> string \<Rightarrow> int \<Rightarrow> string \<Rightarrow> env" where
  "seam_variables cog r port token =
     [(''COLLAB_COG_HOST'', LOOPBACK), (''COLLAB_COG_PORT'', show_int port), (''COLLAB_COG_ID'', cog),
      (''COLLAB_RUN_ID'', r), (RUN_TOKEN_ENV, token)]"

definition worker_environment :: "env \<Rightarrow> env option \<Rightarrow> string \<Rightarrow> string \<Rightarrow> int \<Rightarrow> string \<Rightarrow> env" where
  "worker_environment environ given cog r port token =
     merged (case given of None \<Rightarrow> picked INHERITED environ | Some d \<Rightarrow> merged (picked INHERITED environ) d)
       (seam_variables cog r port token)"

text \<open>
  \<open>_deliveries\<close> of the controller: \<open>COG:NAME\<close> pairs, split at the first colon; and what the
  function it returns delivers to a worker of one Cog.
\<close>

fun wanted_from :: "(string, string list) dict \<Rightarrow> string list \<Rightarrow> exn + (string, string list) dict" where
  "wanted_from wanted [] = Inr wanted"
| "wanted_from wanted (spec # specs) =
     (let (cog, name) = (takeWhile (\<lambda>c. c \<noteq> CHR '':'') spec, drop 1 (dropWhile (\<lambda>c. c \<noteq> CHR '':'') spec))
      in if cog = [] \<or> name = [] then Inl (Raised ''SystemExit'' [])
         else wanted_from (AList.update cog ((case map_of wanted cog of None \<Rightarrow> [] | Some ns \<Rightarrow> ns) @ [name]) wanted) specs)"

definition deliveries :: "string list \<Rightarrow> exn + (string, string list) dict" where
  "deliveries specs = wanted_from [] specs"

definition deliver :: "(string, string list) dict \<Rightarrow> env \<Rightarrow> string \<Rightarrow> env" where
  "deliver wanted environ cog = picked (case map_of wanted cog of None \<Rightarrow> [] | Some ns \<Rightarrow> ns) environ"

subsection \<open>Starting a worker\<close>

record local_world =
  lw_fs :: filesystem
  lw_environ :: env
  lw_probe :: "nat \<Rightarrow> int"
  lw_running :: "nat \<Rightarrow> nat \<Rightarrow> bool"
  lw_popen :: "nat \<Rightarrow> string list \<Rightarrow> env \<Rightarrow> exn + nat"
  lw_first_line :: "nat \<Rightarrow> nat \<Rightarrow> exn + payload"
  lw_healthz :: "nat \<Rightarrow> int \<Rightarrow> int option"
  lw_monotonic :: "nat \<Rightarrow> int"
  lw_which :: "string \<Rightarrow> string option"
  lw_shlex :: "string \<Rightarrow> exn + string list"
  lw_sha256 :: "hashed \<Rightarrow> string"
  lw_token :: "nat \<Rightarrow> string"

record local_settings =
  lc_executor :: local_executor
  lc_pixi :: string
  lc_wanted :: "(string, string list) dict option"
  lc_ready_timeout :: int

datatype local_call = LaunchedOn nat int | StoppedLauncher nat

record local_state =
  ls_tick :: nat
  ls_ports :: "(int \<times> nat) list"
  ls_log :: "local_call list"

definition WorkerStartFailed :: exn where "WorkerStartFailed = Raised ''WorkerStartFailed'' []"

definition worker_command :: "local_world \<Rightarrow> local_settings \<Rightarrow> cog_package \<Rightarrow> exn + string list" where
  "worker_command w cfg pkg =
     (if lx_environment (lc_executor cfg) = ''host'' then lw_shlex w (pkg_serve pkg)
      else case lw_which w (lc_pixi cfg) of
        None \<Rightarrow> Inl WorkerStartFailed
      | Some pixi \<Rightarrow> Inr [pixi, ''run'', ''--locked'', ''--manifest-path'', join_slash (pkg_directory pkg @ [MANIFEST]), ''serve''])"

text \<open>\<open>_port\<close>: at most 64 probes; the ports of launchers that ended are let go first.\<close>

fun free_port :: "nat \<Rightarrow> local_world \<Rightarrow> local_state \<Rightarrow> (exn + int) \<times> local_state" where
  "free_port 0 w s = (Inl WorkerStartFailed, s)"
| "free_port (Suc k) w s =
     (let port = lw_probe w (ls_tick s);
          held = filter (\<lambda>(p, l). lw_running w (ls_tick s) l) (ls_ports s);
          s1 = s\<lparr>ls_tick := Suc (ls_tick s), ls_ports := held\<rparr>
      in if port \<notin> fst ` set held then (Inr port, s1) else free_port k w s1)"

text \<open>\<open>_launch\<close> and the record of its port, which the lock makes one move with the choice of the port.\<close>

definition launch ::
  "local_world \<Rightarrow> local_settings \<Rightarrow> cog_package \<Rightarrow> string list \<Rightarrow> string \<Rightarrow> string \<Rightarrow> string \<Rightarrow> int \<Rightarrow> local_state \<Rightarrow> (exn + nat) \<times> local_state" where
  "launch w cfg pkg command r inst token port s =
     (case lw_popen w (ls_tick s) command
             (worker_environment (lw_environ w) (map_option (\<lambda>wanted. deliver wanted (lw_environ w) (pkg_name pkg)) (lc_wanted cfg))
               (pkg_name pkg) r port token) of
        Inl x \<Rightarrow> (Inl x, s\<lparr>ls_tick := Suc (ls_tick s)\<rparr>)
      | Inr l \<Rightarrow> (Inr l, s\<lparr>ls_tick := Suc (ls_tick s), ls_ports := (port, l) # filter (\<lambda>(p, _). p \<noteq> port) (ls_ports s),
                           ls_log := ls_log s @ [LaunchedOn l port]\<rparr>))"

text \<open>\<open>_wait_ready\<close>, with fuel; a look reads the clock, asks the launcher, then \<open>/healthz\<close>.\<close>

fun local_wait :: "nat \<Rightarrow> local_world \<Rightarrow> nat \<Rightarrow> int \<Rightarrow> int \<Rightarrow> local_state \<Rightarrow> ((exn + unit) \<times> local_state) option" where
  "local_wait 0 w l port deadline s = None"
| "local_wait (Suc fuel) w l port deadline s =
     (let n = ls_tick s; s1 = s\<lparr>ls_tick := Suc n\<rparr>
      in if deadline \<le> lw_monotonic w n then Some (Inl WorkerStartFailed, s1)
         else if \<not> lw_running w n l then Some (Inl WorkerStartFailed, s1)
         else if lw_healthz w n port = Some 200 then Some (Inr (), s1)
         else local_wait fuel w l port deadline s1)"

record local_worker =
  lwk_cog :: string
  lwk_name :: string
  lwk_url :: string
  lwk_launcher :: nat
  lwk_details :: payload
  lwk_token :: string

definition stop_launcher :: "nat \<Rightarrow> local_state \<Rightarrow> local_state" where
  "stop_launcher l s = s\<lparr>ls_log := ls_log s @ [StoppedLauncher l]\<rparr>"

text \<open>\<open>_hand_over\<close>: any failure stops the launcher.\<close>

definition hand_over ::
  "nat \<Rightarrow> local_world \<Rightarrow> local_settings \<Rightarrow> string \<Rightarrow> string \<Rightarrow> string \<Rightarrow> cog_package \<Rightarrow> int \<Rightarrow> string \<Rightarrow> nat \<Rightarrow> local_state \<Rightarrow>
   ((exn + local_worker) \<times> local_state) option" where
  "hand_over fuel w cfg cog r inst pkg port token l s =
     (let s1 = s\<lparr>ls_tick := Suc (ls_tick s)\<rparr>
      in case lw_first_line w (ls_tick s) l of
           Inl x \<Rightarrow> Some (Inl x, stop_launcher l s1)
         | Inr started \<Rightarrow>
             if map_of started ''pid'' = None then Some (Inl WorkerStartFailed, stop_launcher l s1)
             else case map_of started ''pgid'' of
               None \<Rightarrow> Some (Inl KeyError, stop_launcher l s1)
             | Some pgid \<Rightarrow>
                 let worker = \<lparr>lwk_cog = cog, lwk_name = r @ '':'' @ inst, lwk_url = ''http://'' @ LOOPBACK @ '':'' @ show_int port,
                       lwk_launcher = l,
                       lwk_details = [(''location'', PStr ''local''),
                         (''package'', PDict [(''name'', PStr (pkg_name pkg)), (''digest'', PStr (pkg_digest pkg))]),
                         (''pid'', py_get started ''pid''), (''pgid'', pgid),
                         (''logs'', PStr (join_slash (lx_work_dir (lc_executor cfg) @
                            [segment (lw_sha256 w) r, segment (lw_sha256 w) (if inst = [] then cog else inst)])))],
                       lwk_token = token\<rparr>
                 in case local_wait fuel w l port (lw_monotonic w (Suc (ls_tick s)) + lc_ready_timeout cfg) (s1\<lparr>ls_tick := Suc (ls_tick s1)\<rparr>) of
                      None \<Rightarrow> None
                    | Some (Inl x, u) \<Rightarrow> Some (Inl x, stop_launcher l u)
                    | Some (Inr _, u) \<Rightarrow> Some (Inr worker, u))"

definition local_materialize ::
  "nat \<Rightarrow> local_world \<Rightarrow> local_settings \<Rightarrow> string \<Rightarrow> string \<Rightarrow> string \<Rightarrow> local_state \<Rightarrow> ((exn + local_worker) \<times> local_state) option" where
  "local_materialize fuel w cfg cog r inst s =
     (case bind_result (resolve_package (lw_fs w) (lx_source (lc_executor cfg)) cog) (\<lambda>pkg.
             bind_result (worker_command w cfg pkg) (\<lambda>command. Inr (pkg, command))) of
        Inl x \<Rightarrow> Some (Inl x, s)
      | Inr (pkg, command) \<Rightarrow>
          (let token = lw_token w (ls_tick s); s0 = s\<lparr>ls_tick := Suc (ls_tick s)\<rparr>
           in case free_port 64 w s0 of
                (Inl x, s1) \<Rightarrow> Some (Inl x, s1)
              | (Inr port, s1) \<Rightarrow>
                  (case launch w cfg pkg command r inst token port s1 of
                     (Inl x, s2) \<Rightarrow> Some (Inl x, s2)
                   | (Inr l, s2) \<Rightarrow> hand_over fuel w cfg cog r inst pkg port token l s2)))"

definition local_teardown :: "local_worker \<Rightarrow> local_state \<Rightarrow> local_state" where
  "local_teardown worker s = stop_launcher (lwk_launcher worker) s"

subsection \<open>The theorems\<close>

text \<open>
  Waiting for a local worker ends: as long as the clock advances between looks, within as many
  looks as the timeout has ticks; so a start always returns, with a worker or with an exception.
\<close>

lemma local_wait_ends:
  assumes "\<And>n. lw_monotonic w n < lw_monotonic w (Suc n)" and "deadline \<le> lw_monotonic w (ls_tick s) + int fuel"
  shows "\<exists>y. local_wait (Suc fuel) w l port deadline s = Some y"
  using assms(2)
proof (induction fuel arbitrary: s)
  case (Suc fuel)
  have "deadline \<le> lw_monotonic w (Suc (ls_tick s)) + int fuel" using Suc.prems assms(1) [of "ls_tick s"] by simp
  then show ?case using Suc.IH [of "s\<lparr>ls_tick := Suc (ls_tick s)\<rparr>"] by (simp add: Let_def)
qed (simp add: Let_def)

lemma local_start_ends:
  assumes "\<And>n. lw_monotonic w n < lw_monotonic w (Suc n)"
  shows "\<exists>y. local_materialize (Suc (nat (lc_ready_timeout cfg))) w cfg cog r inst s = Some y"
proof -
  have wait: "local_wait (Suc (nat (lc_ready_timeout cfg))) w l port (lw_monotonic w n + lc_ready_timeout cfg) (u\<lparr>ls_tick := Suc n\<rparr>) \<noteq> None"
    for l port n and u :: local_state
    using local_wait_ends [OF assms, of "lw_monotonic w n + lc_ready_timeout cfg" "u\<lparr>ls_tick := Suc n\<rparr>" "nat (lc_ready_timeout cfg)" l port] assms [of n]
    by auto
  have "\<exists>y. hand_over (Suc (nat (lc_ready_timeout cfg))) w cfg cog r inst pkg port token l u = Some y" for pkg port token l u
    using wait [of l port "Suc (ls_tick u)" u] by (auto simp: hand_over_def Let_def simp del: local_wait.simps split: sum.split option.split)
  then show ?thesis by (auto simp: local_materialize_def Let_def split: sum.split prod.split)
qed
lemma picked_get: "map_of (picked names environ) n = (if n \<in> set names then map_of environ n else None)"
proof -
  let ?f = "\<lambda>d n. case map_of environ n of None \<Rightarrow> d | Some v \<Rightarrow> AList.update n v d"
  have "map_of (foldl ?f d names) n = (if n \<in> set names \<and> map_of environ n \<noteq> None then map_of environ n else map_of d n)" for d
    by (induction names arbitrary: d) (auto split: option.splits)
  then show ?thesis by (auto simp: picked_def)
qed

lemma merged_get:
  assumes "distinct (map fst e)"
  shows "map_of (merged d e) n = (case map_of e n of Some v \<Rightarrow> Some v | None \<Rightarrow> map_of d n)"
  using assms
proof (induction e arbitrary: d)
  case (Cons x e)
  obtain a b where x: "x = (a, b)" by (cases x)
  have "map_of e a = None" using Cons.prems x by (simp add: map_of_eq_None_iff)
  moreover have "map_of (merged (AList.update a b d) e) n = (case map_of e n of Some v \<Rightarrow> Some v | None \<Rightarrow> map_of (AList.update a b d) n)"
    using Cons by simp
  ultimately show ?case using x by (auto simp: merged_def split: option.split)
qed (simp add: merged_def)

lemma picked_distinct: "distinct (map fst (picked names environ))"
proof -
  let ?f = "\<lambda>d n. case map_of environ n of None \<Rightarrow> d | Some v \<Rightarrow> AList.update n v d"
  have "distinct (map fst d) \<Longrightarrow> distinct (map fst (foldl ?f d names))" for d
    by (induction names arbitrary: d) (auto split: option.split intro: distinct_update)
  then show ?thesis by (simp add: picked_def)
qed

lemma wanted_from_get:
  assumes "wanted_from wanted specs = Inr wanted'" and "map_of wanted' cog = Some ns" and "n \<in> set ns"
  shows "(\<exists>ms. map_of wanted cog = Some ms \<and> n \<in> set ms) \<or> cog @ '':'' @ n \<in> set specs"
  using assms
proof (induction specs arbitrary: wanted)
  case (Cons spec specs)
  let ?cog = "takeWhile (\<lambda>c. c \<noteq> CHR '':'') spec" and ?name = "drop 1 (dropWhile (\<lambda>c. c \<noteq> CHR '':'') spec)"
  let ?w = "AList.update ?cog ((case map_of wanted ?cog of None \<Rightarrow> [] | Some ns \<Rightarrow> ns) @ [?name]) wanted"
  from Cons.prems(1) have ne: "?name \<noteq> []" and more: "wanted_from ?w specs = Inr wanted'" by (auto simp: Let_def split: if_splits)
  let ?d = "dropWhile (\<lambda>c. c \<noteq> CHR '':'') spec"
  have d: "?d \<noteq> []" using ne by (metis drop_Nil)
  have rest: "?d = CHR '':'' # ?name" using hd_dropWhile [OF d] d by (metis One_nat_def drop0 drop_Suc list.collapse)
  have "spec = ?cog @ dropWhile (\<lambda>c. c \<noteq> CHR '':'') spec" by simp
  then have spec: "spec = ?cog @ '':'' @ ?name" using rest by simp
  from Cons.IH [OF more Cons.prems(2,3)] show ?case using spec by (auto split: if_splits option.splits)
qed simp

text \<open>
  A worker's environment is confined.  Every variable a local worker is started with is one of the
  seam's own, with the seam's value, or has the value the controller's environment has for it and is
  either on the short list every worker inherits or was named for that very Cog with
  \<open>--deliver COG:NAME\<close>.  So nothing delivered to one Cog reaches a worker of another.
\<close>

theorem worker_environment_is_confined:
  assumes "deliveries specs = Inr wanted"
    and "map_of (worker_environment environ (Some (deliver wanted environ cog)) cog r port token) n = Some v"
  shows "map_of (seam_variables cog r port token) n = Some v \<or>
    map_of environ n = Some v \<and> (n \<in> set INHERITED \<or> cog @ '':'' @ n \<in> set specs)"
proof -
  have d: "distinct (map fst (seam_variables cog r port token))" by (simp add: seam_variables_def RUN_TOKEN_ENV_def)
  have "n \<in> set ns \<Longrightarrow> map_of wanted cog = Some ns \<Longrightarrow> cog @ '':'' @ n \<in> set specs" for ns
    using wanted_from_get [OF assms(1) [unfolded deliveries_def]] by fastforce
  then have named: "map_of (deliver wanted environ cog) n = Some u \<Longrightarrow> map_of environ n = Some u \<and> cog @ '':'' @ n \<in> set specs" for u
    by (auto simp: deliver_def picked_get split: if_splits option.splits)
  have dd: "distinct (map fst (deliver wanted environ cog))" by (simp add: deliver_def picked_distinct)
  from assms(2) show ?thesis
    using named picked_get [of INHERITED environ n]
    by (auto simp: worker_environment_def merged_get [OF d] merged_get [OF dd]
        split: option.splits if_splits)
qed

theorem worker_environment_is_confined_witness:
  "\<exists>wanted. deliveries [''hello:API_KEY'', ''other:SECRET''] = Inr wanted \<and>
     map_of (worker_environment [(''PATH'', ''/bin''), (''API_KEY'', ''k''), (''SECRET'', ''s'')]
       (Some (deliver wanted [(''PATH'', ''/bin''), (''API_KEY'', ''k''), (''SECRET'', ''s'')] ''hello'')) ''hello'' ''r'' 4242 ''tok'') ''API_KEY'' = Some ''k'' \<and>
     ''hello'' @ '':'' @ ''API_KEY'' \<in> set [''hello:API_KEY'', ''other:SECRET'']"
proof -
  let ?env = "[(''PATH'', ''/bin''), (''API_KEY'', ''k''), (''SECRET'', ''s'')]"
  have w: "deliveries [''hello:API_KEY'', ''other:SECRET''] = Inr [(''hello'', [''API_KEY'']), (''other'', [''SECRET''])]" by code_simp
  have v: "map_of (worker_environment ?env (Some (deliver [(''hello'', [''API_KEY'']), (''other'', [''SECRET''])] ?env ''hello'')) ''hello'' ''r'' 4242 ''tok'') ''API_KEY'' = Some ''k''"
    by code_simp
  have "map_of (seam_variables ''hello'' ''r'' 4242 ''tok'') ''API_KEY'' = None" "''API_KEY'' \<notin> set INHERITED" by code_simp+
  then show ?thesis using worker_environment_is_confined [OF w v] w v by auto
qed

subsection \<open>Ports and processes\<close>

lemma free_port_held:
  assumes "free_port k w s = (res, t)"
  shows "ls_log t = ls_log s \<and> ls_tick s \<le> ls_tick t \<and> (\<forall>port. res = Inr port \<longrightarrow> port \<notin> fst ` set (ls_ports t)) \<and>
    (\<forall>p l. (p, l) \<in> set (ls_ports s) \<longrightarrow> (p, l) \<in> set (ls_ports t) \<or> (\<exists>m\<le>ls_tick t. \<not> lw_running w m l))"
  using assms
proof (induction k arbitrary: s)
  case (Suc k)
  let ?held = "filter (\<lambda>(p, l). lw_running w (ls_tick s) l) (ls_ports s)"
  let ?s = "s\<lparr>ls_tick := Suc (ls_tick s), ls_ports := ?held\<rparr>"
  have kept: "(p, l) \<in> set ?held \<or> \<not> lw_running w (ls_tick s) l" if "(p, l) \<in> set (ls_ports s)" for p l using that by auto
  show ?case
  proof (cases "lw_probe w (ls_tick s) \<notin> fst ` set ?held")
    case True
    then have "res = Inr (lw_probe w (ls_tick s))" "t = ?s" using Suc.prems by (auto simp: Let_def)
    then show ?thesis using True kept by (auto intro!: exI [of _ "ls_tick s"])
  next
    case False
    then have "free_port k w ?s = (res, t)" using Suc.prems by (simp add: Let_def)
    from Suc.IH [OF this] have ih: "ls_log t = ls_log s" "Suc (ls_tick s) \<le> ls_tick t"
      "\<forall>port. res = Inr port \<longrightarrow> port \<notin> fst ` set (ls_ports t)"
      "\<And>p l. (p, l) \<in> set ?held \<Longrightarrow> (p, l) \<in> set (ls_ports t) \<or> (\<exists>m\<le>ls_tick t. \<not> lw_running w m l)" by simp_all
    have "(p, l) \<in> set (ls_ports t) \<or> (\<exists>m\<le>ls_tick t. \<not> lw_running w m l)" if "(p, l) \<in> set (ls_ports s)" for p l
      using kept [OF that] ih(4) [of p l] ih(2) by (meson Suc_leD)
    then show ?thesis using ih(1-3) by (auto dest: Suc_leD)
  qed
qed auto

lemma local_wait_keeps:
  "local_wait fuel w l port deadline s = Some (res, t) \<Longrightarrow> ls_log t = ls_log s \<and> ls_tick s \<le> ls_tick t"
proof (induction fuel arbitrary: s)
  case (Suc fuel)
  then show ?case by (fastforce simp: Let_def split: if_splits dest: Suc_leD)
qed simp

lemma hand_over_outcome:
  assumes "hand_over fuel w cfg cog r inst pkg port token l s = Some (res, u)"
  shows "ls_tick s \<le> ls_tick u \<and> ls_log u = ls_log s @ (if is_ok res then [] else [StoppedLauncher l]) \<and>
    (\<forall>worker. res = Inr worker \<longrightarrow> lwk_launcher worker = l \<and> lwk_token worker = token)"
proof (cases "lw_first_line w (ls_tick s) l")
  case (Inl x)
  then show ?thesis using assms by (auto simp: hand_over_def Let_def stop_launcher_def)
next
  case (Inr started)
  let ?s = "s\<lparr>ls_tick := Suc (Suc (ls_tick s))\<rparr>" and ?deadline = "lw_monotonic w (Suc (ls_tick s)) + lc_ready_timeout cfg"
  show ?thesis
  proof (cases "map_of started ''pid'' = None \<or> map_of started ''pgid'' = None")
    case True
    then show ?thesis using assms Inr by (auto simp: hand_over_def Let_def stop_launcher_def split: option.splits if_splits)
  next
    case False
    then obtain z v where z: "local_wait fuel w l port ?deadline ?s = Some (z, v)"
      and out: "z = Inr () \<and> u = v \<and> (\<exists>worker. res = Inr worker \<and> lwk_launcher worker = l \<and> lwk_token worker = token) \<or>
        (\<exists>x. z = Inl x \<and> res = Inl x \<and> u = stop_launcher l v)"
      using assms Inr by (auto simp: hand_over_def Let_def split: option.splits sum.splits)
    from local_wait_keeps [OF z] out show ?thesis by (auto simp: stop_launcher_def)
  qed
qed

text \<open>Every way through a materialization: nothing started, or one launcher on a port nobody held.\<close>

lemma local_materialize_outcome:
  assumes "local_materialize fuel w cfg cog r inst s = Some (res, u)"
  shows "ls_tick s \<le> ls_tick u \<and>
    (ls_log u = ls_log s \<and> \<not> is_ok res \<or>
     (\<exists>l port. ls_log u = ls_log s @ [LaunchedOn l port] @ (if is_ok res then [] else [StoppedLauncher l]) \<and>
        (\<forall>worker. res = Inr worker \<longrightarrow> lwk_launcher worker = l) \<and>
        (\<forall>l'. (port, l') \<in> set (ls_ports s) \<longrightarrow> (\<exists>m\<le>ls_tick u. \<not> lw_running w m l'))))"
proof (cases "bind_result (resolve_package (lw_fs w) (lx_source (lc_executor cfg)) cog) (\<lambda>pkg.
             bind_result (worker_command w cfg pkg) (\<lambda>command. Inr (pkg, command)))")
  case (Inl x)
  then show ?thesis using assms by (auto simp: local_materialize_def)
next
  case (Inr pc)
  obtain pkg command where pc: "pc = (pkg, command)" by (cases pc)
  let ?token = "lw_token w (ls_tick s)" and ?s0 = "s\<lparr>ls_tick := Suc (ls_tick s)\<rparr>"
  obtain y s1 where y: "free_port 64 w ?s0 = (y, s1)" by (cases "free_port 64 w ?s0")
  have held: "ls_log s1 = ls_log s" "ls_tick s \<le> ls_tick s1" "\<And>port. y = Inr port \<Longrightarrow> port \<notin> fst ` set (ls_ports s1)"
    "\<And>p l. (p, l) \<in> set (ls_ports s) \<Longrightarrow> (p, l) \<in> set (ls_ports s1) \<or> (\<exists>m\<le>ls_tick s1. \<not> lw_running w m l)"
    using free_port_held [OF y] by (auto dest: Suc_leD)
  show ?thesis
  proof (cases y)
    case (Inl x)
    then show ?thesis using assms Inr pc y held by (auto simp: local_materialize_def Let_def)
  next
    case port: (Inr port)
    obtain z s2 where z: "launch w cfg pkg command r inst ?token port s1 = (z, s2)" by (cases "launch w cfg pkg command r inst ?token port s1")
    show ?thesis
    proof (cases z)
      case (Inl x)
      then have "ls_log s2 = ls_log s1" "ls_tick s1 \<le> ls_tick s2" using z by (auto simp: launch_def split: sum.splits)
      moreover have "res = Inl x" "u = s2" using assms Inr pc y port z Inl by (simp_all add: local_materialize_def Let_def)
      ultimately show ?thesis using held by auto
    next
      case started: (Inr l)
      then have s2: "ls_log s2 = ls_log s1 @ [LaunchedOn l port]" "ls_tick s1 \<le> ls_tick s2" using z by (auto simp: launch_def split: sum.splits)
      have h: "hand_over fuel w cfg cog r inst pkg port ?token l s2 = Some (res, u)"
        using assms Inr pc y port z started by (simp add: local_materialize_def Let_def)
      note out = hand_over_outcome [OF h]
      have free: "\<exists>m\<le>ls_tick u. \<not> lw_running w m l'" if was: "(port, l') \<in> set (ls_ports s)" for l'
      proof -
        have "(port, l') \<notin> set (ls_ports s1)" using held(3) [OF port] by (metis fst_conv imageI)
        then obtain m where "m \<le> ls_tick s1" "\<not> lw_running w m l'" using held(4) [OF was] by blast
        then show ?thesis using s2(2) out by (meson order_trans)
      qed
      have "ls_log u = ls_log s @ [LaunchedOn l port] @ (if is_ok res then [] else [StoppedLauncher l])" using out s2(1) held by simp
      moreover have "ls_tick s \<le> ls_tick u" using held s2(2) out by simp
      ultimately show ?thesis using free out by blast
    qed
  qed
qed

text \<open>
  C35: a start that fails leaves no process: a local materialization starts at most one launcher, on a
  port whose earlier launchers have all ended, and if it then raises it has stopped that launcher;
  if it returns, the worker it hands over is that launcher's.
\<close>

theorem failed_starts_leave_no_process:
  assumes "local_materialize fuel w cfg cog r inst s = Some (res, u)"
    and "\<And>m n l. m \<le> n \<Longrightarrow> \<not> lw_running w m l \<Longrightarrow> \<not> lw_running w n l"
  shows "(ls_log u = ls_log s \<and> \<not> is_ok res) \<or>
    (\<exists>l port. ls_log u = ls_log s @ [LaunchedOn l port] @ (if is_ok res then [] else [StoppedLauncher l]) \<and>
       (\<forall>worker. res = Inr worker \<longrightarrow> lwk_launcher worker = l) \<and>
       (\<forall>l'. (port, l') \<in> set (ls_ports s) \<longrightarrow> \<not> lw_running w (ls_tick u) l'))"
  using local_materialize_outcome [OF assms(1)] assms(2) by metis

definition small_local :: local_world where
  "small_local =
     \<lparr>lw_fs = small_fs, lw_environ = [(''PATH'', ''/bin'')], lw_probe = (\<lambda>n. 4000 + int n), lw_running = (\<lambda>n l. l = 7),
      lw_popen = (\<lambda>n c e. Inr 7), lw_first_line = (\<lambda>n l. Inr [(''error'', PStr ''OSError'')]),
      lw_healthz = (\<lambda>n p. None), lw_monotonic = int, lw_which = Some, lw_shlex = (\<lambda>s. Inr [s]),
      lw_sha256 = (\<lambda>_. ''0123456789abcdef0''), lw_token = show_nat\<rparr>"

definition small_settings :: local_settings where
  "small_settings = \<lparr>lc_executor = \<lparr>lx_source = small_source, lx_work_dir = [''tmp''], lx_environment = ''pixi''\<rparr>,
     lc_pixi = ''pixi'', lc_wanted = None, lc_ready_timeout = 2\<rparr>"

theorem failed_starts_leave_no_process_witness:
  "\<exists>res u l port. local_materialize 9 small_local small_settings ''demo/hello'' ''r'' ''i'' \<lparr>ls_tick = 0, ls_ports = [(4001, 3)], ls_log = []\<rparr> = Some (res, u) \<and>
     \<not> is_ok res \<and> ls_log u = [LaunchedOn l port, StoppedLauncher l] \<and> \<not> lw_running small_local (ls_tick u) 3"
proof -
  let ?s = "\<lparr>ls_tick = 0, ls_ports = [(4001, 3)], ls_log = []\<rparr>"
  let ?m = "local_materialize 9 small_local small_settings ''demo/hello'' ''r'' ''i'' ?s"
  have "case ?m of Some (res, u) \<Rightarrow> \<not> is_ok res \<and> length (ls_log u) = 2 | None \<Rightarrow> False" by code_simp
  then obtain res u where m: "?m = Some (res, u)" "\<not> is_ok res" "length (ls_log u) = 2" by (auto split: option.splits)
  have "\<not> lw_running small_local n 3" for n by (simp add: small_local_def)
  moreover have "\<And>k n l. k \<le> n \<Longrightarrow> \<not> lw_running small_local k l \<Longrightarrow> \<not> lw_running small_local n l" by (simp add: small_local_def)
  ultimately show ?thesis using failed_starts_leave_no_process [OF m(1)] m by auto
qed

text \<open>A segment is bounded, is one file name, and is no name a path treats specially.\<close>

lemma segment_is_a_file_name:
  assumes "\<And>x. CHR ''/'' \<notin> set (sha256 x)"
  shows "length (segment sha256 v) \<le> 57 \<and> CHR ''/'' \<notin> set (segment sha256 v) \<and> segment sha256 v \<notin> {[], ''.'', ''..''}"
proof -
  let ?raw = "take 40 (map (\<lambda>c. if ascii_alnum c \<or> label_edge c then c else CHR ''_'') v)"
  let ?p = "strip_where (\<lambda>c. c = CHR ''.'') ?raw"
  have len: "length ?p \<le> 40" using length_strip_where [of "\<lambda>c. c = CHR ''.''" ?raw] by simp
  have "CHR ''/'' \<notin> set ?raw" by (auto dest!: in_set_takeD simp: ascii_alnum_def label_edge_def split: if_splits)
  then have "CHR ''/'' \<notin> set ?p" using set_strip_where by blast
  moreover have "CHR ''/'' \<notin> set (take 16 (sha256 (Plain v)))" using assms by (meson in_set_takeD)
  moreover have "segment sha256 v = (if ?p = [] then ''_'' else ?p) @ ''-'' @ take 16 (sha256 (Plain v))" by (simp add: segment_def Let_def)
  ultimately have "length (segment sha256 v) \<le> 57" "CHR ''/'' \<notin> set (segment sha256 v)" "CHR ''-'' \<in> set (segment sha256 v)"
    using len by (simp_all add: min_def)
  then show ?thesis by auto
qed

end
