(* ===== verification/Auth.thy ===== *)
theory Auth
  imports PyValues
begin

section \<open>The caller (frames/auth.py)\<close>

text \<open>
  What a request was authenticated as, as the run API and the frames API read it.  How a token
  becomes an \<open>AuthContext\<close> is not modelled.  \<open>NoOrganizationError\<close> is a subclass of FastAPI's
  \<open>HTTPException\<close> with a handler of its own.
\<close>

record auth_context =
  au_user :: string
  home_org_id :: "string option"
  workspace_id :: string
  display_name :: "string option"
  display_email :: "string option"

definition NoOrganizationError :: exn where "NoOrganizationError = Raised ''NoOrganizationError'' []"

text \<open>\<open>AuthContext.org_id\<close>.\<close>

definition auth_org_id :: "auth_context \<Rightarrow> exn + string" where
  "auth_org_id auth = (case home_org_id auth of None \<Rightarrow> Inl NoOrganizationError | Some o' \<Rightarrow> Inr o')"

end
