(* ===== verification/RunRoutes.thy ===== *)
theory RunRoutes
  imports RunViews Packages Auth
begin

section \<open>The run API (routers/runs.py)\<close>

text \<open>
  The handlers behind \<open>/v1/runs\<close>: they write intents to the Track and answer from the views.  A
  request is modelled as the request model has typed it; the checks of its fields (FastAPI and
  pydantic answer 422 without calling the handler) are the \<open>valid_\<close> predicates.  An error is its
  status, its code and its details; its message, and the JSON of a reply, are not modelled.  The
  id \<open>uuid4().hex\<close> and the event's clock are arguments.  The route layer above, which turns a
  \<open>NoOrganizationError\<close> into a 403, is not under these handlers: they raise it.
\<close>

subsection \<open>The service\<close>

record 's run_service =
  rs_track :: 's
  rs_views :: views
  rs_packages :: "package_source option"
  rs_backend :: string
  rs_location :: string

record runs_config =
  track_path :: "string option"
  cfg_packages :: "path list"
  cfg_allow :: "string list option"
  cfg_backend :: string
  cfg_location :: string

text \<open>\<open>build_run_service\<close>; \<open>store_at\<close> is the store in the file a path names, its schema ensured.\<close>

definition build_run_service :: "filesystem \<Rightarrow> (string \<Rightarrow> 's) \<Rightarrow> runs_config \<Rightarrow> exn + 's run_service" where
  "build_run_service fs store_at config =
     (case track_path config of
        None \<Rightarrow> Inl (Raised ''RuntimeError'' [])
      | Some file \<Rightarrow>
          if file = [] then Inl (Raised ''RuntimeError'' [])
          else
            bind_result (if cfg_packages config = [] then Inr None
                         else bind_result (new_source fs (cfg_packages config) (cfg_allow config)) (\<lambda>s. Inr (Some s)))
              (\<lambda>packages.
                Inr \<lparr>rs_track = store_at file, rs_views = [], rs_packages = packages,
                     rs_backend = cfg_backend config, rs_location = cfg_location config\<rparr>))"

definition service_launchable :: "filesystem \<Rightarrow> 's run_service \<Rightarrow> exn + string list" where
  "service_launchable fs svc = (case rs_packages svc of None \<Rightarrow> Inr [] | Some src \<Rightarrow> package_names fs src)"

text \<open>Why a Cog cannot be launched: no directory is configured, or what the source said.\<close>

datatype refusal = NoPackageDirectory | Because exn

definition service_refusal :: "filesystem \<Rightarrow> 's run_service \<Rightarrow> string \<Rightarrow> exn + refusal option" where
  "service_refusal fs svc cog =
     (case rs_packages svc of
        None \<Rightarrow> Inr (Some NoPackageDirectory)
      | Some src \<Rightarrow>
          (case resolve_package fs src cog of
             Inr _ \<Rightarrow> Inr None
           | Inl x \<Rightarrow> if x = PackageRefused \<or> x = PackageNotFound then Inr (Some (Because x)) else Inl x))"

subsection \<open>Requests\<close>

record gate_request =
  gq_escalate :: string
  gq_approvers :: "string list"

record step_request =
  sq_name :: string
  sq_cog :: string
  sq_entry_point :: string
  sq_input :: pyval
  sq_gate :: gate_request

record run_request =
  rq_steps :: "step_request list"
  rq_name :: "string option"

definition valid_gate_request :: "gate_request \<Rightarrow> bool" where
  "valid_gate_request g = (gq_escalate g \<in> set POLICIES)"

definition length_in :: "nat \<Rightarrow> nat \<Rightarrow> 'a list \<Rightarrow> bool" where
  "length_in a b xs = (a \<le> length xs \<and> length xs \<le> b)"

definition valid_step_request :: "step_request \<Rightarrow> bool" where
  "valid_step_request s =
     (length_in 1 128 (sq_name s) \<and> length_in 1 257 (sq_cog s) \<and> length_in 1 128 (sq_entry_point s) \<and> valid_gate_request (sq_gate s))"

text \<open>The label's pattern, \<open>^[A-Za-z0-9][A-Za-z0-9 ._-]*$\<close>; pydantic's \<open>$\<close> is the end of the text.\<close>

definition label_matches :: "string \<Rightarrow> bool" where
  "label_matches s =
     (case s of [] \<Rightarrow> False | c # r \<Rightarrow> ascii_alnum c \<and> list_all (\<lambda>x. ascii_alnum x \<or> x \<in> set '' ._-'') r)"

definition valid_run_request :: "run_request \<Rightarrow> bool" where
  "valid_run_request b =
     (length_in 1 64 (rq_steps b) \<and> list_all valid_step_request (rq_steps b) \<and> distinct (map sq_name (rq_steps b)) \<and>
      (case rq_name b of None \<Rightarrow> True | Some n \<Rightarrow> length_in 1 64 n \<and> label_matches n))"

text \<open>\<open>RUN_ID_PATTERN\<close>, and the pattern of a turn's id.\<close>

definition run_id_matches :: "string \<Rightarrow> bool" where
  "run_id_matches r = name_segment r"

definition turn_id_matches :: "string \<Rightarrow> bool" where
  "turn_id_matches s = (length s = 12 \<and> list_all (\<lambda>c. c \<in> set ''0123456789abcdef'') s)"

definition valid_turn_text :: "string \<Rightarrow> bool" where
  "valid_turn_text s = length_in 1 MAX_TURN_TEXT s"

subsection \<open>Replies\<close>

record step_status =
  ss_name :: string
  ss_cog :: string
  ss_entry_point :: string
  ss_state :: string
  ss_attempt :: pyval
  ss_error :: pyval
  ss_output :: pyval
  ss_output_ref :: pyval

record run_status =
  ru_id :: string
  ru_status :: string
  ru_ended :: bool
  ru_steps :: "step_status list"
  ru_submitted_by :: pyval
  ru_name :: pyval
  ru_submitted_by_name :: pyval
  ru_submitted_at :: int
  ru_updated_at :: int
  ru_cancel_requested_by :: pyval
  ru_error :: pyval
  ru_reason :: pyval
  ru_backend :: string
  ru_location :: string

record turn_status =
  ts_turn :: pyval
  ts_text :: pyval
  ts_state :: string
  ts_answer :: pyval
  ts_error :: pyval
  ts_asked_by :: pyval

record run_page =
  pg_items :: "run_status list"
  pg_next_offset :: "nat option"

text \<open>The states \<open>StepStatus\<close> and \<open>TurnStatus\<close> declare.\<close>

definition STEP_STATES :: "string list" where
  "STEP_STATES = [''pending'', ''running'', ''completed'', ''failed'', ''waiting_at_gate'', ''cancelled'', ''interrupted'',
     ''budget_exceeded'', ''rejected'']"

definition TURN_STATES :: "string list" where
  "TURN_STATES = [''pending'', ''answered'', ''failed'']"

datatype 'a reply =
    Reply nat 'a
  | ErrorResponse nat string "((string, refusal) dict \<times> string list) option"
  | Unprocessable
  | Raises exn

definition step_status_of :: "(string, string) dict \<Rightarrow> bool \<Rightarrow> step_view \<Rightarrow> exn + step_status" where
  "step_status_of entry_points outputs s =
     (case map_of entry_points (sv_name s) of
        None \<Rightarrow> Inl KeyError
      | Some ep \<Rightarrow>
          Inr \<lparr>ss_name = sv_name s, ss_cog = sv_cog s, ss_entry_point = ep, ss_state = sv_state s, ss_attempt = sv_attempt s,
               ss_error = sv_error s, ss_output = (if outputs then sv_output s else PNone),
               ss_output_ref = (if outputs then sv_output_ref s else PNone)\<rparr>)"

definition status_of :: "'s run_service \<Rightarrow> bool \<Rightarrow> run_view \<Rightarrow> exn + run_status" where
  "status_of svc outputs v =
     (let entry_points = foldl (\<lambda>d s. AList.update (step_name s) (entry_point s) d) [] (op_steps (v_op v))
      in bind_result (map_result (step_status_of entry_points outputs) (v_steps v)) (\<lambda>steps.
         Inr \<lparr>ru_id = v_run_id v, ru_status = run_state_name (v_state v), ru_ended = ended (v_state v), ru_steps = steps,
              ru_submitted_by = py_get (v_submitted_by v) ''user'', ru_name = v_name v,
              ru_submitted_by_name = py_get (v_submitted_by v) ''name'',
              ru_submitted_at = v_submitted_at v, ru_updated_at = v_updated_at v,
              ru_cancel_requested_by = cancel_requested_by v, ru_error = v_error v, ru_reason = v_reason v,
              ru_backend = rs_backend svc, ru_location = rs_location svc\<rparr>))"

definition replied :: "nat \<Rightarrow> exn + 'a \<Rightarrow> 'a reply" where
  "replied code res = (case res of Inl x \<Rightarrow> Raises x | Inr a \<Rightarrow> Reply code a)"

definition turn_status_of :: "turn_view \<Rightarrow> turn_status" where
  "turn_status_of v =
     \<lparr>ts_turn = tv_turn v, ts_text = tv_text v, ts_state = tv_state v, ts_answer = tv_answer v, ts_error = tv_error v,
      ts_asked_by = tv_actor v\<rparr>"

definition not_found :: "'a reply" where
  "not_found = ErrorResponse 404 ''run_not_found'' None"

subsection \<open>What a caller sees\<close>

text \<open>\<open>_visible\<close>: the caller's organization is read only when there is a run to compare it with.\<close>

definition visible ::
  "'s track_ops \<Rightarrow> 's run_service \<Rightarrow> string \<Rightarrow> auth_context \<Rightarrow> (exn + run_view option) \<times> 's run_service" where
  "visible ops svc r auth =
     (case rv_view ops (rs_track svc) (rs_views svc) r of
        (Inl x, vs) \<Rightarrow> (if x = RunUnreadable then Inr None else Inl x, svc\<lparr>rs_views := vs\<rparr>)
      | (Inr None, vs) \<Rightarrow> (Inr None, svc\<lparr>rs_views := vs\<rparr>)
      | (Inr (Some v), vs) \<Rightarrow>
          (bind_result (auth_org_id auth) (\<lambda>org.
             Inr (if py_eq (py_get (v_submitted_by v) ''org_id'') (PStr org) then Some v else None)),
           svc\<lparr>rs_views := vs\<rparr>))"

subsection \<open>The handlers\<close>

text \<open>\<open>{step.cog: reason for step in body.steps if (reason := service.refusal(step.cog)) is not None}\<close>.\<close>

definition refused_cogs :: "filesystem \<Rightarrow> 's run_service \<Rightarrow> step_request list \<Rightarrow> exn + (string, refusal) dict" where
  "refused_cogs fs svc steps =
     fold_result (\<lambda>d s. bind_result (service_refusal fs svc (sq_cog s)) (\<lambda>why.
       Inr (case why of None \<Rightarrow> d | Some y \<Rightarrow> AList.update (sq_cog s) y d))) [] steps"

definition requested_step :: "step_request \<Rightarrow> exn + op_step" where
  "requested_step s =
     bind_result (mk_gate (PStr (gq_escalate (sq_gate s))) (PList (map PStr (gq_approvers (sq_gate s))))) (\<lambda>g.
       Inr \<lparr>step_name = sq_name s, step_cog = sq_cog s, entry_point = sq_entry_point s, step_input = sq_input s,
            step_digest = None, step_gate = g\<rparr>)"

definition submitter :: "auth_context \<Rightarrow> string \<Rightarrow> payload" where
  "submitter auth org =
     [(''user'', PStr (au_user auth)), (''org_id'', PStr org), (''workspace_id'', PStr (workspace_id auth))] @
     (let name = py_or (opt_str (display_name auth)) (opt_str (display_email auth))
      in if py_truthy name then [(''name'', name)] else [])"

definition fresh_run_id :: "string \<Rightarrow> string" where
  "fresh_run_id hex = ''run-'' @ take 12 hex"

definition submit_run ::
  "'s track_ops \<Rightarrow> filesystem \<Rightarrow> 's run_service \<Rightarrow> auth_context \<Rightarrow> run_request \<Rightarrow> string \<Rightarrow> stamp \<Rightarrow>
   run_status reply \<times> 's run_service" where
  "submit_run ops fs svc auth body hex stamp =
     (if \<not> valid_run_request body then (Unprocessable, svc)
      else case refused_cogs fs svc (rq_steps body) of
        Inl x \<Rightarrow> (Raises x, svc)
      | Inr refused \<Rightarrow>
          if refused \<noteq> [] then
            (case service_launchable fs svc of
               Inl x \<Rightarrow> (Raises x, svc)
             | Inr names \<Rightarrow> (ErrorResponse 422 ''cog_not_launchable'' (Some (refused, names)), svc))
          else
            (case bind_result (map_result requested_step (rq_steps body)) (\<lambda>steps.
                  bind_result (auth_org_id auth) (\<lambda>org.
                  Inr (\<lparr>op_run_id = fresh_run_id hex, op_steps = steps\<rparr>, submitter auth org))) of
               Inl x \<Rightarrow> (Raises x, svc)
             | Inr (op, by') \<Rightarrow>
                 (case submit_intent ops (rs_track svc) op by' (rq_name body) stamp of
                    (Inl x, u) \<Rightarrow> (Raises x, svc\<lparr>rs_track := u\<rparr>)
                  | (Inr _, u) \<Rightarrow>
                      (replied 201 (bind_result (describe ops u (fresh_run_id hex)) (\<lambda>v.
                         case v of None \<Rightarrow> Inl AttributeError | Some w \<Rightarrow> status_of svc False w)),
                       svc\<lparr>rs_track := u\<rparr>))))"

text \<open>\<open>str.upper()\<close>; the names of the states are ASCII.\<close>

definition upper_char :: "char \<Rightarrow> char" where
  "upper_char c = (let n = (of_char c :: nat) in if 97 \<le> n \<and> n \<le> 122 then char_of (n - 32) else c)"

definition wanted_status :: "string option \<Rightarrow> string option" where
  "wanted_status s = (case s of None \<Rightarrow> None | Some t \<Rightarrow> if t = [] then None else Some (map upper_char t))"

definition list_runs ::
  "'s track_ops \<Rightarrow> 's run_service \<Rightarrow> auth_context \<Rightarrow> string option \<Rightarrow> nat \<Rightarrow> nat \<Rightarrow> run_page reply \<times> 's run_service" where
  "list_runs ops svc auth status limit offset =
     (if \<not> (1 \<le> limit \<and> limit \<le> 200) then (Unprocessable, svc)
      else case auth_org_id auth of
        Inl x \<Rightarrow> (Raises x, svc)
      | Inr org \<Rightarrow>
          (case rv_views ops (rs_track svc) (Some (PStr org)) (wanted_status status) (rs_views svc) of
             (Inl x, vs) \<Rightarrow> (Raises x, svc\<lparr>rs_views := vs\<rparr>)
           | (Inr found, vs) \<Rightarrow>
               (replied 200 (bind_result (map_result (status_of svc False) (take limit (drop offset found))) (\<lambda>items.
                  Inr \<lparr>pg_items = items,
                       pg_next_offset = (if offset + limit < length found then Some (offset + limit) else None)\<rparr>)),
                svc\<lparr>rs_views := vs\<rparr>)))"

definition launchable :: "filesystem \<Rightarrow> 's run_service \<Rightarrow> string list reply" where
  "launchable fs svc = replied 200 (service_launchable fs svc)"

definition get_run ::
  "'s track_ops \<Rightarrow> 's run_service \<Rightarrow> string \<Rightarrow> auth_context \<Rightarrow> run_status reply \<times> 's run_service" where
  "get_run ops svc r auth =
     (if \<not> run_id_matches r then (Unprocessable, svc)
      else case visible ops svc r auth of
        (Inl x, svc') \<Rightarrow> (Raises x, svc')
      | (Inr None, svc') \<Rightarrow> (not_found, svc')
      | (Inr (Some v), svc') \<Rightarrow> (replied 200 (status_of svc' True v), svc'))"

definition cancel_run ::
  "'s track_ops \<Rightarrow> 's run_service \<Rightarrow> string \<Rightarrow> auth_context \<Rightarrow> stamp \<Rightarrow> run_status reply \<times> 's run_service" where
  "cancel_run ops svc r auth stamp =
     (if \<not> run_id_matches r then (Unprocessable, svc)
      else case visible ops svc r auth of
        (Inl x, svc') \<Rightarrow> (Raises x, svc')
      | (Inr None, svc') \<Rightarrow> (not_found, svc')
      | (Inr (Some _), svc') \<Rightarrow>
          (case request_cancel ops (rs_track svc') r (au_user auth) stamp of
             (Inl (RunEnded _ _), u) \<Rightarrow> (ErrorResponse 409 ''run_ended'' None, svc'\<lparr>rs_track := u\<rparr>)
           | (Inl x, u) \<Rightarrow> (Raises x, svc'\<lparr>rs_track := u\<rparr>)
           | (Inr v, u) \<Rightarrow> (replied 202 (status_of svc' False v), svc'\<lparr>rs_track := u\<rparr>)))"

text \<open>\<open>except ValueError\<close>, with its subclasses.\<close>

definition is_value_error :: "exn \<Rightarrow> bool" where
  "is_value_error x = (reads_as_unreadable x \<and> x \<notin> {LookupError, KeyError, TypeError})"

definition ask_turn ::
  "'s track_ops \<Rightarrow> 's run_service \<Rightarrow> string \<Rightarrow> string \<Rightarrow> auth_context \<Rightarrow> string \<Rightarrow> stamp \<Rightarrow>
   turn_status reply \<times> 's run_service" where
  "ask_turn ops svc r words auth hex stamp =
     (if \<not> run_id_matches r \<or> \<not> valid_turn_text words then (Unprocessable, svc)
      else case visible ops svc r auth of
        (Inl x, svc') \<Rightarrow> (Raises x, svc')
      | (Inr None, svc') \<Rightarrow> (not_found, svc')
      | (Inr (Some _), svc') \<Rightarrow>
          (case request_turn ops (rs_track svc') r words (au_user auth) (take 12 hex) stamp of
             (Inl x, u) \<Rightarrow>
               ((case x of
                   RunEnded _ _ \<Rightarrow> ErrorResponse 409 ''run_ended'' None
                 | _ \<Rightarrow> if is_value_error x then ErrorResponse 422 ''turn_too_long'' None else Raises x),
                svc'\<lparr>rs_track := u\<rparr>)
           | (Inr v, u) \<Rightarrow> (Reply 202 (turn_status_of v), svc'\<lparr>rs_track := u\<rparr>)))"

definition get_turn ::
  "'s track_ops \<Rightarrow> 's run_service \<Rightarrow> string \<Rightarrow> string \<Rightarrow> auth_context \<Rightarrow> turn_status reply \<times> 's run_service" where
  "get_turn ops svc r turn auth =
     (if \<not> run_id_matches r \<or> \<not> turn_id_matches turn then (Unprocessable, svc)
      else case visible ops svc r auth of
        (Inl x, svc') \<Rightarrow> (Raises x, svc')
      | (Inr None, svc') \<Rightarrow> (not_found, svc')
      | (Inr (Some _), svc') \<Rightarrow>
          (case rv_turns ops (rs_track svc') (rs_views svc') r of
             (Inl x, vs) \<Rightarrow> (Raises x, svc'\<lparr>rs_views := vs\<rparr>)
           | (Inr ts, vs) \<Rightarrow>
               ((case key_get ts (PStr turn) of
                   None \<Rightarrow> ErrorResponse 404 ''turn_not_found'' None
                 | Some v \<Rightarrow> Reply 200 (turn_status_of v)), svc'\<lparr>rs_views := vs\<rparr>)))"

subsection \<open>Reading is replaying\<close>

text \<open>A run every reader gets an answer about: a view, none, or that it cannot be read.\<close>

definition readable :: "'s track_ops \<Rightarrow> 's \<Rightarrow> string \<Rightarrow> bool" where
  "readable ops t r \<longleftrightarrow> (\<forall>x. describe ops t r = Inl x \<longrightarrow> reads_as_unreadable x) \<and> is_ok (turns (log_of ops t r))"

definition seen_view :: "'s track_ops \<Rightarrow> 's \<Rightarrow> string \<Rightarrow> run_view option" where
  "seen_view ops t r = (case describe ops t r of Inl _ \<Rightarrow> None | Inr v \<Rightarrow> v)"

context track_store
begin

lemma refresh_readable:
  assumes "inv t" and "views_ok ops t vs" and "readable ops t r"
  obtains k vs' where "refresh ops t vs r = (Inr k, vs')" "views_ok ops t vs'" "k_view k = seen_view ops t r"
    "unreadable k \<longrightarrow> seen_view ops t r = None"
proof -
  obtain res vs' where f: "refresh ops t vs r = (res, vs')" by (cases "refresh ops t vs r")
  have d: "describe ops t r = view_of r (map upgrade (log_of ops t r))" by (simp add: describe_def log_of_def)
  note out = refresh_outcome [OF assms(1,2) f]
  have "res \<noteq> Inl x" for x using out assms(3) d by (cases "turns (log_of ops t r)") (auto simp: readable_def raised_at_def)
  then obtain k where k: "res = Inr k" by (cases res) auto
  have "k_view k = seen_view ops t r \<and> (unreadable k \<longrightarrow> seen_view ops t r = None)"
  proof (cases "log_of ops t r = []")
    case True
    with out k show ?thesis by (simp add: d new_kept_def seen_view_def view_of_def replay_def)
  next
    case False
    with out k assms(3) d show ?thesis
      by (cases "view_of r (map upgrade (log_of ops t r))") (auto simp: kept_at_def seen_view_def readable_def)
  qed
  with that f k out show ?thesis by blast
qed

lemma visible_is:
  assumes "inv (rs_track svc)" and "views_ok ops (rs_track svc) (rs_views svc)" and "readable ops (rs_track svc) r"
  obtains vs where "visible ops svc r auth =
      ((case seen_view ops (rs_track svc) r of None \<Rightarrow> Inr None
        | Some v \<Rightarrow> bind_result (auth_org_id auth) (\<lambda>org.
            Inr (if py_eq (py_get (v_submitted_by v) ''org_id'') (PStr org) then Some v else None))), svc\<lparr>rs_views := vs\<rparr>)"
    "views_ok ops (rs_track svc) vs"
proof -
  obtain k vs where k: "refresh ops (rs_track svc) (rs_views svc) r = (Inr k, vs)" "views_ok ops (rs_track svc) vs"
    "k_view k = seen_view ops (rs_track svc) r" "unreadable k \<longrightarrow> seen_view ops (rs_track svc) r = None"
    using refresh_readable [OF assms] .
  then show ?thesis
    using that by (cases "seen_view ops (rs_track svc) r"; cases "unreadable k") (auto simp: visible_def rv_view_def)
qed

end

subsection \<open>Another organization's run\<close>

text \<open>
  C16: runs are scoped to the organization that submitted them.  Of a run that is not the caller's
  organization's, and of one that is not on the Track or cannot be read, every route that takes a
  run's id answers the same 404 and leaves the Track as it was: a caller cannot tell them apart,
  nor act on them.
\<close>

theorem other_organizations_see_nothing:
  assumes "sqlite_inv (rs_track svc)" and "views_ok sqlite_ops (rs_track svc) (rs_views svc)" and "readable sqlite_ops (rs_track svc) r"
    and "run_id_matches r" and "home_org_id auth = Some org"
    and "\<forall>v. describe sqlite_ops (rs_track svc) r = Inr (Some v) \<longrightarrow> \<not> py_eq (py_get (v_submitted_by v) ''org_id'') (PStr org)"
    and "valid_turn_text words" and "turn_id_matches turn"
  shows "\<exists>vs. get_run sqlite_ops svc r auth = (not_found, svc\<lparr>rs_views := vs\<rparr>) \<and>
    cancel_run sqlite_ops svc r auth stamp = (not_found, svc\<lparr>rs_views := vs\<rparr>) \<and>
    ask_turn sqlite_ops svc r words auth hex stamp = (not_found, svc\<lparr>rs_views := vs\<rparr>) \<and>
    get_turn sqlite_ops svc r turn auth = (not_found, svc\<lparr>rs_views := vs\<rparr>)"
proof -
  have hidden: "\<not> py_eq (py_get (v_submitted_by v) ''org_id'') (PStr org)" if "seen_view sqlite_ops (rs_track svc) r = Some v" for v
    using that assms(6) by (auto simp: seen_view_def split: sum.splits)
  obtain vs where "visible sqlite_ops svc r auth =
      ((case seen_view sqlite_ops (rs_track svc) r of None \<Rightarrow> Inr None
        | Some v \<Rightarrow> bind_result (auth_org_id auth) (\<lambda>org.
            Inr (if py_eq (py_get (v_submitted_by v) ''org_id'') (PStr org) then Some v else None))), svc\<lparr>rs_views := vs\<rparr>)"
    using sqlite.visible_is [OF assms(1-3)] .
  then have "visible sqlite_ops svc r auth = (Inr None, svc\<lparr>rs_views := vs\<rparr>)"
    using hidden assms(5) by (cases "seen_view sqlite_ops (rs_track svc) r") (simp_all add: auth_org_id_def)
  then show ?thesis using assms(4,7,8) by (auto simp: get_run_def cancel_run_def ask_turn_def get_turn_def)
qed

definition asked_service :: "sqlite_store run_service" where
  "asked_service = \<lparr>rs_track = asked_store, rs_views = [], rs_packages = Some small_source, rs_backend = ''none'', rs_location = ''local''\<rparr>"

definition ada :: auth_context where
  "ada = \<lparr>au_user = ''ada'', home_org_id = Some ''o1'', workspace_id = ''default'', display_name = None, display_email = None\<rparr>"

definition eve :: auth_context where
  "eve = \<lparr>au_user = ''eve'', home_org_id = Some ''o2'', workspace_id = ''default'', display_name = None, display_email = None\<rparr>"

theorem other_organizations_see_nothing_witness:
  "(\<exists>vs. cancel_run sqlite_ops asked_service ''r'' eve \<lparr>st_at = 2, st_id = ''e2''\<rparr> = (not_found, asked_service\<lparr>rs_views := vs\<rparr>)) \<and>
   fst (cancel_run sqlite_ops asked_service ''r'' ada \<lparr>st_at = 2, st_id = ''e2''\<rparr>) \<noteq> not_found"
proof -
  have "case describe sqlite_ops asked_store ''r'' of Inr (Some v) \<Rightarrow> py_get (v_submitted_by v) ''org_id'' = PStr ''o1'' | _ \<Rightarrow> False"
    by code_simp
  then obtain v where v: "describe sqlite_ops asked_store ''r'' = Inr (Some v)" "py_get (v_submitted_by v) ''org_id'' = PStr ''o1''"
    by (auto split: sum.splits option.splits)
  have "is_ok (turns (log_of sqlite_ops asked_store ''r''))" "run_id_matches ''r''" "valid_turn_text ''hi''" "turn_id_matches ''0123456789ab''"
    by code_simp+
  note facts = this
  have read: "readable sqlite_ops (rs_track asked_service) ''r''" using facts(1) v by (simp add: readable_def asked_service_def)
  have s: "rs_track asked_service = asked_store" "rs_views asked_service = []" by (simp_all add: asked_service_def)
  have ok: "sqlite_inv (rs_track asked_service)" "views_ok sqlite_ops (rs_track asked_service) (rs_views asked_service)" "home_org_id eve = Some ''o2''"
    by (simp_all add: s asked_store_inv views_ok_empty eve_def)
  have hidden: "\<forall>v. describe sqlite_ops (rs_track asked_service) ''r'' = Inr (Some v) \<longrightarrow> \<not> py_eq (py_get (v_submitted_by v) ''org_id'') (PStr ''o2'')"
    using v by (simp add: s del: py_get_simps)
  have "\<exists>vs. cancel_run sqlite_ops asked_service ''r'' eve \<lparr>st_at = 2, st_id = ''e2''\<rparr> = (not_found, asked_service\<lparr>rs_views := vs\<rparr>)"
    using other_organizations_see_nothing [OF ok(1,2) read facts(2) ok(3) hidden facts(3,4)] by blast
  moreover have "case fst (cancel_run sqlite_ops asked_service ''r'' ada \<lparr>st_at = 2, st_id = ''e2''\<rparr>) of Reply c v \<Rightarrow> True | _ \<Rightarrow> False"
    by code_simp
  ultimately show ?thesis by (auto simp: not_found_def)
qed

subsection \<open>Submitting\<close>

lemma requested_step_is:
  assumes "requested_step s = Inr t"
  shows "gate_ok (step_gate t) \<and> step_name t = sq_name s \<and> step_cog t = sq_cog s \<and> entry_point t = sq_entry_point s"
  using assms by (auto simp: requested_step_def bind_result_Inr_iff dest: mk_gate_ok)

lemma requested_steps_are:
  assumes "map_result requested_step ss = Inr ts"
  shows "list_all (\<lambda>t. gate_ok (step_gate t)) ts \<and>
    map (\<lambda>t. (step_name t, step_cog t, entry_point t)) ts = map (\<lambda>s. (sq_name s, sq_cog s, sq_entry_point s)) ss"
  using assms by (induction ss arbitrary: ts) (auto simp: bind_result_Inr_iff dest: requested_step_is)

lemma refused_cogs_none:
  assumes "refused_cogs fs svc ss = Inr []" and "s \<in> set ss"
  shows "service_refusal fs svc (sq_cog s) = Inr None"
proof -
  define f where "f = (\<lambda>d (s :: step_request). bind_result (service_refusal fs svc (sq_cog s)) (\<lambda>why.
       Inr (case why of None \<Rightarrow> d | Some y \<Rightarrow> AList.update (sq_cog s) y d)))"
  have grows: "fold_result f d ss = Inr [] \<Longrightarrow> d = [] \<and> (\<forall>s\<in>set ss. service_refusal fs svc (sq_cog s) = Inr None)" for d
  proof (induction ss arbitrary: d)
    case (Cons s ss)
    from Cons.prems obtain why where w: "service_refusal fs svc (sq_cog s) = Inr why"
      "fold_result f (case why of None \<Rightarrow> d | Some y \<Rightarrow> AList.update (sq_cog s) y d) ss = Inr []"
      by (auto simp: f_def bind_result_Inr_iff)
    from Cons.IH [OF w(2)] have "(case why of None \<Rightarrow> d | Some y \<Rightarrow> AList.update (sq_cog s) y d) = []" by blast
    moreover have "AList.update a y d \<noteq> []" for a y by (cases d) auto
    ultimately show ?case using w Cons.IH [OF w(2)] by (cases why) auto
  qed simp
  have "fold_result f [] ss = Inr []" using assms(1) unfolding refused_cogs_def f_def .
  from grows [OF this] assms(2) show ?thesis by blast
qed

lemma entry_points_of:
  assumes "distinct (map step_name steps)" and "s \<in> set steps"
  shows "map_of (foldl (\<lambda>d s. AList.update (step_name s) (entry_point s) d) [] steps) (step_name s) = Some (entry_point s)"
  using assms
proof (induction steps rule: rev_induct)
  case (snoc x xs)
  then have "s \<noteq> x \<Longrightarrow> step_name s \<noteq> step_name x" by (auto simp: image_iff)
  with snoc show ?case by (cases "s = x") auto
qed simp

definition pending_status :: "op_step \<Rightarrow> step_status" where
  "pending_status s =
     \<lparr>ss_name = step_name s, ss_cog = step_cog s, ss_entry_point = entry_point s, ss_state = ''pending'', ss_attempt = PNone,
      ss_error = PNone, ss_output = PNone, ss_output_ref = PNone\<rparr>"

lemma pending_statuses:
  assumes "distinct (map step_name steps)"
  shows "map_result (step_status_of (foldl (\<lambda>d s. AList.update (step_name s) (entry_point s) d) [] steps) outputs)
    (map pending_step steps) = Inr (map pending_status steps)"
  by (rule map_result_map_Inr)
    (simp add: step_status_of_def pending_step_def pending_status_def entry_points_of [OF assms])

text \<open>
  C17: a submission is all or nothing.  Either the answer is 201 and the Track gained exactly the
  submission of a new run, which reads SUBMITTED with every step of the request pending, under the
  caller's name, with each Cog one the package source resolves; or the answer is an error and the
  Track is as it was.
\<close>

theorem submission_is_all_or_nothing:
  assumes "sqlite_inv (rs_track svc)" and "log_of sqlite_ops (rs_track svc) (fresh_run_id hex) = []"
    and "submit_run sqlite_ops fs svc auth body hex stamp = (rep, svc')"
  shows "(\<exists>st e org. rep = Reply 201 st \<and> ru_id st = fresh_run_id hex \<and> ru_status st = ''SUBMITTED'' \<and>
       ru_submitted_by st = PStr (au_user auth) \<and> home_org_id auth = Some org \<and>
       map (\<lambda>s. (ss_name s, ss_cog s, ss_entry_point s, ss_state s)) (ru_steps st) =
         map (\<lambda>s. (sq_name s, sq_cog s, sq_entry_point s, ''pending'')) (rq_steps body) \<and>
       (\<forall>s\<in>set (rq_steps body). \<exists>src. rs_packages svc = Some src \<and> is_ok (resolve_package fs src (sq_cog s))) \<and>
       event_type e = ''op_submitted'' \<and>
       (\<forall>r. log_of sqlite_ops (rs_track svc') r = (if r = fresh_run_id hex then [e] else log_of sqlite_ops (rs_track svc) r))) \<or>
     (\<forall>c st. rep \<noteq> Reply c st) \<and> svc' = svc"
proof (cases "valid_run_request body \<and> refused_cogs fs svc (rq_steps body) = Inr [] \<and>
    is_ok (map_result requested_step (rq_steps body)) \<and> is_ok (auth_org_id auth)")
  case False
  then show ?thesis using assms(3)
    by (auto simp: submit_run_def bind_result_def split: if_splits sum.splits)
next
  case True
  then obtain steps org where ok: "valid_run_request body" "refused_cogs fs svc (rq_steps body) = Inr []"
    "map_result requested_step (rq_steps body) = Inr steps" "auth_org_id auth = Inr org"
    by (cases "map_result requested_step (rq_steps body)"; cases "auth_org_id auth") auto
  let ?op = "\<lparr>op_run_id = fresh_run_id hex, op_steps = steps\<rparr>"
  obtain res u where sub: "submit_intent sqlite_ops (rs_track svc) ?op (submitter auth org) (rq_name body) stamp = (res, u)"
    by (cases "submit_intent sqlite_ops (rs_track svc) ?op (submitter auth org) (rq_name body) stamp")
  note steps = requested_steps_are [OF ok(3)]
  have names: "map step_name steps = map sq_name (rq_steps body)"
    using arg_cong [OF conjunct2 [OF steps], of "map fst"] by (simp add: comp_def)
  show ?thesis
  proof (cases res)
    case (Inl x)
    with sub ok assms(3) sqlite.submission_refused [OF assms(1)] show ?thesis by (auto simp: submit_run_def)
  next
    case (Inr y)
    have op: "op_ok ?op" "log_of sqlite_ops (rs_track svc) (op_run_id ?op) = []" using steps assms(2) by (simp_all add: op_ok_def)
    have "submit_intent sqlite_ops (rs_track svc) ?op (submitter auth org) (rq_name body) stamp = (Inr (), u)" using sub Inr by simp
    from sqlite.submission_described [OF assms(1) op this] obtain e v where e: "event_type e = ''op_submitted''"
        "\<forall>r. log_of sqlite_ops u r = (if r = fresh_run_id hex then [e] else log_of sqlite_ops (rs_track svc) r)"
      and v: "describe sqlite_ops u (fresh_run_id hex) = Inr (Some v)" "v_state v = SUBMITTED" "v_op v = ?op"
        "v_submitted_by v = submitter auth org" "v_run_id v = fresh_run_id hex" "v_steps v = map pending_step steps"
      unfolding op_definition.simps by blast
    have "distinct (map step_name steps)" using ok(1) names by (simp add: valid_run_request_def)
    then obtain st where st: "status_of svc False v = Inr st" "ru_steps st = map pending_status steps" "ru_id st = fresh_run_id hex"
      "ru_status st = ''SUBMITTED''" "ru_submitted_by st = PStr (au_user auth)"
      using v(2-6) by (simp add: status_of_def pending_statuses submitter_def Let_def)
    have r: "rep = Reply 201 st" "svc' = svc\<lparr>rs_track := u\<rparr>"
      using assms(3) ok sub Inr v(1) st(1) by (simp_all add: submit_run_def replied_def)
    have shown: "map (\<lambda>s. (ss_name s, ss_cog s, ss_entry_point s, ss_state s)) (ru_steps st) =
        map (\<lambda>s. (sq_name s, sq_cog s, sq_entry_point s, ''pending'')) (rq_steps body)"
      using arg_cong [OF conjunct2 [OF steps], of "map (\<lambda>(a, b, c). (a, b, c, ''pending''))"] st(2)
      by (simp add: comp_def pending_status_def)
    have "\<exists>src. rs_packages svc = Some src \<and> is_ok (resolve_package fs src (sq_cog s))" if "s \<in> set (rq_steps body)" for s
      using refused_cogs_none [OF ok(2) that] by (auto simp: service_refusal_def split: option.splits sum.splits if_splits)
    moreover have "home_org_id auth = Some org" using ok(4) by (auto simp: auth_org_id_def split: option.splits)
    ultimately show ?thesis using r st shown e by auto
  qed
qed

definition hello_step :: step_request where
  "hello_step = \<lparr>sq_name = ''talk'', sq_cog = ''demo/hello'', sq_entry_point = ''session'', sq_input = PNone,
     sq_gate = \<lparr>gq_escalate = ''error'', gq_approvers = []\<rparr>\<rparr>"

theorem submission_is_all_or_nothing_witness:
  "\<exists>st. fst (submit_run sqlite_ops small_fs asked_service ada \<lparr>rq_steps = [hello_step], rq_name = None\<rparr> ''0123456789abcdef'' \<lparr>st_at = 2, st_id = ''e2''\<rparr>)
     = Reply 201 st \<and> ru_status st = ''SUBMITTED'' \<and> map ss_state (ru_steps st) = [''pending'']"
proof -
  let ?c = "submit_run sqlite_ops small_fs asked_service ada \<lparr>rq_steps = [hello_step], rq_name = None\<rparr> ''0123456789abcdef'' \<lparr>st_at = 2, st_id = ''e2''\<rparr>"
  have "case fst ?c of Reply c st \<Rightarrow> True | _ \<Rightarrow> False" by code_simp
  then obtain c x svc' where r: "?c = (Reply c x, svc')" by (cases ?c; cases "fst ?c") auto
  have l: "log_of sqlite_ops (rs_track asked_service) (fresh_run_id ''0123456789abcdef'') = []" by code_simp
  have i: "sqlite_inv (rs_track asked_service)" by (simp add: asked_service_def asked_store_inv)
  from submission_is_all_or_nothing [OF i l r] obtain st where st: "Reply c x = Reply 201 st" "ru_status st = ''SUBMITTED''"
    "map (\<lambda>s. (ss_name s, ss_cog s, ss_entry_point s, ss_state s)) (ru_steps st) = [(''talk'', ''demo/hello'', ''session'', ''pending'')]"
    by (auto simp: hello_step_def)
  from st(3) have "map ss_state (ru_steps st) = [''pending'']" by auto
  with st r show ?thesis by auto
qed

text \<open>
  The request model takes any list of strings as approvers, and a Gate takes none that is empty:
  such a request is answered by an exception and not by a 422.
\<close>

lemma empty_approver_raises:
  assumes "valid_run_request body" and "refused_cogs fs svc (rq_steps body) = Inr []"
    and "rq_steps body = [s]" and "[] \<in> set (gq_approvers (sq_gate s))"
  shows "submit_run ops fs svc auth body hex stamp = (Raises ValueError, svc)"
proof -
  have "requested_step s = Inl ValueError"
    using assms(1,3,4)
    by (auto simp: requested_step_def mk_gate_def iterated_def is_policy_def is_role_def valid_run_request_def valid_step_request_def
      valid_gate_request_def list_all_iff)
  then show ?thesis using assms(1-3) by (simp add: submit_run_def)
qed

subsection \<open>A reply fits its model\<close>

definition states_in :: "(string, step_view) dict \<Rightarrow> bool" where
  "states_in d \<longleftrightarrow> (\<forall>n v. map_of d n = Some v \<longrightarrow> sv_state v \<in> set STEP_STATES)"

lemma states_in_update: "states_in d \<Longrightarrow> sv_state v \<in> set STEP_STATES \<Longrightarrow> states_in (AList.update n v d)"
  by (auto simp: states_in_def)

lemma states_in_start: "states_in (va_steps (start_acc op))"
  using pending_kept by (fastforce simp: states_in_def start_acc_def pending_step_def STEP_STATES_def)

lemma states_in_step: "states_in (va_steps a) \<Longrightarrow> states_in (va_steps (view_step a e))"
  by (auto simp: view_step_def Let_def STEP_STATES_def intro!: states_in_update split: pyval.splits option.splits simp del: py_get_simps)

lemma states_in_steps: "states_in (va_steps a) \<Longrightarrow> states_in (va_steps (foldl view_step a es))"
  by (induction es arbitrary: a) (simp_all add: states_in_step)

lemma states_in_close: "states_in (va_steps a) \<Longrightarrow> states_in (close_open st a)"
proof -
  assume a: "states_in (va_steps a)"
  have "list_all (\<lambda>st. run_state_value st \<in> set STEP_STATES) [COMPLETED, FAILED, REJECTED, CANCELLED, INTERRUPTED, BUDGET_EXCEEDED]"
    by code_simp
  then have v: "run_state_value st \<in> set STEP_STATES" if "ended st" using that by (cases st) simp_all
  have "ended st \<Longrightarrow> states_in d \<Longrightarrow> states_in (foldl (\<lambda>d n. case map_of d n of None \<Rightarrow> d
      | Some v \<Rightarrow> AList.update n (v\<lparr>sv_state := run_state_value st\<rparr>) d) d ns)" for d ns
  proof (induction ns arbitrary: d)
    case (Cons n ns)
    then show ?case using v by (cases "map_of d n") (simp_all add: states_in_update)
  qed simp
  with a show ?thesis by (simp add: close_open_def)
qed

lemma step_of_state: "states_in d \<Longrightarrow> sv_state (step_of d s) \<in> set STEP_STATES \<and> sv_name (step_of d s) = step_name s"
  by (auto simp: step_of_def states_in_def pending_step_def STEP_STATES_def split: option.splits)

lemma view_steps_are:
  assumes "view_of r es = Inr (Some v)"
  obtains d where "states_in d" "v_steps v = map (step_of d) (op_steps (v_op v))"
proof -
  obtain run where run: "replay es = Inr (Some run)" using assms view_of_Some by blast
  obtain sub where sub: "List.find (\<lambda>e. event_type e = ''op_submitted'') es = Some sub"
    using assms run by (cases "List.find (\<lambda>e. event_type e = ''op_submitted'') es") (simp_all add: view_of_def)
  have "v_steps v = map (step_of (close_open (run_state run) (foldl view_step (start_acc (v_op v)) es))) (op_steps (v_op v))"
    using assms run sub by (auto simp: view_of_def Let_def bind_result_Inr_iff split: option.splits simp del: py_get_simps)
  then show ?thesis using that states_in_close [OF states_in_steps [OF states_in_start]] by blast
qed

lemma entry_points_total:
  "s \<in> set steps \<Longrightarrow> \<exists>ep. map_of (foldl (\<lambda>d s. AList.update (step_name s) (entry_point s) d) [] steps) (step_name s) = Some ep"
  by (induction steps rule: rev_induct) auto

lemma map_result_total:
  "(\<And>x. x \<in> set xs \<Longrightarrow> \<exists>y. f x = Inr y \<and> P y) \<Longrightarrow> \<exists>ys. map_result f xs = Inr ys \<and> length ys = length xs \<and> (\<forall>y\<in>set ys. P y)"
proof (induction xs)
  case (Cons x xs)
  obtain y where "f x = Inr y" "P y" using Cons.prems [of x] by auto
  moreover obtain ys where "map_result f xs = Inr ys" "length ys = length xs" "\<forall>y\<in>set ys. P y" using Cons by auto
  ultimately show ?case by simp
qed simp

lemma status_of_total:
  assumes "view_of r es = Inr (Some v)"
  shows "\<exists>st. status_of svc outputs v = Inr st \<and> length (ru_steps st) = length (op_steps (v_op v)) \<and>
    (\<forall>s\<in>set (ru_steps st). ss_state s \<in> set STEP_STATES)"
proof -
  obtain d where d: "states_in d" "v_steps v = map (step_of d) (op_steps (v_op v))" using view_steps_are [OF assms] .
  let ?f = "step_status_of (foldl (\<lambda>d s. AList.update (step_name s) (entry_point s) d) [] (op_steps (v_op v))) outputs"
  have "\<exists>y. ?f x = Inr y \<and> ss_state y \<in> set STEP_STATES" if x: "x \<in> set (v_steps v)" for x
  proof -
    obtain s where s: "s \<in> set (op_steps (v_op v))" "x = step_of d s" using x d(2) by auto
    with entry_points_total [OF s(1)] step_of_state [OF d(1), of s] show ?thesis by (auto simp: step_status_of_def)
  qed
  from map_result_total [of "v_steps v" ?f, OF this] obtain ys where "map_result ?f (v_steps v) = Inr ys" "length ys = length (v_steps v)"
    "\<forall>y\<in>set ys. ss_state y \<in> set STEP_STATES" by blast
  then show ?thesis using d(2) by (simp add: status_of_def)
qed

lemma turns_states:
  assumes "turns es = Inr d"
  shows "\<forall>(k, v)\<in>set d. tv_state v \<in> {''pending'', ''answered'', ''failed''}"
proof -
  obtain asked and c :: "run option" where a: "fold_result turn_step [] (map upgrade es) = Inr asked"
    and d: "(case c of None \<Rightarrow> Inr asked | Some r \<Rightarrow> Inr (map (\<lambda>(k, v). (k, end_turn (run_state r) v)) asked)) = (Inr d :: exn + _)"
    using assms unfolding turns_def Let_def bind_result_Inr_iff by blast
  have s: "tv_state v \<in> {''pending'', ''answered'', ''failed''}" if "(k, v) \<in> set asked" for k v using turn_states [OF a] that by auto
  have e: "tv_state v \<in> {''pending'', ''answered'', ''failed''} \<Longrightarrow> tv_state (end_turn st v) \<in> {''pending'', ''answered'', ''failed''}" for st v
    by (auto simp: end_turn_def)
  show ?thesis
  proof (cases c)
    case None
    with d s show ?thesis by auto
  next
    case (Some r)
    then have d: "d = map (\<lambda>(k, v). (k, end_turn (run_state r) v)) asked" using d by simp
    have "tv_state v \<in> {''pending'', ''answered'', ''failed''}" if kv: "(k, v) \<in> set d" for k v
    proof -
      obtain w where "(k, w) \<in> set asked" "v = end_turn (run_state r) w" using kv d by auto
      then show ?thesis using e [OF s] by simp
    qed
    then show ?thesis by blast
  qed
qed



subsection \<open>Pages\<close>

text \<open>Following \<open>next_offset\<close> from a page to the next, for at most so many pages.\<close>

primrec page_through ::
  "nat \<Rightarrow> 's track_ops \<Rightarrow> auth_context \<Rightarrow> string option \<Rightarrow> nat \<Rightarrow> 's run_service \<Rightarrow> nat \<Rightarrow> run_status list option" where
  "page_through 0 ops auth status limit svc offset = None"
| "page_through (Suc n) ops auth status limit svc offset =
     (case list_runs ops svc auth status limit offset of
        (Reply _ page, svc') \<Rightarrow>
          (case pg_next_offset page of
             None \<Rightarrow> Some (pg_items page)
           | Some later \<Rightarrow> map_option (\<lambda>rest. pg_items page @ rest) (page_through n ops auth status limit svc' later))
      | _ \<Rightarrow> None)"

definition wanted :: "string \<Rightarrow> string option \<Rightarrow> run_view \<Rightarrow> bool" where
  "wanted org status v \<longleftrightarrow> py_eq (py_get (v_submitted_by v) ''org_id'') (PStr org) \<and>
     (case status of None \<Rightarrow> True | Some st \<Rightarrow> run_state_name (v_state v) = st)"

definition listed :: "'s track_ops \<Rightarrow> 's \<Rightarrow> string \<Rightarrow> string option \<Rightarrow> string list \<Rightarrow> run_view list" where
  "listed ops t org status rs =
     filter (wanted org status) (concat (map (\<lambda>r. case seen_view ops t r of None \<Rightarrow> [] | Some v \<Rightarrow> [v]) rs))"

lemma seen_view_is: "seen_view ops t r = Some v \<longleftrightarrow> describe ops t r = Inr (Some v)"
  by (auto simp: seen_view_def split: sum.splits)

lemma seen_view_id: "seen_view ops t r = Some v \<Longrightarrow> v_run_id v = r"
  unfolding seen_view_is describe_def using view_of_Some by blast

lemma listed_Cons:
  "listed ops t org status (r # rs) =
     (case seen_view ops t r of None \<Rightarrow> [] | Some v \<Rightarrow> if wanted org status v then [v] else []) @ listed ops t org status rs"
  by (simp add: listed_def split: option.split)

lemma listed_set: "v \<in> set (listed ops t org status rs) \<longleftrightarrow> (\<exists>r\<in>set rs. describe ops t r = Inr (Some v)) \<and> wanted org status v"
proof -
  have "v \<in> set (case x of None \<Rightarrow> [] | Some w \<Rightarrow> [w]) \<longleftrightarrow> x = Some v" for x by (cases x) auto
  then show ?thesis by (auto simp: listed_def seen_view_is)
qed

lemma listed_ids: "distinct rs \<Longrightarrow> distinct (map v_run_id (listed ops t org status rs)) \<and> length (listed ops t org status rs) \<le> length rs"
proof (induction rs)
  case (Cons r rs)
  have "v_run_id v = x" if "describe ops t x = Inr (Some v)" for x v using that seen_view_id seen_view_is by metis
  then have "r \<notin> v_run_id ` set (listed ops t org status rs)" using Cons.prems by (auto simp: listed_set)
  with Cons show ?case by (auto simp: listed_Cons seen_view_id split: option.split)
qed (simp add: listed_def)

context track_store
begin

lemma collect_readable:
  assumes "inv t" and "views_ok ops t vs" and "\<forall>r\<in>set rs. readable ops t r"
  shows "\<exists>vs'. rv_collect ops t (Some (PStr org)) status rs vs = (Inr (listed ops t org status rs), vs') \<and> views_ok ops t vs'"
  using assms(2,3)
proof (induction rs arbitrary: vs)
  case Nil
  then show ?case by (simp add: listed_def)
next
  case (Cons r rs)
  obtain k vs1 where k: "refresh ops t vs r = (Inr k, vs1)" "views_ok ops t vs1" "k_view k = seen_view ops t r"
    using refresh_readable [OF assms(1) Cons.prems(1)] Cons.prems(2) by (metis list.set_intros(1))
  obtain vs2 where "rv_collect ops t (Some (PStr org)) status rs vs1 = (Inr (listed ops t org status rs), vs2)" "views_ok ops t vs2"
    using Cons.IH [OF k(2)] Cons.prems(2) by auto
  then show ?case using k by (auto simp: listed_Cons wanted_def simp del: py_get_simps split: option.split)
qed

end

lemma status_of_views [simp]: "status_of (svc\<lparr>rs_views := vs\<rparr>) outputs v = status_of svc outputs v"
  by (simp add: status_of_def)

lemma statuses_total:
  assumes "\<forall>v\<in>set vs. is_ok (status_of svc outputs v)"
  shows "map_result (status_of svc outputs) vs = Inr (map (\<lambda>v. projr (status_of svc outputs v)) vs)"
  using assms by (induction vs) (auto simp: is_ok_def split: sum.splits)

text \<open>What a page's listing is of: the views of the runs, newest submission first.\<close>

definition newest_first :: "'s track_ops \<Rightarrow> 's \<Rightarrow> string \<Rightarrow> string option \<Rightarrow> run_view list" where
  "newest_first ops t org status = sort_key (\<lambda>v. - v_submitted_at v) (listed ops t org status (t_run_ids ops t))"

lemma newest_first_status:
  assumes "v \<in> set (newest_first ops t org status)"
  shows "is_ok (status_of svc outputs v) \<and> ru_id (projr (status_of svc outputs v)) = v_run_id v \<and>
    ru_submitted_at (projr (status_of svc outputs v)) = v_submitted_at v"
proof -
  obtain r where "describe ops t r = Inr (Some v)" using assms by (auto simp: newest_first_def listed_set)
  then obtain st where "status_of svc outputs v = Inr st" using status_of_total unfolding describe_def by blast
  then show ?thesis by (auto simp: status_of_def bind_result_Inr_iff Let_def)
qed

context track_store
begin

lemma list_runs_is:
  fixes status :: "string option"
  assumes "inv (rs_track svc)" and "views_ok ops (rs_track svc) (rs_views svc)"
    and "\<forall>r\<in>set (t_run_ids ops (rs_track svc)). readable ops (rs_track svc) r"
    and "1 \<le> limit" "limit \<le> 200" and "home_org_id auth = Some org"
  defines "L \<equiv> newest_first ops (rs_track svc) org (wanted_status status)"
  shows "\<exists>vs. list_runs ops svc auth status limit offset =
      (Reply 200 \<lparr>pg_items = map (\<lambda>v. projr (status_of svc False v)) (take limit (drop offset L)),
                  pg_next_offset = (if offset + limit < length L then Some (offset + limit) else None)\<rparr>,
       svc\<lparr>rs_views := vs\<rparr>) \<and> views_ok ops (rs_track svc) vs"
proof -
  obtain vs where vs: "rv_collect ops (rs_track svc) (Some (PStr org)) (wanted_status status) (t_run_ids ops (rs_track svc)) (rs_views svc) =
      (Inr (listed ops (rs_track svc) org (wanted_status status) (t_run_ids ops (rs_track svc))), vs)" "views_ok ops (rs_track svc) vs"
    using collect_readable [OF assms(1-3)] by blast
  then have v: "rv_views ops (rs_track svc) (Some (PStr org)) (wanted_status status) (rs_views svc) = (Inr L, vs)"
    by (simp add: rv_views_def L_def newest_first_def)
  have "is_ok (status_of svc False v)" if "v \<in> set (take limit (drop offset L))" for v
    by (rule conjunct1 [OF newest_first_status [OF in_set_dropD [OF in_set_takeD [OF that [unfolded L_def]]]]])
  then have "map_result (status_of svc False) (take limit (drop offset L)) =
      Inr (map (\<lambda>v. projr (status_of svc False v)) (take limit (drop offset L)))"
    by (intro statuses_total) blast
  then show ?thesis using v vs(2) assms(4-6) by (intro exI [of _ vs]) (simp add: list_runs_def auth_org_id_def replied_def)
qed

lemma page_through_is:
  assumes "inv (rs_track svc)" and "views_ok ops (rs_track svc) (rs_views svc)"
    and "\<forall>r\<in>set (t_run_ids ops (rs_track svc)). readable ops (rs_track svc) r"
    and "1 \<le> limit" "limit \<le> 200" and "home_org_id auth = Some org"
    and "length (newest_first ops (rs_track svc) org (wanted_status status)) < n + offset" and "0 < n"
  shows "page_through n ops auth status limit svc offset =
    Some (map (\<lambda>v. projr (status_of svc False v)) (drop offset (newest_first ops (rs_track svc) org (wanted_status status))))"
  using assms
proof (induction n arbitrary: svc offset)
  case (Suc n)
  let ?L = "newest_first ops (rs_track svc) org (wanted_status status)"
  obtain vs where vs: "list_runs ops svc auth status limit offset =
      (Reply 200 \<lparr>pg_items = map (\<lambda>v. projr (status_of svc False v)) (take limit (drop offset ?L)),
                  pg_next_offset = (if offset + limit < length ?L then Some (offset + limit) else None)\<rparr>,
       svc\<lparr>rs_views := vs\<rparr>)" "views_ok ops (rs_track svc) vs"
    using list_runs_is [OF Suc.prems(1-6)] by blast
  show ?case
  proof (cases "offset + limit < length ?L")
    case True
    have "page_through n ops auth status limit (svc\<lparr>rs_views := vs\<rparr>) (offset + limit) =
      Some (map (\<lambda>v. projr (status_of (svc\<lparr>rs_views := vs\<rparr>) False v)) (drop (offset + limit) (newest_first ops (rs_track (svc\<lparr>rs_views := vs\<rparr>)) org (wanted_status status))))"
      by (rule Suc.IH) (use Suc.prems vs(2) True in auto)
    then have "page_through n ops auth status limit (svc\<lparr>rs_views := vs\<rparr>) (offset + limit) =
      Some (map (\<lambda>v. projr (status_of svc False v)) (drop limit (drop offset ?L)))" by (simp add: add.commute)
    then show ?thesis using vs(1) True by (simp del: drop_drop flip: map_append)
  next
    case False
    then show ?thesis using vs(1) by simp
  qed
qed simp

end

lemma submitted_in_run_ids:
  assumes "sqlite_inv t" and "describe sqlite_ops t r = Inr (Some v)"
  shows "r \<in> set (t_run_ids sqlite_ops t)"
proof -
  have d: "view_of r (map upgrade (log_of sqlite_ops t r)) = Inr (Some v)" using assms(2) by (simp add: describe_def log_of_def)
  obtain run where "replay (map upgrade (log_of sqlite_ops t r)) = Inr (Some run)" using view_of_Some [OF d] .
  with d obtain e where "List.find (\<lambda>e. event_type e = ''op_submitted'') (map upgrade (log_of sqlite_ops t r)) = Some e"
    by (cases "List.find (\<lambda>e. event_type e = ''op_submitted'') (map upgrade (log_of sqlite_ops t r))") (simp_all add: view_of_def)
  then obtain x where x: "x \<in> set (log_of sqlite_ops t r)" "event_type (upgrade x) = ''op_submitted''"
    by (auto simp: find_Some_iff) (metis nth_mem)
  have "event_type x \<in> set SUBMITTED_TYPES"
    using x(2) by (auto simp: upgrade_def RENAMED_def SUBMITTED_TYPES_def split: if_splits)
  then show ?thesis using sqlite.run_ids_are [OF assms(1)] x(1) by blast
qed

text \<open>
  C22: a client that follows \<open>next_offset\<close> from the first page, with any page size, reaches a last
  page, and has then seen every run of its organization in the status it asked for exactly once,
  newest submission first, and no other run.
\<close>

theorem pages_cover_the_listing:
  assumes "sqlite_inv (rs_track svc)" and "views_ok sqlite_ops (rs_track svc) (rs_views svc)"
    and "\<forall>r\<in>set (t_run_ids sqlite_ops (rs_track svc)). readable sqlite_ops (rs_track svc) r"
    and "1 \<le> limit" "limit \<le> 200" and "home_org_id auth = Some org"
    and "n = Suc (length (t_run_ids sqlite_ops (rs_track svc)))"
  shows "\<exists>items. page_through n sqlite_ops auth status limit svc 0 = Some items \<and> distinct (map ru_id items) \<and>
    sorted_wrt (\<lambda>a b. ru_submitted_at b \<le> ru_submitted_at a) items \<and>
    (\<forall>r. r \<in> ru_id ` set items \<longleftrightarrow> (\<exists>v. describe sqlite_ops (rs_track svc) r = Inr (Some v) \<and> wanted org (wanted_status status) v))"
proof -
  let ?t = "rs_track svc" let ?L = "newest_first sqlite_ops ?t org (wanted_status status)"
  let ?items = "map (\<lambda>v. projr (status_of svc False v)) ?L"
  have ids: "distinct (t_run_ids sqlite_ops ?t)" using sqlite.run_ids_are [OF assms(1)] by blast
  note len = listed_ids [OF ids, of sqlite_ops ?t org "wanted_status status"]
  have p: "page_through n sqlite_ops auth status limit svc 0 = Some ?items"
    using sqlite.page_through_is [OF assms(1-6), of status n 0] len assms(7) by (simp add: newest_first_def)
  have st: "ru_id (projr (status_of svc False v)) = v_run_id v" "ru_submitted_at (projr (status_of svc False v)) = v_submitted_at v"
    if "v \<in> set ?L" for v using newest_first_status [OF that] by blast+
  have eq: "map ru_id ?items = map v_run_id ?L" using st(1) by simp
  have dist: "distinct (map ru_id ?items)" unfolding eq using len by (simp add: newest_first_def distinct_map)
  have "sorted_wrt (\<lambda>a b. v_submitted_at b \<le> v_submitted_at a) ?L"
    using sorted_sort_key [of "\<lambda>v. - v_submitted_at v"] by (simp add: newest_first_def sorted_map)
  then have sorted: "sorted_wrt (\<lambda>a b. ru_submitted_at b \<le> ru_submitted_at a) ?items"
    unfolding sorted_wrt_map by (rule sorted_wrt_mono_rel [rotated]) (simp add: st(2))
  have "r \<in> ru_id ` set ?items \<longleftrightarrow> (\<exists>v. describe sqlite_ops ?t r = Inr (Some v) \<and> wanted org (wanted_status status) v)" for r
  proof -
    have "ru_id ` set ?items = v_run_id ` set ?L" using st(1) by (auto simp: image_iff)
    moreover have "v \<in> set ?L \<longleftrightarrow> (\<exists>x. describe sqlite_ops ?t x = Inr (Some v)) \<and> wanted org (wanted_status status) v" for v
      using submitted_in_run_ids [OF assms(1)] by (auto simp: newest_first_def listed_set)
    moreover have "describe sqlite_ops ?t x = Inr (Some v) \<Longrightarrow> v_run_id v = x" for x v by (metis seen_view_id seen_view_is)
    ultimately show ?thesis by (auto simp: image_iff) metis
  qed
  with p dist sorted show ?thesis by blast
qed

theorem pages_cover_the_listing_witness:
  "\<exists>items. page_through 2 sqlite_ops ada (Some ''submitted'') 1 asked_service 0 = Some items \<and> ru_id ` set items = {''r''}"
proof -
  have "case describe sqlite_ops asked_store ''r'' of Inr (Some v) \<Rightarrow> wanted ''o1'' (wanted_status (Some ''submitted'')) v | _ \<Rightarrow> False"
    by code_simp
  then obtain v where v: "describe sqlite_ops asked_store ''r'' = Inr (Some v)" "wanted ''o1'' (wanted_status (Some ''submitted'')) v"
    by (auto split: sum.splits option.splits)
  have ids: "t_run_ids sqlite_ops asked_store = [''r'']" by code_simp
  have "is_ok (turns (log_of sqlite_ops asked_store ''r''))" by code_simp
  then have read: "\<forall>r\<in>set (t_run_ids sqlite_ops asked_store). readable sqlite_ops asked_store r" using v by (simp add: readable_def ids)
  have s: "rs_track asked_service = asked_store" "rs_views asked_service = []" "home_org_id ada = Some ''o1''"
    by (simp_all add: asked_service_def ada_def)
  from pages_cover_the_listing [of asked_service 1 ada "''o1''" 2 "Some ''submitted''", unfolded s, OF asked_store_inv views_ok_empty read]
  obtain items where items: "page_through 2 sqlite_ops ada (Some ''submitted'') 1 asked_service 0 = Some items"
    "\<forall>r. r \<in> ru_id ` set items \<longleftrightarrow> (\<exists>v. describe sqlite_ops asked_store r = Inr (Some v) \<and> wanted ''o1'' (wanted_status (Some ''submitted'')) v)"
    by (auto simp: ids)
  have "r = ''r''" if "describe sqlite_ops asked_store r = Inr (Some w)" for r w
    using submitted_in_run_ids [OF asked_store_inv that] ids by simp
  then have "r \<in> ru_id ` set items \<longleftrightarrow> r = ''r''" for r using items(2) v by metis
  then have "ru_id ` set items = {''r''}" by blast
  with items(1) show ?thesis by blast
qed

subsection \<open>The service over any number of calls\<close>

datatype api_call =
    PostRun auth_context run_request string stamp
  | GetRuns auth_context "string option" nat nat
  | GetRun auth_context string
  | PostCancel auth_context string stamp
  | PostTurn auth_context string string string stamp
  | GetTurn auth_context string string

fun api_do :: "'s track_ops \<Rightarrow> filesystem \<Rightarrow> api_call \<Rightarrow> 's run_service \<Rightarrow> 's run_service" where
  "api_do ops fs (PostRun auth body hex st) svc = snd (submit_run ops fs svc auth body hex st)"
| "api_do ops fs (GetRuns auth status limit offset) svc = snd (list_runs ops svc auth status limit offset)"
| "api_do ops fs (GetRun auth r) svc = snd (get_run ops svc r auth)"
| "api_do ops fs (PostCancel auth r st) svc = snd (cancel_run ops svc r auth st)"
| "api_do ops fs (PostTurn auth r words hex st) svc = snd (ask_turn ops svc r words auth hex st)"
| "api_do ops fs (GetTurn auth r turn) svc = snd (get_turn ops svc r turn auth)"

text \<open>A call is handled, or another process, the controller, has written to the Track.\<close>

inductive api_step :: "'s track_ops \<Rightarrow> ('s \<Rightarrow> bool) \<Rightarrow> filesystem \<Rightarrow> 's run_service \<Rightarrow> 's run_service \<Rightarrow> bool"
  for ops sound fs where
  call: "api_step ops sound fs svc (api_do ops fs q svc)"
| other: "sound u \<Longrightarrow> (\<And>r. extends (log_of ops (rs_track svc) r) (log_of ops u r)) \<Longrightarrow>
    api_step ops sound fs svc (svc\<lparr>rs_track := u\<rparr>)"

definition service_grown :: "'s track_ops \<Rightarrow> ('s \<Rightarrow> bool) \<Rightarrow> 's run_service \<Rightarrow> 's run_service \<Rightarrow> bool" where
  "service_grown ops sound svc svc' \<longleftrightarrow> sound (rs_track svc') \<and> views_ok ops (rs_track svc') (rs_views svc') \<and>
     (\<forall>r. extends (log_of ops (rs_track svc) r) (log_of ops (rs_track svc') r)) \<and> rs_packages svc' = rs_packages svc"

lemma service_grown_trans: "service_grown ops sound a b \<Longrightarrow> service_grown ops sound b c \<Longrightarrow> service_grown ops sound a c"
  by (auto simp: service_grown_def intro: extends_trans)

context track_store
begin

lemma append_if_extends:
  assumes "inv t" and "t_append_if ops t (intent_event r ty p st) c = (res, u)"
  shows "inv u \<and> (\<forall>x. extends (log_of ops t x) (log_of ops u x))"
proof -
  have "inv u" using append_if_inv [OF assms(1) _ assms(2)] by simp
  moreover have "u = t \<or> (\<exists>y. t_append ops t (intent_event r ty p st) = (y, u))"
    using assms append_if_is [OF assms(1), of "intent_event r ty p st" c]
    by (auto simp: checked_append_def split: sum.splits bool.splits prod.splits)
  ultimately show ?thesis using append_extends [OF assms(1)] by (metis extends_iff extends_refl)
qed

lemma requests_extend:
  assumes "inv t"
  shows "request_cancel ops t r actor st = (res, u) \<Longrightarrow> inv u \<and> (\<forall>x. extends (log_of ops t x) (log_of ops u x))"
    and "request_turn ops t r words actor turn st = (res', u) \<Longrightarrow> inv u \<and> (\<forall>x. extends (log_of ops t x) (log_of ops u x))"
    and "submit_intent ops t op who name st = (res'', u) \<Longrightarrow> inv u \<and> (\<forall>x. extends (log_of ops t x) (log_of ops u x))"
proof -
  show "inv u \<and> (\<forall>x. extends (log_of ops t x) (log_of ops u x))" if c: "request_cancel ops t r actor st = (res, u)"
  proof -
    obtain y where "t_append_if ops t (intent_event r CANCEL_REQUESTED [(''actor'', PStr actor)] st) still_wanted = (y, u)"
      using c by (auto simp: request_cancel_def split: prod.splits sum.splits option.splits if_splits)
    then show ?thesis by (rule append_if_extends [OF assms])
  qed
  show "inv u \<and> (\<forall>x. extends (log_of ops t x) (log_of ops u x))" if c: "request_turn ops t r words actor turn st = (res', u)"
  proof (cases "MAX_TURN_TEXT < utf8_len words")
    case True
    with c assms show ?thesis by (simp add: request_turn_def)
  next
    case False
    then obtain y where "t_append_if ops t (intent_event r TURN_REQUESTED
        [(''turn'', PStr turn), (''text'', PStr words), (''actor'', PStr actor)] st) takes_turns = (y, u)"
      using c by (auto simp: request_turn_def split: prod.splits sum.splits option.splits)
    then show ?thesis by (rule append_if_extends [OF assms])
  qed
  show "inv u \<and> (\<forall>x. extends (log_of ops t x) (log_of ops u x))" if c: "submit_intent ops t op who name st = (res'', u)"
  proof -
    obtain p y where p: "t_append ops t (intent_event (op_run_id op) ''op_submitted'' p st) = (y, u)"
      using c by (auto simp: submit_intent_def run_submit_def intent_append_def Let_def split: prod.splits sum.splits)
    show ?thesis using append_inv [OF assms p] append_extends [OF assms p] by (metis extends_iff)
  qed
qed

lemma collect_keeps:
  assumes "inv t" and "views_ok ops t vs"
  shows "views_ok ops t (snd (rv_collect ops t org status rs vs))"
  using assms(2)
proof (induction rs arbitrary: vs)
  case (Cons r rs)
  obtain res vs1 where f: "refresh ops t vs r = (res, vs1)" by (cases "refresh ops t vs r")
  have ok: "views_ok ops t vs1" using refresh_outcome [OF assms(1) Cons.prems f] by blast
  show ?case
  proof (cases res)
    case (Inl x)
    with f ok show ?thesis by simp
  next
    case (Inr k)
    with f Cons.IH [OF ok] show ?thesis by (cases "rv_collect ops t org status rs vs1"; cases "fst (rv_collect ops t org status rs vs1)") auto
  qed
qed simp

lemma visible_keeps:
  assumes "inv (rs_track svc)" and "views_ok ops (rs_track svc) (rs_views svc)"
  shows "\<exists>y vs. visible ops svc r auth = (y, svc\<lparr>rs_views := vs\<rparr>) \<and> views_ok ops (rs_track svc) vs"
  using reads_keep(1) [OF assms, of r]
  by (cases "rv_view ops (rs_track svc) (rs_views svc) r") (auto simp: visible_def split: sum.splits option.splits)

lemma api_do_grows:
  assumes "inv (rs_track svc)" and "views_ok ops (rs_track svc) (rs_views svc)"
  shows "service_grown ops inv svc (api_do ops fs q svc)"
proof -
  have same: "service_grown ops inv svc svc" using assms by (simp add: service_grown_def)
  have grows: "service_grown ops inv svc (svc\<lparr>rs_views := vs, rs_track := u\<rparr>)"
    if "views_ok ops (rs_track svc) vs" "inv u \<and> (\<forall>x. extends (log_of ops (rs_track svc) x) (log_of ops u x))" for vs u
    using that views_ok_later [of ops "rs_track svc" vs u] by (simp add: service_grown_def)
  have reads: "service_grown ops inv svc (svc\<lparr>rs_views := vs\<rparr>)" if "views_ok ops (rs_track svc) vs" for vs
    using that assms by (simp add: service_grown_def)
  obtain y vs where vis: "\<And>r auth. visible ops svc r auth = (y r auth, svc\<lparr>rs_views := vs r auth\<rparr>) \<and> views_ok ops (rs_track svc) (vs r auth)"
    using visible_keeps [OF assms] by metis
  show ?thesis
  proof (cases q)
    case (PostRun auth body hex st)
    have "service_grown ops inv svc (svc\<lparr>rs_track := u\<rparr>)" if "submit_intent ops (rs_track svc) op who name st = (res, u)" for op who name res u
      using requests_extend(3) [OF assms(1) that] grows [OF assms(2), of u] by simp
    then show ?thesis using same PostRun by (auto simp: submit_run_def split: prod.splits sum.splits if_splits)
  next
    case (GetRuns auth status limit offset)
    have "service_grown ops inv svc (svc\<lparr>rs_views := vs\<rparr>)" if "rv_views ops (rs_track svc) org sta (rs_views svc) = (res, vs)" for org sta res vs
      using reads [OF collect_keeps [OF assms, of org sta "t_run_ids ops (rs_track svc)"]] that
      by (cases "rv_collect ops (rs_track svc) org sta (t_run_ids ops (rs_track svc)) (rs_views svc)") (auto simp: rv_views_def split: sum.splits)
    then show ?thesis using same GetRuns by (auto simp: list_runs_def split: prod.splits sum.splits)
  next
    case (GetRun auth r)
    then show ?thesis using same reads vis [of r auth] by (auto simp: get_run_def split: sum.splits option.splits)
  next
    case (PostCancel auth r st)
    have "service_grown ops inv svc (svc\<lparr>rs_views := vs r auth, rs_track := u\<rparr>)"
      if "request_cancel ops (rs_track svc) r (au_user auth) st = (res, u)" for res u
      using requests_extend(1) [OF assms(1) that] grows vis by blast
    then show ?thesis using same reads vis [of r auth] PostCancel
      by (auto simp: cancel_run_def split: prod.splits sum.splits option.splits exn.splits)
  next
    case (PostTurn auth r words hex st)
    have "service_grown ops inv svc (svc\<lparr>rs_views := vs r auth, rs_track := u\<rparr>)"
      if "request_turn ops (rs_track svc) r words (au_user auth) (take 12 hex) st = (res, u)" for res u
      using requests_extend(2) [OF assms(1) that] grows vis by blast
    then show ?thesis using same reads vis [of r auth] PostTurn
      by (auto simp: ask_turn_def split: prod.splits sum.splits option.splits)
  next
    case (GetTurn auth r turn)
    have "service_grown ops inv svc (svc\<lparr>rs_views := vs'\<rparr>)" if "rv_turns ops (rs_track svc) (vs r auth) r = (res, vs')" for res vs'
      using reads [OF reads_keep(2) [OF assms(1), of "vs r auth" r]] vis that by simp
    then show ?thesis using same reads vis [of r auth] GetTurn
      by (auto simp: get_turn_def split: prod.splits sum.splits option.splits)
  qed
qed

end

text \<open>
  C25: whatever calls the API handles, in whatever order, and whatever the controller writes to the
  same Track between them, the service stays sound: no event is ever changed or removed, and the
  views it keeps stay good, so every later read answers from the whole Track.
\<close>

theorem service_stays_sound:
  assumes "build_run_service fs store_at config = Inr svc" and "\<And>p. sqlite_inv (store_at p)"
    and "(api_step sqlite_ops sqlite_inv fs)\<^sup>*\<^sup>* svc svc'"
  shows "sqlite_inv (rs_track svc') \<and> views_ok sqlite_ops (rs_track svc') (rs_views svc') \<and>
    (\<forall>r. extends (log_of sqlite_ops (rs_track svc) r) (log_of sqlite_ops (rs_track svc') r))"
proof -
  have start: "service_grown sqlite_ops sqlite_inv svc svc"
    using assms(1,2) views_ok_empty
    by (auto simp: build_run_service_def service_grown_def bind_result_Inr_iff split: option.splits if_splits)
  from assms(3) have "service_grown sqlite_ops sqlite_inv svc svc'"
  proof (induction rule: rtranclp_induct)
    case base
    show ?case by (rule start)
  next
    case (step b c)
    from step.IH have ok: "sqlite_inv (rs_track b)" "views_ok sqlite_ops (rs_track b) (rs_views b)" by (simp_all add: service_grown_def)
    from step.hyps(2) have "service_grown sqlite_ops sqlite_inv b c"
    proof cases
      case (call q)
      then show ?thesis using sqlite.api_do_grows [OF ok] by simp
    next
      case (other u)
      then show ?thesis using views_ok_later [OF ok(2)] by (simp add: service_grown_def)
    qed
    with step.IH show ?case by (rule service_grown_trans)
  qed
  then show ?thesis by (simp add: service_grown_def)
qed

definition small_config :: runs_config where
  "small_config = \<lparr>track_path = Some ''track.db'', cfg_packages = [[''srv'']], cfg_allow = None, cfg_backend = ''none'', cfg_location = ''local''\<rparr>"

theorem service_stays_sound_witness:
  "\<exists>svc. build_run_service small_fs (\<lambda>_. asked_store) small_config = Inr svc \<and>
     sqlite_inv (rs_track (api_do sqlite_ops small_fs (PostCancel ada ''r'' \<lparr>st_at = 2, st_id = ''e2''\<rparr>) svc))"
proof -
  obtain svc where svc: "build_run_service small_fs (\<lambda>_. asked_store) small_config = Inr svc"
    by (simp add: build_run_service_def small_config_def new_source_def)
  have "(api_step sqlite_ops sqlite_inv small_fs)\<^sup>*\<^sup>* svc (api_do sqlite_ops small_fs (PostCancel ada ''r'' \<lparr>st_at = 2, st_id = ''e2''\<rparr>) svc)"
    by (intro r_into_rtranclp call)
  from service_stays_sound [OF svc asked_store_inv this] svc show ?thesis by blast
qed

end
