(* ===== verification/Frames.thy ===== *)
theory Frames
  imports Packages Auth
begin

section \<open>Frames: their data, their stored form, and who may read them\<close>

text \<open>
  \<open>frames/models.py\<close>, \<open>frames/codec.py\<close>, \<open>frames/access.py\<close> and the part of \<open>frames/identity.py\<close> that
  checks a principal.  A Frame is a Markdown body with governance metadata.  A model's own checks
  (its field limits and validators) are written out; that pydantic turns a JSON object into typed
  fields, and a datetime into text, is the record \<open>model_codec\<close>.  A datetime is the number of its
  tick.  Messages of errors are not modelled; \<open>ValueError\<close> stands for pydantic's \<open>ValidationError\<close>
  too, which is a subclass of it.
\<close>

subsection \<open>Limits and normal forms (models.py)\<close>

definition FRAME_BODY_MAX_LENGTH :: nat where "FRAME_BODY_MAX_LENGTH = 2 * 1024 * 1024"
definition SUGGESTION_BODY_MAX_LENGTH :: nat where "SUGGESTION_BODY_MAX_LENGTH = 64 * 1024"
definition MAX_TAGS :: nat where "MAX_TAGS = 20"
definition MAX_ACTIVE_FRAMES :: nat where "MAX_ACTIVE_FRAMES = 50"
definition MAX_OWNERS :: nat where "MAX_OWNERS = 50"
definition MAX_READERS :: nat where "MAX_READERS = 200"
definition DESCRIPTION_MAX_LENGTH :: nat where "DESCRIPTION_MAX_LENGTH = 2048"
definition FRAME_METADATA_SCHEMA_VERSION :: int where "FRAME_METADATA_SCHEMA_VERSION = 1"
definition FRAME_NAME_MAX_LENGTH :: nat where "FRAME_NAME_MAX_LENGTH = 120"
definition TAG_MAX_LENGTH :: nat where "TAG_MAX_LENGTH = 64"

datatype visibility = Private | Internal | Public

definition visibility_value :: "visibility \<Rightarrow> string" where
  "visibility_value v = (case v of Private \<Rightarrow> ''private'' | Internal \<Rightarrow> ''internal'' | Public \<Rightarrow> ''public'')"

definition ID_PATTERN :: "string \<Rightarrow> bool" where
  "ID_PATTERN s = (length s = 32 \<and> list_all (\<lambda>c. c \<in> set ''abcdef0123456789'') s)"

definition validate_frame_id :: "string \<Rightarrow> exn + string" where
  "validate_frame_id s = (if ID_PATTERN s then Inr s else Inl ValueError)"

definition lower_alnum :: "char \<Rightarrow> bool" where
  "lower_alnum c = (let n = (of_char c :: nat) in 97 \<le> n \<and> n \<le> 122 \<or> 48 \<le> n \<and> n \<le> 57)"

definition TAG_PATTERN :: "string \<Rightarrow> bool" where
  "TAG_PATTERN s =
     (case s of
        [] \<Rightarrow> False
      | c # r \<Rightarrow> lower_alnum c \<and> length r \<le> 63 \<and> list_all (\<lambda>x. lower_alnum x \<or> x \<in> set ''._-'') r)"

text \<open>
  The loop the normalizers share: each value is brought to its normal form, or refused, and kept
  where it is first seen.
\<close>

definition keep_new :: "string list \<Rightarrow> string \<Rightarrow> string list" where
  "keep_new seen v = (if v \<in> set seen then seen else seen @ [v])"

definition normalized :: "(string \<Rightarrow> exn + string) \<Rightarrow> string list \<Rightarrow> exn + string list" where
  "normalized value xs = fold_result (\<lambda>seen x. bind_result (value x) (\<lambda>v. Inr (keep_new seen v))) [] xs"

definition at_most :: "nat \<Rightarrow> string list \<Rightarrow> exn + string list" where
  "at_most n xs = (if n < length xs then Inl ValueError else Inr xs)"

definition tag_value :: "string \<Rightarrow> exn + string" where
  "tag_value tag =
     (let value = map lower_latin (py_strip tag)
      in if value = [] then Inl ValueError
         else if TAG_MAX_LENGTH < length value then Inl ValueError
         else if \<not> TAG_PATTERN value then Inl ValueError
         else Inr value)"

definition normalize_tags :: "string list \<Rightarrow> exn + string list" where
  "normalize_tags tags = bind_result (normalized tag_value tags) (at_most MAX_TAGS)"

definition normalize_name :: "string \<Rightarrow> exn + string" where
  "normalize_name name = (let value = py_strip name in if value = [] then Inl ValueError else Inr value)"

definition normalize_owners :: "bool \<Rightarrow> string list \<Rightarrow> exn + string list" where
  "normalize_owners require_non_empty owners =
     bind_result (normalized normalize_name owners) (\<lambda>xs.
       if require_non_empty \<and> xs = [] then Inl ValueError else at_most MAX_OWNERS xs)"

definition normalize_readers :: "string list \<Rightarrow> exn + string list" where
  "normalize_readers readers = bind_result (normalized normalize_name readers) (at_most MAX_READERS)"

subsection \<open>Principals that may be granted something (identity.py)\<close>

text \<open>\<open>identity_pinned_to_sub\<close> of the setting's text; \<open>pinned\<close> below is what it returned.\<close>

definition identity_pinned_to_sub :: "string \<Rightarrow> exn + bool" where
  "identity_pinned_to_sub mode =
     (if mode = [] \<or> mode = ''legacy'' then Inr False
      else if mode = ''sub'' then Inr True
      else Inl (Raised ''RuntimeError'' []))"

text \<open>
  \<open>enforce_single_issuer_for_pin\<close>, over the environment; an unset variable reads as the empty
  text.  The issuers collected are those of the configured verifiers.
\<close>

definition enforce_single_issuer_for_pin :: "(string \<Rightarrow> string) \<Rightarrow> exn + unit" where
  "enforce_single_issuer_for_pin env =
     bind_result (identity_pinned_to_sub (env ''FRAMES_AUTH_IDENTITY_CLAIM'')) (\<lambda>pinned.
       if \<not> pinned then Inr ()
       else
         let setting = (\<lambda>key. py_strip (env key));
             or_else = (\<lambda>s t. if s = [] then t else s);
             bearer_jwks = setting ''FRAMES_BEARER_JWKS_URL'';
             bearer_issuer = setting ''FRAMES_BEARER_ISSUER'';
             idtoken_jwks = or_else (setting ''FRAMES_IDTOKEN_JWKS_URL'') bearer_jwks;
             idtoken_issuer = or_else (setting ''FRAMES_IDTOKEN_ISSUER'') bearer_issuer
         in if bearer_jwks \<noteq> [] \<and> bearer_issuer = [] then Inl (Raised ''RuntimeError'' [])
            else if idtoken_jwks \<noteq> [] \<and> idtoken_issuer = [] then Inl (Raised ''RuntimeError'' [])
            else if bearer_jwks \<noteq> [] \<and> idtoken_jwks \<noteq> [] \<and> bearer_issuer \<noteq> idtoken_issuer
              then Inl (Raised ''RuntimeError'' [])
            else Inr ())"

definition looks_like_email :: "string \<Rightarrow> bool" where
  "looks_like_email s = (CHR ''@'' \<in> set s)"

definition validate_acl_principal :: "bool \<Rightarrow> string \<Rightarrow> exn + string" where
  "validate_acl_principal pinned s = (if pinned \<and> looks_like_email s then Inl ValueError else Inr s)"

definition validate_acl_principals :: "bool \<Rightarrow> string list \<Rightarrow> exn + string list" where
  "validate_acl_principals pinned xs =
     bind_result (map_result (validate_acl_principal pinned) xs) (\<lambda>_. Inr xs)"

subsection \<open>Records\<close>

datatype suggestion_status = Open | Closed

definition suggestion_status_value :: "suggestion_status \<Rightarrow> string" where
  "suggestion_status_value s = (case s of Open \<Rightarrow> ''open'' | Closed \<Rightarrow> ''closed'')"

record suggestion =
  sg_id :: string
  sg_frame_id :: string
  sg_status :: suggestion_status
  sg_submitted_by :: string
  sg_body :: string

record frame_metadata =
  fr_schema_version :: int
  fr_id :: string
  fr_org_id :: string
  fr_workspace_id :: string
  fr_name :: string
  fr_description :: string
  fr_visibility :: visibility
  fr_created_by :: string
  fr_owners :: "string list"
  fr_published :: bool
  fr_readers :: "string list"
  fr_group_ids :: "string list"
  fr_tags :: "string list"
  fr_token_estimate :: int
  fr_suggestions :: "suggestion list"
  fr_created_at :: nat
  fr_updated_at :: nat

record frame = frame_metadata +
  fr_body :: string

definition len_within :: "nat \<Rightarrow> nat \<Rightarrow> 'a list \<Rightarrow> bool" where
  "len_within a b xs = (a \<le> length xs \<and> length xs \<le> b)"

definition valid_suggestion :: "suggestion \<Rightarrow> bool" where
  "valid_suggestion s =
     (ID_PATTERN (sg_id s) \<and> ID_PATTERN (sg_frame_id s) \<and> len_within 1 SUGGESTION_BODY_MAX_LENGTH (sg_body s))"

text \<open>The declared limits of the fields of \<open>FrameMetadata\<close>.\<close>

definition metadata_fields_ok :: "'a frame_metadata_scheme \<Rightarrow> bool" where
  "metadata_fields_ok m =
     (fr_schema_version m = FRAME_METADATA_SCHEMA_VERSION \<and> ID_PATTERN (fr_id m) \<and>
      len_within 1 FRAME_NAME_MAX_LENGTH (fr_name m) \<and> len_within 0 DESCRIPTION_MAX_LENGTH (fr_description m) \<and>
      0 \<le> fr_token_estimate m \<and> list_all valid_suggestion (fr_suggestions m))"

text \<open>The model's constructor: the limits, then the validators, which give the fields their normal form.\<close>

definition validate_metadata :: "'a frame_metadata_scheme \<Rightarrow> exn + 'a frame_metadata_scheme" where
  "validate_metadata m =
     (if \<not> metadata_fields_ok m then Inl ValueError
      else bind_result (normalize_tags (fr_tags m)) (\<lambda>tags.
           bind_result (normalize_name (fr_name m)) (\<lambda>name.
           bind_result (normalize_owners True (fr_owners m)) (\<lambda>owners.
           bind_result (normalize_readers (fr_readers m)) (\<lambda>readers.
             Inr (m\<lparr>fr_tags := tags, fr_name := name, fr_owners := owners, fr_readers := readers\<rparr>))))))"

definition validate_frame :: "frame \<Rightarrow> exn + frame" where
  "validate_frame f =
     (if \<not> len_within 1 FRAME_BODY_MAX_LENGTH (fr_body f) then Inl ValueError else validate_metadata f)"

subsection \<open>Who may read and manage (access.py)\<close>

definition in_tenant :: "string \<Rightarrow> string \<Rightarrow> auth_context \<Rightarrow> exn + bool" where
  "in_tenant org workspace auth =
     bind_result (auth_org_id auth) (\<lambda>o'. Inr ((org, workspace) = (o', workspace_id auth)))"

definition can_read :: "'a frame_metadata_scheme \<Rightarrow> auth_context \<Rightarrow> exn + bool" where
  "can_read f auth =
     (if au_user auth \<in> set (fr_owners f) then Inr True
      else if \<not> fr_published f then Inr False
      else if fr_visibility f = Public then Inr True
      else if fr_visibility f = Internal then in_tenant (fr_org_id f) (fr_workspace_id f) auth
      else if au_user auth \<in> set (fr_readers f) then Inr True
      else Inr False)"

definition can_manage :: "'a frame_metadata_scheme \<Rightarrow> auth_context \<Rightarrow> exn + bool" where
  "can_manage f auth =
     (if au_user auth \<in> set (fr_owners f) then in_tenant (fr_org_id f) (fr_workspace_id f) auth else Inr False)"

subsection \<open>The stored form (codec.py)\<close>

definition FrameNotFoundError :: "string \<Rightarrow> exn" where "FrameNotFoundError fid = Raised ''FrameNotFoundError'' fid"
definition FrameDecodeError :: "string \<Rightarrow> exn" where "FrameDecodeError fid = Raised ''FrameDecodeError'' fid"
definition SuggestionNotFoundError :: "string \<Rightarrow> exn" where
  "SuggestionNotFoundError sid = Raised ''SuggestionNotFoundError'' sid"

text \<open>\<open>normalize_metadata\<close>: the defaults of records written by earlier versions.\<close>

definition set_default :: "string \<Rightarrow> pyval \<Rightarrow> payload \<Rightarrow> payload" where
  "set_default k v d = (if map_of d k = None then d @ [(k, v)] else d)"

definition migrate_owner :: "payload \<Rightarrow> payload" where
  "migrate_owner d =
     (case map_of d ''owner'' of
        None \<Rightarrow> d
      | Some owner \<Rightarrow>
          (let d1 = AList.delete ''owner'' d;
               d2 = (if map_of d1 ''owners'' = None then d1 @ [(''owners'', PList [owner])] else d1)
           in set_default ''created_by'' owner d2))"

definition first_owner :: "payload \<Rightarrow> pyval" where
  "first_owner d = (case map_of d ''owners'' of Some (PList (x # xs)) \<Rightarrow> x | _ \<Rightarrow> PStr [])"

definition normalize_metadata :: "payload \<Rightarrow> exn + payload" where
  "normalize_metadata d =
     (case map_of d ''id'' of
        None \<Rightarrow> Inl KeyError
      | Some i \<Rightarrow>
          (let d1 = set_default ''name'' i (set_default ''workspace_id'' (PStr ''default'')
                      (set_default ''org_id'' (PStr ''dev-org'')
                        (set_default ''schema_version'' (PInt FRAME_METADATA_SCHEMA_VERSION) d)));
               d2 = migrate_owner d1;
               d3 = set_default ''created_by'' (first_owner d2) d2;
               d4 = set_default ''group_ids'' (PList []) (set_default ''readers'' (PList [])
                      (set_default ''published'' (PBool False)
                        (set_default ''visibility'' (PStr (visibility_value Private))
                          (set_default ''description'' (PStr []) d3))))
           in Inr (if py_truthy (py_get d4 ''readers'')
                   then AList.update ''visibility'' (PStr (visibility_value Private)) d4 else d4)))"

text \<open>
  What pydantic does for a model: \<open>mc_iso\<close> renders a datetime, \<open>mc_parse\<close> types the fields of a JSON
  object (\<open>None\<close> when one has the wrong type, is missing, or is not a field of the model).
\<close>

record model_codec =
  mc_iso :: "nat \<Rightarrow> string"
  mc_parse :: "payload \<Rightarrow> frame_metadata option"

definition dump_suggestion :: "suggestion \<Rightarrow> pyval" where
  "dump_suggestion s =
     PDict [(''id'', PStr (sg_id s)), (''frame_id'', PStr (sg_frame_id s)),
            (''status'', PStr (suggestion_status_value (sg_status s))),
            (''submitted_by'', PStr (sg_submitted_by s)), (''body'', PStr (sg_body s))]"

text \<open>\<open>encode_metadata\<close>: \<open>model_dump(mode="json", exclude={"body"})\<close>, in the order of the fields.\<close>

definition encode_metadata :: "model_codec \<Rightarrow> 'a frame_metadata_scheme \<Rightarrow> payload" where
  "encode_metadata mc m =
     [(''schema_version'', PInt (fr_schema_version m)), (''id'', PStr (fr_id m)), (''org_id'', PStr (fr_org_id m)),
      (''workspace_id'', PStr (fr_workspace_id m)), (''name'', PStr (fr_name m)),
      (''description'', PStr (fr_description m)), (''visibility'', PStr (visibility_value (fr_visibility m))),
      (''created_by'', PStr (fr_created_by m)), (''owners'', PList (map PStr (fr_owners m))),
      (''published'', PBool (fr_published m)), (''readers'', PList (map PStr (fr_readers m))),
      (''group_ids'', PList (map PStr (fr_group_ids m))), (''tags'', PList (map PStr (fr_tags m))),
      (''token_estimate'', PInt (fr_token_estimate m)),
      (''suggestions'', PList (map dump_suggestion (fr_suggestions m))),
      (''created_at'', PStr (mc_iso mc (fr_created_at m))), (''updated_at'', PStr (mc_iso mc (fr_updated_at m)))]"

text \<open>A sidecar's bytes, as \<open>json.loads\<close> reads them, and a body's, as UTF-8.\<close>

datatype sidecar = NotJson | Json pyval
datatype body_file = NotUtf8 | Utf8 string

definition decode_sidecar :: "string \<Rightarrow> sidecar \<Rightarrow> exn + payload" where
  "decode_sidecar fid data =
     (case data of
        Json (PDict d) \<Rightarrow>
          if map_of d ''body'' \<noteq> None then Inl (FrameDecodeError fid)
          else (case normalize_metadata d of Inl _ \<Rightarrow> Inl (FrameDecodeError fid) | Inr n \<Rightarrow> Inr n)
      | _ \<Rightarrow> Inl (FrameDecodeError fid))"

definition decoded :: "string \<Rightarrow> exn + 'a \<Rightarrow> exn + 'a" where
  "decoded fid r = (case r of Inl _ \<Rightarrow> Inl (FrameDecodeError fid) | Inr x \<Rightarrow> Inr x)"

definition typed :: "model_codec \<Rightarrow> payload \<Rightarrow> exn + frame_metadata" where
  "typed mc d = (case mc_parse mc d of None \<Rightarrow> Inl ValueError | Some m \<Rightarrow> Inr m)"

definition decode_metadata :: "model_codec \<Rightarrow> string \<Rightarrow> sidecar \<Rightarrow> exn + frame_metadata" where
  "decode_metadata mc fid data =
     bind_result (decode_sidecar fid data) (\<lambda>d. decoded fid (bind_result (typed mc d) validate_metadata))"

definition with_body :: "frame_metadata \<Rightarrow> string \<Rightarrow> frame" where
  "with_body m b = frame_metadata.extend m (frame.fields b)"

definition decode_frame :: "model_codec \<Rightarrow> string \<Rightarrow> sidecar \<Rightarrow> body_file \<Rightarrow> exn + frame" where
  "decode_frame mc fid data body =
     bind_result (decode_sidecar fid data) (\<lambda>d.
       decoded fid
         (case body of
            NotUtf8 \<Rightarrow> Inl ValueError
          | Utf8 b \<Rightarrow> bind_result (typed mc d) (\<lambda>m. validate_frame (with_body m b))))"

end
