(* ===== verification/FrameStore.thy ===== *)
theory FrameStore
  imports Frames
begin

section \<open>Where frames and active selections are kept (frames/store.py, frames/active_state.py)\<close>

text \<open>
  \<open>LocalFsFrameStore\<close>: a directory per Frame with a sidecar and a body, either of which may be
  missing or unreadable.  The lock of a Frame makes each operation one step.  \<open>uuid4().hex\<close> and the
  clock are arguments.  The S3 store keeps the same two objects under the same names.  The active
  store is \<open>InMemoryActiveFrameStore\<close>, or none when the feature is not configured.
\<close>

subsection \<open>Helpers\<close>

text \<open>\<open>math.ceil(len(body) / 4)\<close>.\<close>

definition compute_token_estimate :: "string \<Rightarrow> int" where
  "compute_token_estimate body = (int (length body) + 3) div 4"

definition readers_after_visibility :: "visibility \<Rightarrow> string list \<Rightarrow> string list" where
  "readers_after_visibility v current = (if v = Private then current else [])"

text \<open>\<open>reader_write_fields\<close>, as what writing them does to a Frame.\<close>

definition reader_write_fields :: "string list \<Rightarrow> frame \<Rightarrow> frame" where
  "reader_write_fields readers f =
     (if readers \<noteq> [] then f\<lparr>fr_readers := readers, fr_visibility := Private\<rparr> else f\<lparr>fr_readers := readers\<rparr>)"

text \<open>\<open>str.casefold()\<close>; the micro sign, which folds to a letter outside these code points, stays itself.\<close>

definition casefold :: "string \<Rightarrow> string" where
  "casefold s = concat (map (\<lambda>c. if (of_char c :: nat) = 223 then ''ss'' else [lower_latin c]) s)"

fun contains :: "string \<Rightarrow> string \<Rightarrow> bool" where
  "contains p [] = (p = [])"
| "contains p (c # s) = (take (length p) (c # s) = p \<or> contains p s)"

definition name_filter :: "string option \<Rightarrow> string \<Rightarrow> bool" where
  "name_filter name s = (case name of None \<Rightarrow> True | Some n \<Rightarrow> n = [] \<or> contains (casefold n) (casefold s))"

definition metadata_matches_filters ::
  "'a frame_metadata_scheme \<Rightarrow> string \<Rightarrow> string \<Rightarrow> string option \<Rightarrow> string list option \<Rightarrow> string option \<Rightarrow> bool" where
  "metadata_matches_filters item org workspace name tags owner =
     (if fr_org_id item \<noteq> org \<or> fr_workspace_id item \<noteq> workspace then False
      else if \<not> name_filter name (fr_name item) then False
      else if (case owner of None \<Rightarrow> False | Some w \<Rightarrow> w \<noteq> [] \<and> w \<notin> set (fr_owners item)) then False
      else if (case tags of None \<Rightarrow> False | Some ts \<Rightarrow> ts \<noteq> [] \<and> \<not> set ts \<subseteq> set (fr_tags item)) then False
      else True)"

text \<open>The first Suggestion with the id is closed; the list is updated in place.\<close>

fun close_first :: "string \<Rightarrow> suggestion list \<Rightarrow> (suggestion \<times> suggestion list) option" where
  "close_first sid [] = None"
| "close_first sid (s # ss) =
     (if sg_id s = sid then (let c = s\<lparr>sg_status := Closed\<rparr> in Some (c, c # ss))
      else (case close_first sid ss of None \<Rightarrow> None | Some (c, ss') \<Rightarrow> Some (c, s # ss')))"

definition close_suggestion_in_frame :: "nat \<Rightarrow> frame \<Rightarrow> string \<Rightarrow> exn + suggestion \<times> frame" where
  "close_suggestion_in_frame now f sid =
     (case close_first sid (fr_suggestions f) of
        None \<Rightarrow> Inl (SuggestionNotFoundError sid)
      | Some (c, ss) \<Rightarrow> Inr (c, f\<lparr>fr_suggestions := ss, fr_updated_at := now\<rparr>))"

subsection \<open>The local store\<close>

record frame_dir =
  fd_metadata :: "sidecar option"
  fd_body :: "body_file option"

type_synonym frame_dirs = "(string, frame_dir) dict"

definition read_metadata :: "model_codec \<Rightarrow> frame_dirs \<Rightarrow> string \<Rightarrow> exn + frame_metadata" where
  "read_metadata mc dirs fid =
     (case map_of dirs fid of
        None \<Rightarrow> Inl (FrameNotFoundError fid)
      | Some d \<Rightarrow>
          (case fd_metadata d of None \<Rightarrow> Inl (FrameNotFoundError fid) | Some m \<Rightarrow> decode_metadata mc fid m))"

definition read_frame :: "model_codec \<Rightarrow> frame_dirs \<Rightarrow> string \<Rightarrow> exn + frame" where
  "read_frame mc dirs fid =
     (case map_of dirs fid of
        None \<Rightarrow> Inl (FrameNotFoundError fid)
      | Some d \<Rightarrow>
          (case (fd_metadata d, fd_body d) of
             (Some m, Some b) \<Rightarrow> decode_frame mc fid m b
           | _ \<Rightarrow> Inl (FrameNotFoundError fid)))"

text \<open>A sidecar that is missing or cannot be decoded is passed over.\<close>

definition store_list_frames ::
  "model_codec \<Rightarrow> frame_dirs \<Rightarrow> string \<Rightarrow> string \<Rightarrow> string option \<Rightarrow> string list option \<Rightarrow> string option \<Rightarrow> frame_metadata list" where
  "store_list_frames mc dirs org workspace name tags owner =
     concat (map (\<lambda>fid. case read_metadata mc dirs fid of
                          Inl _ \<Rightarrow> []
                        | Inr item \<Rightarrow> if metadata_matches_filters item org workspace name tags owner then [item] else [])
                 (sorted_set (map fst dirs)))"

text \<open>The body is written, then the sidecar, under the id the Frame carries.\<close>

definition write_frame :: "model_codec \<Rightarrow> frame \<Rightarrow> frame_dirs \<Rightarrow> frame_dirs" where
  "write_frame mc f dirs =
     AList.update (fr_id f) \<lparr>fd_metadata = Some (Json (PDict (encode_metadata mc f))), fd_body = Some (Utf8 (fr_body f))\<rparr> dirs"

definition store_create_frame ::
  "model_codec \<Rightarrow> string \<Rightarrow> nat \<Rightarrow> string \<Rightarrow> string \<Rightarrow> string \<Rightarrow> string list \<Rightarrow> string \<Rightarrow> string \<Rightarrow> visibility \<Rightarrow>
   string list \<Rightarrow> string \<Rightarrow> frame_dirs \<Rightarrow> (exn + frame) \<times> frame_dirs" where
  "store_create_frame mc hex now org workspace creator owners name description vis tags body dirs =
     (case validate_frame
         \<lparr>fr_schema_version = FRAME_METADATA_SCHEMA_VERSION, fr_id = hex, fr_org_id = org, fr_workspace_id = workspace,
          fr_name = name, fr_description = description, fr_visibility = vis, fr_created_by = creator, fr_owners = owners,
          fr_published = False, fr_readers = [], fr_group_ids = [], fr_tags = tags,
          fr_token_estimate = compute_token_estimate body, fr_suggestions = [], fr_created_at = now,
          fr_updated_at = now, fr_body = body\<rparr> of
        Inl x \<Rightarrow> (Inl x, dirs)
      | Inr f \<Rightarrow> (Inr f, write_frame mc f dirs))"

text \<open>What the writers of one Frame share: read it, change it, write it back.\<close>

definition rewrite_frame ::
  "model_codec \<Rightarrow> string \<Rightarrow> (frame \<Rightarrow> frame) \<Rightarrow> frame_dirs \<Rightarrow> (exn + frame) \<times> frame_dirs" where
  "rewrite_frame mc fid change dirs =
     (case read_frame mc dirs fid of
        Inl x \<Rightarrow> (Inl x, dirs)
      | Inr current \<Rightarrow> (Inr (change current), write_frame mc (change current) dirs))"

definition updated_frame ::
  "nat \<Rightarrow> string \<Rightarrow> string \<Rightarrow> visibility \<Rightarrow> string list \<Rightarrow> string \<Rightarrow> frame \<Rightarrow> frame" where
  "updated_frame now name description vis tags body current =
     current\<lparr>fr_name := name, fr_description := description, fr_visibility := vis,
             fr_readers := readers_after_visibility vis (fr_readers current), fr_tags := tags, fr_body := body,
             fr_token_estimate := compute_token_estimate body, fr_updated_at := now\<rparr>"

definition store_update_frame ::
  "model_codec \<Rightarrow> nat \<Rightarrow> string \<Rightarrow> string \<Rightarrow> string \<Rightarrow> visibility \<Rightarrow> string list \<Rightarrow> string \<Rightarrow> frame_dirs \<Rightarrow>
   (exn + frame) \<times> frame_dirs" where
  "store_update_frame mc now fid name description vis tags body =
     rewrite_frame mc fid (updated_frame now name description vis tags body)"

definition set_metadata_fields ::
  "model_codec \<Rightarrow> nat \<Rightarrow> string \<Rightarrow> (frame \<Rightarrow> frame) \<Rightarrow> frame_dirs \<Rightarrow> (exn + frame) \<times> frame_dirs" where
  "set_metadata_fields mc now fid change = rewrite_frame mc fid (\<lambda>f. (change f)\<lparr>fr_updated_at := now\<rparr>)"

definition store_set_owners :: "model_codec \<Rightarrow> nat \<Rightarrow> string \<Rightarrow> string list \<Rightarrow> frame_dirs \<Rightarrow> (exn + frame) \<times> frame_dirs" where
  "store_set_owners mc now fid owners = set_metadata_fields mc now fid (\<lambda>f. f\<lparr>fr_owners := owners\<rparr>)"

definition store_set_readers :: "model_codec \<Rightarrow> nat \<Rightarrow> string \<Rightarrow> string list \<Rightarrow> frame_dirs \<Rightarrow> (exn + frame) \<times> frame_dirs" where
  "store_set_readers mc now fid readers = set_metadata_fields mc now fid (reader_write_fields readers)"

definition store_set_published :: "model_codec \<Rightarrow> nat \<Rightarrow> string \<Rightarrow> bool \<Rightarrow> frame_dirs \<Rightarrow> (exn + frame) \<times> frame_dirs" where
  "store_set_published mc now fid published = set_metadata_fields mc now fid (\<lambda>f. f\<lparr>fr_published := published\<rparr>)"

definition store_delete_frame :: "string \<Rightarrow> frame_dirs \<Rightarrow> (exn + unit) \<times> frame_dirs" where
  "store_delete_frame fid dirs =
     (if map_of dirs fid = None then (Inl (FrameNotFoundError fid), dirs) else (Inr (), AList.delete fid dirs))"

definition store_create_suggestion ::
  "model_codec \<Rightarrow> string \<Rightarrow> nat \<Rightarrow> string \<Rightarrow> string \<Rightarrow> string \<Rightarrow> frame_dirs \<Rightarrow> (exn + suggestion) \<times> frame_dirs" where
  "store_create_suggestion mc hex now fid submitter body dirs =
     (case read_frame mc dirs fid of
        Inl x \<Rightarrow> (Inl x, dirs)
      | Inr f \<Rightarrow>
          (let s = \<lparr>sg_id = hex, sg_frame_id = fid, sg_status = Open, sg_submitted_by = submitter, sg_body = body\<rparr>
           in if \<not> valid_suggestion s then (Inl ValueError, dirs)
              else (Inr s, write_frame mc (f\<lparr>fr_suggestions := fr_suggestions f @ [s], fr_updated_at := now\<rparr>) dirs)))"

definition store_list_suggestions ::
  "model_codec \<Rightarrow> frame_dirs \<Rightarrow> string \<Rightarrow> suggestion_status option \<Rightarrow> exn + suggestion list" where
  "store_list_suggestions mc dirs fid status =
     bind_result (read_frame mc dirs fid) (\<lambda>f.
       Inr (case status of None \<Rightarrow> fr_suggestions f | Some st \<Rightarrow> filter (\<lambda>s. sg_status s = st) (fr_suggestions f)))"

definition store_close_suggestion ::
  "model_codec \<Rightarrow> nat \<Rightarrow> string \<Rightarrow> string \<Rightarrow> frame_dirs \<Rightarrow> (exn + suggestion) \<times> frame_dirs" where
  "store_close_suggestion mc now fid sid dirs =
     (case bind_result (read_frame mc dirs fid) (\<lambda>f. close_suggestion_in_frame now f sid) of
        Inl x \<Rightarrow> (Inl x, dirs)
      | Inr (c, f) \<Rightarrow> (Inr c, write_frame mc f dirs))"

subsection \<open>Active selections\<close>

type_synonym active_key = "string \<times> string \<times> string"
type_synonym active_items = "(active_key, string list) dict"

definition ActiveStateUnavailableError :: exn where
  "ActiveStateUnavailableError = Raised ''ActiveStateUnavailableError'' []"

definition get_active_frame_ids :: "active_items option \<Rightarrow> active_key \<Rightarrow> exn + string list" where
  "get_active_frame_ids act key =
     (case act of
        None \<Rightarrow> Inl ActiveStateUnavailableError
      | Some items \<Rightarrow> Inr (case map_of items key of None \<Rightarrow> [] | Some ids \<Rightarrow> ids))"

definition set_active_frame_ids ::
  "active_key \<Rightarrow> string list \<Rightarrow> active_items option \<Rightarrow> (exn + string list) \<times> active_items option" where
  "set_active_frame_ids key ids act =
     (case act of
        None \<Rightarrow> (Inl ActiveStateUnavailableError, None)
      | Some items \<Rightarrow> (Inr ids, Some (AList.update key ids items)))"

definition without :: "string \<Rightarrow> string list \<Rightarrow> string list" where
  "without fid ids = filter (\<lambda>i. i \<noteq> fid) ids"

definition remove_frame_id :: "string \<Rightarrow> active_items option \<Rightarrow> active_items option" where
  "remove_frame_id fid act = map_option (map (\<lambda>(k, ids). (k, without fid ids))) act"

definition find_active_holders :: "active_items option \<Rightarrow> string \<Rightarrow> active_key list" where
  "find_active_holders act fid =
     (case act of None \<Rightarrow> [] | Some items \<Rightarrow> map fst (filter (\<lambda>(k, ids). fid \<in> set ids) items))"

definition remove_frame_id_for :: "active_key \<Rightarrow> string \<Rightarrow> active_items option \<Rightarrow> active_items option" where
  "remove_frame_id_for key fid act =
     (case act of
        None \<Rightarrow> None
      | Some items \<Rightarrow>
          (case map_of items key of
             None \<Rightarrow> Some items
           | Some ids \<Rightarrow> Some (AList.update key (without fid ids) items)))"

record active_frame_usage =
  af_frames :: nat
  af_users :: nat

definition count_active :: "active_items option \<Rightarrow> string \<Rightarrow> string \<Rightarrow> exn + active_frame_usage" where
  "count_active act org workspace =
     (case act of
        None \<Rightarrow> Inl ActiveStateUnavailableError
      | Some items \<Rightarrow>
          (let mine = filter (\<lambda>((o', w, u), ids). o' = org \<and> w = workspace \<and> ids \<noteq> []) items
           in Inr \<lparr>af_frames = card (set (concat (map snd mine))), af_users = length mine\<rparr>))"

end
