(* ===== verification/FrameGroups.thy ===== *)
theory FrameGroups
  imports FrameStore
begin

section \<open>Frame Groups and change history (frames/groups.py, frames/history.py)\<close>

text \<open>
  A group bundles Frames under its own owners and visibility; who sees it depends on its members,
  read when the group is.  The stores are the in-memory ones, or none when no database is
  configured: then a group operation raises, and a history entry is dropped.
\<close>

subsection \<open>Groups\<close>

definition FrameGroupNotFoundError :: "string \<Rightarrow> exn" where
  "FrameGroupNotFoundError gid = Raised ''FrameGroupNotFoundError'' gid"
definition FrameGroupStoreUnavailableError :: exn where
  "FrameGroupStoreUnavailableError = Raised ''FrameGroupStoreUnavailableError'' []"

definition normalize_frame_ids :: "string list \<Rightarrow> exn + string list" where
  "normalize_frame_ids ids =
     bind_result (normalized validate_frame_id ids) (\<lambda>xs. if xs = [] then Inl ValueError else Inr xs)"

record frame_group =
  gr_id :: string
  gr_org_id :: string
  gr_workspace_id :: string
  gr_name :: string
  gr_description :: string
  gr_created_by :: string
  gr_owners :: "string list"
  gr_visibility :: visibility
  gr_frame_ids :: "string list"
  gr_all_published :: bool
  gr_effective_visibility :: visibility
  gr_created_at :: nat
  gr_updated_at :: nat

text \<open>The constructor of \<open>FrameGroup\<close>: its limits, then its validators.\<close>

definition validate_group :: "frame_group \<Rightarrow> exn + frame_group" where
  "validate_group g =
     (if \<not> (ID_PATTERN (gr_id g) \<and> len_within 1 FRAME_NAME_MAX_LENGTH (gr_name g) \<and>
            len_within 0 DESCRIPTION_MAX_LENGTH (gr_description g)) then Inl ValueError
      else bind_result (normalize_name (gr_name g)) (\<lambda>name.
           bind_result (normalize_owners True (gr_owners g)) (\<lambda>owners.
           bind_result (normalize_frame_ids (gr_frame_ids g)) (\<lambda>ids.
             Inr (g\<lparr>gr_name := name, gr_owners := owners, gr_frame_ids := ids\<rparr>)))))"

definition BROADNESS :: "visibility \<Rightarrow> nat" where
  "BROADNESS v = (case v of Private \<Rightarrow> 0 | Internal \<Rightarrow> 1 | Public \<Rightarrow> 2)"

text \<open>\<open>min\<close> of the list, the first of the narrowest.\<close>

definition effective_group_visibility :: "visibility \<Rightarrow> visibility list \<Rightarrow> visibility" where
  "effective_group_visibility own members = foldl (\<lambda>a v. if BROADNESS v < BROADNESS a then v else a) own members"

text \<open>A member that is missing or cannot be decoded counts as not published.\<close>

definition derive_member ::
  "model_codec \<Rightarrow> frame_dirs \<Rightarrow> bool \<times> visibility list \<Rightarrow> string \<Rightarrow> bool \<times> visibility list" where
  "derive_member mc dirs acc fid =
     (case read_frame mc dirs fid of
        Inl _ \<Rightarrow> (False, snd acc)
      | Inr f \<Rightarrow> (if fr_published f then fst acc else False, snd acc @ [fr_visibility f]))"

definition compute_derived :: "model_codec \<Rightarrow> frame_dirs \<Rightarrow> frame_group \<Rightarrow> bool \<times> visibility" where
  "compute_derived mc dirs g =
     (let (all_published, vs) = foldl (derive_member mc dirs) (True, []) (gr_frame_ids g)
      in (all_published, effective_group_visibility (gr_visibility g) vs))"

definition project_group :: "model_codec \<Rightarrow> frame_dirs \<Rightarrow> frame_group \<Rightarrow> frame_group" where
  "project_group mc dirs g =
     (let (p, v) = compute_derived mc dirs g in g\<lparr>gr_all_published := p, gr_effective_visibility := v\<rparr>)"

subsection \<open>Who may read and manage a group (access.py)\<close>

text \<open>The comparison with \<open>and\<close>: the workspace is read only when the organization agrees.\<close>

definition can_read_group :: "frame_group \<Rightarrow> auth_context \<Rightarrow> exn + bool" where
  "can_read_group g auth =
     (if au_user auth \<in> set (gr_owners g) then Inr True
      else if \<not> gr_all_published g then Inr False
      else if gr_effective_visibility g = Public then Inr True
      else if gr_effective_visibility g = Internal then
        bind_result (auth_org_id auth) (\<lambda>org. Inr (gr_org_id g = org \<and> gr_workspace_id g = workspace_id auth))
      else Inr False)"

definition can_manage_group :: "frame_group \<Rightarrow> auth_context \<Rightarrow> exn + bool" where
  "can_manage_group g auth =
     (if au_user auth \<in> set (gr_owners g) then in_tenant (gr_org_id g) (gr_workspace_id g) auth else Inr False)"

subsection \<open>The group store\<close>

type_synonym group_items = "(string, frame_group) dict"

definition with_groups :: "group_items option \<Rightarrow> (group_items \<Rightarrow> (exn + 'a) \<times> group_items) \<Rightarrow> (exn + 'a) \<times> group_items option" where
  "with_groups gs f =
     (case gs of
        None \<Rightarrow> (Inl FrameGroupStoreUnavailableError, None)
      | Some items \<Rightarrow> (let (r, items') = f items in (r, Some items')))"

definition store_list_groups :: "string \<Rightarrow> string \<Rightarrow> group_items option \<Rightarrow> exn + frame_group list" where
  "store_list_groups org workspace gs =
     (case gs of
        None \<Rightarrow> Inl FrameGroupStoreUnavailableError
      | Some items \<Rightarrow> Inr (filter (\<lambda>g. gr_org_id g = org \<and> gr_workspace_id g = workspace) (map snd items)))"

definition store_get_group :: "string \<Rightarrow> group_items option \<Rightarrow> exn + frame_group" where
  "store_get_group gid gs =
     (case gs of
        None \<Rightarrow> Inl FrameGroupStoreUnavailableError
      | Some items \<Rightarrow> (case map_of items gid of None \<Rightarrow> Inl (FrameGroupNotFoundError gid) | Some g \<Rightarrow> Inr g))"

definition find_groups_containing :: "string \<Rightarrow> group_items option \<Rightarrow> exn + frame_group list" where
  "find_groups_containing fid gs =
     (case gs of
        None \<Rightarrow> Inl FrameGroupStoreUnavailableError
      | Some items \<Rightarrow> Inr (filter (\<lambda>g. fid \<in> set (gr_frame_ids g)) (map snd items)))"

definition store_create_group ::
  "string \<Rightarrow> nat \<Rightarrow> string \<Rightarrow> string \<Rightarrow> string \<Rightarrow> string list \<Rightarrow> string \<Rightarrow> string \<Rightarrow> visibility \<Rightarrow> string list \<Rightarrow>
   group_items option \<Rightarrow> (exn + frame_group) \<times> group_items option" where
  "store_create_group hex now org workspace creator owners name description vis ids gs =
     with_groups gs (\<lambda>items.
       case bind_result (normalize_frame_ids ids) (\<lambda>ids'. validate_group
              \<lparr>gr_id = hex, gr_org_id = org, gr_workspace_id = workspace, gr_name = name, gr_description = description,
               gr_created_by = creator, gr_owners = owners, gr_visibility = vis, gr_frame_ids = ids',
               gr_all_published = False, gr_effective_visibility = Private, gr_created_at = now, gr_updated_at = now\<rparr>) of
         Inl x \<Rightarrow> (Inl x, items)
       | Inr g \<Rightarrow> (Inr g, AList.update (gr_id g) g items))"

text \<open>\<open>_mutate\<close>, and the membership writers: \<open>change\<close> may refuse.\<close>

definition mutate_group ::
  "nat \<Rightarrow> string \<Rightarrow> (frame_group \<Rightarrow> exn + frame_group) \<Rightarrow> group_items option \<Rightarrow> (exn + frame_group) \<times> group_items option" where
  "mutate_group now gid change gs =
     with_groups gs (\<lambda>items.
       case map_of items gid of
         None \<Rightarrow> (Inl (FrameGroupNotFoundError gid), items)
       | Some g \<Rightarrow>
           (case change g of
              Inl x \<Rightarrow> (Inl x, items)
            | Inr g' \<Rightarrow> (let u = g'\<lparr>gr_updated_at := now\<rparr> in (Inr u, AList.update gid u items))))"

definition store_update_group ::
  "nat \<Rightarrow> string \<Rightarrow> string \<Rightarrow> string \<Rightarrow> visibility \<Rightarrow> group_items option \<Rightarrow> (exn + frame_group) \<times> group_items option" where
  "store_update_group now gid name description vis =
     mutate_group now gid (\<lambda>g. Inr (g\<lparr>gr_name := name, gr_description := description, gr_visibility := vis\<rparr>))"

definition store_delete_group :: "string \<Rightarrow> group_items option \<Rightarrow> (exn + unit) \<times> group_items option" where
  "store_delete_group gid gs =
     with_groups gs (\<lambda>items.
       if map_of items gid = None then (Inl (FrameGroupNotFoundError gid), items) else (Inr (), AList.delete gid items))"

text \<open>The owners are normalized before the group is looked up.\<close>

definition store_set_group_owners ::
  "nat \<Rightarrow> string \<Rightarrow> string list \<Rightarrow> group_items option \<Rightarrow> (exn + frame_group) \<times> group_items option" where
  "store_set_group_owners now gid owners gs =
     (if gs = None then (Inl FrameGroupStoreUnavailableError, None)
      else case normalize_owners True owners of
        Inl x \<Rightarrow> (Inl x, gs)
      | Inr owners' \<Rightarrow> mutate_group now gid (\<lambda>g. Inr (g\<lparr>gr_owners := owners'\<rparr>)) gs)"

definition store_add_frame ::
  "nat \<Rightarrow> string \<Rightarrow> string \<Rightarrow> group_items option \<Rightarrow> (exn + frame_group) \<times> group_items option" where
  "store_add_frame now gid fid =
     mutate_group now gid (\<lambda>g.
       bind_result (normalize_frame_ids (gr_frame_ids g @ [fid])) (\<lambda>ids. Inr (g\<lparr>gr_frame_ids := ids\<rparr>)))"

definition store_remove_frame ::
  "nat \<Rightarrow> string \<Rightarrow> string \<Rightarrow> group_items option \<Rightarrow> (exn + frame_group) \<times> group_items option" where
  "store_remove_frame now gid fid =
     mutate_group now gid (\<lambda>g.
       bind_result (normalize_frame_ids (without fid (gr_frame_ids g))) (\<lambda>ids. Inr (g\<lparr>gr_frame_ids := ids\<rparr>)))"

subsection \<open>History\<close>

definition DETAIL_MAX_BYTES :: nat where "DETAIL_MAX_BYTES = 4096"

record history_entry =
  he_id :: string
  he_org_id :: string
  he_workspace_id :: string
  he_entity_type :: string
  he_entity_id :: string
  he_event :: string
  he_actor :: string
  he_detail :: "payload option"
  he_created_at :: nat

text \<open>The length of \<open>json.dumps(detail, separators=(",", ":"))\<close>; no detail holds a float.\<close>

fun compact_len :: "pyval \<Rightarrow> nat" where
  "compact_len PNone = 4"
| "compact_len (PBool b) = (if b then 4 else 5)"
| "compact_len (PInt n) = length (show_int n)"
| "compact_len (PFloat f) = 0"
| "compact_len (PStr s) = str_json_len s"
| "compact_len (PList xs) = 2 + (length xs - 1) + sum_list (map compact_len xs)"
| "compact_len (PDict d) =
     2 + (length d - 1) + sum_list (map (\<lambda>p. str_json_len (fst p) + 1 + compact_len (snd p)) d)"
| "compact_len (POther t) = str_json_len t"

definition cap_detail :: "payload option \<Rightarrow> payload option" where
  "cap_detail detail =
     (case detail of
        None \<Rightarrow> None
      | Some d \<Rightarrow> if DETAIL_MAX_BYTES < compact_len (PDict d) then Some [(''truncated'', PBool True)] else Some d)"

text \<open>\<open>draw n\<close> is the id and the time the \<open>n\<close>-th entry is given.\<close>

type_synonym history = "history_entry list option"

definition history_record ::
  "(nat \<Rightarrow> string \<times> nat) \<Rightarrow> string \<Rightarrow> string \<Rightarrow> string \<Rightarrow> string \<Rightarrow> string \<Rightarrow> string \<Rightarrow> payload option \<Rightarrow>
   history \<Rightarrow> history" where
  "history_record draw org workspace entity_type entity_id event actor detail h =
     (case h of
        None \<Rightarrow> None
      | Some entries \<Rightarrow>
          Some (entries @
            [\<lparr>he_id = fst (draw (length entries)), he_org_id = org, he_workspace_id = workspace,
              he_entity_type = entity_type, he_entity_id = entity_id, he_event = event, he_actor = actor,
              he_detail = cap_detail detail, he_created_at = snd (draw (length entries))\<rparr>]))"

definition HistoryUnavailableError :: exn where "HistoryUnavailableError = Raised ''HistoryUnavailableError'' []"

text \<open>\<open>(created_at, id)\<close>, compared as Python compares tuples.\<close>

definition cursor_of :: "history_entry \<Rightarrow> nat \<times> string" where
  "cursor_of e = (he_created_at e, he_id e)"

definition cursor_less :: "nat \<times> string \<Rightarrow> nat \<times> string \<Rightarrow> bool" where
  "cursor_less a b = (fst a < fst b \<or> fst a = fst b \<and> snd a \<noteq> snd b \<and> char_le (snd a) (snd b))"

fun insert_newest :: "history_entry \<Rightarrow> history_entry list \<Rightarrow> history_entry list" where
  "insert_newest e [] = [e]"
| "insert_newest e (f # fs) = (if cursor_less (cursor_of e) (cursor_of f) then f # insert_newest e fs else e # f # fs)"

definition history_order :: "history_entry list \<Rightarrow> history_entry list" where
  "history_order es = foldr insert_newest es []"

definition entries_of :: "string \<Rightarrow> string \<Rightarrow> string \<Rightarrow> string \<Rightarrow> history_entry list \<Rightarrow> history_entry list" where
  "entries_of org workspace entity_type entity_id es =
     history_order (filter (\<lambda>e. he_org_id e = org \<and> he_workspace_id e = workspace \<and> he_entity_type e = entity_type \<and>
                               he_entity_id e = entity_id) es)"

definition history_query ::
  "string \<Rightarrow> string \<Rightarrow> string \<Rightarrow> string \<Rightarrow> nat \<Rightarrow> (nat \<times> string) option \<Rightarrow> history \<Rightarrow> exn + history_entry list" where
  "history_query org workspace entity_type entity_id limit before h =
     (case h of
        None \<Rightarrow> Inl HistoryUnavailableError
      | Some es \<Rightarrow>
          (let matches = entries_of org workspace entity_type entity_id es
           in Inr (take limit (case before of
                                 None \<Rightarrow> matches
                               | Some c \<Rightarrow> filter (\<lambda>e. cursor_less (cursor_of e) c) matches))))"

end
