(* ===== verification/FrameRoutes.thy ===== *)
theory FrameRoutes
  imports FrameGroups
begin

section \<open>The frames API (routers/frames.py and routers/frame_groups.py)\<close>

text \<open>
  The handlers behind \<open>/v1/frames\<close>, \<open>/v1/active-frames\<close> and \<open>/v1/frame-groups\<close>.  \<open>hub\<close> is what they
  share; a handler is one step on it, since each store's operation holds its lock and the handlers
  are taken one at a time.  A request carries what the request model has typed; the model's own checks
  are the \<open>read_\<close> functions, and a request they refuse is answered 422 without calling the handler.
  \<open>hex\<close> and \<open>now\<close> are the \<open>uuid4().hex\<close> and the clock of the call.  \<open>audit_event\<close> writes a log line
  and is left out.
\<close>

subsection \<open>The state and the answers\<close>

record frame_world =
  fw_codec :: model_codec
  fw_pinned :: bool
  fw_draw :: "nat \<Rightarrow> string \<times> nat"
  fw_encode_cursor :: "nat \<times> string \<Rightarrow> string"
  fw_decode_cursor :: "string \<Rightarrow> (nat \<times> string) option"

record hub =
  hb_frames :: frame_dirs
  hb_active :: "active_items option"
  hb_groups :: "group_items option"
  hb_history :: history

datatype frame_answer =
    Nothing
  | Frames "frame_metadata list"
  | TheFrame frame
  | Owners "string list"
  | Readers "string list"
  | TheSuggestion suggestion
  | Suggestions "suggestion list"
  | ActiveFrames active_key "string list"
  | Groups "frame_group list"
  | TheGroup frame_group
  | History "history_entry list" "string option"

text \<open>An error is its status, its code and its details; an exception nothing handles is a bare 500.\<close>

datatype frame_reply =
    Answer nat frame_answer
  | ErrorReply nat string "string option"
  | ServerError exn

definition forbidden :: exn where "forbidden = Raised ''HTTPException'' ''403''"

text \<open>The registered exception handlers.\<close>

definition error_answer :: "exn \<Rightarrow> frame_reply" where
  "error_answer x =
     (case x of
        Raised c m \<Rightarrow>
          if c = ''FrameNotFoundError'' then ErrorReply 404 ''frame_not_found'' None
          else if c = ''SuggestionNotFoundError'' then ErrorReply 404 ''suggestion_not_found'' None
          else if c = ''FrameGroupNotFoundError'' then ErrorReply 404 ''group_not_found'' None
          else if c = ''ActiveStateUnavailableError'' then ErrorReply 503 ''active_state_unavailable'' None
          else if c = ''HistoryUnavailableError'' then ErrorReply 503 ''history_unavailable'' None
          else if c = ''FrameGroupStoreUnavailableError'' then ErrorReply 503 ''groups_unavailable'' None
          else if c = ''FrameDecodeError'' then ErrorReply 500 ''frame_decode_error'' (Some m)
          else if c = ''NoOrganizationError'' then ErrorReply 403 ''no_organization'' None
          else if c = ''HTTPException'' then ErrorReply 403 ''forbidden'' None
          else ServerError x
      | _ \<Rightarrow> ServerError x)"

type_synonym 'a handler = "(hub, exn, 'a) sx"

definition invalid_request :: frame_reply where
  "invalid_request = ErrorReply 422 ''validation_error'' None"

definition conflict :: "string \<Rightarrow> frame_reply" where
  "conflict code = ErrorReply 409 code None"

text \<open>A path parameter with \<open>pattern=ID_PATTERN\<close>, and a body the request model reads.\<close>

definition with_id :: "string \<Rightarrow> frame_reply handler \<Rightarrow> frame_reply handler" where
  "with_id i m = (if ID_PATTERN i then m else ret invalid_request)"

definition with_body_of :: "exn + 'a \<Rightarrow> ('a \<Rightarrow> frame_reply handler) \<Rightarrow> frame_reply handler" where
  "with_body_of r m = (case r of Inl _ \<Rightarrow> ret invalid_request | Inr x \<Rightarrow> m x)"

definition frames_op :: "(frame_dirs \<Rightarrow> (exn + 'a) \<times> frame_dirs) \<Rightarrow> 'a handler" where
  "frames_op f = (\<lambda>h. let (r, d) = f (hb_frames h) in (r, h\<lparr>hb_frames := d\<rparr>))"

definition active_op :: "(active_items option \<Rightarrow> (exn + 'a) \<times> active_items option) \<Rightarrow> 'a handler" where
  "active_op f = (\<lambda>h. let (r, a) = f (hb_active h) in (r, h\<lparr>hb_active := a\<rparr>))"

definition groups_op :: "(group_items option \<Rightarrow> (exn + 'a) \<times> group_items option) \<Rightarrow> 'a handler" where
  "groups_op f = (\<lambda>h. let (r, g) = f (hb_groups h) in (r, h\<lparr>hb_groups := g\<rparr>))"

definition reads :: "(hub \<Rightarrow> exn + 'a) \<Rightarrow> 'a handler" where
  "reads f = (\<lambda>h. (f h, h))"

subsection \<open>Requests\<close>

record frame_create =
  fc_name :: string
  fc_description :: string
  fc_visibility :: visibility
  fc_owners :: "string list"
  fc_tags :: "string list"
  fc_body :: string

record frame_update =
  fu_name :: string
  fu_description :: string
  fu_visibility :: visibility
  fu_tags :: "string list"
  fu_body :: string

record frame_group_create =
  gc_name :: string
  gc_description :: string
  gc_visibility :: visibility
  gc_frame_ids :: "string list"

record frame_group_update =
  gu_name :: string
  gu_description :: string
  gu_visibility :: visibility

definition name_and_description_ok :: "string \<Rightarrow> string \<Rightarrow> bool" where
  "name_and_description_ok name description =
     (len_within 1 FRAME_NAME_MAX_LENGTH name \<and> len_within 0 DESCRIPTION_MAX_LENGTH description)"

definition read_frame_create :: "bool \<Rightarrow> frame_create \<Rightarrow> exn + frame_create" where
  "read_frame_create pinned p =
     (if \<not> name_and_description_ok (fc_name p) (fc_description p) \<or> \<not> len_within 1 FRAME_BODY_MAX_LENGTH (fc_body p)
      then Inl ValueError
      else bind_result (normalize_tags (fc_tags p)) (\<lambda>tags.
           bind_result (normalize_name (fc_name p)) (\<lambda>name.
           bind_result (bind_result (normalize_owners False (fc_owners p)) (validate_acl_principals pinned)) (\<lambda>owners.
             Inr (p\<lparr>fc_tags := tags, fc_name := name, fc_owners := owners\<rparr>)))))"

definition read_frame_update :: "frame_update \<Rightarrow> exn + frame_update" where
  "read_frame_update p =
     (if \<not> name_and_description_ok (fu_name p) (fu_description p) \<or> \<not> len_within 1 FRAME_BODY_MAX_LENGTH (fu_body p)
      then Inl ValueError
      else bind_result (normalize_tags (fu_tags p)) (\<lambda>tags.
           bind_result (normalize_name (fu_name p)) (\<lambda>name.
             Inr (p\<lparr>fu_tags := tags, fu_name := name\<rparr>))))"

definition read_owners :: "bool \<Rightarrow> string list \<Rightarrow> exn + string list" where
  "read_owners pinned owners = bind_result (normalize_owners True owners) (validate_acl_principals pinned)"

definition read_readers :: "bool \<Rightarrow> string list \<Rightarrow> exn + string list" where
  "read_readers pinned readers = bind_result (normalize_readers readers) (validate_acl_principals pinned)"

definition read_email :: "bool \<Rightarrow> string \<Rightarrow> exn + string" where
  "read_email pinned email =
     (if email = [] then Inl ValueError else bind_result (normalize_name email) (validate_acl_principal pinned))"

definition read_suggestion_body :: "string \<Rightarrow> exn + string" where
  "read_suggestion_body body = (if len_within 1 SUGGESTION_BODY_MAX_LENGTH body then Inr body else Inl ValueError)"

definition read_active_ids :: "string list \<Rightarrow> exn + string list" where
  "read_active_ids ids = (if MAX_ACTIVE_FRAMES < length ids then Inl ValueError else normalized validate_frame_id ids)"

definition read_group_create :: "frame_group_create \<Rightarrow> exn + frame_group_create" where
  "read_group_create p =
     (if \<not> name_and_description_ok (gc_name p) (gc_description p) \<or> gc_frame_ids p = [] then Inl ValueError
      else bind_result (normalize_name (gc_name p)) (\<lambda>name.
           bind_result (normalize_frame_ids (gc_frame_ids p)) (\<lambda>ids.
             Inr (p\<lparr>gc_name := name, gc_frame_ids := ids\<rparr>))))"

definition read_group_update :: "frame_group_update \<Rightarrow> exn + frame_group_update" where
  "read_group_update p =
     (if \<not> name_and_description_ok (gu_name p) (gu_description p) then Inl ValueError
      else bind_result (normalize_name (gu_name p)) (\<lambda>name. Inr (p\<lparr>gu_name := name\<rparr>)))"

subsection \<open>What the frame handlers share\<close>

definition require_readable_frame :: "frame \<Rightarrow> auth_context \<Rightarrow> exn + frame" where
  "require_readable_frame f auth =
     bind_result (can_read f auth) (\<lambda>ok. if ok then Inr f else Inl (FrameNotFoundError (fr_id f)))"

definition require_manageable_frame :: "frame \<Rightarrow> auth_context \<Rightarrow> exn + frame" where
  "require_manageable_frame f auth =
     bind_result (can_read f auth) (\<lambda>readable.
       if \<not> readable then Inl (FrameNotFoundError (fr_id f))
       else bind_result (can_manage f auth) (\<lambda>ok. if ok then Inr f else Inl forbidden))"

definition readable_frame :: "frame_world \<Rightarrow> auth_context \<Rightarrow> string \<Rightarrow> frame handler" where
  "readable_frame W auth fid =
     reads (\<lambda>h. bind_result (read_frame (fw_codec W) (hb_frames h) fid) (\<lambda>f. require_readable_frame f auth))"

definition manageable_frame :: "frame_world \<Rightarrow> auth_context \<Rightarrow> string \<Rightarrow> frame handler" where
  "manageable_frame W auth fid =
     reads (\<lambda>h. bind_result (read_frame (fw_codec W) (hb_frames h) fid) (\<lambda>f. require_manageable_frame f auth))"

text \<open>Each holder is probed with its own organization and workspace.\<close>

definition probe :: "active_key \<Rightarrow> auth_context" where
  "probe key = (case key of (org, workspace, user) \<Rightarrow>
     \<lparr>au_user = user, home_org_id = Some org, workspace_id = workspace, display_name = None, display_email = None\<rparr>)"

primrec prune_holders :: "frame \<Rightarrow> active_key list \<Rightarrow> unit handler" where
  "prune_holders f [] = ret ()"
| "prune_holders f (key # keys) =
     bind (lift (can_read f (probe key))) (\<lambda>ok.
       andthen (if ok then ret () else active_op (\<lambda>a. (Inr (), remove_frame_id_for key (fr_id f) a)))
               (prune_holders f keys))"

definition reconcile_active :: "frame \<Rightarrow> unit handler" where
  "reconcile_active f = bind (gets (\<lambda>h. find_active_holders (hb_active h) (fr_id f))) (prune_holders f)"

text \<open>The \<open>detail\<close> of a history entry.\<close>

definition changed :: "string \<Rightarrow> string \<Rightarrow> string \<Rightarrow> payload" where
  "changed field old new =
     (if old \<noteq> new then [(field, PDict [(''from'', PStr old), (''to'', PStr new)])] else [])"

definition list_diff :: "string list \<Rightarrow> string list \<Rightarrow> payload" where
  "list_diff before after =
     [(''added'', PList (map PStr (filter (\<lambda>i. i \<notin> set before) after))),
      (''removed'', PList (map PStr (filter (\<lambda>i. i \<notin> set after) before)))]"

definition record_frame_history ::
  "frame_world \<Rightarrow> auth_context \<Rightarrow> frame \<Rightarrow> string \<Rightarrow> payload \<Rightarrow> unit handler" where
  "record_frame_history W auth f event detail =
     modify (\<lambda>h. h\<lparr>hb_history := history_record (fw_draw W) (fr_org_id f) (fr_workspace_id f) ''frame'' (fr_id f)
                                   event (au_user auth) (Some detail) (hb_history h)\<rparr>)"

definition record_group_history ::
  "frame_world \<Rightarrow> auth_context \<Rightarrow> frame_group \<Rightarrow> string \<Rightarrow> payload \<Rightarrow> unit handler" where
  "record_group_history W auth g event detail =
     modify (\<lambda>h. h\<lparr>hb_history := history_record (fw_draw W) (gr_org_id g) (gr_workspace_id g) ''group'' (gr_id g)
                                   event (au_user auth) (Some detail) (hb_history h)\<rparr>)"

definition remove_deleted_member_from_group ::
  "frame_world \<Rightarrow> auth_context \<Rightarrow> nat \<Rightarrow> string \<Rightarrow> frame_group \<Rightarrow> unit handler" where
  "remove_deleted_member_from_group W auth now fid g =
     (if gr_frame_ids g = [fid] then
        andthen (groups_op (store_delete_group (gr_id g)))
          (record_group_history W auth g ''deleted'' [(''reason'', PStr ''last_member_deleted''), (''frame_id'', PStr fid)])
      else
        bind (groups_op (store_remove_frame now (gr_id g) fid)) (\<lambda>u.
          record_group_history W auth u ''frame_removed''
            [(''reason'', PStr ''member_frame_deleted''), (''frame_id'', PStr fid)]))"

primrec each :: "('a \<Rightarrow> unit handler) \<Rightarrow> 'a list \<Rightarrow> unit handler" where
  "each f [] = ret ()"
| "each f (x # xs) = andthen (f x) (each f xs)"

definition reconcile_groups_after_frame_delete ::
  "frame_world \<Rightarrow> auth_context \<Rightarrow> nat \<Rightarrow> frame \<Rightarrow> unit handler" where
  "reconcile_groups_after_frame_delete W auth now f =
     bind (gets (\<lambda>h. find_groups_containing (fr_id f) (hb_groups h))) (\<lambda>found.
       case found of
         Inl x \<Rightarrow> (if x = FrameGroupStoreUnavailableError then ret () else raise x)
       | Inr groups \<Rightarrow> each (remove_deleted_member_from_group W auth now (fr_id f)) groups)"

text \<open>A query parameter that is absent, or equal.\<close>

definition is_wanted :: "'a option \<Rightarrow> 'a \<Rightarrow> bool" where
  "is_wanted w x = (case w of None \<Rightarrow> True | Some y \<Rightarrow> x = y)"

subsection \<open>The frame handlers\<close>

text \<open>The ids of the group the listing is filtered by; \<open>None\<close> when it resolves to no members.\<close>

definition group_filter ::
  "frame_world \<Rightarrow> auth_context \<Rightarrow> hub \<Rightarrow> string \<Rightarrow> exn + string list option" where
  "group_filter W auth h gid =
     (case store_get_group gid (hb_groups h) of
        Inl x \<Rightarrow> (if x = FrameGroupNotFoundError gid \<or> x = FrameGroupStoreUnavailableError then Inr None else Inl x)
      | Inr g0 \<Rightarrow>
          (let g = project_group (fw_codec W) (hb_frames h) g0
           in bind_result (auth_org_id auth) (\<lambda>org.
              if gr_org_id g \<noteq> org \<or> gr_workspace_id g \<noteq> workspace_id auth then Inr None
              else bind_result (can_read_group g auth) (\<lambda>ok. Inr (if ok then Some (gr_frame_ids g) else None)))))"

definition listed_frames ::
  "frame_world \<Rightarrow> auth_context \<Rightarrow> string option \<Rightarrow> string list option \<Rightarrow> string option \<Rightarrow> visibility option \<Rightarrow>
   bool option \<Rightarrow> string list option \<Rightarrow> hub \<Rightarrow> exn + frame_metadata list" where
  "listed_frames W auth name tags owner vis published members h =
     bind_result (auth_org_id auth) (\<lambda>org.
       bind_result (filter_result (\<lambda>item. can_read item auth)
           (store_list_frames (fw_codec W) (hb_frames h) org (workspace_id auth) name tags owner)) (\<lambda>items.
         Inr (filter (\<lambda>item. is_wanted vis (fr_visibility item) \<and> is_wanted published (fr_published item) \<and>
                             (case members of None \<Rightarrow> True | Some ids \<Rightarrow> fr_id item \<in> set ids)) items)))"

definition list_frames ::
  "frame_world \<Rightarrow> auth_context \<Rightarrow> string option \<Rightarrow> string list option \<Rightarrow> string option \<Rightarrow> visibility option \<Rightarrow>
   bool option \<Rightarrow> string option \<Rightarrow> frame_reply handler" where
  "list_frames W auth name tags owner vis published group_id =
     reads (\<lambda>h.
       case group_id of
         None \<Rightarrow> bind_result (listed_frames W auth name tags owner vis published None h) (\<lambda>fs. Inr (Answer 200 (Frames fs)))
       | Some gid \<Rightarrow>
           bind_result (group_filter W auth h gid) (\<lambda>members.
             case members of
               None \<Rightarrow> Inr (Answer 200 (Frames []))
             | Some ids \<Rightarrow>
                 bind_result (listed_frames W auth name tags owner vis published (Some ids) h) (\<lambda>fs.
                   Inr (Answer 200 (Frames fs)))))"

definition get_frame :: "frame_world \<Rightarrow> auth_context \<Rightarrow> string \<Rightarrow> frame_reply handler" where
  "get_frame W auth fid = with_id fid (bind (readable_frame W auth fid) (\<lambda>f. ret (Answer 200 (TheFrame f))))"

definition create_frame ::
  "frame_world \<Rightarrow> auth_context \<Rightarrow> string \<Rightarrow> nat \<Rightarrow> frame_create \<Rightarrow> frame_reply handler" where
  "create_frame W auth hex now payload =
     with_body_of (read_frame_create (fw_pinned W) payload) (\<lambda>p.
       bind (lift (normalize_owners True (au_user auth # fc_owners p))) (\<lambda>owners.
       bind (lift (auth_org_id auth)) (\<lambda>org.
       bind (frames_op (store_create_frame (fw_codec W) hex now org (workspace_id auth) (au_user auth) owners (fc_name p)
              (fc_description p) (fc_visibility p) (fc_tags p) (fc_body p))) (\<lambda>f.
       andthen (record_frame_history W auth f ''created'' [(''name'', PStr (fr_name f))])
         (ret (Answer 201 (TheFrame f)))))))"

definition update_detail :: "frame \<Rightarrow> frame \<Rightarrow> payload" where
  "update_detail before after =
     changed ''name'' (fr_name before) (fr_name after) @
     changed ''description'' (fr_description before) (fr_description after) @
     changed ''visibility'' (visibility_value (fr_visibility before)) (visibility_value (fr_visibility after)) @
     (if set (fr_tags before) \<noteq> set (fr_tags after) then [(''tags'', PDict (list_diff (fr_tags before) (fr_tags after)))]
      else [])"

definition update_frame ::
  "frame_world \<Rightarrow> auth_context \<Rightarrow> nat \<Rightarrow> string \<Rightarrow> frame_update \<Rightarrow> frame_reply handler" where
  "update_frame W auth now fid payload =
     with_id fid (with_body_of (read_frame_update payload) (\<lambda>p.
       bind (manageable_frame W auth fid) (\<lambda>before.
       bind (frames_op (store_update_frame (fw_codec W) now fid (fu_name p) (fu_description p) (fu_visibility p)
              (fu_tags p) (fu_body p))) (\<lambda>updated.
       andthen (reconcile_active updated)
       (andthen (record_frame_history W auth updated ''updated'' (update_detail before updated))
       (andthen
         (if fr_visibility before \<noteq> fr_visibility updated then
            record_frame_history W auth updated ''visibility_changed''
              (changed ''visibility'' (visibility_value (fr_visibility before)) (visibility_value (fr_visibility updated)))
          else ret ())
         (ret (Answer 200 (TheFrame updated)))))))))"

definition delete_frame :: "frame_world \<Rightarrow> auth_context \<Rightarrow> nat \<Rightarrow> string \<Rightarrow> frame_reply handler" where
  "delete_frame W auth now fid =
     with_id fid
       (bind (manageable_frame W auth fid) (\<lambda>f.
        andthen (frames_op (store_delete_frame fid))
        (andthen (active_op (\<lambda>a. (Inr (), remove_frame_id fid a)))
        (andthen (reconcile_groups_after_frame_delete W auth now f)
        (andthen (record_frame_history W auth f ''deleted'' [])
          (ret (Answer 204 Nothing)))))))"

definition get_owners :: "frame_world \<Rightarrow> auth_context \<Rightarrow> string \<Rightarrow> frame_reply handler" where
  "get_owners W auth fid = with_id fid (bind (readable_frame W auth fid) (\<lambda>f. ret (Answer 200 (Owners (fr_owners f)))))"

text \<open>What the owner routes share once the new list is known; only some of them prune active sets.\<close>

definition write_owners ::
  "frame_world \<Rightarrow> auth_context \<Rightarrow> nat \<Rightarrow> string \<Rightarrow> frame \<Rightarrow> bool \<Rightarrow> string list \<Rightarrow> frame_reply handler" where
  "write_owners W auth now fid before reconcile owners =
     bind (frames_op (store_set_owners (fw_codec W) now fid owners)) (\<lambda>updated.
     andthen (if reconcile then reconcile_active updated else ret ())
     (andthen (record_frame_history W auth updated ''owners_changed'' (list_diff (fr_owners before) (fr_owners updated)))
       (ret (Answer 200 (Owners (fr_owners updated))))))"

definition replace_owners ::
  "frame_world \<Rightarrow> auth_context \<Rightarrow> nat \<Rightarrow> string \<Rightarrow> string list \<Rightarrow> frame_reply handler" where
  "replace_owners W auth now fid payload =
     with_id fid (with_body_of (read_owners (fw_pinned W) payload) (\<lambda>owners.
       bind (manageable_frame W auth fid) (\<lambda>before. write_owners W auth now fid before True owners)))"

definition add_owner ::
  "frame_world \<Rightarrow> auth_context \<Rightarrow> nat \<Rightarrow> string \<Rightarrow> string \<Rightarrow> frame_reply handler" where
  "add_owner W auth now fid payload =
     with_id fid (with_body_of (read_email (fw_pinned W) payload) (\<lambda>email.
       bind (manageable_frame W auth fid) (\<lambda>f.
         case normalize_owners True (fr_owners f @ [email]) of
           Inl _ \<Rightarrow> ret (conflict ''max_owners'')
         | Inr owners \<Rightarrow> write_owners W auth now fid f False owners)))"

definition remove_owner ::
  "frame_world \<Rightarrow> auth_context \<Rightarrow> nat \<Rightarrow> string \<Rightarrow> string \<Rightarrow> frame_reply handler" where
  "remove_owner W auth now fid email =
     with_id fid
       (bind (manageable_frame W auth fid) (\<lambda>f.
          let remaining = without email (fr_owners f)
          in if length remaining = length (fr_owners f) then raise (FrameNotFoundError fid)
             else if remaining = [] then ret (conflict ''last_owner'')
             else write_owners W auth now fid f True remaining))"

definition get_readers :: "frame_world \<Rightarrow> auth_context \<Rightarrow> string \<Rightarrow> frame_reply handler" where
  "get_readers W auth fid =
     with_id fid (bind (manageable_frame W auth fid) (\<lambda>f. ret (Answer 200 (Readers (fr_readers f)))))"

definition write_readers ::
  "frame_world \<Rightarrow> auth_context \<Rightarrow> nat \<Rightarrow> string \<Rightarrow> frame \<Rightarrow> string list \<Rightarrow> frame_reply handler" where
  "write_readers W auth now fid before readers =
     bind (frames_op (store_set_readers (fw_codec W) now fid readers)) (\<lambda>updated.
     andthen (reconcile_active updated)
     (andthen (record_frame_history W auth updated ''readers_changed'' (list_diff (fr_readers before) (fr_readers updated)))
       (ret (Answer 200 (Readers (fr_readers updated))))))"

definition replace_readers ::
  "frame_world \<Rightarrow> auth_context \<Rightarrow> nat \<Rightarrow> string \<Rightarrow> string list \<Rightarrow> frame_reply handler" where
  "replace_readers W auth now fid payload =
     with_id fid (with_body_of (read_readers (fw_pinned W) payload) (\<lambda>readers.
       bind (manageable_frame W auth fid) (\<lambda>before. write_readers W auth now fid before readers)))"

definition add_reader ::
  "frame_world \<Rightarrow> auth_context \<Rightarrow> nat \<Rightarrow> string \<Rightarrow> string \<Rightarrow> frame_reply handler" where
  "add_reader W auth now fid payload =
     with_id fid (with_body_of (read_email (fw_pinned W) payload) (\<lambda>email.
       bind (manageable_frame W auth fid) (\<lambda>f.
       bind (lift (normalize_readers (fr_readers f @ [email]))) (\<lambda>readers.
         write_readers W auth now fid f readers))))"

definition remove_reader ::
  "frame_world \<Rightarrow> auth_context \<Rightarrow> nat \<Rightarrow> string \<Rightarrow> string \<Rightarrow> frame_reply handler" where
  "remove_reader W auth now fid email =
     with_id fid
       (bind (manageable_frame W auth fid) (\<lambda>f.
          let remaining = without email (fr_readers f)
          in if length remaining = length (fr_readers f) then raise (FrameNotFoundError fid)
             else write_readers W auth now fid f remaining))"

definition publish_frame :: "frame_world \<Rightarrow> auth_context \<Rightarrow> nat \<Rightarrow> string \<Rightarrow> frame_reply handler" where
  "publish_frame W auth now fid =
     with_id fid
       (bind (manageable_frame W auth fid) (\<lambda>_.
        bind (frames_op (store_set_published (fw_codec W) now fid True)) (\<lambda>updated.
        andthen (record_frame_history W auth updated ''published'' [])
          (ret (Answer 200 (TheFrame updated))))))"

definition unpublish_frame :: "frame_world \<Rightarrow> auth_context \<Rightarrow> nat \<Rightarrow> string \<Rightarrow> frame_reply handler" where
  "unpublish_frame W auth now fid =
     with_id fid
       (bind (manageable_frame W auth fid) (\<lambda>_.
        bind (frames_op (store_set_published (fw_codec W) now fid False)) (\<lambda>updated.
        andthen (reconcile_active updated)
        (andthen (record_frame_history W auth updated ''unpublished'' [])
          (ret (Answer 200 (TheFrame updated)))))))"

definition create_suggestion ::
  "frame_world \<Rightarrow> auth_context \<Rightarrow> string \<Rightarrow> nat \<Rightarrow> string \<Rightarrow> string \<Rightarrow> frame_reply handler" where
  "create_suggestion W auth hex now fid payload =
     with_id fid (with_body_of (read_suggestion_body payload) (\<lambda>body.
       bind (readable_frame W auth fid) (\<lambda>_.
       bind (frames_op (store_create_suggestion (fw_codec W) hex now fid (au_user auth) body)) (\<lambda>s.
         ret (Answer 201 (TheSuggestion s))))))"

definition list_suggestions ::
  "frame_world \<Rightarrow> auth_context \<Rightarrow> string \<Rightarrow> suggestion_status option \<Rightarrow> frame_reply handler" where
  "list_suggestions W auth fid status =
     with_id fid
       (bind (readable_frame W auth fid) (\<lambda>_.
        bind (reads (\<lambda>h. store_list_suggestions (fw_codec W) (hb_frames h) fid status)) (\<lambda>ss.
          ret (Answer 200 (Suggestions ss)))))"

definition close_suggestion ::
  "frame_world \<Rightarrow> auth_context \<Rightarrow> nat \<Rightarrow> string \<Rightarrow> string \<Rightarrow> frame_reply handler" where
  "close_suggestion W auth now fid sid =
     with_id fid (with_id sid
       (bind (readable_frame W auth fid) (\<lambda>f.
          case List.find (\<lambda>s. sg_id s = sid) (fr_suggestions f) of
            None \<Rightarrow> raise (SuggestionNotFoundError sid)
          | Some s \<Rightarrow>
              if au_user auth \<notin> set (fr_owners f) \<union> {sg_submitted_by s} then raise forbidden
              else bind (frames_op (store_close_suggestion (fw_codec W) now fid sid)) (\<lambda>c.
                     ret (Answer 200 (TheSuggestion c))))))"

text \<open>One page of history, read with one row more to know whether another page follows.\<close>

definition history_page ::
  "frame_world \<Rightarrow> string \<Rightarrow> string \<Rightarrow> string \<Rightarrow> string \<Rightarrow> nat \<Rightarrow> string option \<Rightarrow> hub \<Rightarrow> exn + frame_reply" where
  "history_page W org workspace entity_type entity_id limit before h =
     (case (case before of None \<Rightarrow> Some None | Some token \<Rightarrow> map_option Some (fw_decode_cursor W token)) of
        None \<Rightarrow> Inr (ErrorReply 400 ''invalid_cursor'' None)
      | Some cursor \<Rightarrow>
          bind_result (history_query org workspace entity_type entity_id (limit + 1) cursor (hb_history h)) (\<lambda>rows.
            let entries = take limit rows
            in Inr (Answer 200 (History entries
                 (if limit < length rows then Some (fw_encode_cursor W (cursor_of (last entries))) else None)))))"

definition limit_ok :: "nat \<Rightarrow> bool" where
  "limit_ok n = (1 \<le> n \<and> n \<le> 200)"

definition get_frame_history ::
  "frame_world \<Rightarrow> auth_context \<Rightarrow> string \<Rightarrow> nat \<Rightarrow> string option \<Rightarrow> frame_reply handler" where
  "get_frame_history W auth fid limit before =
     with_id fid
       (if \<not> limit_ok limit then ret invalid_request
        else bind (readable_frame W auth fid) (\<lambda>f.
          reads (history_page W (fr_org_id f) (fr_workspace_id f) ''frame'' fid limit before)))"

definition get_active_frames :: "frame_world \<Rightarrow> auth_context \<Rightarrow> frame_reply handler" where
  "get_active_frames W auth =
     bind (lift (auth_org_id auth)) (\<lambda>org.
       let key = (org, workspace_id auth, au_user auth)
       in bind (reads (\<lambda>h. get_active_frame_ids (hb_active h) key)) (\<lambda>ids. ret (Answer 200 (ActiveFrames key ids))))"

text \<open>A Frame newly activated must be readable; one that was active may have become undecodable.\<close>

primrec check_active :: "frame_world \<Rightarrow> auth_context \<Rightarrow> string list \<Rightarrow> string list \<Rightarrow> unit handler" where
  "check_active W auth already [] = ret ()"
| "check_active W auth already (fid # ids) =
     andthen
       (reads (\<lambda>h. case read_frame (fw_codec W) (hb_frames h) fid of
                     Inl x \<Rightarrow> (if x = FrameDecodeError fid \<and> fid \<in> set already then Inr () else Inl x)
                   | Inr f \<Rightarrow> bind_result (require_readable_frame f auth) (\<lambda>_. Inr ())))
       (check_active W auth already ids)"

definition set_active_frames :: "frame_world \<Rightarrow> auth_context \<Rightarrow> string list \<Rightarrow> frame_reply handler" where
  "set_active_frames W auth payload =
     with_body_of (read_active_ids payload) (\<lambda>ids.
       bind (lift (auth_org_id auth)) (\<lambda>org.
         let key = (org, workspace_id auth, au_user auth)
         in bind (reads (\<lambda>h. get_active_frame_ids (hb_active h) key)) (\<lambda>already.
            andthen (check_active W auth already ids)
            (bind (active_op (set_active_frame_ids key ids)) (\<lambda>stored.
              ret (Answer 200 (ActiveFrames key stored)))))))"

end
