(* ===== verification/GroupRoutes.thy ===== *)
theory GroupRoutes
  imports FrameRoutes
begin

section \<open>The group routes, and any sequence of calls (routers/frame_groups.py)\<close>

text \<open>
  The handlers behind \<open>/v1/frame-groups\<close>, and the whole API: a call, the caller, and what it is
  answered.  \<open>frame_reach\<close> is any sequence of calls by any callers.
\<close>

subsection \<open>The group handlers\<close>

definition require_readable_group :: "model_codec \<Rightarrow> frame_dirs \<Rightarrow> frame_group \<Rightarrow> auth_context \<Rightarrow> exn + frame_group" where
  "require_readable_group mc dirs g auth =
     (let projected = project_group mc dirs g
      in bind_result (can_read_group projected auth) (\<lambda>ok.
           if ok then Inr projected else Inl (FrameGroupNotFoundError (gr_id g))))"

definition require_manageable_group :: "model_codec \<Rightarrow> frame_dirs \<Rightarrow> frame_group \<Rightarrow> auth_context \<Rightarrow> exn + frame_group" where
  "require_manageable_group mc dirs g auth =
     bind_result (require_readable_group mc dirs g auth) (\<lambda>projected.
       bind_result (can_manage_group projected auth) (\<lambda>ok. if ok then Inr projected else Inl forbidden))"

definition readable_group :: "frame_world \<Rightarrow> auth_context \<Rightarrow> string \<Rightarrow> frame_group handler" where
  "readable_group W auth gid =
     reads (\<lambda>h. bind_result (store_get_group gid (hb_groups h)) (\<lambda>g.
       require_readable_group (fw_codec W) (hb_frames h) g auth))"

definition manageable_group :: "frame_world \<Rightarrow> auth_context \<Rightarrow> string \<Rightarrow> frame_group handler" where
  "manageable_group W auth gid =
     reads (\<lambda>h. bind_result (store_get_group gid (hb_groups h)) (\<lambda>g.
       require_manageable_group (fw_codec W) (hb_frames h) g auth))"

text \<open>The reply carries the group as its members make it.\<close>

definition projected_group :: "frame_world \<Rightarrow> nat \<Rightarrow> frame_group \<Rightarrow> frame_reply handler" where
  "projected_group W code g = gets (\<lambda>h. Answer code (TheGroup (project_group (fw_codec W) (hb_frames h) g)))"

definition list_frame_groups ::
  "frame_world \<Rightarrow> auth_context \<Rightarrow> string option \<Rightarrow> visibility option \<Rightarrow> bool option \<Rightarrow> frame_reply handler" where
  "list_frame_groups W auth name vis published =
     bind (lift (auth_org_id auth)) (\<lambda>org.
     bind (reads (\<lambda>h. bind_result (store_list_groups org (workspace_id auth) (hb_groups h)) (\<lambda>gs.
            filter_result (\<lambda>g. can_read_group g auth) (map (project_group (fw_codec W) (hb_frames h)) gs)))) (\<lambda>gs.
       ret (Answer 200 (Groups (filter (\<lambda>g. is_wanted vis (gr_visibility g) \<and> is_wanted published (gr_all_published g) \<and>
                                           name_filter name (gr_name g)) gs)))))"

definition create_frame_group ::
  "frame_world \<Rightarrow> auth_context \<Rightarrow> string \<Rightarrow> nat \<Rightarrow> frame_group_create \<Rightarrow> frame_reply handler" where
  "create_frame_group W auth hex now payload =
     with_body_of (read_group_create payload) (\<lambda>p.
       andthen (each (\<lambda>fid. bind (readable_frame W auth fid) (\<lambda>_. ret ())) (gc_frame_ids p))
       (bind (lift (auth_org_id auth)) (\<lambda>org.
        bind (groups_op (store_create_group hex now org (workspace_id auth) (au_user auth) [au_user auth] (gc_name p)
               (gc_description p) (gc_visibility p) (gc_frame_ids p))) (\<lambda>g.
        andthen (record_group_history W auth g ''created'' [(''name'', PStr (gr_name g))])
          (projected_group W 201 g)))))"

definition get_frame_group :: "frame_world \<Rightarrow> auth_context \<Rightarrow> string \<Rightarrow> frame_reply handler" where
  "get_frame_group W auth gid = with_id gid (bind (readable_group W auth gid) (\<lambda>g. ret (Answer 200 (TheGroup g))))"

definition update_frame_group ::
  "frame_world \<Rightarrow> auth_context \<Rightarrow> nat \<Rightarrow> string \<Rightarrow> frame_group_update \<Rightarrow> frame_reply handler" where
  "update_frame_group W auth now gid payload =
     with_id gid (with_body_of (read_group_update payload) (\<lambda>p.
       bind (manageable_group W auth gid) (\<lambda>before.
       bind (groups_op (store_update_group now gid (gu_name p) (gu_description p) (gu_visibility p))) (\<lambda>updated.
       andthen
         (record_group_history W auth updated ''updated''
           (changed ''name'' (gr_name before) (gr_name updated) @
            changed ''description'' (gr_description before) (gr_description updated) @
            changed ''visibility'' (visibility_value (gr_visibility before)) (visibility_value (gr_visibility updated))))
         (projected_group W 200 updated)))))"

definition delete_frame_group :: "frame_world \<Rightarrow> auth_context \<Rightarrow> string \<Rightarrow> frame_reply handler" where
  "delete_frame_group W auth gid =
     with_id gid
       (bind (manageable_group W auth gid) (\<lambda>g.
        andthen (groups_op (store_delete_group gid))
        (andthen (record_group_history W auth g ''deleted'' []) (ret (Answer 204 Nothing)))))"

definition add_group_frame ::
  "frame_world \<Rightarrow> auth_context \<Rightarrow> nat \<Rightarrow> string \<Rightarrow> string \<Rightarrow> frame_reply handler" where
  "add_group_frame W auth now gid fid =
     with_id gid (with_id fid
       (bind (manageable_group W auth gid) (\<lambda>_.
        bind (readable_frame W auth fid) (\<lambda>_.
        bind (groups_op (store_add_frame now gid fid)) (\<lambda>updated.
        andthen (record_group_history W auth updated ''frame_added'' [(''frame_id'', PStr fid)])
          (projected_group W 200 updated))))))"

definition remove_group_frame ::
  "frame_world \<Rightarrow> auth_context \<Rightarrow> nat \<Rightarrow> string \<Rightarrow> string \<Rightarrow> frame_reply handler" where
  "remove_group_frame W auth now gid fid =
     with_id gid (with_id fid
       (bind (manageable_group W auth gid) (\<lambda>g.
          if fid \<notin> set (gr_frame_ids g) then raise (FrameNotFoundError fid)
          else if length (gr_frame_ids g) = 1 then ret (conflict ''last_frame'')
          else bind (groups_op (store_remove_frame now gid fid)) (\<lambda>updated.
            andthen (record_group_history W auth updated ''frame_removed'' [(''frame_id'', PStr fid)])
              (projected_group W 200 updated)))))"

definition get_group_owners :: "frame_world \<Rightarrow> auth_context \<Rightarrow> string \<Rightarrow> frame_reply handler" where
  "get_group_owners W auth gid =
     with_id gid (bind (readable_group W auth gid) (\<lambda>g. ret (Answer 200 (Owners (gr_owners g)))))"

definition write_group_owners ::
  "frame_world \<Rightarrow> auth_context \<Rightarrow> nat \<Rightarrow> string \<Rightarrow> frame_group \<Rightarrow> string list \<Rightarrow> frame_reply handler" where
  "write_group_owners W auth now gid before owners =
     bind (groups_op (store_set_group_owners now gid owners)) (\<lambda>updated.
     andthen (record_group_history W auth updated ''owners_changed'' (list_diff (gr_owners before) (gr_owners updated)))
       (ret (Answer 200 (Owners (gr_owners updated)))))"

definition replace_group_owners ::
  "frame_world \<Rightarrow> auth_context \<Rightarrow> nat \<Rightarrow> string \<Rightarrow> string list \<Rightarrow> frame_reply handler" where
  "replace_group_owners W auth now gid payload =
     with_id gid (with_body_of (read_owners (fw_pinned W) payload) (\<lambda>owners.
       bind (manageable_group W auth gid) (\<lambda>before. write_group_owners W auth now gid before owners)))"

definition add_group_owner ::
  "frame_world \<Rightarrow> auth_context \<Rightarrow> nat \<Rightarrow> string \<Rightarrow> string \<Rightarrow> frame_reply handler" where
  "add_group_owner W auth now gid payload =
     with_id gid (with_body_of (read_email (fw_pinned W) payload) (\<lambda>email.
       bind (manageable_group W auth gid) (\<lambda>g.
       bind (lift (normalize_owners True (gr_owners g @ [email]))) (\<lambda>owners.
         write_group_owners W auth now gid g owners))))"

definition remove_group_owner ::
  "frame_world \<Rightarrow> auth_context \<Rightarrow> nat \<Rightarrow> string \<Rightarrow> string \<Rightarrow> frame_reply handler" where
  "remove_group_owner W auth now gid email =
     with_id gid
       (bind (manageable_group W auth gid) (\<lambda>g.
          let remaining = without email (gr_owners g)
          in if length remaining = length (gr_owners g) then raise (FrameGroupNotFoundError gid)
             else if remaining = [] then ret (conflict ''last_owner'')
             else write_group_owners W auth now gid g remaining))"

definition get_group_history ::
  "frame_world \<Rightarrow> auth_context \<Rightarrow> string \<Rightarrow> nat \<Rightarrow> string option \<Rightarrow> frame_reply handler" where
  "get_group_history W auth gid limit before =
     with_id gid
       (if \<not> limit_ok limit then ret invalid_request
        else bind (readable_group W auth gid) (\<lambda>g.
          reads (history_page W (gr_org_id g) (gr_workspace_id g) ''group'' gid limit before)))"

subsection \<open>Any call\<close>

datatype frame_call =
    ListFrames "string option" "string list option" "string option" "visibility option" "bool option" "string option"
  | GetFrame string
  | CreateFrame frame_create
  | UpdateFrame string frame_update
  | DeleteFrame string
  | GetOwners string
  | ReplaceOwners string "string list"
  | AddOwner string string
  | RemoveOwner string string
  | GetReaders string
  | ReplaceReaders string "string list"
  | AddReader string string
  | RemoveReader string string
  | PublishFrame string
  | UnpublishFrame string
  | CreateSuggestion string string
  | ListSuggestions string "suggestion_status option"
  | CloseSuggestion string string
  | GetFrameHistory string nat "string option"
  | GetActiveFrames
  | SetActiveFrames "string list"
  | ListGroups "string option" "visibility option" "bool option"
  | CreateGroup frame_group_create
  | GetGroup string
  | UpdateGroup string frame_group_update
  | DeleteGroup string
  | AddGroupFrame string string
  | RemoveGroupFrame string string
  | GetGroupOwners string
  | ReplaceGroupOwners string "string list"
  | AddGroupOwner string string
  | RemoveGroupOwner string string
  | GetGroupHistory string nat "string option"

fun route :: "frame_world \<Rightarrow> auth_context \<Rightarrow> string \<Rightarrow> nat \<Rightarrow> frame_call \<Rightarrow> frame_reply handler" where
  "route W auth hex now (ListFrames name tags owner vis published gid) = list_frames W auth name tags owner vis published gid"
| "route W auth hex now (GetFrame fid) = get_frame W auth fid"
| "route W auth hex now (CreateFrame p) = create_frame W auth hex now p"
| "route W auth hex now (UpdateFrame fid p) = update_frame W auth now fid p"
| "route W auth hex now (DeleteFrame fid) = delete_frame W auth now fid"
| "route W auth hex now (GetOwners fid) = get_owners W auth fid"
| "route W auth hex now (ReplaceOwners fid p) = replace_owners W auth now fid p"
| "route W auth hex now (AddOwner fid p) = add_owner W auth now fid p"
| "route W auth hex now (RemoveOwner fid email) = remove_owner W auth now fid email"
| "route W auth hex now (GetReaders fid) = get_readers W auth fid"
| "route W auth hex now (ReplaceReaders fid p) = replace_readers W auth now fid p"
| "route W auth hex now (AddReader fid p) = add_reader W auth now fid p"
| "route W auth hex now (RemoveReader fid email) = remove_reader W auth now fid email"
| "route W auth hex now (PublishFrame fid) = publish_frame W auth now fid"
| "route W auth hex now (UnpublishFrame fid) = unpublish_frame W auth now fid"
| "route W auth hex now (CreateSuggestion fid body) = create_suggestion W auth hex now fid body"
| "route W auth hex now (ListSuggestions fid status) = list_suggestions W auth fid status"
| "route W auth hex now (CloseSuggestion fid sid) = close_suggestion W auth now fid sid"
| "route W auth hex now (GetFrameHistory fid limit before) = get_frame_history W auth fid limit before"
| "route W auth hex now GetActiveFrames = get_active_frames W auth"
| "route W auth hex now (SetActiveFrames ids) = set_active_frames W auth ids"
| "route W auth hex now (ListGroups name vis published) = list_frame_groups W auth name vis published"
| "route W auth hex now (CreateGroup p) = create_frame_group W auth hex now p"
| "route W auth hex now (GetGroup gid) = get_frame_group W auth gid"
| "route W auth hex now (UpdateGroup gid p) = update_frame_group W auth now gid p"
| "route W auth hex now (DeleteGroup gid) = delete_frame_group W auth gid"
| "route W auth hex now (AddGroupFrame gid fid) = add_group_frame W auth now gid fid"
| "route W auth hex now (RemoveGroupFrame gid fid) = remove_group_frame W auth now gid fid"
| "route W auth hex now (GetGroupOwners gid) = get_group_owners W auth gid"
| "route W auth hex now (ReplaceGroupOwners gid p) = replace_group_owners W auth now gid p"
| "route W auth hex now (AddGroupOwner gid p) = add_group_owner W auth now gid p"
| "route W auth hex now (RemoveGroupOwner gid email) = remove_group_owner W auth now gid email"
| "route W auth hex now (GetGroupHistory gid limit before) = get_group_history W auth gid limit before"

definition serve :: "frame_world \<Rightarrow> auth_context \<Rightarrow> string \<Rightarrow> nat \<Rightarrow> frame_call \<Rightarrow> hub \<Rightarrow> frame_reply \<times> hub" where
  "serve W auth hex now call h =
     (case route W auth hex now call h of
        (Inl x, h') \<Rightarrow> (error_answer x, h')
      | (Inr r, h') \<Rightarrow> (r, h'))"

text \<open>\<open>uuid4().hex\<close> is 32 hexadecimal digits, and names nothing that is stored.\<close>

definition fresh_hex :: "string \<Rightarrow> hub \<Rightarrow> bool" where
  "fresh_hex hex h =
     (ID_PATTERN hex \<and> map_of (hb_frames h) hex = None \<and>
      (case hb_groups h of None \<Rightarrow> True | Some gs \<Rightarrow> map_of gs hex = None))"

inductive frame_reach :: "frame_world \<Rightarrow> hub \<Rightarrow> hub \<Rightarrow> bool" for W h0 where
  start: "frame_reach W h0 h0"
| call: "frame_reach W h0 h \<Longrightarrow> fresh_hex hex h \<Longrightarrow> frame_reach W h0 (snd (serve W auth hex now c h))"

end
