(* ===== verification/FrameForms.thy ===== *)
theory FrameForms
  imports GroupRoutes
begin

section \<open>Normal forms, and what a stored frame decodes to\<close>

text \<open>
  The normalizers are idempotent, so what the API writes is a fixed point of the checks a read makes,
  and the sidecar it writes decodes to the very Frame it was written from.  \<open>frame_ok\<close> is what every
  Frame that is read satisfies, whoever wrote its sidecar.
\<close>

subsection \<open>The normalizing loop\<close>

lemma set_keep_new [simp]: "set (keep_new xs v) = insert v (set xs)"
  by (auto simp: keep_new_def)

lemma distinct_keep_new [simp]: "distinct xs \<Longrightarrow> distinct (keep_new xs v)"
  by (simp add: keep_new_def)

lemma normalized_distinct: "normalized value xs = Inr ys \<Longrightarrow> distinct ys"
  unfolding normalized_def by (erule fold_result_invariant [where P = distinct]) (auto simp: bind_result_Inr_iff)

lemma normalized_from:
  assumes "normalized value xs = Inr ys" and "y \<in> set ys"
  obtains x where "x \<in> set xs" "value x = Inr y"
proof -
  have "\<forall>y\<in>set ys. \<exists>x\<in>set xs. value x = Inr y"
    using assms(1) unfolding normalized_def
    by (rule fold_result_invariant [where P = "\<lambda>ys. \<forall>y\<in>set ys. \<exists>x\<in>set xs. value x = Inr y"])
       (auto simp: bind_result_Inr_iff)
  with assms(2) that show ?thesis by blast
qed

lemma normalized_values:
  assumes "normalized value xs = Inr ys" and "\<And>x v. value x = Inr v \<Longrightarrow> P v"
  shows "\<forall>y\<in>set ys. P y"
  using normalized_from [OF assms(1)] assms(2) by metis

lemma normalized_keeps_each:
  assumes "fold_result (\<lambda>seen x. bind_result (value x) (\<lambda>v. Inr (keep_new seen v))) acc xs = Inr ys"
  shows "set acc \<subseteq> set ys \<and> (\<forall>x\<in>set xs. \<exists>y\<in>set ys. value x = Inr y)"
  using assms
proof (induction xs arbitrary: acc)
  case (Cons x xs)
  from Cons.prems obtain v where v: "value x = Inr v"
    and r: "fold_result (\<lambda>seen x. bind_result (value x) (\<lambda>v. Inr (keep_new seen v))) (keep_new acc v) xs = Inr ys"
    by (auto simp: bind_result_Inr_iff)
  from Cons.IH [OF r] v show ?case by auto
qed simp

lemma normalized_has:
  "normalized value xs = Inr ys \<Longrightarrow> x \<in> set xs \<Longrightarrow> value x = Inr v \<Longrightarrow> v \<in> set ys"
  unfolding normalized_def by (drule normalized_keeps_each) fastforce

lemma normalized_fixed:
  assumes "distinct ys" and "\<And>y. y \<in> set ys \<Longrightarrow> value y = Inr y"
  shows "normalized value ys = Inr ys"
proof -
  have "fold_result (\<lambda>seen x. bind_result (value x) (\<lambda>v. Inr (keep_new seen v))) acc ys = Inr (acc @ ys)"
    if "distinct (acc @ ys)" for acc
    using that assms(2)
  proof (induction ys arbitrary: acc)
    case (Cons y ys)
    then show ?case by (simp add: keep_new_def)
  qed simp
  from this [of "[]"] assms(1) show ?thesis by (simp add: normalized_def)
qed

subsection \<open>Values in normal form\<close>

lemma normalize_name_idem: "normalize_name s = Inr v \<Longrightarrow> normalize_name v = Inr v"
  by (auto simp: normalize_name_def Let_def py_strip_def strip_where_idem split: if_splits)

lemma normalize_name_bounds: "normalize_name s = Inr v \<Longrightarrow> v \<noteq> [] \<and> length v \<le> length s"
  using length_strip_where [of py_space s] by (auto simp: normalize_name_def Let_def py_strip_def split: if_splits)

lemma tag_char:
  assumes "TAG_PATTERN s" and "c \<in> set s"
  shows "\<not> py_space c" and "lower_latin c = c"
proof -
  from assms have c: "lower_alnum c \<or> c \<in> set ''._-''" by (cases s) (auto simp: TAG_PATTERN_def list_all_iff)
  then show "\<not> py_space c" by (auto simp: lower_alnum_def py_space_def Let_def)
  from c show "lower_latin c = c" by (auto simp: lower_alnum_def lower_latin_def Let_def)
qed

lemma tag_value_idem: "tag_value s = Inr v \<Longrightarrow> tag_value v = Inr v"
proof -
  assume t: "tag_value s = Inr v"
  then have p: "TAG_PATTERN v" "v \<noteq> []" "length v \<le> TAG_MAX_LENGTH" by (auto simp: tag_value_def Let_def split: if_splits)
  have "py_strip v = v" unfolding py_strip_def by (rule strip_where_fixed) (use tag_char [OF p(1)] in auto)
  moreover have "map lower_latin v = v" by (rule map_idI) (use tag_char [OF p(1)] in auto)
  ultimately show ?thesis using p by (simp add: tag_value_def)
qed

lemma validate_frame_id_Inr: "validate_frame_id s = Inr v \<longleftrightarrow> v = s \<and> ID_PATTERN s"
  by (auto simp: validate_frame_id_def)

subsection \<open>Lists in normal form\<close>

lemma at_most_Inr [simp]: "at_most n xs = Inr ys \<longleftrightarrow> ys = xs \<and> length xs \<le> n"
  by (auto simp: at_most_def)

definition principals_ok :: "string list \<Rightarrow> bool" where
  "principals_ok xs = (distinct xs \<and> (\<forall>x\<in>set xs. normalize_name x = Inr x))"

definition tags_ok :: "string list \<Rightarrow> bool" where
  "tags_ok xs = (distinct xs \<and> length xs \<le> MAX_TAGS \<and> (\<forall>x\<in>set xs. tag_value x = Inr x))"

lemma normalize_tags_ok: "normalize_tags xs = Inr ys \<Longrightarrow> tags_ok ys"
  unfolding normalize_tags_def tags_ok_def
  by (auto simp: bind_result_Inr_iff dest: normalized_distinct normalized_values [where P = "\<lambda>v. tag_value v = Inr v", OF _ tag_value_idem])

lemma normalize_tags_fixed: "tags_ok xs \<Longrightarrow> normalize_tags xs = Inr xs"
  by (simp add: normalize_tags_def tags_ok_def normalized_fixed)

lemma principals_normalized: "normalized normalize_name xs = Inr ys \<Longrightarrow> principals_ok ys"
  unfolding principals_ok_def
  by (auto dest: normalized_distinct normalized_values [where P = "\<lambda>v. normalize_name v = Inr v", OF _ normalize_name_idem])

lemma principals_fixed: "principals_ok xs \<Longrightarrow> normalized normalize_name xs = Inr xs"
  by (simp add: principals_ok_def normalized_fixed)

lemma principals_subset: "principals_ok xs \<Longrightarrow> distinct ys \<Longrightarrow> set ys \<subseteq> set xs \<Longrightarrow> principals_ok ys"
  by (auto simp: principals_ok_def)

definition owners_ok :: "string list \<Rightarrow> bool" where
  "owners_ok xs = (principals_ok xs \<and> xs \<noteq> [] \<and> length xs \<le> MAX_OWNERS)"

definition readers_ok :: "string list \<Rightarrow> bool" where
  "readers_ok xs = (principals_ok xs \<and> length xs \<le> MAX_READERS)"

lemma normalize_owners_ok: "normalize_owners True xs = Inr ys \<Longrightarrow> owners_ok ys"
  unfolding normalize_owners_def owners_ok_def
  by (auto simp: bind_result_Inr_iff principals_normalized split: if_splits)

lemma normalize_owners_fixed: "owners_ok xs \<Longrightarrow> normalize_owners b xs = Inr xs"
  by (simp add: normalize_owners_def owners_ok_def principals_fixed)

lemma normalize_owners_has:
  "normalize_owners b xs = Inr ys \<Longrightarrow> x \<in> set xs \<Longrightarrow> normalize_name x = Inr v \<Longrightarrow> v \<in> set ys"
  unfolding normalize_owners_def by (auto simp: bind_result_Inr_iff split: if_splits dest: normalized_has)

lemma normalize_owners_subset:
  "normalize_owners b xs = Inr ys \<Longrightarrow> y \<in> set ys \<Longrightarrow> \<exists>x\<in>set xs. normalize_name x = Inr y"
  unfolding normalize_owners_def by (auto simp: bind_result_Inr_iff split: if_splits elim: normalized_from)

lemma normalize_readers_ok: "normalize_readers xs = Inr ys \<Longrightarrow> readers_ok ys"
  unfolding normalize_readers_def readers_ok_def by (auto simp: bind_result_Inr_iff principals_normalized)

lemma normalize_readers_fixed: "readers_ok xs \<Longrightarrow> normalize_readers xs = Inr xs"
  by (simp add: normalize_readers_def readers_ok_def principals_fixed)

lemma normalize_frame_ids_iff:
  "normalize_frame_ids xs = Inr ys \<Longrightarrow> ys \<noteq> [] \<and> distinct ys \<and> (\<forall>y\<in>set ys. ID_PATTERN y) \<and> set ys = set xs"
proof -
  assume n: "normalize_frame_ids xs = Inr ys"
  then have *: "normalized validate_frame_id xs = Inr ys" "ys \<noteq> []"
    by (auto simp: normalize_frame_ids_def bind_result_Inr_iff split: if_splits)
  have p: "\<forall>y\<in>set ys. ID_PATTERN y"
    by (rule normalized_values [OF *(1)]) (simp add: validate_frame_id_Inr)
  have "y \<in> set xs" if "y \<in> set ys" for y
    using normalized_from [OF *(1) that] by (auto simp: validate_frame_id_Inr)
  moreover have "x \<in> set ys" if "x \<in> set xs" for x
    using normalized_keeps_each [OF *(1) [unfolded normalized_def]] that by (fastforce simp: validate_frame_id_Inr)
  ultimately show ?thesis using * p normalized_distinct by blast
qed

lemma normalize_frame_ids_fixed:
  "xs \<noteq> [] \<Longrightarrow> distinct xs \<Longrightarrow> \<forall>x\<in>set xs. ID_PATTERN x \<Longrightarrow> normalize_frame_ids xs = Inr xs"
  by (simp add: normalize_frame_ids_def normalized_fixed validate_frame_id_def)

lemma validate_acl_principals_Inr:
  "validate_acl_principals pinned xs = Inr ys \<Longrightarrow> ys = xs \<and> (pinned \<longrightarrow> (\<forall>x\<in>set xs. \<not> looks_like_email x))"
proof -
  assume v: "validate_acl_principals pinned xs = Inr ys"
  have "\<forall>x\<in>set xs. \<not> looks_like_email x" if "map_result (validate_acl_principal pinned) xs = Inr zs" "pinned" for zs
    using that by (induction xs arbitrary: zs) (auto simp: bind_result_Inr_iff validate_acl_principal_def split: if_splits)
  with v show ?thesis by (auto simp: validate_acl_principals_def bind_result_Inr_iff)
qed

subsection \<open>Frames that are well-formed\<close>

definition frame_ok :: "frame \<Rightarrow> bool" where
  "frame_ok f =
     (metadata_fields_ok f \<and> len_within 1 FRAME_BODY_MAX_LENGTH (fr_body f) \<and> tags_ok (fr_tags f) \<and>
      normalize_name (fr_name f) = Inr (fr_name f) \<and> owners_ok (fr_owners f) \<and> readers_ok (fr_readers f) \<and>
      (fr_readers f \<noteq> [] \<longrightarrow> fr_visibility f = Private))"

lemma validate_frame_fixed: "frame_ok f \<Longrightarrow> validate_frame f = Inr f"
  by (simp add: frame_ok_def validate_frame_def validate_metadata_def normalize_tags_fixed normalize_owners_fixed
      normalize_readers_fixed)

lemma validate_frame_Inr:
  assumes "validate_frame f = Inr g"
  obtains tags name owners readers where "g = f\<lparr>fr_tags := tags, fr_name := name, fr_owners := owners, fr_readers := readers\<rparr>"
    "normalize_tags (fr_tags f) = Inr tags" "normalize_name (fr_name f) = Inr name"
    "normalize_owners True (fr_owners f) = Inr owners" "normalize_readers (fr_readers f) = Inr readers"
    "metadata_fields_ok f" "len_within 1 FRAME_BODY_MAX_LENGTH (fr_body f)"
  using assms by (auto simp: validate_frame_def validate_metadata_def bind_result_Inr_iff split: if_splits)

lemma validate_frame_ok:
  assumes "validate_frame f = Inr g" and "fr_readers g \<noteq> [] \<longrightarrow> fr_visibility g = Private"
  shows "frame_ok g"
proof -
  from validate_frame_Inr [OF assms(1)] obtain tags name owners readers where
    g: "g = f\<lparr>fr_tags := tags, fr_name := name, fr_owners := owners, fr_readers := readers\<rparr>" and
    n: "normalize_tags (fr_tags f) = Inr tags" "normalize_name (fr_name f) = Inr name"
      "normalize_owners True (fr_owners f) = Inr owners" "normalize_readers (fr_readers f) = Inr readers" and
    ok: "metadata_fields_ok f" "len_within 1 FRAME_BODY_MAX_LENGTH (fr_body f)" .
  from normalize_name_bounds [OF n(2)] have "len_within 1 (length (fr_name f)) name" by (cases name) (auto simp: len_within_def)
  with ok(1) have "metadata_fields_ok g" by (auto simp: g metadata_fields_ok_def len_within_def)
  with ok n assms(2) show ?thesis
    by (auto simp: frame_ok_def g normalize_tags_ok normalize_owners_ok normalize_readers_ok normalize_name_idem)
qed

subsection \<open>The stored form\<close>

text \<open>
  What is relied on of pydantic: a dumped model parses to itself, and the fields it types are the ones
  in the object.
\<close>

definition model_codec_ok :: "model_codec \<Rightarrow> bool" where
  "model_codec_ok mc \<longleftrightarrow>
     (\<forall>m. mc_parse mc (encode_metadata mc m) = Some m) \<and>
     (\<forall>d m v. mc_parse mc d = Some m \<longrightarrow> map_of d ''readers'' = Some v \<longrightarrow> v = PList (map PStr (fr_readers m))) \<and>
     (\<forall>d m v. mc_parse mc d = Some m \<longrightarrow> map_of d ''visibility'' = Some v \<longrightarrow> v = PStr (visibility_value (fr_visibility m)))"

lemma encode_truncate: "encode_metadata mc (frame_metadata.truncate f) = encode_metadata mc (f :: frame)"
  by (simp add: encode_metadata_def frame_metadata.truncate_def)

lemma with_body_truncate: "with_body (frame_metadata.truncate f) (fr_body f) = f"
  by (cases f) (simp add: with_body_def frame_metadata.truncate_def frame_metadata.extend_def frame.fields_def)

lemma with_body_fields [simp]:
  "fr_readers (with_body m b) = fr_readers m" "fr_visibility (with_body m b) = fr_visibility m"
  by (simp_all add: with_body_def frame_metadata.extend_def)

lemma map_of_set_default [simp]:
  "map_of (set_default k v d) k' =
     (if k' = k then Some (case map_of d k of None \<Rightarrow> v | Some w \<Rightarrow> w) else map_of d k')"
  by (auto simp: set_default_def map_add_def split: option.splits)

lemma set_default_present: "map_of d k \<noteq> None \<Longrightarrow> set_default k v d = d"
  by (simp add: set_default_def)

lemma update_same: "map_of d k = Some v \<Longrightarrow> AList.update k v d = d"
  by (induction d) (auto split: if_splits)

lemma encoded_fields:
  "map_of (encode_metadata mc m) ''owner'' = None" "map_of (encode_metadata mc m) ''body'' = None"
  "map_of (encode_metadata mc m) ''schema_version'' \<noteq> None" "map_of (encode_metadata mc m) ''id'' = Some (PStr (fr_id m))"
  "map_of (encode_metadata mc m) ''org_id'' \<noteq> None" "map_of (encode_metadata mc m) ''workspace_id'' \<noteq> None"
  "map_of (encode_metadata mc m) ''name'' \<noteq> None" "map_of (encode_metadata mc m) ''created_by'' \<noteq> None"
  "map_of (encode_metadata mc m) ''description'' \<noteq> None" "map_of (encode_metadata mc m) ''published'' \<noteq> None"
  "map_of (encode_metadata mc m) ''group_ids'' \<noteq> None"
  "map_of (encode_metadata mc m) ''visibility'' = Some (PStr (visibility_value (fr_visibility m)))"
  "map_of (encode_metadata mc m) ''readers'' = Some (PList (map PStr (fr_readers m)))"
  by (simp_all add: encode_metadata_def)

lemma normalize_encoded:
  assumes "fr_readers m \<noteq> [] \<longrightarrow> fr_visibility m = Private"
  shows "normalize_metadata (encode_metadata mc m) = Inr (encode_metadata mc m)"
proof -
  let ?d = "encode_metadata mc m"
  have "migrate_owner ?d = ?d" by (simp add: migrate_owner_def encoded_fields)
  then have "normalize_metadata ?d =
      Inr (if fr_readers m \<noteq> [] then AList.update ''visibility'' (PStr (visibility_value Private)) ?d else ?d)"
    using encoded_fields [of mc m] by (simp add: normalize_metadata_def set_default_present Let_def)
  then show ?thesis using assms encoded_fields(12) [of mc m] by (simp add: update_same)
qed

lemma normalize_keeps_readers_private:
  assumes "normalize_metadata d = Inr n"
  obtains v w where "map_of n ''readers'' = Some v" "map_of n ''visibility'' = Some w"
    "py_truthy v \<longrightarrow> w = PStr (visibility_value Private)"
proof -
  let ?G = "\<lambda>d3. let d4 = set_default ''group_ids'' (PList []) (set_default ''readers'' (PList [])
                      (set_default ''published'' (PBool False)
                        (set_default ''visibility'' (PStr (visibility_value Private)) d3)))
      in if py_truthy (py_get d4 ''readers'') then AList.update ''visibility'' (PStr (visibility_value Private)) d4 else d4"
  obtain d3 where n: "n = ?G d3"
  proof (cases "map_of d ''id''")
    case None
    then show thesis using assms by (simp add: normalize_metadata_def)
  next
    case (Some i)
    show thesis
      by (rule that) (use assms [symmetric] in \<open>simp only: normalize_metadata_def Some option.case Let_def sum.inject\<close>)
  qed
  show ?thesis
    by (rule that [of "case map_of d3 ''readers'' of None \<Rightarrow> PList [] | Some v \<Rightarrow> v"
            "if py_truthy (case map_of d3 ''readers'' of None \<Rightarrow> PList [] | Some v \<Rightarrow> v) then PStr (visibility_value Private)
             else case map_of d3 ''visibility'' of None \<Rightarrow> PStr (visibility_value Private) | Some v \<Rightarrow> v"])
      (auto simp: n Let_def)
qed

lemma decode_inverts_encode:
  assumes "model_codec_ok mc" and "frame_ok f"
  shows "decode_frame mc fid (Json (PDict (encode_metadata mc f))) (Utf8 (fr_body f)) = Inr f"
proof -
  have "decode_sidecar fid (Json (PDict (encode_metadata mc f))) = Inr (encode_metadata mc f)"
  proof -
    show ?thesis using assms(2) by (simp add: decode_sidecar_def normalize_encoded frame_ok_def encoded_fields)
  qed
  moreover have "typed mc (encode_metadata mc f) = Inr (frame_metadata.truncate f)"
    using assms(1) by (simp add: typed_def model_codec_ok_def flip: encode_truncate)
  ultimately show ?thesis using validate_frame_fixed [OF assms(2)]
    by (simp add: decode_frame_def with_body_truncate decoded_def)
qed

text \<open>Whatever the sidecar held, a Frame that decodes is well-formed: no reader list widens an audience.\<close>

lemma decoded_Inr: "decoded fid r = Inr x \<longleftrightarrow> r = Inr x"
  by (cases r) (auto simp: decoded_def)

lemma decoded_is_ok:
  assumes "model_codec_ok mc" and "decode_frame mc fid data body = Inr f"
  shows "frame_ok f"
proof -
  from assms(2) obtain n b m where n: "decode_sidecar fid data = Inr n" and m: "mc_parse mc n = Some m"
    and f: "validate_frame (with_body m b) = Inr f"
    unfolding decode_frame_def bind_result_Inr_iff decoded_Inr typed_def
    by (cases body) (auto simp: bind_result_Inr_iff split: option.splits)
  from n obtain d where "normalize_metadata d = Inr n"
    by (auto simp: decode_sidecar_def split: sidecar.splits pyval.splits if_splits sum.splits)
  then obtain v w where vw: "map_of n ''readers'' = Some v" "map_of n ''visibility'' = Some w"
    "py_truthy v \<longrightarrow> w = PStr (visibility_value Private)" by (rule normalize_keeps_readers_private)
  from assms(1) m vw(1,2) have v: "v = PList (map PStr (fr_readers m))" "w = PStr (visibility_value (fr_visibility m))"
    by (auto simp: model_codec_ok_def)
  have m': "fr_readers m \<noteq> [] \<longrightarrow> fr_visibility m = Private"
    using vw(3) by (auto simp: v visibility_value_def split: visibility.splits)
  obtain readers where "normalize_readers (fr_readers m) = Inr readers"
    and "fr_readers f = readers" "fr_visibility f = fr_visibility m"
    by (rule validate_frame_Inr [OF f]) simp
  moreover have "readers = []" if "fr_readers m = []"
    using calculation(1) that by (simp add: normalize_readers_def normalized_def)
  ultimately show ?thesis using validate_frame_ok [OF f] m' by auto
qed

subsection \<open>The store reads what was written\<close>

lemma read_frame_ok:
  assumes "model_codec_ok mc" and "read_frame mc dirs fid = Inr f"
  shows "frame_ok f"
  using assms by (auto simp: read_frame_def split: option.splits dest: decoded_is_ok)

lemma read_written:
  assumes "model_codec_ok mc" and "frame_ok f"
  shows "read_frame mc (write_frame mc f dirs) fid = (if fid = fr_id f then Inr f else read_frame mc dirs fid)"
  by (simp add: read_frame_def write_frame_def decode_inverts_encode [OF assms])

lemma read_exists: "read_frame mc dirs fid = Inr f \<Longrightarrow> map_of dirs fid \<noteq> None"
  by (cases "map_of dirs fid") (simp_all add: read_frame_def)

lemma read_undecodable_exists: "read_frame mc dirs fid = Inl (FrameDecodeError fid) \<Longrightarrow> map_of dirs fid \<noteq> None"
  by (cases "map_of dirs fid") (simp_all add: read_frame_def FrameDecodeError_def FrameNotFoundError_def)

lemma read_deleted: "read_frame mc (AList.delete fid dirs) fid' =
    (if fid' = fid then Inl (FrameNotFoundError fid) else read_frame mc dirs fid')"
  by (simp add: read_frame_def)

end
