(* ===== verification/FrameSystem.thy ===== *)
theory FrameSystem
  imports FrameForms
begin

section \<open>The frames API keeps its state sound\<close>

text \<open>
  \<open>hub_ok\<close> is the invariant of the shared state: a stored Frame is kept under its own id, an active
  selection names stored Frames its holder may read, a group has members and they are stored.  Each
  handler keeps it whether it answers or raises; \<open>audience_ok\<close> is the part a write may break for the
  one Frame it narrows, until the holders are reconciled.
\<close>

declare split_paired_All [simp del] split_paired_Ex [simp del]

subsection \<open>The invariant\<close>

definition dirs_ok :: "model_codec \<Rightarrow> frame_dirs \<Rightarrow> bool" where
  "dirs_ok mc dirs \<longleftrightarrow> (\<forall>fid f. read_frame mc dirs fid = Inr f \<longrightarrow> fr_id f = fid)"

definition reads_as :: "model_codec \<Rightarrow> frame_dirs \<Rightarrow> active_key \<Rightarrow> string \<Rightarrow> bool" where
  "reads_as mc dirs key fid \<longleftrightarrow> (\<forall>f. read_frame mc dirs fid = Inr f \<longrightarrow> can_read f (probe key) = Inr True)"

definition active_ok :: "model_codec \<Rightarrow> frame_dirs \<Rightarrow> string set \<Rightarrow> active_items option \<Rightarrow> bool" where
  "active_ok mc dirs X act \<longleftrightarrow>
     (\<forall>items. act = Some items \<longrightarrow> distinct (map fst items) \<and>
       (\<forall>key ids fid. map_of items key = Some ids \<longrightarrow> fid \<in> set ids \<longrightarrow>
          map_of dirs fid \<noteq> None \<and> (fid \<notin> X \<longrightarrow> reads_as mc dirs key fid)))"

definition group_ok :: "frame_group \<Rightarrow> bool" where
  "group_ok g \<longleftrightarrow>
     gr_frame_ids g \<noteq> [] \<and> distinct (gr_frame_ids g) \<and> (\<forall>i\<in>set (gr_frame_ids g). ID_PATTERN i) \<and> owners_ok (gr_owners g)"

definition groups_ok :: "frame_dirs \<Rightarrow> string set \<Rightarrow> group_items option \<Rightarrow> bool" where
  "groups_ok dirs X gs \<longleftrightarrow>
     (\<forall>items. gs = Some items \<longrightarrow> distinct (map fst items) \<and>
       (\<forall>gid g. map_of items gid = Some g \<longrightarrow> gr_id g = gid \<and> group_ok g \<and>
          (\<forall>i\<in>set (gr_frame_ids g). i \<in> X \<or> map_of dirs i \<noteq> None)))"

definition hub_ok :: "model_codec \<Rightarrow> string set \<Rightarrow> hub \<Rightarrow> bool" where
  "hub_ok mc X h \<longleftrightarrow>
     dirs_ok mc (hb_frames h) \<and> active_ok mc (hb_frames h) X (hb_active h) \<and> groups_ok (hb_frames h) {} (hb_groups h)"

text \<open>All Frames but one read as they did.\<close>

definition others :: "model_codec \<Rightarrow> string \<Rightarrow> frame_dirs \<Rightarrow> frame_dirs \<Rightarrow> bool" where
  "others mc fid d0 dirs \<longleftrightarrow> (\<forall>i. i \<noteq> fid \<longrightarrow> read_frame mc dirs i = read_frame mc d0 i)"

definition keeps_to :: "model_codec \<Rightarrow> string \<Rightarrow> frame_dirs \<Rightarrow> string set \<Rightarrow> hub \<Rightarrow> bool" where
  "keeps_to mc fid d0 X h \<longleftrightarrow> hub_ok mc X h \<and> others mc fid d0 (hb_frames h)"

lemma active_okI:
  assumes "\<And>items. act = Some items \<Longrightarrow> distinct (map fst items)"
    and "\<And>items key ids fid. act = Some items \<Longrightarrow> map_of items key = Some ids \<Longrightarrow> fid \<in> set ids \<Longrightarrow>
      map_of dirs fid \<noteq> None \<and> (fid \<notin> X \<longrightarrow> reads_as mc dirs key fid)"
  shows "active_ok mc dirs X act"
  using assms by (auto simp: active_ok_def)

lemma active_okD:
  assumes "active_ok mc dirs X (Some items)" and "map_of items key = Some ids" and "fid \<in> set ids"
  shows "map_of dirs fid \<noteq> None" and "fid \<notin> X \<Longrightarrow> reads_as mc dirs key fid"
  using assms by (auto simp: active_ok_def)

subsection \<open>Pure steps\<close>

lemma keeps_reads [keeps_intros]: "keeps P (reads f)"
  by (simp add: keeps_def reads_def)

lemma bind_lift [simp]: "bind (lift (Inr x)) f = f x" "bind (lift (Inl e)) f = raise e"
  by (simp_all add: bind_def lift_def raise_def)

lemma bind_reads: "bind (reads f) k h = (case f h of Inl e \<Rightarrow> (Inl e, h) | Inr x \<Rightarrow> k x h)"
  by (simp add: bind_def reads_def split: sum.split)

lemma keeps_history [keeps_intros]:
  "keeps (hub_ok mc X) (record_frame_history W auth f e d)" "keeps (hub_ok mc X) (record_group_history W auth g e d)"
  "keeps (keeps_to mc fid d0 X) (record_frame_history W auth f e d)"
  "keeps (keeps_to mc fid d0 X) (record_group_history W auth g e d)"
  "keeps (\<lambda>h. hb_frames h = dirs) (record_frame_history W auth f e d)"
  "keeps (\<lambda>h. hb_frames h = dirs) (record_group_history W auth g e d)"
  unfolding record_frame_history_def record_group_history_def
  by (rule keeps_modify; simp add: keeps_to_def hub_ok_def)+

lemma keeps_with_id [keeps_intros]: "(ID_PATTERN i \<Longrightarrow> keeps P m) \<Longrightarrow> keeps P (with_id i m)"
  by (simp add: with_id_def keeps_intros)

lemma keeps_with_body_of [keeps_intros]: "(\<And>x. r = Inr x \<Longrightarrow> keeps P (m x)) \<Longrightarrow> keeps P (with_body_of r m)"
  by (cases r) (simp_all add: with_body_of_def keeps_intros)

lemma triple_to_keeps: "triple P m (\<lambda>_. P) (\<lambda>_. P) \<Longrightarrow> keeps P m"
proof (rule keepsI)
  fix s assume t: "triple P m (\<lambda>_. P) (\<lambda>_. P)" and p: "P s"
  obtain r u where "m s = (r, u)" by (cases "m s")
  with tripleD [OF t p] show "P (snd (m s))" by (cases r) simp_all
qed

lemma require_readable_Inr: "require_readable_frame f auth = Inr g \<longleftrightarrow> g = f \<and> can_read f auth = Inr True"
  by (auto simp: require_readable_frame_def bind_result_Inr_iff)

lemma require_manageable_Inr:
  "require_manageable_frame f auth = Inr g \<longleftrightarrow> g = f \<and> can_read f auth = Inr True \<and> can_manage f auth = Inr True"
  by (auto simp: require_manageable_frame_def bind_result_Inr_iff split: if_splits)

lemma triple_reads:
  "(\<And>h x. P h \<Longrightarrow> f h = Inr x \<Longrightarrow> Q x h) \<Longrightarrow> (\<And>h e. P h \<Longrightarrow> f h = Inl e \<Longrightarrow> E e h) \<Longrightarrow> triple P (reads f) Q E"
  by (rule tripleI) (simp_all add: reads_def)

lemma triple_readable:
  "triple P (readable_frame W auth fid)
     (\<lambda>f h. P h \<and> read_frame (fw_codec W) (hb_frames h) fid = Inr f \<and> can_read f auth = Inr True) (\<lambda>_. P)"
  unfolding readable_frame_def by (rule triple_reads) (auto simp: bind_result_Inr_iff require_readable_Inr)

lemma triple_manageable:
  "triple P (manageable_frame W auth fid)
     (\<lambda>f h. P h \<and> read_frame (fw_codec W) (hb_frames h) fid = Inr f \<and> can_manage f auth = Inr True) (\<lambda>_. P)"
  unfolding manageable_frame_def by (rule triple_reads) (auto simp: bind_result_Inr_iff require_manageable_Inr)

subsection \<open>Writing a frame\<close>

lemma write_keeps:
  assumes mc: "model_codec_ok mc" and h: "hub_ok mc X h" and f: "frame_ok f"
    and x: "fr_id f \<in> X \<or> (\<forall>key. (case hb_active h of None \<Rightarrow> False
       | Some items \<Rightarrow> \<exists>ids. map_of items key = Some ids \<and> fr_id f \<in> set ids) \<longrightarrow> can_read f (probe key) = Inr True)"
  shows "hub_ok mc X (h\<lparr>hb_frames := write_frame mc f (hb_frames h)\<rparr>)"
proof -
  let ?d = "write_frame mc f (hb_frames h)"
  note rd = read_written [OF mc f, of "hb_frames h"]
  have ex: "map_of ?d i \<noteq> None" if "map_of (hb_frames h) i \<noteq> None" for i
    using that by (auto simp: write_frame_def)
  have "dirs_ok mc ?d" using h by (auto simp: hub_ok_def dirs_ok_def rd)
  moreover have "active_ok mc ?d X (hb_active h)"
  proof (rule active_okI)
    fix items assume i: "hb_active h = Some items"
    then show "distinct (map fst items)" using h by (auto simp: hub_ok_def active_ok_def)
    fix key ids fid assume k: "map_of items key = Some ids" "fid \<in> set ids"
    from h i have a: "active_ok mc (hb_frames h) X (Some items)" by (simp add: hub_ok_def)
    have "reads_as mc ?d key fid" if "fid \<notin> X"
      using active_okD(2) [OF a k that] x that i k by (auto simp: reads_as_def rd)
    with ex active_okD(1) [OF a k] show "map_of ?d fid \<noteq> None \<and> (fid \<notin> X \<longrightarrow> reads_as mc ?d key fid)" by blast
  qed
  moreover have "groups_ok ?d {} (hb_groups h)"
    using h ex unfolding hub_ok_def groups_ok_def by blast
  ultimately show ?thesis by (simp add: hub_ok_def)
qed

lemma others_write:
  "model_codec_ok mc \<Longrightarrow> frame_ok f \<Longrightarrow> others mc (fr_id f) d0 dirs \<Longrightarrow> others mc (fr_id f) d0 (write_frame mc f dirs)"
  by (simp add: others_def read_written)

text \<open>A write that may narrow the audience leaves only this Frame's holders to reconcile.\<close>

lemma triple_rewrite:
  assumes mc: "model_codec_ok mc" and ok: "frame_ok (change f)" and i: "fr_id (change f) = fid"
  shows "triple (\<lambda>h. keeps_to mc fid d0 {} h \<and> read_frame mc (hb_frames h) fid = Inr f)
     (frames_op (rewrite_frame mc fid change))
     (\<lambda>u h. u = change f \<and> keeps_to mc fid d0 {fid} h \<and> read_frame mc (hb_frames h) fid = Inr u) (\<lambda>_. keeps_to mc fid d0 {})"
proof (rule tripleI)
  fix h u h' assume h: "keeps_to mc fid d0 {} h \<and> read_frame mc (hb_frames h) fid = Inr f"
    and r: "frames_op (rewrite_frame mc fid change) h = (Inr u, h')"
  then have e: "u = change f" "h' = h\<lparr>hb_frames := write_frame mc (change f) (hb_frames h)\<rparr>"
    by (auto simp: frames_op_def rewrite_frame_def)
  have "hub_ok mc {fid} h" using h by (auto simp: keeps_to_def hub_ok_def active_ok_def)
  from write_keeps [OF mc this ok] i have "hub_ok mc {fid} h'" by (simp add: e)
  moreover have "others mc fid d0 (hb_frames h')" using others_write [OF mc ok] h by (simp add: e keeps_to_def i)
  ultimately show "u = change f \<and> keeps_to mc fid d0 {fid} h' \<and> read_frame mc (hb_frames h') fid = Inr u"
    using read_written [OF mc ok] by (simp add: e keeps_to_def i)
qed (auto simp: frames_op_def rewrite_frame_def)

text \<open>A write that leaves every reader a reader needs no reconciling.\<close>

lemma widened:
  assumes mc: "model_codec_ok mc" and ok: "frame_ok f'" and i: "fr_id f' = fid"
    and w: "\<And>auth. can_read f auth = Inr True \<Longrightarrow> can_read f' auth = Inr True"
    and h: "keeps_to mc fid d0 {} h" "read_frame mc (hb_frames h) fid = Inr f"
  shows "keeps_to mc fid d0 {} (h\<lparr>hb_frames := write_frame mc f' (hb_frames h)\<rparr>)"
proof -
  have hub: "hub_ok mc {} h" using h(1) by (simp add: keeps_to_def)
  have "hub_ok mc {} (h\<lparr>hb_frames := write_frame mc f' (hb_frames h)\<rparr>)"
  proof (rule write_keeps [OF mc hub ok])
    have "can_read f' (probe key) = Inr True"
      if "hb_active h = Some items" "map_of items key = Some ids" "fid \<in> set ids" for items key ids
      using hub that h(2) w active_okD(2) [of mc "hb_frames h" "{}" items key ids fid] by (simp add: hub_ok_def reads_as_def)
    then show "fr_id f' \<in> {} \<or> (\<forall>key. (case hb_active h of None \<Rightarrow> False
       | Some items \<Rightarrow> \<exists>ids. map_of items key = Some ids \<and> fr_id f' \<in> set ids) \<longrightarrow> can_read f' (probe key) = Inr True)"
      by (auto simp: i split: option.splits)
  qed
  then show ?thesis using others_write [OF mc ok] h(1) by (simp add: keeps_to_def i)
qed

lemma triple_widen:
  assumes mc: "model_codec_ok mc" and ok: "frame_ok (change f)" and i: "fr_id (change f) = fid"
    and w: "\<And>auth. can_read f auth = Inr True \<Longrightarrow> can_read (change f) auth = Inr True"
  shows "triple (\<lambda>h. keeps_to mc fid d0 {} h \<and> read_frame mc (hb_frames h) fid = Inr f)
     (frames_op (rewrite_frame mc fid change))
     (\<lambda>u h. u = change f \<and> keeps_to mc fid d0 {} h \<and> read_frame mc (hb_frames h) fid = Inr u) (\<lambda>_. keeps_to mc fid d0 {})"
  by (rule tripleI)
    (auto simp: frames_op_def rewrite_frame_def read_written [OF mc ok] i intro: widened [OF mc ok i w])

lemma triple_widen_op:
  assumes mc: "model_codec_ok mc" and ok: "frame_ok f'" and i: "fr_id f' = fid"
    and w: "\<And>auth. can_read f auth = Inr True \<Longrightarrow> can_read f' auth = Inr True"
    and op: "\<And>dirs. read_frame mc dirs fid = Inr f \<Longrightarrow>
      (\<exists>e. op dirs = (Inl e, dirs)) \<or> (\<exists>x. op dirs = (Inr x, write_frame mc f' dirs))"
  shows "triple (\<lambda>h. keeps_to mc fid d0 {} h \<and> read_frame mc (hb_frames h) fid = Inr f) (frames_op op)
     (\<lambda>_. keeps_to mc fid d0 {}) (\<lambda>_. keeps_to mc fid d0 {})"
proof (rule tripleI)
  fix h assume h: "keeps_to mc fid d0 {} h \<and> read_frame mc (hb_frames h) fid = Inr f"
  note o' = op [OF conjunct2 [OF h]]
  show "keeps_to mc fid d0 {} h'" if "frames_op op h = (Inr x, h')" for x h'
    using o' that h by (auto simp: frames_op_def intro: widened [OF mc ok i w])
  show "keeps_to mc fid d0 {} h'" if "frames_op op h = (Inl x, h')" for x h'
    using o' that h by (auto simp: frames_op_def)
qed

subsection \<open>Reconciling the holders\<close>

lemma can_read_probe: "\<exists>b. can_read f (probe key) = Inr b"
proof -
  have "auth_org_id (probe key) = Inr (fst key)" by (cases key) (simp add: probe_def auth_org_id_def)
  then show ?thesis by (auto simp: can_read_def in_tenant_def)
qed

lemma prune_holders_state:
  "prune_holders f keys h = (Inr (), h\<lparr>hb_active :=
     foldl (\<lambda>a key. if can_read f (probe key) = Inr True then a else remove_frame_id_for key (fr_id f) a) (hb_active h) keys\<rparr>)"
proof (induction keys arbitrary: h)
  case (Cons key keys)
  obtain b where "can_read f (probe key) = Inr b" using can_read_probe by blast
  then show ?case by (cases b) (simp_all add: bind_def andthen_def lift_def ret_def active_op_def Cons.IH)
qed (simp add: ret_def)

text \<open>Who is still listed with the Frame after the loop is a reader, or was not among the holders.\<close>

lemma pruned_items:
  assumes "foldl (\<lambda>a key. if can_read f (probe key) = Inr True then a else remove_frame_id_for key (fr_id f) a) (Some items) keys = act"
  obtains items' where "act = Some items'"
    "distinct (map fst items) \<longrightarrow> distinct (map fst items')"
    "\<And>k ids fid. map_of items' k = Some ids \<Longrightarrow> fid \<in> set ids \<Longrightarrow> \<exists>ids0. map_of items k = Some ids0 \<and> fid \<in> set ids0"
    "\<And>k ids. map_of items' k = Some ids \<Longrightarrow> fr_id f \<in> set ids \<Longrightarrow> k \<in> set keys \<Longrightarrow> can_read f (probe k) = Inr True"
  using assms
proof (induction keys arbitrary: items thesis)
  case Nil
  then show ?case by auto
next
  case (Cons key keys)
  let ?F = "\<lambda>a key. if can_read f (probe key) = Inr True then a else remove_frame_id_for key (fr_id f) a"
  show ?case
  proof (cases "can_read f (probe key) = Inr True \<or> map_of items key = None")
    case True
    then have "foldl ?F (Some items) keys = act" "can_read f (probe key) = Inr True \<or> map_of items key = None"
      using Cons.prems(2) by (auto simp: remove_frame_id_for_def)
    note f = this
    obtain items' where i: "act = Some items'" "distinct (map fst items) \<longrightarrow> distinct (map fst items')"
      "\<And>k ids fid. map_of items' k = Some ids \<Longrightarrow> fid \<in> set ids \<Longrightarrow> \<exists>ids0. map_of items k = Some ids0 \<and> fid \<in> set ids0"
      "\<And>k ids. map_of items' k = Some ids \<Longrightarrow> fr_id f \<in> set ids \<Longrightarrow> k \<in> set keys \<Longrightarrow> can_read f (probe k) = Inr True"
      using Cons.IH [OF _ f(1)] by blast
    show ?thesis
    proof (rule Cons.prems(1) [OF i(1,2)])
      show "\<exists>ids0. map_of items k = Some ids0 \<and> fid \<in> set ids0" if "map_of items' k = Some ids" "fid \<in> set ids" for k ids fid
        using i(3) [OF that] .
      show "can_read f (probe k) = Inr True"
        if "map_of items' k = Some ids" "fr_id f \<in> set ids" "k \<in> set (key # keys)" for k ids
        using i(3) [OF that(1,2)] i(4) [OF that(1,2)] that(3) f(2) by auto
    qed
  next
    case False
    then obtain ids0 where ids0: "map_of items key = Some ids0" by auto
    let ?items = "AList.update key (without (fr_id f) ids0) items"
    have "foldl ?F (Some ?items) keys = act" using False Cons.prems(2) ids0 by (simp add: remove_frame_id_for_def)
    then obtain items' where i: "act = Some items'" "distinct (map fst ?items) \<longrightarrow> distinct (map fst items')"
      "\<And>k ids fid. map_of items' k = Some ids \<Longrightarrow> fid \<in> set ids \<Longrightarrow> \<exists>ids0. map_of ?items k = Some ids0 \<and> fid \<in> set ids0"
      "\<And>k ids. map_of items' k = Some ids \<Longrightarrow> fr_id f \<in> set ids \<Longrightarrow> k \<in> set keys \<Longrightarrow> can_read f (probe k) = Inr True"
      using Cons.IH by blast
    show ?thesis
    proof (rule Cons.prems(1) [OF i(1)])
      show "distinct (map fst items) \<longrightarrow> distinct (map fst items')" using i(2) by (simp add: distinct_update)
      show "\<exists>ids0. map_of items k = Some ids0 \<and> fid \<in> set ids0" if "map_of items' k = Some ids" "fid \<in> set ids" for k ids fid
        using i(3) [OF that] ids0 by (auto simp: without_def split: if_splits)
      show "can_read f (probe k) = Inr True"
        if "map_of items' k = Some ids" "fr_id f \<in> set ids" "k \<in> set (key # keys)" for k ids
        using i(3) [OF that(1,2)] i(4) [OF that(1,2)] that(3) by (auto simp: without_def split: if_splits)
    qed
  qed
qed

lemma triple_reconcile:
  assumes i: "fr_id f = fid"
  shows "triple (\<lambda>h. keeps_to mc fid d0 {fid} h \<and> read_frame mc (hb_frames h) fid = Inr f) (reconcile_active f)
     (\<lambda>_ h. keeps_to mc fid d0 {} h \<and> read_frame mc (hb_frames h) fid = Inr f) E"
proof (rule tripleI)
  fix h x h' assume h: "keeps_to mc fid d0 {fid} h \<and> read_frame mc (hb_frames h) fid = Inr f"
    and r: "reconcile_active f h = (Inr x, h')"
  let ?keys = "find_active_holders (hb_active h) fid"
  let ?F = "\<lambda>a key. if can_read f (probe key) = Inr True then a else remove_frame_id_for key (fr_id f) a"
  from r have e: "h' = h\<lparr>hb_active := foldl ?F (hb_active h) ?keys\<rparr>"
    by (simp add: reconcile_active_def bind_def gets_def prune_holders_state i)
  show "keeps_to mc fid d0 {} h' \<and> read_frame mc (hb_frames h') fid = Inr f"
  proof (cases "hb_active h")
    case None
    then have "h' = h" by (simp add: e find_active_holders_def)
    with None h show ?thesis by (simp add: keeps_to_def hub_ok_def active_ok_def)
  next
    case (Some items)
    from h Some have a: "active_ok mc (hb_frames h) {fid} (Some items)" by (simp add: keeps_to_def hub_ok_def)
    obtain items' where it: "foldl ?F (Some items) ?keys = Some items'"
      "distinct (map fst items) \<longrightarrow> distinct (map fst items')"
      "\<And>k ids fid. map_of items' k = Some ids \<Longrightarrow> fid \<in> set ids \<Longrightarrow> \<exists>ids0. map_of items k = Some ids0 \<and> fid \<in> set ids0"
      "\<And>k ids. map_of items' k = Some ids \<Longrightarrow> fid \<in> set ids \<Longrightarrow> k \<in> set ?keys \<Longrightarrow> can_read f (probe k) = Inr True"
      using pruned_items [OF refl, of f items ?keys] i by blast
    have "active_ok mc (hb_frames h) {} (Some items')"
    proof (rule active_okI)
      show "Some items' = Some items'' \<Longrightarrow> distinct (map fst items'')" for items''
        using it(2) a by (auto simp: active_ok_def)
      fix items'' key ids j assume "Some items' = Some items''" "map_of items'' key = Some ids" "j \<in> set ids"
      then have k: "map_of items' key = Some ids" "j \<in> set ids" by auto
      from it(3) [OF k] obtain ids0 where ids0: "map_of items key = Some ids0" "j \<in> set ids0" by blast
      have "reads_as mc (hb_frames h) key j"
      proof (cases "j = fid")
        case True
        have "key \<in> set ?keys" using ids0 True map_of_SomeD [OF ids0(1)] by (force simp: Some find_active_holders_def)
        then show ?thesis using it(4) k True h by (auto simp: reads_as_def)
      qed (use active_okD(2) [OF a ids0] in auto)
      then show "map_of (hb_frames h) j \<noteq> None \<and> (j \<notin> {} \<longrightarrow> reads_as mc (hb_frames h) key j)"
        using active_okD(1) [OF a ids0] by blast
    qed
    with h it(1) show ?thesis by (simp add: e Some keeps_to_def hub_ok_def i)
  qed
qed (simp add: reconcile_active_def bind_def gets_def prune_holders_state)

end
