(* ===== verification/FrameCalls.thy ===== *)
theory FrameCalls
  imports FrameSystem
begin

section \<open>What each call of the frames API keeps\<close>

text \<open>
  One lemma per handler: it keeps the invariant, and touches no Frame but the one it names.
\<close>

subsection \<open>Changes that keep a frame well-formed\<close>

lemma frame_ok_owners: "frame_ok f \<Longrightarrow> owners_ok xs \<Longrightarrow> frame_ok (f\<lparr>fr_owners := xs, fr_updated_at := now\<rparr>)"
  by (simp add: frame_ok_def metadata_fields_ok_def)

lemma readers_ok_Nil [simp]: "readers_ok []"
  by (simp add: readers_ok_def principals_ok_def)

lemma frame_ok_readers: "frame_ok f \<Longrightarrow> readers_ok xs \<Longrightarrow> frame_ok ((reader_write_fields xs f)\<lparr>fr_updated_at := now\<rparr>)"
  by (auto simp: frame_ok_def metadata_fields_ok_def reader_write_fields_def)

lemma frame_ok_published: "frame_ok f \<Longrightarrow> frame_ok (f\<lparr>fr_published := b, fr_updated_at := now\<rparr>)"
  by (simp add: frame_ok_def metadata_fields_ok_def)

lemma frame_ok_suggestions:
  "frame_ok f \<Longrightarrow> list_all valid_suggestion ss \<Longrightarrow> frame_ok (f\<lparr>fr_suggestions := ss, fr_updated_at := now\<rparr>)"
  by (simp add: frame_ok_def metadata_fields_ok_def)

lemma read_frame_update_Inr:
  assumes "read_frame_update p = Inr q"
  shows "tags_ok (fu_tags q)" and "normalize_name (fu_name q) = Inr (fu_name q)"
    and "len_within 1 FRAME_NAME_MAX_LENGTH (fu_name q)" and "len_within 0 DESCRIPTION_MAX_LENGTH (fu_description q)"
    and "len_within 1 FRAME_BODY_MAX_LENGTH (fu_body q)"
proof -
  from assms obtain tags name where q: "q = p\<lparr>fu_tags := tags, fu_name := name\<rparr>"
    and n: "normalize_tags (fu_tags p) = Inr tags" "normalize_name (fu_name p) = Inr name"
    and ok: "name_and_description_ok (fu_name p) (fu_description p)" "len_within 1 FRAME_BODY_MAX_LENGTH (fu_body p)"
    by (auto simp: read_frame_update_def bind_result_Inr_iff split: if_splits)
  show "tags_ok (fu_tags q)" using n(1) by (simp add: q normalize_tags_ok)
  show "normalize_name (fu_name q) = Inr (fu_name q)" using n(2) by (simp add: q normalize_name_idem)
  show "len_within 1 FRAME_NAME_MAX_LENGTH (fu_name q)"
    using normalize_name_bounds [OF n(2)] ok(1) by (cases name) (auto simp: q name_and_description_ok_def len_within_def)
  show "len_within 0 DESCRIPTION_MAX_LENGTH (fu_description q)" "len_within 1 FRAME_BODY_MAX_LENGTH (fu_body q)"
    using ok by (simp_all add: q name_and_description_ok_def)
qed

lemma frame_ok_updated:
  assumes "frame_ok f" and "read_frame_update p = Inr q"
  shows "frame_ok (updated_frame now (fu_name q) (fu_description q) (fu_visibility q) (fu_tags q) (fu_body q) f)"
  using assms(1) read_frame_update_Inr [OF assms(2)]
  by (auto simp: frame_ok_def metadata_fields_ok_def updated_frame_def readers_after_visibility_def readers_ok_def
      principals_ok_def compute_token_estimate_def)

lemma read_owners_ok: "read_owners pinned xs = Inr ys \<Longrightarrow> owners_ok ys"
  by (auto simp: read_owners_def bind_result_Inr_iff dest!: validate_acl_principals_Inr normalize_owners_ok)

lemma read_readers_ok: "read_readers pinned xs = Inr ys \<Longrightarrow> readers_ok ys"
  by (auto simp: read_readers_def bind_result_Inr_iff dest!: validate_acl_principals_Inr normalize_readers_ok)

lemma without_ok:
  "owners_ok xs \<Longrightarrow> without e xs \<noteq> [] \<Longrightarrow> owners_ok (without e xs)" "readers_ok xs \<Longrightarrow> readers_ok (without e xs)"
  by (auto simp: owners_ok_def readers_ok_def principals_ok_def without_def intro: order_trans [OF length_filter_le])

lemma owners_added: "owners_ok xs \<Longrightarrow> normalize_owners True (xs @ [e]) = Inr ys \<Longrightarrow> owners_ok ys \<and> set xs \<subseteq> set ys"
  using normalize_owners_ok normalize_owners_has [of True "xs @ [e]" ys]
  by (fastforce simp: owners_ok_def principals_ok_def)

subsection \<open>Composing steps\<close>

lemma triple_stop [simp]: "triple (\<lambda>h. P h \<and> R h) (ret x) (\<lambda>_. P) E" "triple (\<lambda>h. P h \<and> R h) (raise e) Q (\<lambda>_. P)"
  by (simp_all add: triple_def sx_apply)

lemma read_facts:
  assumes "model_codec_ok mc" and "keeps_to mc fid d0 X h \<and> read_frame mc (hb_frames h) i = Inr f"
  shows "frame_ok f \<and> fr_id f = i"
  using assms read_frame_ok by (auto simp: keeps_to_def hub_ok_def dirs_ok_def)

lemma manageable_then:
  assumes mc: "model_codec_ok (fw_codec W)"
    and k: "\<And>f. frame_ok f \<Longrightarrow> fr_id f = fid \<Longrightarrow> can_manage f auth = Inr True \<Longrightarrow>
      triple (\<lambda>h. keeps_to (fw_codec W) fid d0 {} h \<and> read_frame (fw_codec W) (hb_frames h) fid = Inr f) (k f)
        (\<lambda>_. keeps_to (fw_codec W) fid d0 {}) (\<lambda>_. keeps_to (fw_codec W) fid d0 {})"
  shows "keeps (keeps_to (fw_codec W) fid d0 {}) (bind (manageable_frame W auth fid) k)"
proof (rule triple_to_keeps, rule triple_bind [OF triple_manageable])
  fix f
  let ?P = "\<lambda>h. keeps_to (fw_codec W) fid d0 {} h \<and> read_frame (fw_codec W) (hb_frames h) fid = Inr f"
  let ?c = "frame_ok f \<and> fr_id f = fid \<and> can_manage f auth = Inr True"
  show "triple (\<lambda>h. keeps_to (fw_codec W) fid d0 {} h \<and> read_frame (fw_codec W) (hb_frames h) fid = Inr f \<and>
      can_manage f auth = Inr True) (k f) (\<lambda>_. keeps_to (fw_codec W) fid d0 {}) (\<lambda>_. keeps_to (fw_codec W) fid d0 {})"
  proof (rule triple_pre [where c = ?c])
    show ?c if "keeps_to (fw_codec W) fid d0 {} h \<and> read_frame (fw_codec W) (hb_frames h) fid = Inr f \<and>
      can_manage f auth = Inr True" for h
      using read_facts [OF mc, of fid d0 "{}" h fid f] that by simp
    assume c: ?c
    then have "triple ?P (k f) (\<lambda>_. keeps_to (fw_codec W) fid d0 {}) (\<lambda>_. keeps_to (fw_codec W) fid d0 {})" using k by simp
    then show "triple (\<lambda>h. keeps_to (fw_codec W) fid d0 {} h \<and> read_frame (fw_codec W) (hb_frames h) fid = Inr f \<and>
      can_manage f auth = Inr True) (k f) (\<lambda>_. keeps_to (fw_codec W) fid d0 {}) (\<lambda>_. keeps_to (fw_codec W) fid d0 {})"
      by (rule triple_weaken) simp_all
  qed
qed

lemma readable_then:
  assumes mc: "model_codec_ok (fw_codec W)"
    and k: "\<And>f. frame_ok f \<Longrightarrow> fr_id f = fid \<Longrightarrow> can_read f auth = Inr True \<Longrightarrow>
      triple (\<lambda>h. keeps_to (fw_codec W) fid d0 {} h \<and> read_frame (fw_codec W) (hb_frames h) fid = Inr f) (k f)
        (\<lambda>_. keeps_to (fw_codec W) fid d0 {}) (\<lambda>_. keeps_to (fw_codec W) fid d0 {})"
  shows "keeps (keeps_to (fw_codec W) fid d0 {}) (bind (readable_frame W auth fid) k)"
proof (rule triple_to_keeps, rule triple_bind [OF triple_readable])
  fix f
  let ?P = "\<lambda>h. keeps_to (fw_codec W) fid d0 {} h \<and> read_frame (fw_codec W) (hb_frames h) fid = Inr f"
  let ?c = "frame_ok f \<and> fr_id f = fid \<and> can_read f auth = Inr True"
  show "triple (\<lambda>h. keeps_to (fw_codec W) fid d0 {} h \<and> read_frame (fw_codec W) (hb_frames h) fid = Inr f \<and>
      can_read f auth = Inr True) (k f) (\<lambda>_. keeps_to (fw_codec W) fid d0 {}) (\<lambda>_. keeps_to (fw_codec W) fid d0 {})"
  proof (rule triple_pre [where c = ?c])
    show ?c if "keeps_to (fw_codec W) fid d0 {} h \<and> read_frame (fw_codec W) (hb_frames h) fid = Inr f \<and>
      can_read f auth = Inr True" for h
      using read_facts [OF mc, of fid d0 "{}" h fid f] that by simp
    assume c: ?c
    then have "triple ?P (k f) (\<lambda>_. keeps_to (fw_codec W) fid d0 {}) (\<lambda>_. keeps_to (fw_codec W) fid d0 {})" using k by simp
    then show "triple (\<lambda>h. keeps_to (fw_codec W) fid d0 {} h \<and> read_frame (fw_codec W) (hb_frames h) fid = Inr f \<and>
      can_read f auth = Inr True) (k f) (\<lambda>_. keeps_to (fw_codec W) fid d0 {}) (\<lambda>_. keeps_to (fw_codec W) fid d0 {})"
      by (rule triple_weaken) simp_all
  qed
qed

text \<open>A narrowing write followed by reconciling, and then only history; and a widening one.\<close>

lemma narrowing_write:
  assumes mc: "model_codec_ok mc" and ok: "frame_ok (change f)" and i: "fr_id (change f) = fid"
    and k: "\<And>u. keeps (keeps_to mc fid d0 {}) (k u)"
  shows "triple (\<lambda>h. keeps_to mc fid d0 {} h \<and> read_frame mc (hb_frames h) fid = Inr f)
     (bind (frames_op (rewrite_frame mc fid change)) (\<lambda>u. andthen (reconcile_active u) (k u)))
     (\<lambda>_. keeps_to mc fid d0 {}) (\<lambda>_. keeps_to mc fid d0 {})"
proof (rule triple_bind [OF triple_rewrite [where change = change and f = f, OF mc ok i]])
  fix u
  let ?E = "\<lambda>_. keeps_to mc fid d0 {}"
  let ?Q = "\<lambda>h. keeps_to mc fid d0 {fid} h \<and> read_frame mc (hb_frames h) fid = Inr u"
  have r: "triple ?Q (andthen (reconcile_active u) (k u)) (\<lambda>_. keeps_to mc fid d0 {}) ?E" if "fr_id u = fid"
  proof (rule triple_andthen [OF triple_reconcile [OF that]])
    show "triple (\<lambda>h. keeps_to mc fid d0 {} h \<and> read_frame mc (hb_frames h) fid = Inr u) (k u)
       (\<lambda>_. keeps_to mc fid d0 {}) ?E"
      by (rule triple_weaken [OF triple_keeps [OF k]]) simp_all
  qed
  show "triple (\<lambda>h. u = change f \<and> keeps_to mc fid d0 {fid} h \<and> read_frame mc (hb_frames h) fid = Inr u)
      (andthen (reconcile_active u) (k u)) (\<lambda>_. keeps_to mc fid d0 {}) ?E"
    by (rule triple_pre [where c = "fr_id u = fid"], use i in simp, rule triple_weaken [OF r]) simp_all
qed

lemma widening_write:
  assumes mc: "model_codec_ok mc" and ok: "frame_ok (change f)" and i: "fr_id (change f) = fid"
    and w: "\<And>auth. can_read f auth = Inr True \<Longrightarrow> can_read (change f) auth = Inr True"
    and k: "\<And>u. keeps (keeps_to mc fid d0 {}) (k u)"
  shows "triple (\<lambda>h. keeps_to mc fid d0 {} h \<and> read_frame mc (hb_frames h) fid = Inr f)
     (bind (frames_op (rewrite_frame mc fid change)) k) (\<lambda>_. keeps_to mc fid d0 {}) (\<lambda>_. keeps_to mc fid d0 {})"
  by (rule triple_bind [OF triple_widen [where change = change and f = f, OF mc ok i w]], assumption)
     (rule triple_weaken [OF triple_keeps [OF k]], simp_all)

subsection \<open>The frame handlers\<close>

lemma update_frame_keeps:
  assumes mc: "model_codec_ok (fw_codec W)"
  shows "keeps (keeps_to (fw_codec W) fid d0 {}) (update_frame W auth now fid payload)"
  unfolding update_frame_def store_update_frame_def
  by (intro keeps_with_id keeps_with_body_of manageable_then [OF mc] narrowing_write [OF mc] frame_ok_updated keeps_intros)
     (simp_all add: updated_frame_def)

lemma write_owners_keeps:
  assumes mc: "model_codec_ok (fw_codec W)" and f: "frame_ok f" "fr_id f = fid" and o': "owners_ok owners"
    and r: "rec \<or> set (fr_owners f) \<subseteq> set owners"
  shows "triple (\<lambda>h. keeps_to (fw_codec W) fid d0 {} h \<and> read_frame (fw_codec W) (hb_frames h) fid = Inr f)
     (write_owners W auth now fid before rec owners) (\<lambda>_. keeps_to (fw_codec W) fid d0 {}) (\<lambda>_. keeps_to (fw_codec W) fid d0 {})"
proof (cases rec)
  case True
  then show ?thesis unfolding write_owners_def store_set_owners_def set_metadata_fields_def
    using f by (simp, intro narrowing_write [OF mc] keeps_intros) (simp_all add: frame_ok_owners o')
next
  case False
  with r have "set (fr_owners f) \<subseteq> set owners" by simp
  with False show ?thesis unfolding write_owners_def store_set_owners_def set_metadata_fields_def
    using f by (simp, intro widening_write [OF mc] keeps_intros)
      (auto simp: frame_ok_owners o' can_read_def split: if_splits)
qed

lemma replace_owners_keeps:
  assumes mc: "model_codec_ok (fw_codec W)"
  shows "keeps (keeps_to (fw_codec W) fid d0 {}) (replace_owners W auth now fid payload)"
  unfolding replace_owners_def
  by (intro keeps_with_id keeps_with_body_of manageable_then [OF mc] write_owners_keeps [OF mc] read_owners_ok) simp_all

lemma add_owner_keeps:
  assumes mc: "model_codec_ok (fw_codec W)"
  shows "keeps (keeps_to (fw_codec W) fid d0 {}) (add_owner W auth now fid payload)"
  unfolding add_owner_def
proof (intro keeps_with_id keeps_with_body_of manageable_then [OF mc])
  fix email f assume f: "frame_ok f" "fr_id f = fid"
  show "triple (\<lambda>h. keeps_to (fw_codec W) fid d0 {} h \<and> read_frame (fw_codec W) (hb_frames h) fid = Inr f)
      (case normalize_owners True (fr_owners f @ [email]) of Inl x \<Rightarrow> ret (conflict ''max_owners'')
       | Inr owners \<Rightarrow> write_owners W auth now fid f False owners)
      (\<lambda>_. keeps_to (fw_codec W) fid d0 {}) (\<lambda>_. keeps_to (fw_codec W) fid d0 {})"
  proof (cases "normalize_owners True (fr_owners f @ [email])")
    case (Inr owners)
    from owners_added [OF _ this] f have "owners_ok owners \<and> set (fr_owners f) \<subseteq> set owners" by (simp add: frame_ok_def)
    with Inr f show ?thesis by (simp add: write_owners_keeps [OF mc])
  qed simp
qed

lemma remove_owner_keeps:
  assumes mc: "model_codec_ok (fw_codec W)"
  shows "keeps (keeps_to (fw_codec W) fid d0 {}) (remove_owner W auth now fid email)"
  unfolding remove_owner_def Let_def
proof (intro keeps_with_id manageable_then [OF mc])
  fix f assume f: "frame_ok f" "fr_id f = fid"
  then have "owners_ok (fr_owners f)" by (simp add: frame_ok_def)
  with f show "triple (\<lambda>h. keeps_to (fw_codec W) fid d0 {} h \<and> read_frame (fw_codec W) (hb_frames h) fid = Inr f)
      (if length (without email (fr_owners f)) = length (fr_owners f) then raise (FrameNotFoundError fid)
       else if without email (fr_owners f) = [] then ret (conflict ''last_owner'')
       else write_owners W auth now fid f True (without email (fr_owners f)))
      (\<lambda>_. keeps_to (fw_codec W) fid d0 {}) (\<lambda>_. keeps_to (fw_codec W) fid d0 {})"
    by (auto intro!: write_owners_keeps [OF mc] without_ok)
qed

lemma write_readers_keeps:
  assumes mc: "model_codec_ok (fw_codec W)" and f: "frame_ok f" "fr_id f = fid" and r: "readers_ok readers"
  shows "triple (\<lambda>h. keeps_to (fw_codec W) fid d0 {} h \<and> read_frame (fw_codec W) (hb_frames h) fid = Inr f)
     (write_readers W auth now fid before readers) (\<lambda>_. keeps_to (fw_codec W) fid d0 {}) (\<lambda>_. keeps_to (fw_codec W) fid d0 {})"
  unfolding write_readers_def store_set_readers_def set_metadata_fields_def
  using f by (intro narrowing_write [OF mc] frame_ok_readers r keeps_intros) (simp_all add: reader_write_fields_def)

lemma replace_readers_keeps:
  assumes mc: "model_codec_ok (fw_codec W)"
  shows "keeps (keeps_to (fw_codec W) fid d0 {}) (replace_readers W auth now fid payload)"
  unfolding replace_readers_def
  by (intro keeps_with_id keeps_with_body_of manageable_then [OF mc] write_readers_keeps [OF mc] read_readers_ok)

lemma add_reader_keeps:
  assumes mc: "model_codec_ok (fw_codec W)"
  shows "keeps (keeps_to (fw_codec W) fid d0 {}) (add_reader W auth now fid payload)"
  unfolding add_reader_def
proof (intro keeps_with_id keeps_with_body_of manageable_then [OF mc])
  fix email f assume f: "frame_ok f" "fr_id f = fid"
  show "triple (\<lambda>h. keeps_to (fw_codec W) fid d0 {} h \<and> read_frame (fw_codec W) (hb_frames h) fid = Inr f)
      (bind (lift (normalize_readers (fr_readers f @ [email]))) (write_readers W auth now fid f))
      (\<lambda>_. keeps_to (fw_codec W) fid d0 {}) (\<lambda>_. keeps_to (fw_codec W) fid d0 {})"
  proof (cases "normalize_readers (fr_readers f @ [email])")
    case (Inr readers)
    with f show ?thesis using write_readers_keeps [OF mc f normalize_readers_ok [OF Inr]] by (simp add: bind_def lift_def)
  qed (simp add: bind_def lift_def triple_def)
qed

lemma remove_reader_keeps:
  assumes mc: "model_codec_ok (fw_codec W)"
  shows "keeps (keeps_to (fw_codec W) fid d0 {}) (remove_reader W auth now fid email)"
  unfolding remove_reader_def Let_def
proof (intro keeps_with_id manageable_then [OF mc])
  fix f assume f: "frame_ok f" "fr_id f = fid"
  then have "readers_ok (fr_readers f)" by (simp add: frame_ok_def)
  with f show "triple (\<lambda>h. keeps_to (fw_codec W) fid d0 {} h \<and> read_frame (fw_codec W) (hb_frames h) fid = Inr f)
      (if length (without email (fr_readers f)) = length (fr_readers f) then raise (FrameNotFoundError fid)
       else write_readers W auth now fid f (without email (fr_readers f)))
      (\<lambda>_. keeps_to (fw_codec W) fid d0 {}) (\<lambda>_. keeps_to (fw_codec W) fid d0 {})"
    by (auto intro!: write_readers_keeps [OF mc] without_ok)
qed

lemma publish_frame_keeps:
  assumes mc: "model_codec_ok (fw_codec W)"
  shows "keeps (keeps_to (fw_codec W) fid d0 {}) (publish_frame W auth now fid)"
  unfolding publish_frame_def store_set_published_def set_metadata_fields_def
  by (intro keeps_with_id manageable_then [OF mc] widening_write [OF mc] frame_ok_published keeps_intros)
     (auto simp: can_read_def split: if_splits)

lemma unpublish_frame_keeps:
  assumes mc: "model_codec_ok (fw_codec W)"
  shows "keeps (keeps_to (fw_codec W) fid d0 {}) (unpublish_frame W auth now fid)"
  unfolding unpublish_frame_def store_set_published_def set_metadata_fields_def
  by (intro keeps_with_id manageable_then [OF mc] narrowing_write [OF mc] frame_ok_published keeps_intros) simp_all

lemma close_first_valid:
  "close_first sid ss = Some (c, ss') \<Longrightarrow> list_all valid_suggestion ss \<Longrightarrow> list_all valid_suggestion ss'"
  by (induction ss arbitrary: ss') (auto simp: Let_def valid_suggestion_def split: if_splits option.splits)

lemma can_read_suggestions [simp]:
  "can_read (f\<lparr>fr_suggestions := ss, fr_updated_at := now\<rparr>) auth = can_read f auth"
  by (simp add: can_read_def)

lemma create_suggestion_keeps:
  assumes mc: "model_codec_ok (fw_codec W)"
  shows "keeps (keeps_to (fw_codec W) fid d0 {}) (create_suggestion W auth hex now fid payload)"
  unfolding create_suggestion_def
proof (intro keeps_with_id keeps_with_body_of readable_then [OF mc])
  fix body f assume f: "frame_ok f" "fr_id f = fid"
  let ?s = "\<lparr>sg_id = hex, sg_frame_id = fid, sg_status = Open, sg_submitted_by = au_user auth, sg_body = body\<rparr>"
  let ?f = "f\<lparr>fr_suggestions := fr_suggestions f @ (if valid_suggestion ?s then [?s] else []), fr_updated_at := now\<rparr>"
  show "triple (\<lambda>h. keeps_to (fw_codec W) fid d0 {} h \<and> read_frame (fw_codec W) (hb_frames h) fid = Inr f)
      (bind (frames_op (store_create_suggestion (fw_codec W) hex now fid (au_user auth) body))
         (\<lambda>s. ret (Answer 201 (TheSuggestion s))))
      (\<lambda>_. keeps_to (fw_codec W) fid d0 {}) (\<lambda>_. keeps_to (fw_codec W) fid d0 {})"
  proof (rule triple_bind)
    show "triple (\<lambda>h. keeps_to (fw_codec W) fid d0 {} h \<and> read_frame (fw_codec W) (hb_frames h) fid = Inr f)
        (frames_op (store_create_suggestion (fw_codec W) hex now fid (au_user auth) body))
        (\<lambda>_. keeps_to (fw_codec W) fid d0 {}) (\<lambda>_. keeps_to (fw_codec W) fid d0 {})"
      by (rule triple_widen_op [OF mc, where f' = ?f])
        (use f in \<open>auto intro!: frame_ok_suggestions simp: store_create_suggestion_def frame_ok_def
           metadata_fields_ok_def Let_def\<close>)
  qed (simp add: triple_ret)
qed

lemma close_suggestion_keeps:
  assumes mc: "model_codec_ok (fw_codec W)"
  shows "keeps (keeps_to (fw_codec W) fid d0 {}) (close_suggestion W auth now fid sid)"
  unfolding close_suggestion_def
proof (intro keeps_with_id readable_then [OF mc])
  fix f assume f: "frame_ok f" "fr_id f = fid"
  define ss where "ss = (case close_first sid (fr_suggestions f) of None \<Rightarrow> fr_suggestions f | Some (c, ss) \<Rightarrow> ss)"
  have v: "list_all valid_suggestion ss"
    using f by (auto simp: ss_def frame_ok_def metadata_fields_ok_def split: option.splits intro: close_first_valid)
  have w: "triple (\<lambda>h. keeps_to (fw_codec W) fid d0 {} h \<and> read_frame (fw_codec W) (hb_frames h) fid = Inr f)
        (frames_op (store_close_suggestion (fw_codec W) now fid sid))
        (\<lambda>_. keeps_to (fw_codec W) fid d0 {}) (\<lambda>_. keeps_to (fw_codec W) fid d0 {})"
    by (rule triple_widen_op [OF mc frame_ok_suggestions [OF f(1) v, of now]])
      (use f in \<open>auto simp: store_close_suggestion_def close_suggestion_in_frame_def ss_def split: option.splits\<close>)
  show "triple (\<lambda>h. keeps_to (fw_codec W) fid d0 {} h \<and> read_frame (fw_codec W) (hb_frames h) fid = Inr f)
      (case List.find (\<lambda>s. sg_id s = sid) (fr_suggestions f) of None \<Rightarrow> raise (SuggestionNotFoundError sid)
       | Some s \<Rightarrow> if au_user auth \<notin> set (fr_owners f) \<union> {sg_submitted_by s} then raise forbidden
           else bind (frames_op (store_close_suggestion (fw_codec W) now fid sid)) (\<lambda>c. ret (Answer 200 (TheSuggestion c))))
      (\<lambda>_. keeps_to (fw_codec W) fid d0 {}) (\<lambda>_. keeps_to (fw_codec W) fid d0 {})"
    by (auto split: option.split intro!: triple_bind [OF w] triple_ret)
qed

lemma store_create_Inr:
  assumes "store_create_frame mc hex now org ws creator owners name description vis tags body dirs = (Inr f, dirs')"
  shows "frame_ok f" and "fr_id f = hex" and "dirs' = write_frame mc f dirs"
proof -
  from assms obtain f0 where v: "validate_frame f0 = Inr f" and f0: "fr_readers f0 = []" "fr_id f0 = hex"
    and d: "dirs' = write_frame mc f dirs"
    by (auto simp: store_create_frame_def split: sum.splits)
  have "fr_readers f = []" "fr_id f = hex"
    using f0 by (auto intro: validate_frame_Inr [OF v] simp: normalize_readers_def normalized_def elim!: validate_frame_Inr [OF v])
  then show "frame_ok f" "fr_id f = hex" "dirs' = write_frame mc f dirs" using validate_frame_ok [OF v] d by auto
qed

lemma create_frame_keeps:
  assumes mc: "model_codec_ok (fw_codec W)"
  shows "triple (\<lambda>h. keeps_to (fw_codec W) hex d0 {} h \<and> map_of (hb_frames h) hex = None)
     (create_frame W auth hex now payload) (\<lambda>_. keeps_to (fw_codec W) hex d0 {}) (\<lambda>_. keeps_to (fw_codec W) hex d0 {})"
proof -
  let ?P = "\<lambda>h. keeps_to (fw_codec W) hex d0 {} h \<and> map_of (hb_frames h) hex = None"
  let ?E = "\<lambda>_. keeps_to (fw_codec W) hex d0 {}"
  have c: "triple ?P (frames_op (store_create_frame (fw_codec W) hex now org ws creator owners name description vis tags body)) ?E ?E"
    for org ws creator owners name description vis tags body
  proof (rule tripleI)
    fix h f h' assume h: "?P h"
      and r: "frames_op (store_create_frame (fw_codec W) hex now org ws creator owners name description vis tags body) h = (Inr f, h')"
    then obtain d where d: "store_create_frame (fw_codec W) hex now org ws creator owners name description vis tags body
        (hb_frames h) = (Inr f, d)" "h' = h\<lparr>hb_frames := d\<rparr>"
      by (auto simp: frames_op_def split: prod.splits)
    note f = store_create_Inr [OF d(1)]
    have "hub_ok (fw_codec W) {} h'" unfolding d(2) f(3)
    proof (rule write_keeps [OF mc _ f(1)])
      show "hub_ok (fw_codec W) {} h" using h by (simp add: keeps_to_def)
      then show "fr_id f \<in> {} \<or> (\<forall>key. (case hb_active h of None \<Rightarrow> False
          | Some items \<Rightarrow> \<exists>ids. map_of items key = Some ids \<and> fr_id f \<in> set ids) \<longrightarrow> can_read f (probe key) = Inr True)"
        using h f(2) active_okD(1) [of "fw_codec W" "hb_frames h" "{}"] by (fastforce simp: hub_ok_def split: option.splits)
    qed
    then show "keeps_to (fw_codec W) hex d0 {} h'"
      using others_write [OF mc f(1)] f(2) h by (simp add: keeps_to_def d f(3))
  qed (auto simp: frames_op_def store_create_frame_def split: sum.splits)
  have lift_then: "triple ?P (bind (lift r) k) ?E ?E" if "\<And>x. triple ?P (k x) ?E ?E" for r :: "exn + 'x" and k
    using that by (cases r) (simp_all add: bind_def lift_def triple_def)
  show ?thesis
    unfolding create_frame_def with_body_of_def
    by (auto split: sum.split intro!: lift_then triple_bind [OF c] triple_keeps keeps_intros)
qed

end
