(* ===== verification/GroupCalls.thy ===== *)
theory GroupCalls
  imports FrameCalls
begin

section \<open>Deleting a frame, selecting frames, and the groups\<close>

subsection \<open>Deleting a frame\<close>

text \<open>What reconciling does to one group: \<open>None\<close> is deletion.\<close>

definition pruned_group :: "nat \<Rightarrow> string \<Rightarrow> frame_group \<Rightarrow> frame_group option" where
  "pruned_group now fid g =
     (if fid \<notin> set (gr_frame_ids g) then Some g
      else if gr_frame_ids g = [fid] then None
      else Some (g\<lparr>gr_frame_ids := without fid (gr_frame_ids g), gr_updated_at := now\<rparr>))"

lemma set_without [simp]: "set (without e xs) = set xs - {e}"
  by (auto simp: without_def)

lemma without_normal:
  assumes "group_ok g" and "fid \<in> set (gr_frame_ids g)" and "gr_frame_ids g \<noteq> [fid]"
  shows "normalize_frame_ids (without fid (gr_frame_ids g)) = Inr (without fid (gr_frame_ids g))"
proof (rule normalize_frame_ids_fixed)
  show "without fid (gr_frame_ids g) \<noteq> []"
  proof
    assume "without fid (gr_frame_ids g) = []"
    then have "set (gr_frame_ids g) \<subseteq> {fid}" by (auto simp: without_def filter_empty_conv)
    moreover have "distinct (gr_frame_ids g)" using assms(1) by (simp add: group_ok_def)
    ultimately show False using assms(2,3) by (cases "gr_frame_ids g") (auto simp: subset_singleton_iff)
  qed
  show "distinct (without fid (gr_frame_ids g))" "\<forall>x\<in>set (without fid (gr_frame_ids g)). ID_PATTERN x"
    using assms(1) by (auto simp: group_ok_def without_def)
qed

lemma group_ok_pruned: "group_ok g \<Longrightarrow> pruned_group now fid g = Some g' \<Longrightarrow> group_ok g' \<and> gr_id g' = gr_id g \<and>
    set (gr_frame_ids g') = set (gr_frame_ids g) - {fid}"
  using normalize_frame_ids_iff [OF without_normal, of g fid]
  by (auto simp: pruned_group_def group_ok_def split: if_splits)

lemma remove_member_state:
  assumes "hb_groups h = Some items" and "map_of items (gr_id g) = Some g" and "group_ok g" and "fid \<in> set (gr_frame_ids g)"
  shows "\<exists>hist. remove_deleted_member_from_group W auth now fid g h =
    (Inr (), h\<lparr>hb_groups := Some (case pruned_group now fid g of None \<Rightarrow> AList.delete (gr_id g) items
                                 | Some u \<Rightarrow> AList.update (gr_id g) u items), hb_history := hist\<rparr>)"
proof (cases "gr_frame_ids g = [fid]")
  case True
  then show ?thesis using assms(1,2,4)
    by (auto simp: remove_deleted_member_from_group_def pruned_group_def andthen_def bind_def groups_op_def store_delete_group_def
        with_groups_def record_group_history_def modify_def)
next
  case False
  then show ?thesis using assms without_normal [OF assms(3,4) False]
    by (auto simp: remove_deleted_member_from_group_def pruned_group_def bind_def groups_op_def store_remove_frame_def
        mutate_group_def with_groups_def record_group_history_def modify_def Let_def)
qed

lemma each_pruned:
  assumes "hb_groups h = Some items" and "distinct (map gr_id gs)"
    and "\<forall>g\<in>set gs. map_of items (gr_id g) = Some g \<and> group_ok g \<and> fid \<in> set (gr_frame_ids g)"
    and "distinct (map fst items)"
  shows "\<exists>items' hist. each (remove_deleted_member_from_group W auth now fid) gs h =
      (Inr (), h\<lparr>hb_groups := Some items', hb_history := hist\<rparr>) \<and> distinct (map fst items') \<and>
      (\<forall>gid. map_of items' gid = (if gid \<in> gr_id ` set gs then Option.bind (map_of items gid) (pruned_group now fid) else map_of items gid))"
  using assms
proof (induction gs arbitrary: h items)
  case Nil
  then show ?case by (intro exI [of _ items] exI [of _ "hb_history h"]) (simp add: ret_def)
next
  case (Cons g gs)
  from Cons.prems have g: "map_of items (gr_id g) = Some g" "group_ok g" "fid \<in> set (gr_frame_ids g)" by auto
  define items1 where "items1 = (case pruned_group now fid g of None \<Rightarrow> AList.delete (gr_id g) items
                                 | Some u \<Rightarrow> AList.update (gr_id g) u items)"
  from remove_member_state [OF Cons.prems(1) g] obtain hist where
    s: "remove_deleted_member_from_group W auth now fid g h = (Inr (), h\<lparr>hb_groups := Some items1, hb_history := hist\<rparr>)"
    unfolding items1_def by blast
  have m1: "map_of items1 gid = (if gid = gr_id g then pruned_group now fid g else map_of items gid)" for gid
    by (auto simp: items1_def split: option.splits)
  have d1: "distinct (map fst items1)" using Cons.prems(4) by (auto simp: items1_def distinct_update distinct_delete split: option.splits)
  have all: "\<forall>g'\<in>set gs. map_of items1 (gr_id g') = Some g' \<and> group_ok g' \<and> fid \<in> set (gr_frame_ids g')"
  proof
    fix g' assume i: "g' \<in> set gs"
    with Cons.prems(3) have "map_of items (gr_id g') = Some g'" "group_ok g' \<and> fid \<in> set (gr_frame_ids g')" by simp_all
    moreover from i have "gr_id g' \<in> gr_id ` set gs" by (rule imageI)
    with Cons.prems(2) have "gr_id g' \<noteq> gr_id g" by auto
    ultimately show "map_of items1 (gr_id g') = Some g' \<and> group_ok g' \<and> fid \<in> set (gr_frame_ids g')" by (simp only: m1 if_False simp_thms)
  qed
  have h1: "hb_groups (h\<lparr>hb_groups := Some items1, hb_history := hist\<rparr>) = Some items1" by simp
  have dg: "distinct (map gr_id gs)" using Cons.prems(2) by simp
  have upd: "h\<lparr>hb_groups := Some items1, hb_history := hist\<rparr>\<lparr>hb_groups := g', hb_history := h'\<rparr> = h\<lparr>hb_groups := g', hb_history := h'\<rparr>" for g' h'
    by simp
  from Cons.IH [OF h1 dg all d1, unfolded upd] obtain items' hist' where r: "each (remove_deleted_member_from_group W auth now fid) gs (h\<lparr>hb_groups := Some items1, hb_history := hist\<rparr>) =
      (Inr (), h\<lparr>hb_groups := Some items', hb_history := hist'\<rparr>)" "distinct (map fst items')"
    "\<forall>gid. map_of items' gid = (if gid \<in> gr_id ` set gs then Option.bind (map_of items1 gid) (pruned_group now fid) else map_of items1 gid)"
    by (elim exE conjE)
  have "map_of items' gid = (if gid \<in> gr_id ` set (g # gs) then Option.bind (map_of items gid) (pruned_group now fid) else map_of items gid)" for gid
  proof (cases "gid = gr_id g")
    case True
    then have "gid \<notin> gr_id ` set gs" using Cons.prems(2) by auto
    with True show ?thesis using r(3) by (simp add: m1 g)
  next
    case False
    then show ?thesis using r(3) by (simp add: m1)
  qed
  with r s show ?case by (intro exI [of _ items'] exI [of _ hist']) (simp add: andthen_def bind_def)
qed

definition pruned_groups :: "nat \<Rightarrow> string \<Rightarrow> group_items option \<Rightarrow> group_items option \<Rightarrow> bool" where
  "pruned_groups now fid gs gs' \<longleftrightarrow>
     (case (gs, gs') of
        (None, None) \<Rightarrow> True
      | (Some items, Some items') \<Rightarrow> distinct (map fst items') \<and>
          (\<forall>gid. map_of items' gid = Option.bind (map_of items gid) (pruned_group now fid))
      | _ \<Rightarrow> False)"

lemma reconcile_groups_state:
  assumes g: "groups_ok dirs X (hb_groups h)"
  shows "\<exists>gs' hist. reconcile_groups_after_frame_delete W auth now f h =
      (Inr (), h\<lparr>hb_groups := gs', hb_history := hist\<rparr>) \<and> pruned_groups now (fr_id f) (hb_groups h) gs'"
proof (cases "hb_groups h")
  case None
  then show ?thesis
    by (intro exI [of _ None] exI [of _ "hb_history h"])
      (simp add: reconcile_groups_after_frame_delete_def bind_def gets_def find_groups_containing_def ret_def pruned_groups_def)
next
  case (Some items)
  let ?gs = "filter (\<lambda>g. fr_id f \<in> set (gr_frame_ids g)) (map snd items)"
  from g Some have d: "distinct (map fst items)" and
    ok: "map_of items gid = Some g \<Longrightarrow> gr_id g = gid \<and> group_ok g" for gid g
    by (auto simp: groups_ok_def)
  have mem: "map_of items (gr_id g) = Some g \<and> group_ok g" if "g \<in> snd ` set items" for g
  proof -
    from that obtain gid where "(gid, g) \<in> set items" by auto
    then have "map_of items gid = Some g" using d by simp
    with ok [OF this] show ?thesis by simp
  qed
  have "map gr_id (map snd items) = map fst items" using d ok by (auto simp: map_of_eq_Some_iff)
  then have dg: "distinct (map gr_id ?gs)" using d by (metis distinct_map_filter)
  have all: "\<forall>g\<in>set ?gs. map_of items (gr_id g) = Some g \<and> group_ok g \<and> fr_id f \<in> set (gr_frame_ids g)" using mem by auto
  from each_pruned [OF Some dg all d] obtain items' hist where
    r: "each (remove_deleted_member_from_group W auth now (fr_id f)) ?gs h = (Inr (), h\<lparr>hb_groups := Some items', hb_history := hist\<rparr>)"
    "distinct (map fst items')"
    "\<forall>gid. map_of items' gid = (if gid \<in> gr_id ` set ?gs then Option.bind (map_of items gid) (pruned_group now (fr_id f)) else map_of items gid)"
    by blast
  have "map_of items' gid = Option.bind (map_of items gid) (pruned_group now (fr_id f))" for gid
  proof (cases "gid \<in> gr_id ` set ?gs")
    case False
    then have "pruned_group now (fr_id f) g = Some g" if "map_of items gid = Some g" for g
      using ok [OF that] map_of_SomeD [OF that] by (force simp: pruned_group_def)
    with False r(3) show ?thesis by (cases "map_of items gid") auto
  qed (use r(3) in simp)
  with r Some show ?thesis
    by (intro exI [of _ "Some items'"] exI [of _ hist])
      (simp add: reconcile_groups_after_frame_delete_def bind_def gets_def find_groups_containing_def pruned_groups_def)
qed

lemma pruned_groups_ok:
  assumes "groups_ok dirs {} gs" and "pruned_groups now fid gs gs'"
  shows "groups_ok (AList.delete fid dirs) {} gs'"
  unfolding groups_ok_def
proof (intro allI impI conjI ballI)
  fix items' assume i: "gs' = Some items'"
  with assms(2) obtain items where it: "gs = Some items" "distinct (map fst items')"
    "\<And>gid. map_of items' gid = Option.bind (map_of items gid) (pruned_group now fid)"
    by (auto simp: pruned_groups_def split: option.splits)
  show "distinct (map fst items')" by (rule it(2))
  fix gid g' assume "map_of items' gid = Some g'"
  with it(3) obtain g where g: "map_of items gid = Some g" "pruned_group now fid g = Some g'" by (auto simp: bind_eq_Some_conv)
  with assms(1) it(1) have ok: "gr_id g = gid" "group_ok g" "\<forall>i\<in>set (gr_frame_ids g). map_of dirs i \<noteq> None"
    by (auto simp: groups_ok_def)
  note p = group_ok_pruned [OF ok(2) g(2)]
  show "gr_id g' = gid" "group_ok g'" using p ok by simp_all
  show "i \<in> {} \<or> map_of (AList.delete fid dirs) i \<noteq> None" if "i \<in> set (gr_frame_ids g')" for i using p ok(3) that by simp
qed

lemma active_removed:
  assumes "active_ok mc dirs {} act"
  shows "active_ok mc (AList.delete fid dirs) {} (remove_frame_id fid act)"
proof (rule active_okI)
  have e: "map_of (map (\<lambda>(k, ids). (k, without fid ids)) xs) = map_option (without fid) \<circ> map_of xs" for xs :: active_items
    by (rule map_of_map)
  fix items' assume "remove_frame_id fid act = Some items'"
  then obtain items where it: "act = Some items" "items' = map (\<lambda>(k, ids). (k, without fid ids)) items"
    by (auto simp: remove_frame_id_def)
  have "map fst items' = map fst items" by (auto simp: it)
  then show "distinct (map fst items')" using assms it(1) by (auto simp: active_ok_def)
  fix key ids j assume "map_of items' key = Some ids" "j \<in> set ids"
  then obtain ids0 where "map_of items key = Some ids0" "j \<in> set ids0" "j \<noteq> fid" by (auto simp: it e)
  with assms it(1) show "map_of (AList.delete fid dirs) j \<noteq> None \<and> (j \<notin> {} \<longrightarrow> reads_as mc (AList.delete fid dirs) key j)"
    by (auto simp: active_ok_def reads_as_def read_deleted)
qed

lemma delete_frame_state:
  assumes fid: "ID_PATTERN fid" and hub: "hub_ok (fw_codec W) {} h"
    and f: "read_frame (fw_codec W) (hb_frames h) fid = Inr f" "require_manageable_frame f auth = Inr f"
  obtains gs' hist where "delete_frame W auth now fid h =
      (Inr (Answer 204 Nothing), h\<lparr>hb_frames := AList.delete fid (hb_frames h), hb_active := remove_frame_id fid (hb_active h),
         hb_groups := gs', hb_history := hist\<rparr>)"
    "pruned_groups now fid (hb_groups h) gs'"
    "hub_ok (fw_codec W) {} (h\<lparr>hb_frames := AList.delete fid (hb_frames h), hb_active := remove_frame_id fid (hb_active h),
         hb_groups := gs', hb_history := hist\<rparr>)"
proof -
  let ?h = "h\<lparr>hb_frames := AList.delete fid (hb_frames h), hb_active := remove_frame_id fid (hb_active h)\<rparr>"
  from hub f(1) have i: "fr_id f = fid" by (auto simp: hub_ok_def dirs_ok_def)
  have g: "groups_ok (hb_frames h) {} (hb_groups ?h)" using hub by (simp add: hub_ok_def)
  from reconcile_groups_state [OF g, of W auth now f] obtain gs' hist where
    r: "reconcile_groups_after_frame_delete W auth now f ?h = (Inr (), ?h\<lparr>hb_groups := gs', hb_history := hist\<rparr>)"
    "pruned_groups now fid (hb_groups h) gs'" by (auto simp: i)
  define hist' where "hist' = history_record (fw_draw W) (fr_org_id f) (fr_workspace_id f) ''frame'' (fr_id f) ''deleted''
     (au_user auth) (Some []) hist"
  have d: "delete_frame W auth now fid h = (Inr (Answer 204 Nothing), ?h\<lparr>hb_groups := gs', hb_history := hist'\<rparr>)"
    using fid f read_exists [OF f(1)] r(1)
    by (simp add: delete_frame_def with_id_def manageable_frame_def reads_def bind_def andthen_def frames_op_def active_op_def
        store_delete_frame_def record_frame_history_def modify_def ret_def hist'_def)
  have "hub_ok (fw_codec W) {} (?h\<lparr>hb_groups := gs', hb_history := hist'\<rparr>)"
    using hub pruned_groups_ok [OF _ r(2)] active_removed [of "fw_codec W" "hb_frames h" "hb_active h" fid]
    by (auto simp: hub_ok_def dirs_ok_def read_deleted split: if_splits)
  with that [OF _ r(2)] d show thesis by simp
qed

lemma delete_frame_keeps: "keeps (keeps_to (fw_codec W) fid d0 {}) (delete_frame W auth now fid)"
proof (rule keepsI)
  fix h assume h: "keeps_to (fw_codec W) fid d0 {} h"
  show "keeps_to (fw_codec W) fid d0 {} (snd (delete_frame W auth now fid h))"
  proof (cases "ID_PATTERN fid \<and> (\<exists>f. read_frame (fw_codec W) (hb_frames h) fid = Inr f \<and> require_manageable_frame f auth = Inr f)")
    case True
    then obtain f where f: "ID_PATTERN fid" "read_frame (fw_codec W) (hb_frames h) fid = Inr f" "require_manageable_frame f auth = Inr f"
      by blast
    from h have "hub_ok (fw_codec W) {} h" by (simp add: keeps_to_def)
    show ?thesis
      by (rule delete_frame_state [OF f(1) \<open>hub_ok (fw_codec W) {} h\<close> f(2,3), of now])
        (use h in \<open>simp add: keeps_to_def others_def read_deleted\<close>)
  next
    case False
    then have "snd (delete_frame W auth now fid h) = h"
    proof (cases "ID_PATTERN fid")
      case True
      then obtain e where "bind_result (read_frame (fw_codec W) (hb_frames h) fid) (\<lambda>f. require_manageable_frame f auth) = Inl e"
        using False by (cases "bind_result (read_frame (fw_codec W) (hb_frames h) fid) (\<lambda>f. require_manageable_frame f auth)")
          (auto simp: bind_result_Inr_iff require_manageable_Inr)
      with True show ?thesis by (simp add: delete_frame_def with_id_def manageable_frame_def reads_def bind_def)
    qed (simp add: delete_frame_def with_id_def ret_def)
    with h show ?thesis by simp
  qed
qed

subsection \<open>Selecting frames\<close>

lemma can_read_as_probe:
  "auth_org_id auth = Inr org \<Longrightarrow> can_read f (probe (org, workspace_id auth, au_user auth)) = can_read f auth"
  by (simp add: can_read_def in_tenant_def probe_def auth_org_id_def)

text \<open>The loop changes nothing; what passes it is stored, and readable if it decodes.\<close>

lemma check_active_ok:
  assumes "check_active W auth already ids h = (Inr u, h')"
  shows "h' = h \<and> (\<forall>fid\<in>set ids. map_of (hb_frames h) fid \<noteq> None \<and>
    (\<forall>f. read_frame (fw_codec W) (hb_frames h) fid = Inr f \<longrightarrow> can_read f auth = Inr True))"
  using assms
proof (induction ids arbitrary: h)
  case (Cons fid ids)
  let ?r = "case read_frame (fw_codec W) (hb_frames h) fid of
      Inl x \<Rightarrow> (if x = FrameDecodeError fid \<and> fid \<in> set already then Inr () else Inl x)
    | Inr f \<Rightarrow> bind_result (require_readable_frame f auth) (\<lambda>_. Inr ())"
  from Cons.prems have r: "?r = Inr ()" and rest: "check_active W auth already ids h = (Inr u, h')"
    by (auto simp: andthen_def bind_def reads_def split: sum.splits)
  have "map_of (hb_frames h) fid \<noteq> None \<and>
      (\<forall>f. read_frame (fw_codec W) (hb_frames h) fid = Inr f \<longrightarrow> can_read f auth = Inr True)"
  proof (cases "read_frame (fw_codec W) (hb_frames h) fid")
    case (Inl x)
    with r read_undecodable_exists show ?thesis by (auto split: if_splits)
  next
    case (Inr f)
    with r read_exists [OF Inr] show ?thesis by (auto simp: bind_result_Inr_iff require_readable_Inr)
  qed
  with Cons.IH [OF rest] show ?case by simp
qed (simp add: ret_def)

lemma check_active_same: "snd (check_active W auth already ids h) = h"
  by (induction ids) (auto simp: ret_def andthen_def bind_def reads_def split: sum.splits prod.splits)

lemma set_active_frames_keeps: "keeps (keeps_to (fw_codec W) fid d0 {}) (set_active_frames W auth payload)"
  unfolding set_active_frames_def
proof (rule keeps_with_body_of)
  fix ids
  show "keeps (keeps_to (fw_codec W) fid d0 {}) (bind (lift (auth_org_id auth)) (\<lambda>org.
     let key = (org, workspace_id auth, au_user auth)
     in bind (reads (\<lambda>h. get_active_frame_ids (hb_active h) key)) (\<lambda>already.
        andthen (check_active W auth already ids) (bind (active_op (set_active_frame_ids key ids)) (\<lambda>stored.
          ret (Answer 200 (ActiveFrames key stored)))))))"
  proof (rule keepsI)
    fix h assume h: "keeps_to (fw_codec W) fid d0 {} h"
    let ?k = "\<lambda>org already. andthen (check_active W auth already ids)
        (bind (active_op (set_active_frame_ids (org, workspace_id auth, au_user auth) ids)) (\<lambda>stored.
          ret (Answer 200 (ActiveFrames (org, workspace_id auth, au_user auth) stored))))"
    have k: "keeps_to (fw_codec W) fid d0 {} (snd (?k org already h))" if org: "auth_org_id auth = Inr org" for org already
    proof (cases "check_active W auth already ids h")
      case (Pair r h')
      then have e: "h' = h" using check_active_same [of W auth already ids h] by simp
      show ?thesis
      proof (cases r)
        case (Inl x)
        then show ?thesis using h e Pair by (simp add: andthen_def bind_def)
      next
        case (Inr u)
        note ok = conjunct2 [OF check_active_ok [OF Pair [unfolded Inr]]]
        let ?key = "(org, workspace_id auth, au_user auth)"
        have "active_ok (fw_codec W) (hb_frames h) {} (snd (set_active_frame_ids ?key ids (hb_active h)))"
        proof (rule active_okI)
          fix items' assume s: "snd (set_active_frame_ids ?key ids (hb_active h)) = Some items'"
          then obtain items where it: "hb_active h = Some items" "items' = AList.update ?key ids items"
            by (auto simp: set_active_frame_ids_def split: option.splits)
          from h it(1) have a: "active_ok (fw_codec W) (hb_frames h) {} (Some items)" by (simp add: keeps_to_def hub_ok_def)
          then show "distinct (map fst items')" by (simp add: it(2) active_ok_def distinct_update)
          fix key ids' j assume "map_of items' key = Some ids'" "j \<in> set ids'"
          then consider "key = ?key" "j \<in> set ids" | ids0 where "map_of items key = Some ids0" "j \<in> set ids0"
            by (auto simp: it(2) split: if_splits)
          then show "map_of (hb_frames h) j \<noteq> None \<and> (j \<notin> {} \<longrightarrow> reads_as (fw_codec W) (hb_frames h) key j)"
          proof cases
            case 1
            with ok show ?thesis by (auto simp: reads_as_def can_read_as_probe [OF org])
          next
            case 2
            with active_okD [OF a 2] show ?thesis by simp
          qed
        qed
        then show ?thesis using h Pair Inr e
          by (cases "hb_active h")
            (auto simp: andthen_def bind_def active_op_def set_active_frame_ids_def ret_def keeps_to_def hub_ok_def)
      qed
    qed
    show "keeps_to (fw_codec W) fid d0 {} (snd (bind (lift (auth_org_id auth)) (\<lambda>org.
       let key = (org, workspace_id auth, au_user auth)
       in bind (reads (\<lambda>h. get_active_frame_ids (hb_active h) key)) (\<lambda>already.
          andthen (check_active W auth already ids) (bind (active_op (set_active_frame_ids key ids)) (\<lambda>stored.
            ret (Answer 200 (ActiveFrames key stored)))))) h))"
    proof (cases "auth_org_id auth")
      case (Inr org)
      then show ?thesis using h k [OF Inr]
        by (simp add: bind_reads Let_def split: sum.split)
    qed (use h in \<open>simp add: raise_def\<close>)
  qed
qed

subsection \<open>The groups\<close>

lemma groups_op_keeps:
  assumes "\<And>h items r items'. keeps_to mc fid d0 {} h \<Longrightarrow> R (hb_frames h) \<Longrightarrow> hb_groups h = Some items \<Longrightarrow> op (Some items) = (r, Some items') \<Longrightarrow>
      groups_ok (hb_frames h) {} (Some items')"
    and "\<And>gs. snd (op gs) = None \<longleftrightarrow> gs = None"
  shows "keeps (\<lambda>h. keeps_to mc fid d0 {} h \<and> R (hb_frames h)) (groups_op op)"
proof (rule keepsI)
  fix h assume h: "keeps_to mc fid d0 {} h \<and> R (hb_frames h)"
  obtain r gs where o': "op (hb_groups h) = (r, gs)" by (cases "op (hb_groups h)")
  have "groups_ok (hb_frames h) {} gs"
  proof (cases "hb_groups h")
    case None
    with o' assms(2) [of None] show ?thesis by (simp add: groups_ok_def)
  next
    case (Some items)
    with o' assms(2) [of "Some items"] obtain items' where "gs = Some items'" by (cases gs) auto
    with assms(1) [of h] h o' Some show ?thesis by simp
  qed
  with h o' show "keeps_to mc fid d0 {} (snd (groups_op op h)) \<and> R (hb_frames (snd (groups_op op h)))"
    by (simp add: groups_op_def keeps_to_def hub_ok_def)
qed

lemma groups_ok_put:
  assumes "groups_ok dirs {} (Some items)" and "group_ok g" and "\<forall>i\<in>set (gr_frame_ids g). map_of dirs i \<noteq> None"
  shows "groups_ok dirs {} (Some (AList.update (gr_id g) g items))"
  using assms by (auto simp: groups_ok_def distinct_update)

lemma mutate_keeps:
  assumes "\<And>h g g'. keeps_to mc fid d0 {} h \<Longrightarrow> R (hb_frames h) \<Longrightarrow> group_ok g \<Longrightarrow> \<forall>i\<in>set (gr_frame_ids g). map_of (hb_frames h) i \<noteq> None \<Longrightarrow>
      change g = Inr g' \<Longrightarrow> gr_id g' = gr_id g \<and> group_ok g' \<and> (\<forall>i\<in>set (gr_frame_ids g'). map_of (hb_frames h) i \<noteq> None)"
  shows "keeps (\<lambda>h. keeps_to mc fid d0 {} h \<and> R (hb_frames h)) (groups_op (mutate_group now gid change))"
proof (rule groups_op_keeps)
  show "snd (mutate_group now gid change gs) = None \<longleftrightarrow> gs = None" for gs
    by (auto simp: mutate_group_def with_groups_def split: option.splits prod.splits)
  fix h items r items' assume h: "keeps_to mc fid d0 {} h" and R: "R (hb_frames h)" and it: "hb_groups h = Some items"
    and m: "mutate_group now gid change (Some items) = (r, Some items')"
  from h it have ok: "groups_ok (hb_frames h) {} (Some items)" by (simp add: keeps_to_def hub_ok_def)
  show "groups_ok (hb_frames h) {} (Some items')"
  proof (cases "map_of items gid")
    case None
    with m ok show ?thesis by (simp add: mutate_group_def with_groups_def)
  next
    case (Some g)
    with ok have g: "gr_id g = gid" "group_ok g" "\<forall>i\<in>set (gr_frame_ids g). map_of (hb_frames h) i \<noteq> None"
      by (auto simp: groups_ok_def)
    show ?thesis
    proof (cases "change g")
      case (Inl x)
      with Some m ok show ?thesis by (simp add: mutate_group_def with_groups_def)
    next
      case (Inr g')
      from assms [OF h R g(2,3) Inr] have g': "gr_id g' = gid" "group_ok (g'\<lparr>gr_updated_at := now\<rparr>)"
        "\<forall>i\<in>set (gr_frame_ids (g'\<lparr>gr_updated_at := now\<rparr>)). map_of (hb_frames h) i \<noteq> None"
        by (simp_all add: g group_ok_def)
      from groups_ok_put [OF ok g'(2,3)] g'(1) Inr Some m show ?thesis
        by (simp add: mutate_group_def with_groups_def Let_def)
    qed
  qed
qed

lemmas groups_op_keeps' = groups_op_keeps [where R = "\<lambda>_. True", simplified]

lemmas mutate_keeps' = mutate_keeps [where R = "\<lambda>_. True", simplified]

lemma update_group_keeps [keeps_intros]:
  "keeps (keeps_to mc fid d0 {}) (groups_op (store_update_group now gid name description vis))"
  unfolding store_update_group_def by (rule mutate_keeps') (auto simp: group_ok_def)

lemma delete_group_keeps [keeps_intros]: "keeps (keeps_to mc fid d0 {}) (groups_op (store_delete_group gid))"
proof (rule groups_op_keeps')
  show "snd (store_delete_group gid gs) = None \<longleftrightarrow> gs = None" for gs
    by (auto simp: store_delete_group_def with_groups_def split: option.splits prod.splits)
  fix h items r items' assume "keeps_to mc fid d0 {} h" "hb_groups h = Some items" "store_delete_group gid (Some items) = (r, Some items')"
  then show "groups_ok (hb_frames h) {} (Some items')"
    by (auto simp: keeps_to_def hub_ok_def store_delete_group_def with_groups_def groups_ok_def distinct_delete split: if_splits)
qed

lemma set_group_owners_keeps [keeps_intros]:
  "keeps (keeps_to mc fid d0 {}) (groups_op (store_set_group_owners now gid owners))"
proof (cases "normalize_owners True owners")
  case (Inl x)
  have "store_set_group_owners now gid owners = (\<lambda>gs. (if gs = None then Inl FrameGroupStoreUnavailableError else Inl x, gs))"
    by (auto simp: store_set_group_owners_def Inl)
  then show ?thesis by (auto simp: keeps_def groups_op_def keeps_to_def hub_ok_def)
next
  case (Inr ys)
  have e: "store_set_group_owners now gid owners = mutate_group now gid (\<lambda>g. Inr (g\<lparr>gr_owners := ys\<rparr>))"
    by (auto simp: store_set_group_owners_def Inr mutate_group_def with_groups_def)
  show ?thesis unfolding e by (rule mutate_keeps') (use normalize_owners_ok [OF Inr] in \<open>auto simp: group_ok_def\<close>)
qed

lemma add_frame_keeps:
  "keeps (\<lambda>h. keeps_to mc fid d0 {} h \<and> map_of (hb_frames h) i \<noteq> None) (groups_op (store_add_frame now gid i))"
  unfolding store_add_frame_def
  by (rule mutate_keeps [where R = "\<lambda>dirs. map_of dirs i \<noteq> None"])
    (auto simp: bind_result_Inr_iff group_ok_def dest!: normalize_frame_ids_iff)

lemma remove_frame_keeps [keeps_intros]: "keeps (keeps_to mc fid d0 {}) (groups_op (store_remove_frame now gid i))"
  unfolding store_remove_frame_def
  by (rule mutate_keeps') (auto simp: bind_result_Inr_iff group_ok_def dest!: normalize_frame_ids_iff)

lemma create_group_op_keeps:
  "keeps (\<lambda>h. keeps_to mc fid d0 {} h \<and> (\<forall>i\<in>set ids. map_of (hb_frames h) i \<noteq> None))
     (groups_op (store_create_group hex now org ws creator owners name description vis ids))"
proof (rule groups_op_keeps [where R = "\<lambda>dirs. \<forall>i\<in>set ids. map_of dirs i \<noteq> None"])
  show "snd (store_create_group hex now org ws creator owners name description vis ids gs) = None \<longleftrightarrow> gs = None" for gs
    by (auto simp: store_create_group_def with_groups_def split: option.splits prod.splits)
  fix h items r items' assume h: "keeps_to mc fid d0 {} h" "\<forall>i\<in>set ids. map_of (hb_frames h) i \<noteq> None" "hb_groups h = Some items"
    and c: "store_create_group hex now org ws creator owners name description vis ids (Some items) = (r, Some items')"
  then have ok: "groups_ok (hb_frames h) {} (Some items)" by (simp add: keeps_to_def hub_ok_def)
  let ?g0 = "\<lambda>ids'. \<lparr>gr_id = hex, gr_org_id = org, gr_workspace_id = ws, gr_name = name, gr_description = description,
               gr_created_by = creator, gr_owners = owners, gr_visibility = vis, gr_frame_ids = ids',
               gr_all_published = False, gr_effective_visibility = Private, gr_created_at = now, gr_updated_at = now\<rparr>"
  show "groups_ok (hb_frames h) {} (Some items')"
  proof (cases "bind_result (normalize_frame_ids ids) (\<lambda>ids'. validate_group (?g0 ids'))")
    case (Inl x)
    with c ok show ?thesis by (simp add: store_create_group_def with_groups_def)
  next
    case (Inr g)
    then obtain ids' where n: "normalize_frame_ids ids = Inr ids'" and v: "validate_group (?g0 ids') = Inr g"
      by (auto simp: bind_result_Inr_iff)
    from normalize_frame_ids_iff [OF n] v have "group_ok g" "set (gr_frame_ids g) = set ids"
      by (auto simp: validate_group_def bind_result_Inr_iff group_ok_def normalize_owners_ok
          dest!: normalize_frame_ids_iff split: if_splits)
    with groups_ok_put [OF ok] h(2) have "groups_ok (hb_frames h) {} (Some (AList.update (gr_id g) g items))" by simp
    moreover from c Inr have "items' = AList.update (gr_id g) g items" by (simp add: store_create_group_def with_groups_def)
    ultimately show ?thesis by simp
  qed
qed

text \<open>A group that passed the check has been projected; its stored owners and members are as they were.\<close>

lemma readable_group_keeps [keeps_intros]:
  "keeps P (readable_group W auth gid)" "keeps P (manageable_group W auth gid)" "keeps P (projected_group W code g)"
  by (simp_all add: readable_group_def manageable_group_def projected_group_def keeps_intros)

lemma readable_frame_keeps [keeps_intros]: "keeps P (readable_frame W auth fid)" "keeps P (manageable_frame W auth fid)"
  by (simp_all add: readable_frame_def manageable_frame_def keeps_intros)

lemma check_members:
  "triple P (each (\<lambda>i. bind (readable_frame W auth i) (\<lambda>_. ret ())) ids)
     (\<lambda>_ h. P h \<and> (\<forall>i\<in>set ids. map_of (hb_frames h) i \<noteq> None)) (\<lambda>_. P)"
proof (induction ids arbitrary: P)
  case (Cons i ids)
  have "triple P (bind (readable_frame W auth i) (\<lambda>_. ret ())) (\<lambda>_ h. P h \<and> map_of (hb_frames h) i \<noteq> None) (\<lambda>_. P)"
    by (rule triple_bind [OF triple_readable], rule triple_ret) (auto dest: read_exists)
  then show ?case unfolding each.simps
    by (rule triple_andthen) (rule triple_weaken [OF Cons.IH [of "\<lambda>h. P h \<and> map_of (hb_frames h) i \<noteq> None"]], auto)
qed (simp add: triple_ret)

lemma create_frame_group_keeps: "keeps (keeps_to (fw_codec W) fid d0 {}) (create_frame_group W auth hex now payload)"
proof -
  let ?rest = "\<lambda>p. bind (lift (auth_org_id auth)) (\<lambda>org.
       bind (groups_op (store_create_group hex now org (workspace_id auth) (au_user auth) [au_user auth] (gc_name p)
              (gc_description p) (gc_visibility p) (gc_frame_ids p))) (\<lambda>g.
       andthen (record_group_history W auth g ''created'' [(''name'', PStr (gr_name g))]) (projected_group W 201 g)))"
  have r: "triple (\<lambda>h. keeps_to (fw_codec W) fid d0 {} h \<and> (\<forall>i\<in>set (gc_frame_ids p). map_of (hb_frames h) i \<noteq> None)) (?rest p)
      (\<lambda>_. keeps_to (fw_codec W) fid d0 {}) (\<lambda>_. keeps_to (fw_codec W) fid d0 {})" (is "triple ?P _ _ _") for p
  proof -
    have "keeps ?P (record_group_history W auth g e d)" for g e d
      unfolding record_group_history_def by (rule keeps_modify) (simp add: keeps_to_def hub_ok_def)
    then have "keeps ?P (?rest p)" by (intro keeps_intros create_group_op_keeps)
    then show ?thesis by (rule triple_weaken [OF triple_keeps]) simp_all
  qed
  have "triple (keeps_to (fw_codec W) fid d0 {}) (andthen (each (\<lambda>i. bind (readable_frame W auth i) (\<lambda>_. ret ())) (gc_frame_ids p)) (?rest p))
      (\<lambda>_. keeps_to (fw_codec W) fid d0 {}) (\<lambda>_. keeps_to (fw_codec W) fid d0 {})" for p
    by (rule triple_andthen [OF check_members r])
  then show ?thesis unfolding create_frame_group_def by (intro keeps_with_body_of triple_to_keeps)
qed

lemma add_group_frame_keeps: "keeps (keeps_to (fw_codec W) fid d0 {}) (add_group_frame W auth now gid i)"
proof -
  let ?P = "\<lambda>h. keeps_to (fw_codec W) fid d0 {} h \<and> map_of (hb_frames h) i \<noteq> None"
  let ?rest = "bind (groups_op (store_add_frame now gid i)) (\<lambda>updated.
        andthen (record_group_history W auth updated ''frame_added'' [(''frame_id'', PStr i)]) (projected_group W 200 updated))"
  have "keeps ?P (record_group_history W auth g e d)" for g e d
    unfolding record_group_history_def by (rule keeps_modify) (simp add: keeps_to_def hub_ok_def)
  then have k: "keeps ?P ?rest" by (intro keeps_intros add_frame_keeps)
  have "triple (keeps_to (fw_codec W) fid d0 {}) (bind (readable_frame W auth i) (\<lambda>_. ?rest))
      (\<lambda>_. keeps_to (fw_codec W) fid d0 {}) (\<lambda>_. keeps_to (fw_codec W) fid d0 {})"
    by (rule triple_bind [OF triple_readable], rule triple_weaken [OF triple_keeps [OF k]]) (auto dest: read_exists)
  then show ?thesis unfolding add_group_frame_def
    by (intro keeps_with_id keeps_bind readable_group_keeps triple_to_keeps)
qed

lemma group_handlers_keep:
  "keeps (keeps_to (fw_codec W) fid d0 {}) (update_frame_group W auth now gid gu)"
  "keeps (keeps_to (fw_codec W) fid d0 {}) (delete_frame_group W auth gid)"
  "keeps (keeps_to (fw_codec W) fid d0 {}) (remove_group_frame W auth now gid i)"
  "keeps (keeps_to (fw_codec W) fid d0 {}) (replace_group_owners W auth now gid xs)"
  "keeps (keeps_to (fw_codec W) fid d0 {}) (add_group_owner W auth now gid e)"
  "keeps (keeps_to (fw_codec W) fid d0 {}) (remove_group_owner W auth now gid e)"
  unfolding update_frame_group_def delete_frame_group_def remove_group_frame_def replace_group_owners_def add_group_owner_def
    remove_group_owner_def write_group_owners_def Let_def
  by (intro keeps_intros)+

lemma reading_handlers_keep:
  "keeps P (list_frames W auth name tags owner vis published gid)" "keeps P (get_frame W auth i)" "keeps P (get_owners W auth i)"
  "keeps P (get_readers W auth i)" "keeps P (list_suggestions W auth i st)" "keeps P (get_frame_history W auth i limit before)"
  "keeps P (get_active_frames W auth)" "keeps P (list_frame_groups W auth name vis published)" "keeps P (get_frame_group W auth gid')"
  "keeps P (get_group_owners W auth gid')" "keeps P (get_group_history W auth gid' limit before)"
  unfolding list_frames_def get_frame_def get_owners_def get_readers_def list_suggestions_def get_frame_history_def
    get_active_frames_def list_frame_groups_def get_frame_group_def get_group_owners_def get_group_history_def Let_def
  by (intro keeps_intros)+

subsection \<open>Any call\<close>

text \<open>The Frame a call writes to, if it writes to one.\<close>

fun frame_target :: "string \<Rightarrow> frame_call \<Rightarrow> string option" where
  "frame_target hex (CreateFrame p) = Some hex"
| "frame_target hex (UpdateFrame i p) = Some i"
| "frame_target hex (DeleteFrame i) = Some i"
| "frame_target hex (ReplaceOwners i p) = Some i"
| "frame_target hex (AddOwner i p) = Some i"
| "frame_target hex (RemoveOwner i e) = Some i"
| "frame_target hex (ReplaceReaders i p) = Some i"
| "frame_target hex (AddReader i p) = Some i"
| "frame_target hex (RemoveReader i e) = Some i"
| "frame_target hex (PublishFrame i) = Some i"
| "frame_target hex (UnpublishFrame i) = Some i"
| "frame_target hex (CreateSuggestion i b) = Some i"
| "frame_target hex (CloseSuggestion i s) = Some i"
| "frame_target hex c = None"

lemma route_keeps:
  assumes mc: "model_codec_ok (fw_codec W)" and fresh: "fresh_hex hex h" and t: "frame_target hex c = None \<or> frame_target hex c = Some fid"
    and h: "keeps_to (fw_codec W) fid d0 {} h"
  shows "keeps_to (fw_codec W) fid d0 {} (snd (route W auth hex now c h))"
proof -
  let ?P = "keeps_to (fw_codec W) fid d0 {}"
  have "keeps ?P (route W auth hex now c)" if "\<nexists>p. c = CreateFrame p"
    using t that
    by (cases c) (simp_all add: update_frame_keeps [OF mc] delete_frame_keeps replace_owners_keeps [OF mc]
      add_owner_keeps [OF mc] remove_owner_keeps [OF mc] replace_readers_keeps [OF mc] add_reader_keeps [OF mc]
      remove_reader_keeps [OF mc] publish_frame_keeps [OF mc] unpublish_frame_keeps [OF mc] create_suggestion_keeps [OF mc]
      close_suggestion_keeps [OF mc] set_active_frames_keeps create_frame_group_keeps add_group_frame_keeps
      group_handlers_keep reading_handlers_keep)
  then have k: "?P (snd (route W auth hex now c h))" if "\<nexists>p. c = CreateFrame p"
    using keepsD [where P = ?P and s = h, OF _ h] that by blast
  show ?thesis
  proof (cases "\<exists>p. c = CreateFrame p")
    case True
    then obtain p where CreateFrame: "c = CreateFrame p" by blast
    with t have f: "fid = hex" by simp
    obtain r h' where r: "create_frame W auth hex now p h = (r, h')" by (cases "create_frame W auth hex now p h")
    have pre: "keeps_to (fw_codec W) hex d0 {} h \<and> map_of (hb_frames h) hex = None" using h fresh f by (simp add: fresh_hex_def)
    note td = tripleD [OF create_frame_keeps [OF mc, of hex d0 auth now p] pre]
    have "keeps_to (fw_codec W) hex d0 {} h'"
    proof (cases r)
      case (Inl x)
      with r show ?thesis by (intro td(2)) simp
    next
      case (Inr x)
      with r show ?thesis by (intro td(1)) simp
    qed
    with r f CreateFrame show ?thesis by simp
  qed (use k in blast)
qed

lemma serve_state: "snd (serve W auth hex now c h) = snd (route W auth hex now c h)"
  by (simp add: serve_def split: prod.splits sum.splits)

lemma serve_keeps_hub:
  assumes "model_codec_ok (fw_codec W)" and "fresh_hex hex h" and "hub_ok (fw_codec W) {} h"
  shows "hub_ok (fw_codec W) {} (snd (serve W auth hex now c h))"
proof -
  let ?fid = "case frame_target hex c of None \<Rightarrow> [] | Some i \<Rightarrow> i"
  have "keeps_to (fw_codec W) ?fid (hb_frames h) {} h" using assms(3) by (simp add: keeps_to_def others_def)
  from route_keeps [OF assms(1,2) _ this, of c auth now] show ?thesis
    by (cases "frame_target hex c") (auto simp: keeps_to_def serve_state)
qed

lemma serve_others:
  assumes "model_codec_ok (fw_codec W)" and "fresh_hex hex h" and "hub_ok (fw_codec W) {} h" and "frame_target hex c \<noteq> Some i"
  shows "read_frame (fw_codec W) (hb_frames (snd (serve W auth hex now c h))) i = read_frame (fw_codec W) (hb_frames h) i"
proof -
  obtain fid where f: "frame_target hex c = None \<or> frame_target hex c = Some fid" "fid \<noteq> i"
    using assms(4) by (cases "frame_target hex c") (auto intro: that [of "CHR ''x'' # i"])
  have "keeps_to (fw_codec W) fid (hb_frames h) {} h" using assms(3) by (simp add: keeps_to_def others_def)
  from route_keeps [OF assms(1,2) f(1) this, of auth now] f(2) show ?thesis by (auto simp: keeps_to_def serve_state others_def)
qed

lemma reach_hub_ok:
  assumes "model_codec_ok (fw_codec W)" and "frame_reach W h0 h" and "hub_ok (fw_codec W) {} h0"
  shows "hub_ok (fw_codec W) {} h"
  using assms(2,3) by induction (auto intro: serve_keeps_hub [OF assms(1)])

end
