(* ===== verification/FrameCodec.thy ===== *)
theory FrameCodec
  imports GroupCalls
begin

section \<open>A codec that satisfies what is relied on\<close>

text \<open>
  A strict reader of the dumped form, with datetimes as decimal ticks: it types each field, takes the
  declared default for a missing one, and refuses a field the model does not have.  The witnesses
  are evaluated with it.
\<close>

definition text_of :: "pyval \<Rightarrow> string option" where "text_of v = (case v of PStr s \<Rightarrow> Some s | _ \<Rightarrow> None)"
definition int_of :: "pyval \<Rightarrow> int option" where "int_of v = (case v of PInt n \<Rightarrow> Some n | _ \<Rightarrow> None)"
definition bool_of :: "pyval \<Rightarrow> bool option" where "bool_of v = (case v of PBool b \<Rightarrow> Some b | _ \<Rightarrow> None)"

primrec all_some :: "('a \<Rightarrow> 'b option) \<Rightarrow> 'a list \<Rightarrow> 'b list option" where
  "all_some f [] = Some []"
| "all_some f (x # xs) = Option.bind (f x) (\<lambda>y. map_option ((#) y) (all_some f xs))"

definition list_of :: "(pyval \<Rightarrow> 'b option) \<Rightarrow> pyval \<Rightarrow> 'b list option" where
  "list_of f v = (case v of PList xs \<Rightarrow> all_some f xs | _ \<Rightarrow> None)"

definition visibility_of :: "pyval \<Rightarrow> visibility option" where
  "visibility_of v =
     (if v = PStr ''private'' then Some Private else if v = PStr ''internal'' then Some Internal
      else if v = PStr ''public'' then Some Public else None)"

definition status_of_val :: "pyval \<Rightarrow> suggestion_status option" where
  "status_of_val v = (if v = PStr ''open'' then Some Open else if v = PStr ''closed'' then Some Closed else None)"

definition ticks_of :: "pyval \<Rightarrow> nat option" where
  "ticks_of v = Option.bind (text_of v) (\<lambda>s. if s = show_nat (digits_val s) then Some (digits_val s) else None)"

definition field :: "(pyval \<Rightarrow> 'b option) \<Rightarrow> payload \<Rightarrow> string \<Rightarrow> 'b option" where
  "field f d k = Option.bind (map_of d k) f"

definition field_or :: "'b \<Rightarrow> (pyval \<Rightarrow> 'b option) \<Rightarrow> payload \<Rightarrow> string \<Rightarrow> 'b option" where
  "field_or x f d k = (case map_of d k of None \<Rightarrow> Some x | Some v \<Rightarrow> f v)"

definition suggestion_of :: "pyval \<Rightarrow> suggestion option" where
  "suggestion_of v =
     (case v of
        PDict d \<Rightarrow>
          Option.bind (field text_of d ''id'') (\<lambda>i. Option.bind (field text_of d ''frame_id'') (\<lambda>fid.
          Option.bind (field_or Open status_of_val d ''status'') (\<lambda>st. Option.bind (field text_of d ''submitted_by'') (\<lambda>u.
          Option.bind (field text_of d ''body'') (\<lambda>b.
            Some \<lparr>sg_id = i, sg_frame_id = fid, sg_status = st, sg_submitted_by = u, sg_body = b\<rparr>)))))
      | _ \<Rightarrow> None)"

definition METADATA_FIELDS :: "string list" where
  "METADATA_FIELDS = [''schema_version'', ''id'', ''org_id'', ''workspace_id'', ''name'', ''description'', ''visibility'',
     ''created_by'', ''owners'', ''published'', ''readers'', ''group_ids'', ''tags'', ''token_estimate'', ''suggestions'',
     ''created_at'', ''updated_at'']"

definition json_parse :: "payload \<Rightarrow> frame_metadata option" where
  "json_parse d =
     (if \<not> list_all (\<lambda>p. fst p \<in> set METADATA_FIELDS) d then None else
      Option.bind (field_or 1 int_of d ''schema_version'') (\<lambda>sv. Option.bind (field text_of d ''id'') (\<lambda>i.
      Option.bind (field text_of d ''org_id'') (\<lambda>org. Option.bind (field text_of d ''workspace_id'') (\<lambda>ws.
      Option.bind (field text_of d ''name'') (\<lambda>name. Option.bind (field_or [] text_of d ''description'') (\<lambda>desc.
      Option.bind (field_or Private visibility_of d ''visibility'') (\<lambda>vis. Option.bind (field text_of d ''created_by'') (\<lambda>by'.
      Option.bind (field_or [] (list_of text_of) d ''owners'') (\<lambda>owners.
      Option.bind (field_or False bool_of d ''published'') (\<lambda>pub.
      Option.bind (field_or [] (list_of text_of) d ''readers'') (\<lambda>readers.
      Option.bind (field_or [] (list_of text_of) d ''group_ids'') (\<lambda>groups.
      Option.bind (field_or [] (list_of text_of) d ''tags'') (\<lambda>tags.
      Option.bind (field int_of d ''token_estimate'') (\<lambda>tok.
      Option.bind (field_or [] (list_of suggestion_of) d ''suggestions'') (\<lambda>sgs.
      Option.bind (field ticks_of d ''created_at'') (\<lambda>ca. Option.bind (field ticks_of d ''updated_at'') (\<lambda>ua.
        Some \<lparr>fr_schema_version = sv, fr_id = i, fr_org_id = org, fr_workspace_id = ws, fr_name = name, fr_description = desc,
              fr_visibility = vis, fr_created_by = by', fr_owners = owners, fr_published = pub, fr_readers = readers,
              fr_group_ids = groups, fr_tags = tags, fr_token_estimate = tok, fr_suggestions = sgs,
              fr_created_at = ca, fr_updated_at = ua\<rparr>))))))))))))))))))"

definition json_codec :: model_codec where
  "json_codec = \<lparr>mc_iso = show_nat, mc_parse = json_parse\<rparr>"

lemma all_some_map: "(\<And>x. x \<in> set xs \<Longrightarrow> f (g x) = Some x) \<Longrightarrow> all_some f (map g xs) = Some xs"
  by (induction xs) auto

lemma all_some_text: "all_some text_of vs = Some xs \<Longrightarrow> vs = map PStr xs"
  by (induction vs arbitrary: xs) (auto simp: text_of_def bind_eq_Some_conv split: pyval.splits)

lemma parsed_values:
  "text_of (PStr t) = Some t" "int_of (PInt k) = Some k" "bool_of (PBool b) = Some b"
  "list_of text_of (PList (map PStr xs)) = Some xs"
  "visibility_of (PStr (visibility_value v)) = Some v" "ticks_of (PStr (show_nat n)) = Some n"
  "suggestion_of (dump_suggestion s) = Some s" "list_of suggestion_of (PList (map dump_suggestion ss)) = Some ss"
proof -
  have sg: "suggestion_of (dump_suggestion s) = Some s" for s
    by (cases s, cases "sg_status s")
      (simp_all add: suggestion_of_def dump_suggestion_def field_def field_or_def text_of_def status_of_val_def suggestion_status_value_def)
  then show "suggestion_of (dump_suggestion s) = Some s" .
  show "list_of suggestion_of (PList (map dump_suggestion ss)) = Some ss"
    by (simp add: list_of_def all_some_map sg)
qed (auto simp: text_of_def int_of_def bool_of_def list_of_def all_some_map visibility_of_def visibility_value_def
    ticks_of_def digits_val_show_nat split: visibility.splits)

lemma json_parse_encoded: "json_parse (encode_metadata json_codec m) = Some m"
proof -
  have "list_all (\<lambda>p. fst p \<in> set METADATA_FIELDS) (encode_metadata json_codec m)"
    by (simp add: encode_metadata_def METADATA_FIELDS_def)
  moreover have
    "field_or 1 int_of (encode_metadata json_codec m) ''schema_version'' = Some (fr_schema_version m)"
    "field text_of (encode_metadata json_codec m) ''id'' = Some (fr_id m)"
    "field text_of (encode_metadata json_codec m) ''org_id'' = Some (fr_org_id m)"
    "field text_of (encode_metadata json_codec m) ''workspace_id'' = Some (fr_workspace_id m)"
    "field text_of (encode_metadata json_codec m) ''name'' = Some (fr_name m)"
    "field_or [] text_of (encode_metadata json_codec m) ''description'' = Some (fr_description m)"
    "field_or Private visibility_of (encode_metadata json_codec m) ''visibility'' = Some (fr_visibility m)"
    "field text_of (encode_metadata json_codec m) ''created_by'' = Some (fr_created_by m)"
    "field_or [] (list_of text_of) (encode_metadata json_codec m) ''owners'' = Some (fr_owners m)"
    "field_or False bool_of (encode_metadata json_codec m) ''published'' = Some (fr_published m)"
    "field_or [] (list_of text_of) (encode_metadata json_codec m) ''readers'' = Some (fr_readers m)"
    "field_or [] (list_of text_of) (encode_metadata json_codec m) ''group_ids'' = Some (fr_group_ids m)"
    "field_or [] (list_of text_of) (encode_metadata json_codec m) ''tags'' = Some (fr_tags m)"
    "field int_of (encode_metadata json_codec m) ''token_estimate'' = Some (fr_token_estimate m)"
    "field_or [] (list_of suggestion_of) (encode_metadata json_codec m) ''suggestions'' = Some (fr_suggestions m)"
    "field ticks_of (encode_metadata json_codec m) ''created_at'' = Some (fr_created_at m)"
    "field ticks_of (encode_metadata json_codec m) ''updated_at'' = Some (fr_updated_at m)"
    by (simp_all add: encode_metadata_def field_def field_or_def parsed_values json_codec_def)
  ultimately show ?thesis by (simp add: json_parse_def)
qed

lemma json_parse_fields:
  assumes "json_parse d = Some m"
  shows "field_or [] (list_of text_of) d ''readers'' = Some (fr_readers m)"
    and "field_or Private visibility_of d ''visibility'' = Some (fr_visibility m)"
  using assms by (auto simp: json_parse_def bind_eq_Some_conv split: if_splits)

lemma json_codec_ok: "model_codec_ok json_codec"
proof -
  have "v = PList (map PStr (fr_readers m))" if "json_parse d = Some m" "map_of d ''readers'' = Some v" for d m v
    using json_parse_fields(1) [OF that(1)] that(2)
    by (auto simp: field_or_def list_of_def split: pyval.splits dest: all_some_text)
  moreover have "v = PStr (visibility_value (fr_visibility m))" if "json_parse d = Some m" "map_of d ''visibility'' = Some v" for d m v
    using json_parse_fields(2) [OF that(1)] that(2)
    by (auto simp: field_or_def visibility_of_def visibility_value_def split: if_splits)
  moreover have "mc_parse json_codec = json_parse" by (simp add: json_codec_def)
  ultimately show ?thesis using json_parse_encoded by (simp add: model_codec_ok_def)
qed

end
