(* ===== verification/FrameDemo.thy ===== *)
theory FrameDemo
  imports FrameCodec
begin

section \<open>A small hub\<close>

text \<open>The concrete state the witnesses of the frames API run on, and what is read and allowed in it.\<close>

definition empty_hub :: hub where
  "empty_hub = \<lparr>hb_frames = [], hb_active = Some [], hb_groups = Some [], hb_history = Some []\<rparr>"

lemma empty_hub_ok: "hub_ok mc {} empty_hub"
  by (simp add: empty_hub_def hub_ok_def dirs_ok_def active_ok_def groups_ok_def read_frame_def)

subsection \<open>A small hub\<close>

text \<open>
  One published Frame of Ann's, internal to her organization, in a group, and selected by Bob; Eve belongs to
  another organization.
\<close>

definition demo_user :: "string \<Rightarrow> string \<Rightarrow> auth_context" where
  "demo_user user org = \<lparr>au_user = user, home_org_id = Some org, workspace_id = ''w'', display_name = None, display_email = None\<rparr>"

definition demo_id :: "char \<Rightarrow> string" where
  "demo_id c = replicate 32 c"

definition demo_world :: frame_world where
  "demo_world = \<lparr>fw_codec = json_codec, fw_pinned = True, fw_draw = (\<lambda>n. (show_nat n, n)),
     fw_encode_cursor = (\<lambda>c. show_nat (fst c) @ '':'' @ snd c), fw_decode_cursor = (\<lambda>s. None)\<rparr>"

definition demo_frame :: frame where
  "demo_frame =
     \<lparr>fr_schema_version = 1, fr_id = demo_id (CHR ''a''), fr_org_id = ''acme'', fr_workspace_id = ''w'', fr_name = ''plan'',
      fr_description = [], fr_visibility = Internal, fr_created_by = ''ann'', fr_owners = [''ann''], fr_published = True,
      fr_readers = [], fr_group_ids = [], fr_tags = [''a''], fr_token_estimate = 1, fr_suggestions = [],
      fr_created_at = 1, fr_updated_at = 1, fr_body = ''text''\<rparr>"

definition demo_group :: frame_group where
  "demo_group =
     \<lparr>gr_id = demo_id (CHR ''c''), gr_org_id = ''acme'', gr_workspace_id = ''w'', gr_name = ''pack'', gr_description = [],
      gr_created_by = ''ann'', gr_owners = [''ann''], gr_visibility = Public, gr_frame_ids = [demo_id (CHR ''a'')],
      gr_all_published = False, gr_effective_visibility = Private, gr_created_at = 1, gr_updated_at = 1\<rparr>"

definition demo_hub :: hub where
  "demo_hub = \<lparr>hb_frames = write_frame json_codec demo_frame [], hb_active = Some [((''acme'', ''w'', ''bob''), [demo_id (CHR ''a'')])],
     hb_groups = Some [(demo_id (CHR ''c''), demo_group)], hb_history = Some []\<rparr>"

lemma demo_id_ok: "ID_PATTERN (demo_id (CHR ''a''))" "ID_PATTERN (demo_id (CHR ''b''))" "ID_PATTERN (demo_id (CHR ''c''))"
  by (simp_all add: ID_PATTERN_def demo_id_def list_all_iff)

lemma demo_id_inj [simp]: "demo_id c = demo_id d \<longleftrightarrow> c = d"
  by (simp add: demo_id_def)

lemma demo_names: "normalize_name ''ann'' = Inr ''ann''" "normalize_name ''plan'' = Inr ''plan''" "tag_value ''a'' = Inr ''a''"
  by code_simp+

lemma demo_frame_ok: "frame_ok demo_frame"
  by (simp add: frame_ok_def demo_frame_def metadata_fields_ok_def FRAME_METADATA_SCHEMA_VERSION_def demo_id_ok len_within_def
      FRAME_NAME_MAX_LENGTH_def DESCRIPTION_MAX_LENGTH_def FRAME_BODY_MAX_LENGTH_def tags_ok_def MAX_TAGS_def demo_names owners_ok_def
      principals_ok_def MAX_OWNERS_def)

lemma demo_read: "read_frame json_codec (hb_frames demo_hub) i =
    (if i = demo_id (CHR ''a'') then Inr demo_frame else Inl (FrameNotFoundError i))"
  using read_written [OF json_codec_ok demo_frame_ok, of "[]" i] by (simp add: demo_hub_def demo_frame_def read_frame_def)

lemma demo_hub_ok: "hub_ok json_codec {} demo_hub"
proof -
  have "dirs_ok json_codec (hb_frames demo_hub)" by (simp add: dirs_ok_def demo_read demo_frame_def)
  moreover have ex: "map_of (hb_frames demo_hub) (demo_id (CHR ''a'')) \<noteq> None"
    by (simp add: demo_hub_def write_frame_def demo_frame_def)
  moreover have "reads_as json_codec (hb_frames demo_hub) (''acme'', ''w'', ''bob'') (demo_id (CHR ''a''))"
    by (simp add: reads_as_def demo_read) (simp add: demo_frame_def can_read_def in_tenant_def probe_def auth_org_id_def)
  moreover have "group_ok demo_group"
    by (simp add: group_ok_def demo_group_def demo_id_ok owners_ok_def principals_ok_def demo_names MAX_OWNERS_def)
  ultimately show ?thesis
    by (auto simp: hub_ok_def active_ok_def groups_ok_def demo_hub_def demo_group_def)
qed

lemma demo_fresh: "fresh_hex (demo_id (CHR ''b'')) demo_hub"
  by (simp add: fresh_hex_def demo_id_ok demo_hub_def write_frame_def demo_frame_def)

lemma demo_codec [simp]: "fw_codec demo_world = json_codec"
  by (simp add: demo_world_def)

lemma demo_reach: "frame_reach demo_world demo_hub demo_hub"
  by (rule frame_reach.start)

lemma demo_access:
  "can_read demo_frame (demo_user ''bob'' ''acme'') = Inr True" "can_manage demo_frame (demo_user ''bob'' ''acme'') = Inr False"
  "can_read demo_frame (demo_user ''eve'' ''other'') = Inr False" "can_manage demo_frame (demo_user ''ann'' ''acme'') = Inr True"
  by (simp_all add: demo_frame_def can_read_def can_manage_def in_tenant_def demo_user_def auth_org_id_def)

end
