(* ===== verification/FrameGuarantees.thy ===== *)
theory FrameGuarantees
  imports FrameDemo
begin

section \<open>What the frames API guarantees\<close>

text \<open>
  Of any sequence of calls, by any callers: selections stay readable, a Frame changes only at the
  hands of its owners in its tenant, what cannot be read looks missing, deletion leaves nothing behind,
  and a group never shows more than its members do.
\<close>

subsection \<open>Selections\<close>

text \<open>
  C3: whatever calls the API handles, a Frame in somebody's active selection is stored, and if it can be
  decoded its holder may read it: unpublishing, narrowing the visibility, and changing owners or
  readers all prune the selections they make unreadable.
\<close>

theorem active_frames_stay_readable:
  assumes "model_codec_ok (fw_codec W)" and "hub_ok (fw_codec W) {} h0" and "frame_reach W h0 h"
    and "hb_active h = Some items" and "map_of items key = Some ids" and "fid \<in> set ids"
  shows "map_of (hb_frames h) fid \<noteq> None \<and>
    (\<forall>f. read_frame (fw_codec W) (hb_frames h) fid = Inr f \<longrightarrow> can_read f (probe key) = Inr True)"
proof -
  have "hub_ok (fw_codec W) {} h" by (rule reach_hub_ok [OF assms(1,3,2)])
  then have "active_ok (fw_codec W) (hb_frames h) {} (Some items)" using assms(4) by (simp add: hub_ok_def)
  from active_okD [OF this assms(5,6)] show ?thesis by (simp add: reads_as_def)
qed

theorem active_frames_stay_readable_witness:
  "let h = snd (serve demo_world (demo_user ''bob'' ''acme'') (demo_id (CHR ''b'')) 2 (UnpublishFrame (demo_id (CHR ''a''))) demo_hub)
   in hb_active h = Some [((''acme'', ''w'', ''bob''), [demo_id (CHR ''a'')])] \<and>
      map_of (hb_frames h) (demo_id (CHR ''a'')) \<noteq> None"
proof -
  let ?h = "snd (serve demo_world (demo_user ''bob'' ''acme'') (demo_id (CHR ''b'')) 2 (UnpublishFrame (demo_id (CHR ''a''))) demo_hub)"
  have reach: "frame_reach demo_world demo_hub ?h" by (rule frame_reach.call [OF demo_reach demo_fresh])
  have "manageable_frame demo_world (demo_user ''bob'' ''acme'') (demo_id (CHR ''a'')) demo_hub = (Inl forbidden, demo_hub)"
    by (simp add: manageable_frame_def reads_def demo_read require_manageable_frame_def demo_access)
  then have "hb_active ?h = Some [((''acme'', ''w'', ''bob''), [demo_id (CHR ''a'')])]"
    by (simp add: serve_def unpublish_frame_def with_id_def demo_id_ok bind_def) (simp add: demo_hub_def)
  from active_frames_stay_readable [OF _ _ reach this, of "(''acme'', ''w'', ''bob'')" "[demo_id (CHR ''a'')]" "demo_id (CHR ''a'')"] this
  show ?thesis by (simp add: json_codec_ok demo_hub_ok)
qed

subsection \<open>Who changes a frame\<close>

lemma not_manageable:
  assumes "read_frame (fw_codec W) (hb_frames h) i = Inr f" and "can_manage f auth \<noteq> Inr True"
  shows "\<exists>x. manageable_frame W auth i h = (Inl x, h)"
proof -
  have "require_manageable_frame f auth \<noteq> Inr g" for g using assms(2) by (simp add: require_manageable_Inr)
  then obtain x where "require_manageable_frame f auth = Inl x" by (cases "require_manageable_frame f auth") auto
  with assms(1) show ?thesis by (simp add: manageable_frame_def reads_def)
qed

lemma stops_unchanged:
  "\<exists>x. m h = (Inl x, h) \<Longrightarrow> snd (bind m k h) = h"
  by (auto simp: bind_def)

lemma snd_with_id: "snd (m h) = h \<Longrightarrow> snd (with_id i m h) = h"
  by (simp add: with_id_def ret_def)

lemma snd_with_body_of: "(\<And>x. snd (m x h) = h) \<Longrightarrow> snd (with_body_of r m h) = h"
  by (cases r) (simp_all add: with_body_of_def ret_def)

lemma suggested:
  assumes mc: "model_codec_ok (fw_codec W)" and f: "read_frame (fw_codec W) (hb_frames h) i = Inr f" and i: "fr_id f = i"
    and c: "c = CreateSuggestion i b \<or> c = CloseSuggestion i s"
  shows "let r = read_frame (fw_codec W) (hb_frames (snd (route W auth hex now c h))) i
    in r = Inr f \<or> can_read f auth = Inr True \<and> (\<exists>ss. r = Inr (f\<lparr>fr_suggestions := ss, fr_updated_at := now\<rparr>))"
proof (cases "can_read f auth = Inr True")
  case False
  then obtain x where "require_readable_frame f auth = Inl x"
    by (cases "require_readable_frame f auth") (auto simp: require_readable_Inr)
  then have "\<exists>x. readable_frame W auth i h = (Inl x, h)" using f by (simp add: readable_frame_def reads_def)
  then have "snd (route W auth hex now c h) = h"
    using c by (auto simp: create_suggestion_def close_suggestion_def intro!: snd_with_id snd_with_body_of stops_unchanged)
  then show ?thesis by (simp add: f)
next
  case True
  then have r: "readable_frame W auth i h = (Inr f, h)"
    using f by (simp add: readable_frame_def reads_def require_readable_frame_def)
  have fok: "frame_ok f" by (rule read_frame_ok [OF mc f])
  have w: "read_frame (fw_codec W) (write_frame (fw_codec W) (f\<lparr>fr_suggestions := ss, fr_updated_at := now\<rparr>) (hb_frames h)) i =
      Inr (f\<lparr>fr_suggestions := ss, fr_updated_at := now\<rparr>)" if "list_all valid_suggestion ss" for ss
    using read_written [OF mc frame_ok_suggestions [OF fok that, of now], of "hb_frames h" i] i by simp
  have ss: "list_all valid_suggestion (fr_suggestions f)" using fok by (simp add: frame_ok_def metadata_fields_ok_def)
  from c show ?thesis
  proof
    assume c: "c = CreateSuggestion i b"
    show ?thesis
    proof (cases "ID_PATTERN i \<and> is_ok (read_suggestion_body b)")
      case False
      then have "snd (route W auth hex now c h) = h"
        by (auto simp: c create_suggestion_def with_id_def with_body_of_def ret_def split: sum.split)
      then show ?thesis by (simp add: f)
    next
      case ok: True
      then have "read_suggestion_body b = Inr b" by (auto simp: read_suggestion_body_def split: if_splits)
      with ok r f w ss True show ?thesis
        by (auto simp: c create_suggestion_def with_id_def with_body_of_def bind_def ret_def frames_op_def
            store_create_suggestion_def Let_def split: prod.splits sum.splits)
    qed
  next
    assume c: "c = CloseSuggestion i s"
    have "snd (route W auth hex now c h) = h \<or>
        (\<exists>cl ss. close_first s (fr_suggestions f) = Some (cl, ss) \<and>
          hb_frames (snd (route W auth hex now c h)) =
            write_frame (fw_codec W) (f\<lparr>fr_suggestions := ss, fr_updated_at := now\<rparr>) (hb_frames h))"
      using r f by (auto simp: c close_suggestion_def with_id_def bind_def ret_def raise_def frames_op_def store_close_suggestion_def
          close_suggestion_in_frame_def split: option.splits)
    then show ?thesis
    proof
      assume "\<exists>cl ss. close_first s (fr_suggestions f) = Some (cl, ss) \<and>
          hb_frames (snd (route W auth hex now c h)) =
            write_frame (fw_codec W) (f\<lparr>fr_suggestions := ss, fr_updated_at := now\<rparr>) (hb_frames h)"
      then obtain cl ss where "close_first s (fr_suggestions f) = Some (cl, ss)" and
        e: "hb_frames (snd (route W auth hex now c h)) =
            write_frame (fw_codec W) (f\<lparr>fr_suggestions := ss, fr_updated_at := now\<rparr>) (hb_frames h)" by blast
      from close_first_valid [OF this(1) \<open>list_all valid_suggestion (fr_suggestions f)\<close>] w True e show ?thesis by auto
    qed (simp add: f)
  qed
qed

text \<open>
  C7: whoever calls whatever, a stored Frame reads after the call as it did before, unless the caller is one
  of its owners acting in its own tenant; the one exception is a Suggestion, made or closed by somebody
  who may read the Frame, which changes nothing but the suggestions and the time of the update.
\<close>

theorem frames_change_by_owners_only:
  assumes mc: "model_codec_ok (fw_codec W)" and h0: "hub_ok (fw_codec W) {} h0" and h: "frame_reach W h0 h"
    and hex: "fresh_hex hex h" and f: "read_frame (fw_codec W) (hb_frames h) i = Inr f"
  shows "let r = read_frame (fw_codec W) (hb_frames (snd (serve W auth hex now c h))) i
    in r = Inr f \<or> can_manage f auth = Inr True \<or>
       can_read f auth = Inr True \<and> (\<exists>ss. r = Inr (f\<lparr>fr_suggestions := ss, fr_updated_at := now\<rparr>))"
proof (cases "frame_target hex c = Some i \<and> can_manage f auth \<noteq> Inr True")
  case False
  have hub: "hub_ok (fw_codec W) {} h" by (rule reach_hub_ok [OF mc h h0])
  from False serve_others [OF mc hex hub, of c i auth now] f show ?thesis by (auto simp: Let_def)
next
  case True
  have hub: "hub_ok (fw_codec W) {} h" by (rule reach_hub_ok [OF mc h h0])
  with f have i: "fr_id f = i" by (auto simp: hub_ok_def dirs_ok_def)
  have stop: "snd (bind (manageable_frame W auth i) k h) = h" for k :: "frame \<Rightarrow> frame_reply handler"
    by (rule stops_unchanged, rule not_manageable [OF f]) (use True in simp)
  have "\<exists>b s. c = CreateSuggestion i b \<or> c = CloseSuggestion i s" if "snd (route W auth hex now c h) \<noteq> h"
  proof (cases c)
    case (CreateFrame p)
    with True hex f show ?thesis using read_exists [OF f] by (auto simp: fresh_hex_def)
  qed (use that True in \<open>auto simp: update_frame_def delete_frame_def replace_owners_def add_owner_def remove_owner_def
      replace_readers_def add_reader_def remove_reader_def publish_frame_def unpublish_frame_def
      snd_with_id snd_with_body_of stop\<close>)
  then consider "snd (route W auth hex now c h) = h" | b s where "c = CreateSuggestion i b \<or> c = CloseSuggestion i s" by blast
  then show ?thesis
  proof cases
    case 1
    then show ?thesis by (simp add: serve_state f)
  next
    case 2
    from suggested [OF mc f i 2, of auth hex now] show ?thesis by (auto simp: serve_state Let_def)
  qed
qed

theorem frames_change_by_owners_only_witness:
  "read_frame json_codec
     (hb_frames (snd (serve demo_world (demo_user ''eve'' ''other'') (demo_id (CHR ''b'')) 2
        (CreateSuggestion (demo_id (CHR ''a'')) ''more'') demo_hub))) (demo_id (CHR ''a'')) = Inr demo_frame"
  using frames_change_by_owners_only [of demo_world demo_hub demo_hub "demo_id (CHR ''b'')" "demo_id (CHR ''a'')" demo_frame
      "demo_user ''eve'' ''other''" 2 "CreateSuggestion (demo_id (CHR ''a'')) ''more''"]
  by (simp add: json_codec_ok demo_hub_ok demo_reach demo_fresh demo_read demo_access can_manage_def Let_def)
    (simp add: demo_frame_def demo_user_def)

subsection \<open>What cannot be read\<close>

text \<open>The Frame a route's path names.\<close>

fun frame_path :: "frame_call \<Rightarrow> string option" where
  "frame_path (GetFrame i) = Some i"
| "frame_path (UpdateFrame i p) = Some i"
| "frame_path (DeleteFrame i) = Some i"
| "frame_path (GetOwners i) = Some i"
| "frame_path (ReplaceOwners i p) = Some i"
| "frame_path (AddOwner i p) = Some i"
| "frame_path (RemoveOwner i e) = Some i"
| "frame_path (GetReaders i) = Some i"
| "frame_path (ReplaceReaders i p) = Some i"
| "frame_path (AddReader i p) = Some i"
| "frame_path (RemoveReader i e) = Some i"
| "frame_path (PublishFrame i) = Some i"
| "frame_path (UnpublishFrame i) = Some i"
| "frame_path (CreateSuggestion i b) = Some i"
| "frame_path (ListSuggestions i st) = Some i"
| "frame_path (CloseSuggestion i s) = Some i"
| "frame_path (GetFrameHistory i n b) = Some i"
| "frame_path c = None"

definition looks_missing :: "frame_world \<Rightarrow> hub \<Rightarrow> string \<Rightarrow> auth_context \<Rightarrow> bool" where
  "looks_missing W h i auth \<longleftrightarrow>
     readable_frame W auth i h = (Inl (FrameNotFoundError i), h) \<and> manageable_frame W auth i h = (Inl (FrameNotFoundError i), h)"

lemma unreadable_looks_missing:
  "read_frame (fw_codec W) (hb_frames h) i = Inr f \<Longrightarrow> fr_id f = i \<Longrightarrow> can_read f auth = Inr False \<Longrightarrow> looks_missing W h i auth"
  "read_frame (fw_codec W) (hb_frames h) i = Inl (FrameNotFoundError i) \<Longrightarrow> looks_missing W h i auth"
  by (simp_all add: looks_missing_def readable_frame_def manageable_frame_def reads_def require_readable_frame_def
      require_manageable_frame_def)

lemma stopped: "m h = (Inl x, h) \<Longrightarrow> bind m k h = (Inl x, h)"
  by (simp add: bind_def)

text \<open>Every such route stops at the check, or before it when the request itself is refused.\<close>

lemma path_stops:
  assumes "frame_path c = Some i" and "looks_missing W h i auth" and "looks_missing W h' i auth"
  shows "(route W auth hex now c h = (Inl (FrameNotFoundError i), h) \<and> route W auth hex now c h' = (Inl (FrameNotFoundError i), h')) \<or>
         (route W auth hex now c h = (Inr invalid_request, h) \<and> route W auth hex now c h' = (Inr invalid_request, h'))"
proof -
  note st = assms(2,3) [unfolded looks_missing_def]
  show ?thesis
    by (cases c; use assms(1) st in \<open>simp add: get_frame_def update_frame_def delete_frame_def get_owners_def replace_owners_def
      add_owner_def remove_owner_def get_readers_def replace_readers_def add_reader_def remove_reader_def publish_frame_def
      unpublish_frame_def create_suggestion_def list_suggestions_def close_suggestion_def get_frame_history_def
      with_id_def with_body_of_def stopped ret_def split: sum.split\<close>)
qed

lemma listed_are_in_tenant:
  "item \<in> set (store_list_frames mc dirs org ws name tags owner) \<Longrightarrow> fr_org_id item = org \<and> fr_workspace_id item = ws"
  by (auto simp: store_list_frames_def metadata_matches_filters_def split: sum.splits if_splits)

lemma listing_is_readable:
  assumes "fst (serve W auth hex now (ListFrames name tags owner vis published gid) h) = Answer code (Frames fs)" and "item \<in> set fs"
  shows "can_read item auth = Inr True \<and> auth_org_id auth = Inr (fr_org_id item) \<and> workspace_id auth = fr_workspace_id item"
proof -
  have "\<exists>members. listed_frames W auth name tags owner vis published members h = Inr fs" if "fs \<noteq> []"
    using assms(1) that
    by (auto simp: serve_def list_frames_def reads_def bind_result_def error_answer_def split: option.splits sum.splits exn.splits if_splits)
  with assms(2) obtain members org items where "auth_org_id auth = Inr org" and
    f: "filter_result (\<lambda>item. can_read item auth) (store_list_frames (fw_codec W) (hb_frames h) org (workspace_id auth) name tags owner) = Inr items"
    and "set fs \<subseteq> set items"
    by (fastforce simp: listed_frames_def bind_result_Inr_iff)
  with assms(2) filter_result_Inr [OF f] listed_are_in_tenant show ?thesis by fastforce
qed

text \<open>
  C8: a Frame the caller may not read cannot be told from one that does not exist.  Every route under its
  id answers as if it were gone (404, or 422 for a request that is refused anyway) and changes nothing,
  and a listing holds only Frames of the caller's own tenant that the caller may read.
\<close>

theorem unreadable_frames_look_missing:
  assumes mc: "model_codec_ok (fw_codec W)" and h0: "hub_ok (fw_codec W) {} h0" and h: "frame_reach W h0 h"
    and f: "read_frame (fw_codec W) (hb_frames h) i = Inr f" "can_read f auth = Inr False"
  shows "(frame_path c = Some i \<longrightarrow>
      (\<exists>r. serve W auth hex now c h = (r, h) \<and> r \<in> {ErrorReply 404 ''frame_not_found'' None, invalid_request} \<and>
           serve W auth hex now c (h\<lparr>hb_frames := AList.delete i (hb_frames h)\<rparr>) = (r, h\<lparr>hb_frames := AList.delete i (hb_frames h)\<rparr>))) \<and>
    (\<forall>code fs. fst (serve W auth hex now (ListFrames name tags owner vis published gid) h) = Answer code (Frames fs) \<longrightarrow>
      (\<forall>item\<in>set fs. can_read item auth = Inr True \<and> auth_org_id auth = Inr (fr_org_id item)))"
proof (intro conjI impI)
  assume p: "frame_path c = Some i"
  let ?h = "h\<lparr>hb_frames := AList.delete i (hb_frames h)\<rparr>"
  have "hub_ok (fw_codec W) {} h" by (rule reach_hub_ok [OF mc h h0])
  with f(1) have i: "fr_id f = i" by (auto simp: hub_ok_def dirs_ok_def)
  have "looks_missing W h i auth" by (rule unreadable_looks_missing(1) [OF f(1) i f(2)])
  moreover have "looks_missing W ?h i auth" by (rule unreadable_looks_missing(2)) (simp add: read_deleted)
  ultimately show "\<exists>r. serve W auth hex now c h = (r, h) \<and> r \<in> {ErrorReply 404 ''frame_not_found'' None, invalid_request} \<and>
           serve W auth hex now c ?h = (r, ?h)"
    using path_stops [OF p, of W h auth ?h hex now] by (auto simp: serve_def error_answer_def FrameNotFoundError_def)
qed (use listing_is_readable in blast)

theorem unreadable_frames_look_missing_witness:
  "\<exists>r. serve demo_world (demo_user ''eve'' ''other'') (demo_id (CHR ''b'')) 2 (DeleteFrame (demo_id (CHR ''a''))) demo_hub = (r, demo_hub) \<and>
     r \<in> {ErrorReply 404 ''frame_not_found'' None, invalid_request}"
  using unreadable_frames_look_missing [of demo_world demo_hub demo_hub "demo_id (CHR ''a'')" demo_frame "demo_user ''eve'' ''other''"
      "DeleteFrame (demo_id (CHR ''a''))" "demo_id (CHR ''b'')" 2 None None None None None None]
  by (auto simp: json_codec_ok demo_hub_ok demo_reach demo_read demo_access)

subsection \<open>What is answered is what is stored\<close>

lemma tail_frames: "keeps (\<lambda>h. hb_frames h = d) m \<Longrightarrow> m h = (r, h') \<Longrightarrow> hb_frames h = d \<Longrightarrow> hb_frames h' = d"
  using keepsD [of "\<lambda>h. hb_frames h = d" m h] by simp

lemma keeps_reconcile [keeps_intros]: "keeps (\<lambda>h. hb_frames h = d) (reconcile_active f)"
  by (rule keepsI) (simp add: reconcile_active_def bind_def gets_def prune_holders_state)

lemma manageable_facts:
  assumes "manageable_frame W auth i h = (Inr f, h')"
  shows "h' = h" and "read_frame (fw_codec W) (hb_frames h) i = Inr f"
  using assms by (auto simp: manageable_frame_def reads_def bind_result_Inr_iff require_manageable_Inr)

lemma rewritten:
  assumes mc: "model_codec_ok mc" and "dirs_ok mc (hb_frames h)" and r: "frames_op (rewrite_frame mc fid change) h = (Inr u, h1)"
    and ok: "\<And>f. frame_ok f \<Longrightarrow> frame_ok (change f) \<and> fr_id (change f) = fr_id f"
  shows "read_frame mc (hb_frames h1) (fr_id u) = Inr u"
proof -
  from r obtain f where f: "read_frame mc (hb_frames h) fid = Inr f" "u = change f" "hb_frames h1 = write_frame mc u (hb_frames h)"
    by (auto simp: frames_op_def rewrite_frame_def split: sum.splits)
  from ok [OF read_frame_ok [OF mc f(1)]] read_written [OF mc, of u "hb_frames h" "fr_id u"] f show ?thesis by simp
qed

lemma serve_answer: "serve W auth hex now c h = (Answer code a, h') \<Longrightarrow> route W auth hex now c h = (Inr (Answer code a), h')"
  by (auto simp: serve_def error_answer_def split: prod.splits sum.splits exn.splits if_splits)

lemma with_id_answer: "with_id i m h = (Inr (Answer code a), h') \<Longrightarrow> m h = (Inr (Answer code a), h')"
  by (auto simp: with_id_def ret_def invalid_request_def split: if_splits)

lemma with_body_answer:
  "with_body_of r m h = (Inr (Answer code a), h') \<Longrightarrow> \<exists>x. r = Inr x \<and> m x h = (Inr (Answer code a), h')"
  by (auto simp: with_body_of_def ret_def invalid_request_def split: sum.splits)

text \<open>A rewrite whose Frame is answered after steps that leave the stored Frames alone.\<close>

lemma rewrite_answered:
  assumes mc: "model_codec_ok mc" and d: "dirs_ok mc (hb_frames h)"
    and r: "bind (frames_op (rewrite_frame mc fid change)) (\<lambda>u. andthen (tail u) (ret (Answer 200 (TheFrame u)))) h =
      (Inr (Answer code (TheFrame f)), h')"
    and ok: "\<And>f. frame_ok f \<Longrightarrow> frame_ok (change f) \<and> fr_id (change f) = fr_id f"
    and t: "\<And>u d. keeps (\<lambda>h. hb_frames h = d) (tail u :: unit handler)"
  shows "read_frame mc (hb_frames h') (fr_id f) = Inr f"
proof -
  from r obtain h1 y where u: "frames_op (rewrite_frame mc fid change) h = (Inr f, h1)" and y: "tail f h1 = (Inr y, h')"
    by (auto simp: bind_eq_Inr_iff andthen_eq_Inr_iff ret_def)
  have "hb_frames h' = hb_frames h1" by (rule tail_frames [OF t y refl])
  with rewritten [OF mc d u ok] show ?thesis by simp
qed

lemma updated_id: "fr_id (updated_frame now name desc vis tags body f) = fr_id f"
  by (simp add: updated_frame_def)

lemma andthen_assoc: "andthen (andthen m n) k = andthen m (andthen n k)"
  by (rule ext) (simp add: andthen_def bind_def split: prod.split sum.split)

text \<open>
  C15: a call that answers with a Frame answers with what is stored: the Frame the answer carries is the
  one that reading it back gives, whether it was read, created, updated, published or unpublished.
\<close>

theorem answers_are_stored:
  assumes mc: "model_codec_ok (fw_codec W)" and h0: "hub_ok (fw_codec W) {} h0" and h: "frame_reach W h0 h"
    and c: "c \<in> {GetFrame i, CreateFrame p, UpdateFrame i q, PublishFrame i, UnpublishFrame i}"
    and a: "serve W auth hex now c h = (Answer code (TheFrame f), h')"
  shows "read_frame (fw_codec W) (hb_frames h') (fr_id f) = Inr f"
proof -
  have hub: "hub_ok (fw_codec W) {} h" by (rule reach_hub_ok [OF mc h h0])
  then have d: "dirs_ok (fw_codec W) (hb_frames h)" by (simp add: hub_ok_def)
  note r = serve_answer [OF a]
  note rw = rewrite_answered [OF mc d]
  from c consider "c = GetFrame i" | "c = CreateFrame p" | "c = UpdateFrame i q" | "c = PublishFrame i" | "c = UnpublishFrame i"
    by blast
  then show ?thesis
  proof cases
    case 1
    with r with_id_answer [of i _ h code "TheFrame f" h'] have "readable_frame W auth i h = (Inr f, h')"
      by (auto simp: get_frame_def bind_eq_Inr_iff ret_def dest!: with_id_answer)
    with d show ?thesis by (auto simp: readable_frame_def reads_def bind_result_Inr_iff require_readable_Inr dirs_ok_def)
  next
    case 2
    with r obtain pp :: frame_create and owners org h1 where cr: "frames_op (store_create_frame (fw_codec W) hex now org (workspace_id auth)
        (au_user auth) owners (fc_name pp) (fc_description pp) (fc_visibility pp) (fc_tags pp) (fc_body pp)) h = (Inr f, h1)"
      and y: "record_frame_history W auth f ''created'' [(''name'', PStr (fr_name f))] h1 = (Inr (), h')"
      by (auto simp: create_frame_def bind_eq_Inr_iff andthen_eq_Inr_iff ret_def lift_def dest!: with_body_answer)
    from cr have st: "frame_ok f" "hb_frames h1 = write_frame (fw_codec W) f (hb_frames h)"
      by (auto simp: frames_op_def split: prod.splits dest: store_create_Inr)
    have "hb_frames h' = hb_frames h1" by (rule tail_frames [OF keeps_history(5) y refl])
    with read_written [OF mc st(1)] st(2) show ?thesis by simp
  next
    case 3
    with r obtain x h1 b where x: "read_frame_update q = Inr x" and m: "manageable_frame W auth i h = (Inr b, h1)" and
      w: "bind (frames_op (store_update_frame (fw_codec W) now i (fu_name x) (fu_description x) (fu_visibility x)
              (fu_tags x) (fu_body x))) (\<lambda>updated.
       andthen (reconcile_active updated)
       (andthen (record_frame_history W auth updated ''updated'' (update_detail b updated))
       (andthen
         (if fr_visibility b \<noteq> fr_visibility updated then
            record_frame_history W auth updated ''visibility_changed''
              (changed ''visibility'' (visibility_value (fr_visibility b)) (visibility_value (fr_visibility updated)))
          else ret ())
         (ret (Answer 200 (TheFrame updated)))))) h1 = (Inr (Answer code (TheFrame f)), h')"
      by (auto simp: update_frame_def bind_eq_Inr_iff [where m = "manageable_frame W auth i"] dest!: with_id_answer with_body_answer)
    show ?thesis
      by (rule rw [OF w [unfolded store_update_frame_def manageable_facts(1) [OF m], folded andthen_assoc]])
        (auto simp: frame_ok_updated [OF _ x] updated_id intro!: keeps_intros)
  next
    case 4
    with r obtain h1 b where m: "manageable_frame W auth i h = (Inr b, h1)" and
      w: "bind (frames_op (store_set_published (fw_codec W) now i True)) (\<lambda>updated.
        andthen (record_frame_history W auth updated ''published'' []) (ret (Answer 200 (TheFrame updated)))) h1 =
        (Inr (Answer code (TheFrame f)), h')"
      by (auto simp: publish_frame_def bind_eq_Inr_iff [where m = "manageable_frame W auth i"] dest!: with_id_answer)
    show ?thesis
      by (rule rw [OF w [unfolded store_set_published_def set_metadata_fields_def manageable_facts(1) [OF m]]])
        (auto simp: frame_ok_published intro!: keeps_intros)
  next
    case 5
    with r obtain h1 b where m: "manageable_frame W auth i h = (Inr b, h1)" and
      w: "bind (frames_op (store_set_published (fw_codec W) now i False)) (\<lambda>updated.
        andthen (reconcile_active updated)
        (andthen (record_frame_history W auth updated ''unpublished'' []) (ret (Answer 200 (TheFrame updated))))) h1 =
        (Inr (Answer code (TheFrame f)), h')"
      by (auto simp: unpublish_frame_def bind_eq_Inr_iff [where m = "manageable_frame W auth i"] dest!: with_id_answer)
    show ?thesis
      by (rule rw [OF w [unfolded store_set_published_def set_metadata_fields_def manageable_facts(1) [OF m], folded andthen_assoc]])
        (auto simp: frame_ok_published intro!: keeps_intros)
  qed
qed

theorem answers_are_stored_witness:
  "serve demo_world (demo_user ''bob'' ''acme'') (demo_id (CHR ''b'')) 2 (GetFrame (demo_id (CHR ''a''))) demo_hub =
     (Answer 200 (TheFrame demo_frame), demo_hub) \<and>
   read_frame json_codec (hb_frames demo_hub) (fr_id demo_frame) = Inr demo_frame"
proof -
  have s: "serve demo_world (demo_user ''bob'' ''acme'') (demo_id (CHR ''b'')) 2 (GetFrame (demo_id (CHR ''a''))) demo_hub =
     (Answer 200 (TheFrame demo_frame), demo_hub)"
    by (simp add: serve_def get_frame_def with_id_def demo_id_ok readable_frame_def reads_def demo_read require_readable_frame_def
        demo_access bind_def ret_def)
  from answers_are_stored [where i = "demo_id (CHR ''a'')", OF _ _ demo_reach _ s] s show ?thesis by (simp add: json_codec_ok demo_hub_ok)
qed

subsection \<open>Stored frames\<close>

text \<open>
  C14: what decodes is well-formed and stays what it is.  A Frame decoded from any sidecar and body, whoever
  wrote them, has from 1 to 50 different owners, at most 200 readers and 20 tags, and readers only if it
  is private, so that a record of an earlier version never widens an audience; writing it and reading
  it back gives the same Frame.
\<close>

theorem stored_frames_round_trip:
  assumes mc: "model_codec_ok mc" and f: "decode_frame mc fid data body = Inr f"
  shows "decode_frame mc fid' (Json (PDict (encode_metadata mc f))) (Utf8 (fr_body f)) = Inr f \<and>
    fr_owners f \<noteq> [] \<and> distinct (fr_owners f) \<and> length (fr_owners f) \<le> 50 \<and>
    distinct (fr_readers f) \<and> length (fr_readers f) \<le> 200 \<and> (fr_readers f \<noteq> [] \<longrightarrow> fr_visibility f = Private) \<and>
    distinct (fr_tags f) \<and> length (fr_tags f) \<le> 20 \<and> list_all TAG_PATTERN (fr_tags f) \<and>
    fr_name f \<noteq> [] \<and> fr_body f \<noteq> []"
proof -
  have ok: "frame_ok f" by (rule decoded_is_ok [OF mc f])
  have "TAG_PATTERN t" if "tag_value t = Inr t" for t using that by (auto simp: tag_value_def Let_def split: if_splits)
  with ok decode_inverts_encode [OF mc ok] show ?thesis
    by (auto simp: frame_ok_def owners_ok_def readers_ok_def principals_ok_def tags_ok_def metadata_fields_ok_def len_within_def
        MAX_OWNERS_def MAX_READERS_def MAX_TAGS_def list_all_iff)
qed

theorem stored_frames_round_trip_witness:
  "decode_frame json_codec [] (Json (PDict (encode_metadata json_codec demo_frame))) (Utf8 ''text'') = Inr demo_frame"
  using stored_frames_round_trip [OF json_codec_ok decode_inverts_encode [OF json_codec_ok demo_frame_ok], of "[]"]
  by (simp add: demo_frame_def)

subsection \<open>Deletion\<close>

text \<open>
  C12: deleting a Frame leaves nothing of it: an owner's call in the Frame's tenant answers 204, the Frame is
  missing from then on and no other is touched, it is in nobody's selection, and every group it was in, in
  any tenant, has lost exactly that member, and is deleted if it had no other.
\<close>

theorem deleted_frames_leave_nothing:
  assumes mc: "model_codec_ok (fw_codec W)" and h0: "hub_ok (fw_codec W) {} h0" and h: "frame_reach W h0 h"
    and fid: "ID_PATTERN i" and f: "read_frame (fw_codec W) (hb_frames h) i = Inr f" "can_manage f auth = Inr True"
  shows "\<exists>h'. serve W auth hex now (DeleteFrame i) h = (Answer 204 Nothing, h') \<and>
    (\<forall>j. read_frame (fw_codec W) (hb_frames h') j =
       (if j = i then Inl (FrameNotFoundError i) else read_frame (fw_codec W) (hb_frames h) j)) \<and>
    hb_active h' = map_option (map (\<lambda>(k, ids). (k, without i ids))) (hb_active h) \<and>
    (\<forall>items. hb_groups h = Some items \<longrightarrow>
      (\<exists>items'. hb_groups h' = Some items' \<and>
         (\<forall>gid. map_of items' gid =
            (case map_of items gid of
               None \<Rightarrow> None
             | Some g \<Rightarrow>
                 if i \<notin> set (gr_frame_ids g) then Some g
                 else if gr_frame_ids g = [i] then None
                 else Some (g\<lparr>gr_frame_ids := without i (gr_frame_ids g), gr_updated_at := now\<rparr>)))))"
proof -
  have hub: "hub_ok (fw_codec W) {} h" by (rule reach_hub_ok [OF mc h h0])
  have "can_read f auth = Inr True" using f(2) by (auto simp: can_manage_def can_read_def split: if_splits)
  then have m: "require_manageable_frame f auth = Inr f" using f(2) by (simp add: require_manageable_Inr)
  show ?thesis
  proof (rule delete_frame_state [OF fid hub f(1) m, of now])
    fix gs' hist
    let ?h = "h\<lparr>hb_frames := AList.delete i (hb_frames h), hb_active := remove_frame_id i (hb_active h),
         hb_groups := gs', hb_history := hist\<rparr>"
    assume d: "delete_frame W auth now i h = (Inr (Answer 204 Nothing), ?h)" and p: "pruned_groups now i (hb_groups h) gs'"
    have "\<exists>items'. gs' = Some items' \<and> (\<forall>gid. map_of items' gid = Option.bind (map_of items gid) (pruned_group now i))"
      if "hb_groups h = Some items" for items
      using p that by (cases gs') (auto simp: pruned_groups_def)
    then show ?thesis
      by (intro exI [of _ ?h])
        (auto simp: serve_def d read_deleted remove_frame_id_def Option.bind_def pruned_group_def split: option.split)
  qed
qed

theorem deleted_frames_leave_nothing_witness:
  "\<exists>h' items'. serve demo_world (demo_user ''ann'' ''acme'') (demo_id (CHR ''b'')) 2 (DeleteFrame (demo_id (CHR ''a''))) demo_hub =
     (Answer 204 Nothing, h') \<and>
     hb_active h' = Some [((''acme'', ''w'', ''bob''), [])] \<and> hb_groups h' = Some items' \<and> map_of items' (demo_id (CHR ''c'')) = None"
proof -
  have g: "hb_groups demo_hub = Some [(demo_id (CHR ''c''), demo_group)]"
    and a: "hb_active demo_hub = Some [((''acme'', ''w'', ''bob''), [demo_id (CHR ''a'')])]" by (simp_all add: demo_hub_def)
  have m: "gr_frame_ids demo_group = [demo_id (CHR ''a'')]" by (simp add: demo_group_def)
  from deleted_frames_leave_nothing [of demo_world demo_hub demo_hub "demo_id (CHR ''a'')" demo_frame "demo_user ''ann'' ''acme''"
      "demo_id (CHR ''b'')" 2]
  obtain h' where "serve demo_world (demo_user ''ann'' ''acme'') (demo_id (CHR ''b'')) 2 (DeleteFrame (demo_id (CHR ''a''))) demo_hub =
     (Answer 204 Nothing, h')" "hb_active h' = map_option (map (\<lambda>(k, ids). (k, without (demo_id (CHR ''a'')) ids))) (hb_active demo_hub)"
    "\<exists>items'. hb_groups h' = Some items' \<and> map_of items' (demo_id (CHR ''c'')) = None"
    by (auto simp: json_codec_ok demo_hub_ok demo_reach demo_read demo_access demo_id_ok g m)
  then show ?thesis by (auto simp: a without_def)
qed

subsection \<open>Groups\<close>

lemma derived:
  "foldl (derive_member mc dirs) (p, vs) ids = (True, vs') \<Longrightarrow>
   p \<and> set vs \<subseteq> set vs' \<and> (\<forall>i\<in>set ids. \<exists>f. read_frame mc dirs i = Inr f \<and> fr_published f \<and> fr_visibility f \<in> set vs')"
proof (induction ids arbitrary: p vs)
  case (Cons i ids)
  show ?case
  proof (cases "read_frame mc dirs i")
    case (Inl x)
    then have "derive_member mc dirs (p, vs) i = (False, vs)" by (simp add: derive_member_def)
    with Cons.prems Cons.IH [of False vs] show ?thesis by simp
  next
    case (Inr f)
    then have "derive_member mc dirs (p, vs) i = (p \<and> fr_published f, vs @ [fr_visibility f])" by (simp add: derive_member_def)
    with Cons.prems Cons.IH [of "p \<and> fr_published f" "vs @ [fr_visibility f]"] Inr show ?thesis by simp
  qed
qed simp

lemma effective_narrowest:
  "BROADNESS (effective_group_visibility own vs) \<le> BROADNESS own \<and>
   (\<forall>v\<in>set vs. BROADNESS (effective_group_visibility own vs) \<le> BROADNESS v)"
  unfolding effective_group_visibility_def
  by (induction vs arbitrary: own) (auto, (meson le_trans less_imp_le_nat not_le)+)

lemma all_true_readable:
  assumes "fr_published f" and "fr_visibility f = Public \<or> fr_visibility f = Internal \<and> in_tenant (fr_org_id f) (fr_workspace_id f) auth = Inr True"
  shows "can_read f auth = Inr True"
  using assms by (auto simp: can_read_def)

text \<open>
  C13: a group never shows more than its members do.  If somebody who does not own it may read it, then each of
  its members is stored, published, and at least as broad as what the group is shown as, which is no
  broader than its own visibility; and that caller may read each member that is public or in the
  group's own tenant.  A group always has members, all different.
\<close>

theorem groups_never_widen:
  assumes mc: "model_codec_ok (fw_codec W)" and h0: "hub_ok (fw_codec W) {} h0" and h: "frame_reach W h0 h"
    and g: "store_get_group gid (hb_groups h) = Inr g" and p: "p = project_group (fw_codec W) (hb_frames h) g"
    and r: "can_read_group p auth = Inr True" "au_user auth \<notin> set (gr_owners g)"
  shows "gr_frame_ids g \<noteq> [] \<and> distinct (gr_frame_ids g) \<and>
    BROADNESS (gr_effective_visibility p) \<le> BROADNESS (gr_visibility g) \<and>
    (\<forall>i\<in>set (gr_frame_ids g). \<exists>f. read_frame (fw_codec W) (hb_frames h) i = Inr f \<and> fr_published f \<and>
       BROADNESS (gr_effective_visibility p) \<le> BROADNESS (fr_visibility f) \<and>
       (fr_visibility f = Public \<or> (fr_org_id f, fr_workspace_id f) = (gr_org_id g, gr_workspace_id g) \<longrightarrow>
        can_read f auth = Inr True))"
proof -
  have hub: "hub_ok (fw_codec W) {} h" by (rule reach_hub_ok [OF mc h h0])
  with g have gok: "group_ok g"
    by (auto simp: hub_ok_def groups_ok_def store_get_group_def split: option.splits)
  obtain q vs where fold: "foldl (derive_member (fw_codec W) (hb_frames h)) (True, []) (gr_frame_ids g) = (q, vs)"
    by (cases "foldl (derive_member (fw_codec W) (hb_frames h)) (True, []) (gr_frame_ids g)")
  let ?e = "effective_group_visibility (gr_visibility g) vs"
  from fold have pe: "p = g\<lparr>gr_all_published := q, gr_effective_visibility := ?e\<rparr>"
    by (simp add: p project_group_def compute_derived_def)
  with r have q: "q = True" and e: "?e = Public \<or> ?e = Internal \<and> auth_org_id auth = Inr (gr_org_id g) \<and> gr_workspace_id g = workspace_id auth"
    by (auto simp: can_read_group_def bind_result_Inr_iff split: if_splits)
  note d = derived [OF fold [unfolded q]]
  note n = effective_narrowest [of "gr_visibility g" vs]
  have "\<exists>f. read_frame (fw_codec W) (hb_frames h) i = Inr f \<and> fr_published f \<and> BROADNESS ?e \<le> BROADNESS (fr_visibility f) \<and>
       (fr_visibility f = Public \<or> (fr_org_id f, fr_workspace_id f) = (gr_org_id g, gr_workspace_id g) \<longrightarrow>
        can_read f auth = Inr True)" if "i \<in> set (gr_frame_ids g)" for i
  proof -
    from d that obtain f where f: "read_frame (fw_codec W) (hb_frames h) i = Inr f" "fr_published f" "fr_visibility f \<in> set vs"
      by blast
    with n have b: "BROADNESS ?e \<le> BROADNESS (fr_visibility f)" by blast
    have "can_read f auth = Inr True"
      if "fr_visibility f = Public \<or> (fr_org_id f, fr_workspace_id f) = (gr_org_id g, gr_workspace_id g)"
      by (rule all_true_readable [OF f(2)])
        (use that e b in \<open>cases "fr_visibility f"; auto simp: BROADNESS_def in_tenant_def\<close>)
    with f b show ?thesis by blast
  qed
  with gok n show ?thesis by (simp add: pe group_ok_def)
qed

theorem groups_never_widen_witness:
  "let p = project_group json_codec (hb_frames demo_hub) demo_group
   in can_read_group p (demo_user ''bob'' ''acme'') = Inr True \<and> gr_effective_visibility p = Internal \<and>
      (\<forall>i\<in>set (gr_frame_ids demo_group). \<exists>f. read_frame json_codec (hb_frames demo_hub) i = Inr f \<and>
         can_read f (demo_user ''bob'' ''acme'') = Inr True)"
proof -
  have m: "gr_frame_ids demo_group = [demo_id (CHR ''a'')]" by (simp add: demo_group_def)
  have p: "project_group json_codec (hb_frames demo_hub) demo_group = demo_group\<lparr>gr_all_published := True, gr_effective_visibility := Internal\<rparr>"
    by (simp add: project_group_def compute_derived_def m derive_member_def demo_read effective_group_visibility_def)
      (simp add: demo_group_def demo_frame_def BROADNESS_def)
  have r: "can_read_group (project_group json_codec (hb_frames demo_hub) demo_group) (demo_user ''bob'' ''acme'') = Inr True"
    by (simp add: p can_read_group_def) (simp add: demo_group_def demo_user_def auth_org_id_def)
  have g: "store_get_group (demo_id (CHR ''c'')) (hb_groups demo_hub) = Inr demo_group" by (simp add: store_get_group_def demo_hub_def)
  from groups_never_widen [OF _ _ demo_reach g refl, of "demo_user ''bob'' ''acme''"] r p show ?thesis
    by (auto simp: json_codec_ok demo_hub_ok m demo_read demo_frame_def demo_group_def demo_user_def)
qed

end
