(* ===== verification/Spec2Isabelle.thy ===== *)
theory Spec2Isabelle
  imports InstallMachine StepMachine PostgresTrack RunTokens RunnerWorkers ControllerSystem LocalWorkers RunRoutes FrameGuarantees
begin

text \<open>
  A verification library of Collab Hub's run engine, the package
  \<open>src/execution/src/collab_hub_execution\<close>, of the run API over it,
  \<open>src/api/src/collab_hub_api/routers/runs.py\<close>, and of the frames API, \<open>routers/frames.py\<close> and
  \<open>routers/frame_groups.py\<close> with the models, access rules and stores under \<open>frames/\<close>.

  \<^bold>\<open>The program.\<close>  A client submits an Op, a list of steps that each name a Cog, to the run API.  The
  API writes what the client wants to the Track, an append-only log of events per run, and reads a
  run's status back from it; it never runs anything.  The run controller, another process over the
  same Track, polls it and drives each submitted run on a lifecycle runner: it claims the run,
  materializes a worker for the next step through an executor (a process on the host, or a
  Kubernetes Deployment), interacts with it, reads the result envelope, asks the step's Gate, and
  records everything on the Track.  A run that waits at a Gate is decided on, a run that failed may
  be retried, any run that has not ended may be cancelled, and a run may hold a session that takes
  turns.  The state of a run, a worker, an install and a step attempt is a small machine each; the
  state of a run is always the replay of its Track.

  Beside it, the frames API shares Markdown documents, the Frames.  A Frame has owners, who manage it, and is
  read by its owners and, once published, by everybody, by its tenant, or by a list of readers.  A user
  keeps a selection of active Frames, a group shows a set of Frames together, anybody who reads a Frame may
  make Suggestions, and changes are written to a history.  Frames are two files each, a sidecar of
  metadata that earlier versions may have written and a body.

  \<^bold>\<open>The theories\<close>, bottom up, with the source each models (paths below the package):
  \<^item> \<open>Prelude\<close>, \<open>PyValues\<close>: results, state with exceptions, ordered dictionaries; Python values,
    equality, truth, JSON and floats as the sources use them.
  \<^item> \<open>Machine\<close> (\<open>states/_machine.py\<close>) and the four machines \<open>RunMachine\<close>, \<open>WorkerMachine\<close>,
    \<open>InstallMachine\<close>, \<open>StepMachine\<close> (\<open>states/run.py\<close>, \<open>worker.py\<close>, \<open>install.py\<close>, \<open>step.py\<close>).  The
    locale \<open>machine\<close> is the contract of handlers and transition table; each machine interprets it.
  \<^item> \<open>RunReplay\<close> (\<open>Run.apply\<close>, \<open>Run.replay\<close>): replay inverts recording, and ends only in states the
    machine reaches.
  \<^item> \<open>Envelope\<close>, \<open>Gates\<close>, \<open>Ops\<close> (\<open>envelope.py\<close>, \<open>gates.py\<close>, \<open>ops.py\<close>): the data a step crosses the
    seam with, their parsing, and their round trips.
  \<^item> \<open>Track\<close>, \<open>TrackStores\<close>, \<open>PostgresTrack\<close> (\<open>track.py\<close>): events and their upgrade, the contract of a
    store as the locale \<open>track_store\<close>, the in-memory and SQLite stores as interpretations of it, and
    the PostgreSQL store as a step relation of interleaved transactions.
  \<^item> \<open>Budget\<close>, \<open>Backends\<close>, \<open>RunTokens\<close> (\<open>lifecycle.py\<close>, \<open>backends\<close>, \<open>binding.py\<close>, \<open>run_tokens.py\<close>).
  \<^item> \<open>Runner\<close>, \<open>RunnerSteps\<close>, \<open>RunnerHost\<close> (\<open>runner.py\<close>): the settings and the pass, one definition
    per step function and the driver \<open>advance\<close>, and the host's calls \<open>submit\<close>, \<open>retry\<close>, \<open>decide\<close>,
    \<open>cancel\<close>, \<open>start\<close>.  \<open>RunnerStable\<close>, \<open>RunnerProofs\<close>, \<open>RunnerCalls\<close> hold the lemmas, \<open>HostCalls\<close>
    and \<open>RunnerWorkers\<close> the theorems about any sequence of calls and about one pass.
  \<^item> \<open>Intents\<close>, \<open>RunViews\<close> (\<open>intents.py\<close>): what the API writes, the views of a run, and the reader
    that keeps them.
  \<^item> \<open>Controller\<close>, \<open>ControllerSystem\<close> (\<open>controller.py\<close>): a pass over the Track, the three kinds of
    thread, and the step relation \<open>ctl_step\<close> of clients, passes and threads in any order.
  \<^item> \<open>Packages\<close>, \<open>Kubernetes\<close>, \<open>LocalWorkers\<close> (\<open>locations\<close>, \<open>kubernetes.py\<close>): finding a Cog's package,
    the two executors, and the client side of the seam.
  \<^item> \<open>RunRoutes\<close> (\<open>routers/runs.py\<close>): the handlers, with the checks of their request models, and the
    relation \<open>api_step\<close> of any calls with other writers between them.
  \<^item> \<open>Auth\<close> (\<open>frames/auth.py\<close>): the identity of a caller, as far as the routes read it.
  \<^item> \<open>Frames\<close> (\<open>frames/models.py\<close>, \<open>identity.py\<close>, \<open>access.py\<close>, \<open>codec.py\<close>), \<open>FrameStore\<close> (\<open>store.py\<close>,
    \<open>active_state.py\<close>), \<open>FrameGroups\<close> (\<open>groups.py\<close>, \<open>history.py\<close>): the models with their checks, who may
    read and manage, the stored form, and the stores.
  \<^item> \<open>FrameRoutes\<close>, \<open>GroupRoutes\<close>: every handler, \<open>serve\<close> that answers a call, and the relation
    \<open>frame_reach\<close> of any calls of any callers.  \<open>FrameForms\<close>, \<open>FrameSystem\<close>, \<open>FrameCalls\<close>, \<open>GroupCalls\<close>
    hold the normal forms of stored data, the invariant \<open>hub_ok\<close> and its preservation by each handler;
    \<open>FrameCodec\<close> a concrete \<open>model_codec\<close> that meets what is asked of one, and \<open>FrameGuarantees\<close> the theorems.

  \<^bold>\<open>What is shown.\<close>  Of the engine: a run that reads completed has every step of its Op completed; an
  ended run's Track never changes; what a call returns is what the Track replays to; an accepted
  cancel ends the run; an attempt leaves no worker behind; a host that starts interrupts exactly
  what was left running; keys are unique; stale decisions and second submissions change nothing.
  Of the stores: append-only, ordered, one submission per run, a cursor that never skips, under any
  interleaving.  Of the controller and its clients together: submissions and cancels reach the
  runner, one thread of a kind per run, delivery of turns ends and keeps their order, and the
  guarantee about completed runs holds of the whole system.  Of the API: another organization's run
  cannot be told from a missing one, a submission is all or nothing, pages cover the listing exactly
  once, replies fit their models, and the cache of views is never seen.  Of the frames API:
  a Frame changes only at the hands of its owners, apart from Suggestions; one the caller may not read
  cannot be told from a missing one; selections hold only what their user may read, whatever is unpublished,
  narrowed or deleted; a deleted Frame leaves selections and groups; a group shows no more than its members;
  an old sidecar is read without widening its audience, and what is read is what was written.  Of the
  executors: a failed start takes back what it made, the network policy precedes the worker, names are DNS labels,
  packages stay under their roots, and a worker's environment holds nothing it was not given.

  \<^bold>\<open>Parameters.\<close>  What is outside the sources is an argument: \<open>world\<close> (the executor and its workers,
  clocks, fresh ids, the cancels other threads deliver), \<open>turn_world\<close> (a worker taking turns),
  \<open>k8s_world\<close>, \<open>local_world\<close>, \<open>filesystem\<close>, hashes, the \<open>stamp\<close> of an event, and for the frames API
  \<open>model_codec\<close> (what pydantic does with a JSON object and a datetime) and \<open>frame_world\<close> (with it the
  settings, the ids and times of history, the text of a cursor).  They are functions of
  a tick that every use advances, so two uses may answer differently and nothing is assumed of
  them but what a theorem states.  A cancel from another thread touches only the claim, and lands
  at the points where the driver reads the claim.

  \<^bold>\<open>Loops and fuel.\<close>  The driver recurses on the steps of the Op and a bounded number of revisions.  Three
  loops take fuel and return \<open>None\<close> without it: delivering turns, for which one more round than turns
  wait is shown enough; waiting for a Deployment and waiting for a local worker, for which one more
  look than the timeout has ticks is shown enough, with a clock that advances between looks.  Following pages takes one page more than there are runs.

  \<^bold>\<open>Not modelled.\<close>  Log lines; the messages of exceptions, except where a source carries one on; the
  text of JSON (the value it renders stands for it); code points above 255; \<open>submit()\<close> waiting for
  another thread's claim (it answers \<open>RunBusy\<close>); \<open>main()\<close> of the controller, with its arguments, lock file
  and signals; the launcher process and the signals that back it up; the HTTP clients.  Of the frames API: the
  PostgreSQL stores of selections, groups and history; handlers that run at the same time (each is one
  step on the hub); audit lines.  Of the rest of the API, organizations and invitations,
  verification of tokens, the Cog catalog, connectors, tasks and usage, the web application and the
  command-line client.  They sit on their own tables and services and share only the caller's identity
  with the routes modelled here.
\<close>

end
